(* ===== verification/Prelude.thy ===== *)
theory Prelude
  imports Complex_Main "HOL-Library.Sublist" "HOL-Library.AList"
begin

text \<open>
  What every component of the development shares: the names of the basic types, the parts of the
  JavaScript standard library the sources call (strings, number printing, rounding), the reading
  of an SQL table as a list of rows with the statements the sources send to it, and the generic
  lemmas about all of these. The collections declared here are filled by the component theories.

  Strings are lists of Latin-1 characters; a JavaScript number is \<open>int\<close> where the sources
  only ever hold whole numbers in it (counters, versions, milliseconds) and \<open>rat\<close> where
  they divide. Rounding of double-precision arithmetic is not modelled.
\<close>

subsection \<open>Names and collections\<close>

type_synonym uuid = string
type_synonym millis = int

named_theorems table_simps \<open>rows, counts and keys of a table after a statement\<close>
named_theorems frame_simps \<open>fields and tables an operation leaves alone\<close>
named_theorems outcome_iff \<open>what an outcome of a fallible operation says of its inputs\<close>

text \<open>The two clocks an operation can read: \<open>Date.now()\<close> of the process and \<open>NOW()\<close>
  of the database transaction.\<close>

record clock =
  js_now :: millis
  db_now :: millis

subsection \<open>JavaScript strings\<close>

definition js_startsWith :: "string \<Rightarrow> string \<Rightarrow> bool" where
  "js_startsWith s p = (take (length p) s = p)"

definition js_endsWith :: "string \<Rightarrow> string \<Rightarrow> bool" where
  "js_endsWith s p = js_startsWith (rev s) (rev p)"

fun js_includes :: "string \<Rightarrow> string \<Rightarrow> bool" where
  "js_includes [] p = (p = [])"
| "js_includes (c # cs) p = (js_startsWith (c # cs) p \<or> js_includes cs p)"

definition js_lower_char :: "char \<Rightarrow> char" where
  "js_lower_char c =
     (let n = of_char c :: nat
      in if (65 \<le> n \<and> n \<le> 90) \<or> (192 \<le> n \<and> n \<le> 222 \<and> n \<noteq> 215) then char_of (n + 32) else c)"

definition js_toLowerCase :: "string \<Rightarrow> string" where
  "js_toLowerCase s = map js_lower_char s"

definition js_space :: "char \<Rightarrow> bool" where
  "js_space c = (of_char c \<in> {9, 10, 11, 12, 13, 32, 160 :: nat})"

definition js_trim :: "string \<Rightarrow> string" where
  "js_trim s = rev (dropWhile js_space (rev (dropWhile js_space s)))"

definition js_line_terminator :: "char \<Rightarrow> bool" where
  "js_line_terminator c = (of_char c \<in> {10, 13 :: nat})"

fun js_split :: "char \<Rightarrow> string \<Rightarrow> string list" where
  "js_split c [] = [[]]"
| "js_split c (x # xs) =
     (if x = c then [] # js_split c xs
      else (case js_split c xs of [] \<Rightarrow> [[x]] | y # ys \<Rightarrow> (x # y) # ys))"

fun js_join :: "string \<Rightarrow> string list \<Rightarrow> string" where
  "js_join sep [] = []"
| "js_join sep [x] = x"
| "js_join sep (x # y # xs) = x @ sep @ js_join sep (y # xs)"

text \<open>Printing whole numbers, \<open>Math.round\<close> and \<open>Number.prototype.toFixed\<close>.\<close>

definition digit_char :: "nat \<Rightarrow> char" where
  "digit_char d = char_of (48 + d)"

fun show_nat :: "nat \<Rightarrow> string" where
  "show_nat n = (if n < 10 then [digit_char n] else show_nat (n div 10) @ [digit_char (n mod 10)])"

declare show_nat.simps [simp del]

definition show_int :: "int \<Rightarrow> string" where
  "show_int i = (if i < 0 then CHR ''-'' # show_nat (nat (- i)) else show_nat (nat i))"

definition math_round :: "rat \<Rightarrow> int" where
  "math_round x = \<lfloor>x + 1 / 2\<rfloor>"

definition pad_left :: "nat \<Rightarrow> string \<Rightarrow> string" where
  "pad_left k s = replicate (k - length s) (CHR ''0'') @ s"

definition to_fixed :: "nat \<Rightarrow> rat \<Rightarrow> string" where
  "to_fixed d x =
     (let n = nat \<lfloor>\<bar>x\<bar> * 10 ^ d + 1 / 2\<rfloor>;
          whole = show_nat (n div 10 ^ d);
          frac = (if d = 0 then [] else CHR ''.'' # pad_left d (show_nat (n mod 10 ^ d)))
      in (if x < 0 then ''-'' else []) @ whole @ frac)"

lemma js_startsWith_prefix: "js_startsWith s p \<longleftrightarrow> prefix p s"
  by (auto simp: js_startsWith_def prefix_def) (metis append_take_drop_id)

lemma js_endsWith_suffix: "js_endsWith s p \<longleftrightarrow> suffix p s"
  by (simp add: js_endsWith_def js_startsWith_prefix suffix_to_prefix)

lemma js_includes_sublist: "js_includes s p \<longleftrightarrow> sublist p s"
proof (induction s)
  case Nil
  then show ?case by (auto simp: sublist_def)
next
  case (Cons c s)
  then show ?case by (simp add: js_startsWith_prefix sublist_Cons_right)
qed

lemma js_includes_append [simp, intro]: "js_includes (xs @ p @ ys) p"
  by (simp add: js_includes_sublist sublist_def) blast

lemma js_split_nonempty [simp]: "js_split c s \<noteq> []"
  by (induction s) (auto split: list.splits)

lemma js_join_Cons: "ys \<noteq> [] \<Longrightarrow> js_join sep (x # ys) = x @ sep @ js_join sep ys"
  by (cases ys) auto

lemma js_join_split: "js_join [c] (js_split c s) = s"
proof (induction s)
  case Nil
  then show ?case by simp
next
  case (Cons x s)
  then show ?case
    by (cases "js_split c s"; cases "tl (js_split c s)") (auto simp: js_join_Cons)
qed

lemma js_split_no_sep: "p \<in> set (js_split c s) \<Longrightarrow> c \<notin> set p"
  by (induction s arbitrary: p) (auto split: if_splits list.splits)

lemma js_split_singleton: "c \<notin> set s \<Longrightarrow> js_split c s = [s]"
  by (induction s) auto

lemma js_split_append_sep:
  "c \<notin> set p \<Longrightarrow> js_split c (p @ c # s) = p # js_split c s"
  by (induction p) (auto split: list.splits)

lemma js_split_join:
  assumes "xs \<noteq> []" and "\<forall>p \<in> set xs. c \<notin> set p"
  shows "js_split c (js_join [c] xs) = xs"
  using assms
proof (induction xs)
  case Nil
  then show ?case by simp
next
  case (Cons x xs)
  then show ?case
    by (cases xs) (auto simp: js_split_singleton js_split_append_sep)
qed

subsection \<open>Tables and the statements over them\<close>

text \<open>
  A table is the list of its rows. \<open>UPDATE \<dots> SET \<dots> WHERE\<close> maps over the rows,
  \<open>SELECT COUNT(*)\<close> counts them and \<open>ORDER BY \<dots> LIMIT\<close> is a stable sort and a
  prefix: rows that tie keep the order of the table, where SQL leaves it open.
\<close>

definition sql_update :: "('r \<Rightarrow> bool) \<Rightarrow> ('r \<Rightarrow> 'r) \<Rightarrow> 'r list \<Rightarrow> 'r list" where
  "sql_update P f t = map (\<lambda>r. if P r then f r else r) t"

definition sql_count :: "('r \<Rightarrow> bool) \<Rightarrow> 'r list \<Rightarrow> nat" where
  "sql_count P t = length (filter P t)"

definition sql_exists :: "('r \<Rightarrow> bool) \<Rightarrow> 'r list \<Rightarrow> bool" where
  "sql_exists P t = list_ex P t"

lemma sql_update_Nil [simp]: "sql_update P f [] = []"
  by (simp add: sql_update_def)

lemma sql_update_Cons [table_simps]:
  "sql_update P f (r # t) = (if P r then f r else r) # sql_update P f t"
  by (simp add: sql_update_def)

lemma length_sql_update [simp]: "length (sql_update P f t) = length t"
  by (simp add: sql_update_def)

lemma set_sql_update [table_simps]:
  "set (sql_update P f t) = (\<lambda>r. if P r then f r else r) ` set t"
  by (simp add: sql_update_def)

lemma sql_update_none: "\<forall>r \<in> set t. \<not> P r \<Longrightarrow> sql_update P f t = t"
  by (simp add: sql_update_def map_idI)

lemma sql_count_eq_0 [table_simps]: "sql_count P t = 0 \<longleftrightarrow> (\<forall>r \<in> set t. \<not> P r)"
  by (simp add: sql_count_def filter_empty_conv)

lemma sql_count_pos [table_simps]: "0 < sql_count P t \<longleftrightarrow> (\<exists>r \<in> set t. P r)"
  using sql_count_eq_0 [of P t] by (auto simp: neq0_conv [symmetric])

lemma sql_exists_iff [table_simps]: "sql_exists P t \<longleftrightarrow> (\<exists>r \<in> set t. P r)"
  by (simp add: sql_exists_def list_ex_iff)

lemma map_key_sql_update [table_simps]:
  "(\<And>r. key (f r) = key r) \<Longrightarrow> map key (sql_update P f t) = map key t"
  by (simp add: sql_update_def comp_def)

lemma sql_count_append [table_simps]: "sql_count P (s @ t) = sql_count P s + sql_count P t"
  by (simp add: sql_count_def)

text \<open>A primary key: the row with a given key, and what an update by key does to it.\<close>

definition by_key :: "('r \<Rightarrow> 'k) \<Rightarrow> 'k \<Rightarrow> 'r list \<Rightarrow> 'r option" where
  "by_key key k t = find (\<lambda>r. key r = k) t"

lemma by_key_Some_iff:
  "distinct (map key t) \<Longrightarrow> by_key key k t = Some r \<longleftrightarrow> r \<in> set t \<and> key r = k"
  by (induction t) (auto simp: by_key_def)

lemma by_key_SomeD: "by_key key k t = Some r \<Longrightarrow> r \<in> set t \<and> key r = k"
  by (auto simp: by_key_def find_Some_iff)

lemma by_key_None_iff [table_simps]: "by_key key k t = None \<longleftrightarrow> (\<forall>r \<in> set t. key r \<noteq> k)"
  by (auto simp: by_key_def find_None_iff)

lemma by_key_sql_update:
  assumes "\<And>r. key (f r) = key r"
  shows "by_key key k (sql_update P f t) =
    map_option (\<lambda>r. if P r then f r else r) (by_key key k t)"
  using assms by (induction t) (auto simp: by_key_def sql_update_def)

lemma find_SomeD: "find P xs = Some x \<Longrightarrow> x \<in> set xs \<and> P x"
  by (induction xs) (auto split: if_splits)

lemma find_append:
  "find P (xs @ ys) = (case find P xs of None \<Rightarrow> find P ys | Some x \<Rightarrow> Some x)"
  by (induction xs) auto

lemma by_key_append:
  "by_key key k (s @ t) = (case by_key key k s of None \<Rightarrow> by_key key k t | Some r \<Rightarrow> Some r)"
  by (simp only: by_key_def find_append)

text \<open>\<open>INSERT \<dots> ON CONFLICT (key) DO UPDATE\<close>: the row with the new row's key is
  merged, or the new row is added.\<close>

definition sql_upsert :: "('r \<Rightarrow> 'k) \<Rightarrow> ('r \<Rightarrow> 'r \<Rightarrow> 'r) \<Rightarrow> 'r \<Rightarrow> 'r list \<Rightarrow> 'r list" where
  "sql_upsert key merge new t =
     (if list_ex (\<lambda>r. key r = key new) t
      then map (\<lambda>r. if key r = key new then merge r new else r) t
      else t @ [new])"

lemma by_key_sql_upsert [table_simps]:
  assumes "\<And>r. key (merge r new) = key r"
  shows "by_key key k (sql_upsert key merge new t) =
    (if k = key new then Some (case by_key key k t of None \<Rightarrow> new | Some r \<Rightarrow> merge r new)
     else by_key key k t)"
proof (cases "list_ex (\<lambda>r. key r = key new) t")
  case True
  then have "by_key key (key new) t \<noteq> None" by (auto simp: by_key_None_iff list_ex_iff)
  then obtain r where r: "by_key key (key new) t = Some r" by blast
  have "by_key key k (sql_upsert key merge new t) =
      map_option (\<lambda>r. if key r = key new then merge r new else r) (by_key key k t)"
    using True assms by_key_sql_update [of key "\<lambda>r. merge r new" k "\<lambda>r. key r = key new" t]
    by (simp add: sql_upsert_def sql_update_def)
  with r show ?thesis
    by (cases "by_key key k t") (auto dest: by_key_SomeD)
next
  case False
  then have "by_key key (key new) t = None" by (auto simp: by_key_None_iff list_ex_iff)
  with False show ?thesis
    by (auto simp: sql_upsert_def find_append by_key_def split: option.splits)
qed

lemma distinct_sql_upsert [table_simps]:
  assumes "\<And>r. key (merge r new) = key r"
  shows "distinct (map key (sql_upsert key merge new t)) = distinct (map key t)"
proof -
  have "map key (map (\<lambda>r. if key r = key new then merge r new else r) t) = map key t"
    using assms by simp
  then show ?thesis
    by (auto simp: sql_upsert_def list_ex_iff image_iff simp del: map_map)
qed

text \<open>Reading a decimal whole number, as a cast of text to \<open>bigint\<close> does: spaces around it and
  a sign are allowed, anything else is an error.\<close>

definition decimal_digit :: "char \<Rightarrow> bool" where
  "decimal_digit c = (let n = of_char c :: nat in 48 \<le> n \<and> n \<le> 57)"

definition digits_value :: "string \<Rightarrow> nat" where
  "digits_value ds = foldl (\<lambda>v c. 10 * v + (of_char c - 48)) 0 ds"

definition read_decimal :: "string \<Rightarrow> int option" where
  "read_decimal s =
     (let t = js_trim s;
          (sgn, ds) = (case t of
              [] \<Rightarrow> (1, [])
            | c # cs \<Rightarrow> if c = CHR ''-'' then (- 1, cs) else if c = CHR ''+'' then (1, cs) else (1, t))
      in if ds \<noteq> [] \<and> list_all decimal_digit ds then Some (sgn * int (digits_value ds)) else None)"

text \<open>\<open>parseInt(s, 10)\<close>: white space, a sign and the digits that follow; \<open>None\<close> is
  \<open>NaN\<close>.\<close>

definition js_parseInt :: "string \<Rightarrow> int option" where
  "js_parseInt s =
     (let t = dropWhile js_space s;
          (sgn, ds) = (case t of
              [] \<Rightarrow> (1, [])
            | c # cs \<Rightarrow> if c = CHR ''-'' then (- 1, cs) else if c = CHR ''+'' then (1, cs) else (1, t));
          digits = takeWhile decimal_digit ds
      in if digits = [] then None else Some (sgn * int (digits_value digits)))"

subsection \<open>The text of a UUID\<close>

text \<open>\<open>/^[0-9a-f]{8}-[0-9a-f]{4}-[0-9a-f]{4}-[0-9a-f]{4}-[0-9a-f]{12}$/i\<close>.\<close>

definition hex_letter :: "char \<Rightarrow> bool" where
  "hex_letter c = (let n = of_char c :: nat in
     (48 \<le> n \<and> n \<le> 57) \<or> (97 \<le> n \<and> n \<le> 102) \<or> (65 \<le> n \<and> n \<le> 70))"

definition uuid_text :: "string \<Rightarrow> bool" where
  "uuid_text s =
     (let parts = js_split (CHR ''-'') s
      in map length parts = [8, 4, 4, 4, 12] \<and> list_all (list_all hex_letter) parts)"

end
