(* ===== verification/States.thy ===== *)
theory States
  imports Prelude "HOL-Library.Extended_Nat"
begin

text \<open>
  \<^verbatim>\<open>src/symphony/states.ts\<close>: the 22 run states with their database values, the terminal and
  active sets, the transition table, the per-state timeouts, the advisory stages and the failure
  taxonomy with its retry limits, recovery strategies and classifier.
\<close>

subsection \<open>Run states\<close>

datatype RunState =
    Unclaimed | Claimed | Provisioning | Prompting | Running | AwaitingApproval
  | VerifyingResult | MergePending | PostMergeVerify | IssueClosing | ContinuationWait
  | Succeeded | Failed | Stalled | Cancelled | Terminated | Terminating | Paused
  | Orphaned | CleanupFailed | RetryQueued | Released

definition all_run_states :: "RunState list" where
  "all_run_states =
    [Unclaimed, Claimed, Provisioning, Prompting, Running, AwaitingApproval,
     VerifyingResult, MergePending, PostMergeVerify, IssueClosing, ContinuationWait,
     Succeeded, Failed, Stalled, Cancelled, Terminated, Terminating, Paused,
     Orphaned, CleanupFailed, RetryQueued, Released]"

fun state_value :: "RunState \<Rightarrow> string" where
  "state_value Unclaimed = ''unclaimed''"
| "state_value Claimed = ''claimed''"
| "state_value Provisioning = ''provisioning''"
| "state_value Prompting = ''prompting''"
| "state_value Running = ''running''"
| "state_value AwaitingApproval = ''awaiting_approval''"
| "state_value VerifyingResult = ''verifying_result''"
| "state_value MergePending = ''merge_pending''"
| "state_value PostMergeVerify = ''post_merge_verify''"
| "state_value IssueClosing = ''issue_closing''"
| "state_value ContinuationWait = ''continuation_wait''"
| "state_value Succeeded = ''succeeded''"
| "state_value Failed = ''failed''"
| "state_value Stalled = ''stalled''"
| "state_value Cancelled = ''cancelled''"
| "state_value Terminated = ''terminated''"
| "state_value Terminating = ''terminating''"
| "state_value Paused = ''paused''"
| "state_value Orphaned = ''orphaned''"
| "state_value CleanupFailed = ''cleanup_failed''"
| "state_value RetryQueued = ''retry_queued''"
| "state_value Released = ''released''"

definition RUN_STATE_DB_VALUES :: "string list" where
  "RUN_STATE_DB_VALUES = map state_value all_run_states"

text \<open>The cast \<open>row.status as RunState\<close>: reading a column value back as an enum member.\<close>

definition state_of_value :: "string \<Rightarrow> RunState option" where
  "state_of_value v = find (\<lambda>s. state_value s = v) all_run_states"

definition TERMINAL_STATES :: "RunState list" where
  "TERMINAL_STATES = [Succeeded, Cancelled, Terminated, Released, CleanupFailed]"

definition ACTIVE_STATES :: "RunState list" where
  "ACTIVE_STATES =
    [Claimed, Provisioning, Prompting, Running, AwaitingApproval, VerifyingResult,
     MergePending, PostMergeVerify, IssueClosing, Terminating]"

definition VALID_TRANSITIONS :: "(RunState \<times> RunState list) list" where
  "VALID_TRANSITIONS =
    [(Unclaimed, [Claimed, Cancelled]),
     (Claimed, [Provisioning, Released, Orphaned, Cancelled, Terminating]),
     (Provisioning, [Prompting, Failed, Orphaned, Cancelled, Terminating]),
     (Prompting, [Running, Failed, Cancelled, Terminating]),
     (Running, [VerifyingResult, AwaitingApproval, Stalled, Failed, Cancelled, Terminating]),
     (AwaitingApproval,
       [Running, MergePending, VerifyingResult, Paused, Cancelled, Terminating]),
     (VerifyingResult, [MergePending, Failed, Cancelled, Terminating]),
     (MergePending, [PostMergeVerify, AwaitingApproval, Failed, Cancelled, Terminating]),
     (PostMergeVerify, [IssueClosing, Failed, Cancelled, Terminating]),
     (IssueClosing, [Succeeded, Released, Failed, Cancelled, Terminating]),
     (ContinuationWait, [Provisioning, Paused, Cancelled, Terminating]),
     (Stalled, [RetryQueued, Paused, Failed, Cancelled, Terminating]),
     (RetryQueued, [Provisioning, Paused, Cancelled, Terminating]),
     (Paused, [RetryQueued, Cancelled, Terminating]),
     (Orphaned, [Failed, Released, Cancelled]),
     (Terminating, [Terminated, Released, CleanupFailed]),
     (Failed, [RetryQueued, ContinuationWait]),
     (Succeeded, []),
     (Cancelled, []),
     (Terminated, []),
     (Released, []),
     (CleanupFailed, [])]"

text \<open>Timeouts in seconds.\<close>

definition STATE_TIMEOUTS :: "(RunState \<times> int) list" where
  "STATE_TIMEOUTS =
    [(Claimed, 60),
     (Provisioning, 20 * 60),
     (Prompting, 2 * 60),
     (Running, 60 * 60),
     (VerifyingResult, 10 * 60),
     (MergePending, 30 * 60),
     (PostMergeVerify, 15 * 60),
     (IssueClosing, 5 * 60),
     (AwaitingApproval, 5 * 60),
     (Terminating, 2 * 60)]"

definition isValidTransition :: "RunState \<Rightarrow> RunState \<Rightarrow> bool" where
  "isValidTransition from to =
     (case map_of VALID_TRANSITIONS from of None \<Rightarrow> False | Some allowed \<Rightarrow> to \<in> set allowed)"

definition isTerminalState :: "RunState \<Rightarrow> bool" where
  "isTerminalState s = (s \<in> set TERMINAL_STATES)"

lemmas state_tables =
  all_run_states_def TERMINAL_STATES_def ACTIVE_STATES_def VALID_TRANSITIONS_def
  STATE_TIMEOUTS_def isValidTransition_def isTerminalState_def

lemma all_run_states_complete [simp]: "set all_run_states = UNIV"
proof -
  have "s \<in> set all_run_states" for s by (cases s) (simp_all add: all_run_states_def)
  then show ?thesis by blast
qed

lemma all_run_states_distinct [simp]: "distinct all_run_states"
  by (simp add: all_run_states_def)

text \<open>
  \<open>Object.values(RunState)\<close> enumerates the states in declaration order: the type becomes
  finite and ordered by the position in that list, which is also the state's advisory-lock key.
\<close>

fun js_indexOf :: "'a list \<Rightarrow> 'a \<Rightarrow> int" where
  "js_indexOf [] x = - 1"
| "js_indexOf (y # ys) x =
     (if y = x then 0 else (let i = js_indexOf ys x in if i < 0 then - 1 else i + 1))"

definition state_index :: "RunState \<Rightarrow> int" where
  "state_index s = js_indexOf all_run_states s"

lemma state_index_inj: "state_index s = state_index t \<Longrightarrow> s = t"
  by (cases s; cases t; simp add: state_index_def all_run_states_def)

instantiation RunState :: linorder
begin

definition less_eq_RunState :: "RunState \<Rightarrow> RunState \<Rightarrow> bool" where
  "less_eq_RunState s t = (state_index s \<le> state_index t)"

definition less_RunState :: "RunState \<Rightarrow> RunState \<Rightarrow> bool" where
  "less_RunState s t = (state_index s < state_index t)"

instance
  by standard (auto simp: less_eq_RunState_def less_RunState_def intro: state_index_inj)

end

instantiation RunState :: enum
begin

definition enum_RunState :: "RunState list" where
  "enum_RunState = all_run_states"

definition enum_all_RunState :: "(RunState \<Rightarrow> bool) \<Rightarrow> bool" where
  "enum_all_RunState P = list_all P all_run_states"

definition enum_ex_RunState :: "(RunState \<Rightarrow> bool) \<Rightarrow> bool" where
  "enum_ex_RunState P = list_ex P all_run_states"

instance
  by standard
    (auto simp: enum_RunState_def enum_all_RunState_def enum_ex_RunState_def list_all_iff list_ex_iff)

end

lemma state_value_inj: "state_value s = state_value t \<Longrightarrow> s = t"
  by (cases s; cases t; simp)

lemma state_of_value_state_value [simp]: "state_of_value (state_value s) = Some s"
  by (cases s) (simp_all add: state_of_value_def all_run_states_def)

lemma terminal_no_successor: "isTerminalState s \<Longrightarrow> \<not> isValidTransition s t"
  by (cases s) (simp_all add: state_tables)

lemma nonterminal_successor: "\<not> isTerminalState s \<Longrightarrow> \<exists>t. isValidTransition s t"
  by (cases s) (simp_all add: state_tables, blast+)

lemma isValidTransition_irrefl: "\<not> isValidTransition s s"
  by (cases s) (simp_all add: state_tables)

subsection \<open>The transition graph\<close>

definition run_edge :: "RunState \<Rightarrow> RunState \<Rightarrow> bool" where
  "run_edge s t = isValidTransition s t"

definition reaches :: "RunState \<Rightarrow> RunState \<Rightarrow> bool" where
  "reaches = run_edge\<^sup>*\<^sup>*"

lemma reaches_edge: "isValidTransition s t \<Longrightarrow> reaches s t"
  by (simp add: reaches_def run_edge_def r_into_rtranclp)

lemma reaches_trans: "reaches s t \<Longrightarrow> reaches t u \<Longrightarrow> reaches s u"
  by (simp add: reaches_def)

lemma reaches_from_terminal: "reaches s t \<Longrightarrow> isTerminalState s \<Longrightarrow> t = s"
  unfolding reaches_def
  by (induction rule: converse_rtranclp_induct) (auto simp: run_edge_def dest: terminal_no_successor)

text \<open>How a run gets into a state, and how it gets out of it.\<close>

definition happy_path :: "RunState list" where
  "happy_path = [Claimed, Provisioning, Prompting, Running, VerifyingResult,
     MergePending, PostMergeVerify, IssueClosing, Succeeded]"

definition way_in :: "RunState \<Rightarrow> RunState list" where
  "way_in s = (case s of
      Unclaimed \<Rightarrow> []
    | Cancelled \<Rightarrow> [Cancelled]
    | Orphaned \<Rightarrow> [Claimed, Orphaned]
    | Released \<Rightarrow> [Claimed, Released]
    | Terminating \<Rightarrow> [Claimed, Terminating]
    | Terminated \<Rightarrow> [Claimed, Terminating, Terminated]
    | CleanupFailed \<Rightarrow> [Claimed, Terminating, CleanupFailed]
    | Failed \<Rightarrow> [Claimed, Provisioning, Failed]
    | RetryQueued \<Rightarrow> [Claimed, Provisioning, Failed, RetryQueued]
    | ContinuationWait \<Rightarrow> [Claimed, Provisioning, Failed, ContinuationWait]
    | Paused \<Rightarrow> [Claimed, Provisioning, Failed, RetryQueued, Paused]
    | AwaitingApproval \<Rightarrow> [Claimed, Provisioning, Prompting, Running, AwaitingApproval]
    | Stalled \<Rightarrow> [Claimed, Provisioning, Prompting, Running, Stalled]
    | _ \<Rightarrow> takeWhile (\<lambda>t. t \<noteq> s) happy_path @ [s])"

definition way_out :: "RunState \<Rightarrow> RunState list" where
  "way_out s =
     (if isTerminalState s then []
      else if isValidTransition s Cancelled then [Cancelled]
      else if s = Terminating then [Terminated] else [RetryQueued, Cancelled])"

lemma way_out_path: "successively isValidTransition (s # way_out s)"
  by (cases s) (simp_all add: way_out_def state_tables)

lemma way_out_terminal: "isTerminalState (last (s # way_out s))"
  by (cases s) (simp_all add: way_out_def state_tables)

lemma successively_reaches: "successively isValidTransition (s # ss) \<Longrightarrow> reaches s (last (s # ss))"
proof (induction ss arbitrary: s)
  case Nil
  then show ?case by (simp add: reaches_def)
next
  case (Cons t ss)
  then show ?case
    by (metis last_ConsR list.distinct(1) reaches_edge reaches_trans successively.simps(3))
qed
lemma way_in_path: "successively isValidTransition (Unclaimed # way_in s)"
  by (cases s) (simp_all add: way_in_def happy_path_def state_tables)

lemma way_in_last: "last (Unclaimed # way_in s) = s"
  by (cases s) (simp_all add: way_in_def)

lemma reaches_all: "reaches Unclaimed s"
  using successively_reaches [OF way_in_path [of s]] by (simp only: way_in_last)

lemma terminal_reachable: "\<exists>t. isTerminalState t \<and> reaches s t"
  using successively_reaches [OF way_out_path [of s]] way_out_terminal [of s] by blast

subsection \<open>Advisory stages\<close>

datatype RunStage =
  ReadingIssue | Planning | Coding | Testing | CreatingPr | Reviewing | WaitingReview

fun stage_value :: "RunStage \<Rightarrow> string" where
  "stage_value ReadingIssue = ''reading_issue''"
| "stage_value Planning = ''planning''"
| "stage_value Coding = ''coding''"
| "stage_value Testing = ''testing''"
| "stage_value CreatingPr = ''creating_pr''"
| "stage_value Reviewing = ''reviewing''"
| "stage_value WaitingReview = ''waiting_review''"

text \<open>
  The stage patterns are alternatives of literals joined by \<open>.*\<close>, matched without case and
  anywhere in the text. As \<open>.\<close> stops at a line end, an alternative matches when some line
  holds its literals one after the other.
\<close>

function pieces_in_order :: "string list \<Rightarrow> string \<Rightarrow> bool" where
  "pieces_in_order [] s = True"
| "pieces_in_order (p # ps) [] = (p = [] \<and> pieces_in_order ps [])"
| "pieces_in_order (p # ps) (c # cs) =
     ((js_startsWith (c # cs) p \<and> pieces_in_order ps (drop (length p) (c # cs)))
      \<or> pieces_in_order (p # ps) cs)"
  by pat_completeness auto
termination
  by (relation "measure (\<lambda>(ps, s). length ps + length s)") auto

fun js_lines :: "string \<Rightarrow> string list" where
  "js_lines [] = [[]]"
| "js_lines (c # cs) =
     (if js_line_terminator c then [] # js_lines cs
      else (case js_lines cs of [] \<Rightarrow> [[c]] | l # ls \<Rightarrow> (c # l) # ls))"

definition regex_i_test :: "string list list \<Rightarrow> string \<Rightarrow> bool" where
  "regex_i_test alternatives s =
     list_ex (\<lambda>line. list_ex (\<lambda>ps. pieces_in_order ps line) alternatives)
       (js_lines (js_toLowerCase s))"

definition stage_patterns :: "(string list list \<times> RunStage) list" where
  "stage_patterns =
    [([[''creating pull request''], [''gh pr create''], [''git push'', ''-u'']], CreatingPr),
     ([[''codex'', ''review''], [''running'', ''review''], [''security'', ''review'']], Reviewing),
     ([[''waiting'', ''review''], [''review'', ''pending''], [''approval'', ''pending'']],
       WaitingReview),
     ([[''running tests''], [''test'', ''pass''], [''test'', ''fail''], [''vitest''], [''jest''],
       [''pytest'']], Testing),
     ([[''reading'', ''issue''], [''gh issue view''], [''fetching'', ''issue'']], ReadingIssue),
     ([[''planning''], [''design''], [''architecture''], [''approach'']], Planning),
     ([[''editing'', ''file''], [''creating'', ''file''], [''writing'', ''code''],
       [''implementing'']], Coding)]"

definition inferStage :: "string \<Rightarrow> RunStage option" where
  "inferStage output =
     map_option snd (find (\<lambda>(pattern, stage). regex_i_test pattern output) stage_patterns)"

subsection \<open>The failure taxonomy\<close>

datatype FailureClass =
    SshLost | DockerUnavailable | HostReboot | CredentialsUnavailable | RateLimited | DiskFull
  | TokenExhaustion | ContextOverflow | BudgetExceeded | AgentLoop | DivergedBase

definition all_failure_classes :: "FailureClass list" where
  "all_failure_classes =
    [SshLost, DockerUnavailable, HostReboot, CredentialsUnavailable, RateLimited, DiskFull,
     TokenExhaustion, ContextOverflow, BudgetExceeded, AgentLoop, DivergedBase]"

fun failure_value :: "FailureClass \<Rightarrow> string" where
  "failure_value SshLost = ''ssh_lost''"
| "failure_value DockerUnavailable = ''docker_unavailable''"
| "failure_value HostReboot = ''host_reboot''"
| "failure_value CredentialsUnavailable = ''credentials_unavailable''"
| "failure_value RateLimited = ''rate_limited''"
| "failure_value DiskFull = ''disk_full''"
| "failure_value TokenExhaustion = ''token_exhaustion''"
| "failure_value ContextOverflow = ''context_overflow''"
| "failure_value BudgetExceeded = ''budget_exceeded''"
| "failure_value AgentLoop = ''agent_loop''"
| "failure_value DivergedBase = ''diverged_base''"

text \<open>A limit of \<open>Infinity\<close> is \<open>\<infinity>\<close>.\<close>

definition FAILURE_RETRY_LIMITS :: "(FailureClass \<times> enat) list" where
  "FAILURE_RETRY_LIMITS =
    [(SshLost, 3), (DockerUnavailable, 2), (HostReboot, 2), (CredentialsUnavailable, 1),
     (RateLimited, \<infinity>), (DiskFull, 0), (TokenExhaustion, 0), (ContextOverflow, 1),
     (BudgetExceeded, 0), (AgentLoop, 1), (DivergedBase, 2)]"

datatype RecoveryStrategy =
  RetrySameHost | RetryDifferentHost | WaitAndRetry | Pause | Terminal | RetryWithFeedback

definition FAILURE_RECOVERY :: "(FailureClass \<times> RecoveryStrategy) list" where
  "FAILURE_RECOVERY =
    [(SshLost, RetrySameHost), (DockerUnavailable, RetryDifferentHost),
     (HostReboot, WaitAndRetry), (CredentialsUnavailable, Pause), (RateLimited, WaitAndRetry),
     (DiskFull, Terminal), (TokenExhaustion, Terminal), (ContextOverflow, RetryWithFeedback),
     (BudgetExceeded, Pause), (AgentLoop, RetryWithFeedback), (DivergedBase, RetryWithFeedback)]"

definition classifyFailure :: "string \<Rightarrow> string option \<Rightarrow> FailureClass option" where
  "classifyFailure errorMessage errorCode =
     (let msg = js_toLowerCase errorMessage;
          code = (case errorCode of Some c \<Rightarrow> js_toLowerCase c | None \<Rightarrow> '''') in
      if js_includes msg ''ssh'' \<or> js_includes msg ''connection reset''
         \<or> js_includes msg ''broken pipe'' \<or> code = ''ssh_lost''
      then Some SshLost
      else if js_includes msg ''docker'' \<or> js_includes msg ''container''
         \<or> js_includes msg ''devcontainer'' \<or> code = ''docker_unavailable''
      then Some DockerUnavailable
      else if js_includes msg ''host reboot'' \<or> js_includes msg ''host restart''
         \<or> code = ''host_reboot''
      then Some HostReboot
      else if js_includes msg ''credential'' \<or> js_includes msg ''1password''
         \<or> js_includes msg ''op://'' \<or> code = ''credentials_unavailable''
      then Some CredentialsUnavailable
      else if js_includes msg ''rate limit'' \<or> js_includes msg ''429''
         \<or> js_includes msg ''x-ratelimit'' \<or> code = ''rate_limited''
      then Some RateLimited
      else if js_includes msg ''disk full'' \<or> js_includes msg ''no space left''
         \<or> js_includes msg ''enospc'' \<or> code = ''disk_full''
      then Some DiskFull
      else if js_includes msg ''token exhaustion'' \<or> js_includes msg ''max tokens''
         \<or> code = ''token_exhaustion''
      then Some TokenExhaustion
      else if js_includes msg ''context overflow'' \<or> js_includes msg ''context window''
         \<or> js_includes msg ''context length'' \<or> code = ''context_overflow''
      then Some ContextOverflow
      else if js_includes msg ''budget exceeded'' \<or> js_includes msg ''budget limit''
         \<or> code = ''budget_exceeded''
      then Some BudgetExceeded
      else if js_includes msg ''agent loop'' \<or> js_includes msg ''loop detected''
         \<or> js_includes msg ''repeated pattern'' \<or> code = ''agent_loop''
      then Some AgentLoop
      else if js_includes msg ''diverged'' \<or> js_includes msg ''rebase''
         \<or> js_includes msg ''merge conflict'' \<or> code = ''diverged_base''
      then Some DivergedBase
      else None)"

text \<open>
  What the classifier promises, without its cascade: each class has keywords and a code, and the
  answer is the first class, in the order of the enumeration, one of whose keywords occurs in the
  message or whose code is the error code.
\<close>

fun failure_keywords :: "FailureClass \<Rightarrow> string list" where
  "failure_keywords SshLost = [''ssh'', ''connection reset'', ''broken pipe'']"
| "failure_keywords DockerUnavailable = [''docker'', ''container'']"
| "failure_keywords HostReboot = [''host reboot'', ''host restart'']"
| "failure_keywords CredentialsUnavailable = [''credential'', ''1password'', ''op://'']"
| "failure_keywords RateLimited = [''rate limit'', ''429'', ''x-ratelimit'']"
| "failure_keywords DiskFull = [''disk full'', ''no space left'', ''enospc'']"
| "failure_keywords TokenExhaustion = [''token exhaustion'', ''max tokens'']"
| "failure_keywords ContextOverflow = [''context overflow'', ''context window'', ''context length'']"
| "failure_keywords BudgetExceeded = [''budget exceeded'', ''budget limit'']"
| "failure_keywords AgentLoop = [''agent loop'', ''loop detected'', ''repeated pattern'']"
| "failure_keywords DivergedBase = [''diverged'', ''rebase'', ''merge conflict'']"

definition failure_match :: "string \<Rightarrow> string option \<Rightarrow> FailureClass \<Rightarrow> bool" where
  "failure_match errorMessage errorCode c \<longleftrightarrow>
     (\<exists>k \<in> set (failure_keywords c). sublist k (js_toLowerCase errorMessage))
     \<or> map_option js_toLowerCase errorCode = Some (failure_value c)"

lemma failure_value_inj: "failure_value c = failure_value d \<Longrightarrow> c = d"
  by (cases c; cases d; simp)

lemma all_failure_classes_complete [simp]: "set all_failure_classes = UNIV"
proof -
  have "c \<in> set all_failure_classes" for c by (cases c) (simp_all add: all_failure_classes_def)
  then show ?thesis by blast
qed

lemma failure_value_nonempty: "failure_value c \<noteq> []"
  by (cases c) simp_all

lemma devcontainer_is_container: "js_includes m ''devcontainer'' \<Longrightarrow> js_includes m ''container''"
proof -
  have "sublist ''container'' ''devcontainer''"
    by (simp add: js_includes_sublist [symmetric] js_startsWith_def)
  then show "js_includes m ''devcontainer'' \<Longrightarrow> js_includes m ''container''"
    unfolding js_includes_sublist by (rule sublist_order.order.trans)
qed

lemma failure_match_alt:
  "failure_match msg code c =
     (list_ex (js_includes (js_toLowerCase msg)) (failure_keywords c)
      \<or> (case code of Some c \<Rightarrow> js_toLowerCase c | None \<Rightarrow> []) = failure_value c)"
  using failure_value_nonempty [of c]
  by (auto simp: failure_match_def js_includes_sublist list_ex_iff split: option.splits)

lemma list_ex_Cons_Nil: "list_ex P [] = False" "list_ex P (x # xs) = (P x \<or> list_ex P xs)"
  by (simp_all add: list_ex_iff)

lemma docker_keywords:
  "(js_includes m ''docker'' \<or> js_includes m ''container'' \<or> js_includes m ''devcontainer'' \<or> Q)
   = (js_includes m ''docker'' \<or> js_includes m ''container'' \<or> Q)"
  using devcontainer_is_container by blast

lemma classifyFailure_first_match:
  "classifyFailure msg code = find (failure_match msg code) all_failure_classes"
  by (simp only: classifyFailure_def Let_def all_failure_classes_def find.simps failure_match_alt
      failure_keywords.simps failure_value.simps list_ex_Cons_Nil disj_assoc docker_keywords
      simp_thms)

lemma find_unique: "(\<And>y. P y \<longleftrightarrow> y = x) \<Longrightarrow> x \<in> set xs \<Longrightarrow> find P xs = Some x"
  by (induction xs) auto

lemma js_toLowerCase_failure_value: "js_toLowerCase (failure_value c) = failure_value c"
  by (cases c) (simp_all add: js_toLowerCase_def js_lower_char_def)

lemma failure_keywords_nonempty: "k \<in> set (failure_keywords c) \<Longrightarrow> k \<noteq> []"
  by (cases c) auto

lemma failure_match_code:
  "failure_match [] (Some (failure_value c)) d \<longleftrightarrow> d = c"
proof -
  have "failure_match [] (Some (failure_value c)) d \<longleftrightarrow> failure_value c = failure_value d"
    using failure_keywords_nonempty [of _ d]
    by (auto simp: failure_match_def js_toLowerCase_failure_value js_toLowerCase_def [of "[]"]
        simp del: failure_keywords.simps failure_value.simps)
  then show ?thesis using failure_value_inj by blast
qed

lemma classifyFailure_code: "classifyFailure [] (Some (failure_value c)) = Some c"
  unfolding classifyFailure_first_match
  by (rule find_unique) (simp_all add: failure_match_code)

text \<open>
  The transition table of the run lifecycle is well formed: the terminal states are exactly the
  ones without a successor, no state is its own successor, every state can be entered from
  \<open>Unclaimed\<close>, from every state a terminal one can be reached, and each state is recovered
  from its database value.
\<close>

theorem run_graph_well_formed:
  "(isTerminalState s = (\<forall>t. \<not> isValidTransition s t)) \<and>
   \<not> isValidTransition s s \<and>
   reaches Unclaimed s \<and>
   (\<exists>t. isTerminalState t \<and> reaches s t) \<and>
   state_of_value (state_value s) = Some s"
  using terminal_no_successor nonterminal_successor isValidTransition_irrefl reaches_all
    terminal_reachable state_of_value_state_value by blast

text \<open>
  The classifier's cascade of tests is the first match over the taxonomy in the order of the
  enumeration, where a class matches when one of its keywords occurs in the lower-cased message or
  the lower-cased code is its database value; and a code alone names its own class.
\<close>

theorem classifyFailure_spec:
  "classifyFailure msg code = find (failure_match msg code) all_failure_classes \<and>
   classifyFailure [] (Some (failure_value c)) = Some c"
  by (simp add: classifyFailure_first_match [of msg code] classifyFailure_code)

end
