(* ===== verification/Database.thy ===== *)
theory Database
  imports States
begin

text \<open>
  The tables of the Symphony orchestrator that the modelled operations read and write
  (\<^verbatim>\<open>migrations/140\<close> to \<^verbatim>\<open>151\<close>, as the TypeScript queries use them), the JSON values stored
  in their JSONB columns, and the lemmas about a run found by its primary key.

  A nullable column is an option. A comparison with \<open>NULL\<close> is not true in SQL, so
  \<open>col = $1\<close> on a nullable column reads \<open>col r = Some x\<close>.
\<close>

subsection \<open>JSON values\<close>

datatype json =
    JNull
  | JBool bool
  | JNum rat
  | JStr string
  | JArr "json list"
  | JObj "(string \<times> json) list"

text \<open>An object literal with a spread at its end: a key of the spread replaces the value in place,
  a new key is appended.\<close>

definition obj_spread :: "(string \<times> json) list \<Rightarrow> (string \<times> json) list \<Rightarrow> (string \<times> json) list" where
  "obj_spread base extra = fold (\<lambda>(k, v) o'. AList.update k v o') extra base"

definition json_opt :: "('a \<Rightarrow> json) \<Rightarrow> 'a option \<Rightarrow> json" where
  "json_opt f x = (case x of None \<Rightarrow> JNull | Some y \<Rightarrow> f y)"

lemma map_of_obj_spread:
  "map_of (obj_spread base extra) k =
     (case map_of (rev extra) k of None \<Rightarrow> map_of base k | Some v \<Rightarrow> Some v)"
  unfolding obj_spread_def
proof (induction extra arbitrary: base)
  case Nil
  then show ?case by simp
next
  case (Cons kv extra)
  then show ?case
    by (cases kv) (auto simp: update_conv' map_add_def split: option.splits)
qed

subsection \<open>Rows\<close>

record run_row =
  run_id :: uuid
  run_namespace :: string
  run_work_item :: uuid
  run_project :: "uuid option"
  run_workspace :: "uuid option"
  run_claim :: "uuid option"
  run_orchestrator :: "string option"
  run_attempt :: int
  run_status :: RunState
  run_stage :: "RunStage option"
  run_version :: int
  run_epoch :: "int option"
  run_error_message :: "string option"
  run_error_code :: "string option"
  run_started :: "millis option"
  run_completed :: "millis option"
  run_created :: millis
  run_updated :: millis
  run_retry_count :: int
  run_config_version :: "int option"

datatype ClaimStatus =
  ClaimPending | ClaimAssigned | ClaimActive | ClaimReleased | ClaimExpired | ClaimCompleted

record claim_row =
  claim_id :: uuid
  claim_namespace :: string
  claim_work_item :: uuid
  claim_orchestrator :: string
  claim_status :: ClaimStatus
  claim_epoch :: int
  claim_lease :: "millis option"
  claim_released :: "millis option"
  claim_idem_key :: "string option"

record workspace_row =
  ws_id :: uuid
  ws_connection :: uuid

record orchestrator_config_row =
  oc_namespace :: string
  oc_project :: "uuid option"
  oc_version :: int
  oc_config :: "(string \<times> json) list"

record project_host_row =
  ph_project :: uuid
  ph_connection :: uuid
  ph_max_sessions :: int

record work_item_row =
  wi_id :: uuid
  wi_namespace :: string
  wi_parent :: "uuid option"
  wi_priority :: "int option"
  wi_created :: millis
  wi_identifier :: "string option"

record event_row =
  ev_run :: uuid
  ev_namespace :: string
  ev_kind :: string
  ev_actor :: string
  ev_payload :: "(string \<times> json) list"
  ev_emitted :: millis

record heartbeat_row =
  hb_orchestrator :: string
  hb_namespace :: string
  hb_last :: millis
  hb_active_runs :: int
  hb_pid :: int

record symphony_db =
  runs :: "run_row list"
  claims :: "claim_row list"
  workspaces :: "workspace_row list"
  configs :: "orchestrator_config_row list"
  hosts :: "project_host_row list"
  work_items :: "work_item_row list"
  events :: "event_row list"
  heartbeats :: "heartbeat_row list"

text \<open>The \<open>BEFORE UPDATE\<close> trigger of the run table stamps the row with the transaction's clock.\<close>

definition set_symphony_run_updated_at :: "clock \<Rightarrow> run_row \<Rightarrow> run_row" where
  "set_symphony_run_updated_at clk r = r\<lparr>run_updated := db_now clk\<rparr>"

definition find_run :: "symphony_db \<Rightarrow> uuid \<Rightarrow> run_row option" where
  "find_run db i = by_key run_id i (runs db)"

text \<open>Primary keys: what the migrations' constraints guarantee of every table state.\<close>

definition run_keys :: "symphony_db \<Rightarrow> bool" where
  "run_keys db = distinct (map run_id (runs db))"

lemma find_run_id: "find_run db i = Some r \<Longrightarrow> run_id r = i"
  unfolding find_run_def by (drule by_key_SomeD) simp

lemma find_run_in: "find_run db i = Some r \<Longrightarrow> r \<in> set (runs db)"
  unfolding find_run_def by (drule by_key_SomeD) simp

lemma find_run_iff:
  "run_keys db \<Longrightarrow> find_run db i = Some r \<longleftrightarrow> r \<in> set (runs db) \<and> run_id r = i"
  by (simp add: find_run_def run_keys_def by_key_Some_iff)

lemma find_run_runs_update:
  assumes "\<And>r. run_id (f r) = run_id r"
  shows "find_run (db\<lparr>runs := sql_update P f (runs db)\<rparr>) i =
    map_option (\<lambda>r. if P r then f r else r) (find_run db i)"
  by (simp add: find_run_def by_key_sql_update assms)

lemma run_keys_runs_update:
  assumes "\<And>r. run_id (f r) = run_id r"
  shows "run_keys (db\<lparr>runs := sql_update P f (runs db)\<rparr>) = run_keys db"
  by (simp add: run_keys_def map_key_sql_update assms)

lemma find_run_frame [frame_simps, simp]:
  "find_run (db\<lparr>events := es\<rparr>) i = find_run db i"
  "find_run (db\<lparr>claims := cs\<rparr>) i = find_run db i"
  "find_run (db\<lparr>heartbeats := hs\<rparr>) i = find_run db i"
  by (simp_all add: find_run_def)

lemma run_keys_frame [frame_simps, simp]:
  "run_keys (db\<lparr>events := es\<rparr>) = run_keys db"
  "run_keys (db\<lparr>claims := cs\<rparr>) = run_keys db"
  "run_keys (db\<lparr>heartbeats := hs\<rparr>) = run_keys db"
  by (simp_all add: run_keys_def)

subsection \<open>Example rows\<close>

text \<open>Concrete values the witnesses of the component theories start from.\<close>

definition example_run :: run_row where
  "example_run =
    \<lparr>run_id = ''run-1'', run_namespace = ''acme'', run_work_item = ''item-1'',
     run_project = Some ''proj-1'', run_workspace = Some ''ws-1'', run_claim = None,
     run_orchestrator = Some ''orch-1'', run_attempt = 1, run_status = Running,
     run_stage = None, run_version = 4, run_epoch = None, run_error_message = None,
     run_error_code = None, run_started = Some 0, run_completed = None, run_created = 0,
     run_updated = 0, run_retry_count = 0, run_config_version = None\<rparr>"

definition empty_db :: symphony_db where
  "empty_db = \<lparr>runs = [], claims = [], workspaces = [], configs = [], hosts = [],
     work_items = [], events = [], heartbeats = []\<rparr>"

definition example_db :: symphony_db where
  "example_db = empty_db\<lparr>runs := [example_run]\<rparr>"

lemma find_example_run: "find_run example_db ''run-1'' = Some example_run"
  by (simp add: find_run_def by_key_def example_db_def example_run_def empty_db_def)

end
