(* ===== verification/CasStore.thy ===== *)
theory CasStore
  imports Prelude
begin

text \<open>
  The interface of optimistic concurrency: a store whose entries carry a version, and a step that
  either leaves the whole store alone or moves one entry from the version it expects to the next
  one. \<open>cas_machine\<close> adds a state per entry that only moves along the edges of a graph.
  The clients' lemmas (one winner per version, the version counts the moves, a state without
  successors is final) are proved here once.
\<close>

locale cas_store =
  fixes ver :: "'s \<Rightarrow> 'k \<Rightarrow> int option"
    and step :: "'c \<Rightarrow> 's \<Rightarrow> 's"
    and target :: "'c \<Rightarrow> 'k"
    and expects :: "'c \<Rightarrow> int"
  assumes step_cas: "step c s = s \<or>
    (ver s (target c) = Some (expects c) \<and>
     ver (step c s) = (ver s)(target c := Some (expects c + 1)))"
begin

lemma step_mono:
  "ver s k = Some v \<Longrightarrow> \<exists>v'. ver (step c s) k = Some v' \<and> v \<le> v'"
  using step_cas [of c s] by (cases "target c = k") auto

lemma steps_mono:
  "ver s k = Some v \<Longrightarrow> \<exists>v'. ver (fold step cs s) k = Some v' \<and> v \<le> v'"
proof (induction cs arbitrary: s v)
  case Nil
  then show ?case by simp
next
  case (Cons c cs)
  from step_mono [OF Cons.prems, of c] obtain w where w: "ver (step c s) k = Some w" "v \<le> w"
    by blast
  from Cons.IH [OF w(1)] w(2) show ?case by auto
qed

lemma moved_version:
  "step c s \<noteq> s \<Longrightarrow> ver (step c s) (target c) = Some (expects c + 1)"
  using step_cas [of c s] by auto

lemma stale_step:
  "ver s (target c) = Some v \<Longrightarrow> expects c < v \<Longrightarrow> step c s = s"
  using step_cas [of c s] by auto

lemma single_winner:
  assumes moved: "step a s \<noteq> s" and same: "target b = target a" "expects b \<le> expects a"
  shows "step b (fold step cs (step a s)) = fold step cs (step a s)"
proof -
  obtain v where v: "ver (fold step cs (step a s)) (target a) = Some v" "expects a + 1 \<le> v"
    using steps_mono [OF moved_version [OF moved]] by blast
  show ?thesis
  proof (rule stale_step)
    show "ver (fold step cs (step a s)) (target b) = Some v" using v(1) same(1) by simp
    show "expects b < v" using v(2) same(2) by simp
  qed
qed

end

locale cas_machine = cas_store ver step target expects
  for ver :: "'s \<Rightarrow> 'k \<Rightarrow> int option"
    and step :: "'c \<Rightarrow> 's \<Rightarrow> 's"
    and target :: "'c \<Rightarrow> 'k"
    and expects :: "'c \<Rightarrow> int" +
  fixes st :: "'s \<Rightarrow> 'k \<Rightarrow> 'q option"
    and edge :: "'q \<Rightarrow> 'q \<Rightarrow> bool"
  assumes step_edge: "step c s \<noteq> s \<Longrightarrow>
    \<exists>q q'. st s (target c) = Some q \<and> edge q q' \<and> st (step c s) = (st s)(target c := Some q')"
begin

lemma step_counts:
  assumes "st s k = Some q" and "ver s k = Some v"
  shows "\<exists>n q'. st (step c s) k = Some q' \<and> ver (step c s) k = Some (v + int n) \<and> (edge ^^ n) q q'"
proof (cases "step c s = s \<or> target c \<noteq> k")
  case True
  then have "st (step c s) k = st s k" and "ver (step c s) k = ver s k"
    using step_edge [of c s] step_cas [of c s] by (cases "step c s = s"; force)+
  with assms have "st (step c s) k = Some q \<and> ver (step c s) k = Some (v + int 0) \<and> (edge ^^ 0) q q"
    by simp
  then show ?thesis by blast
next
  case False
  then obtain q' where "edge q q'" and "st (step c s) k = Some q'"
    using step_edge [of c s] assms(1) by auto
  moreover have "ver (step c s) k = Some (v + int 1)"
    using False step_cas [of c s] assms(2) by auto
  ultimately have "st (step c s) k = Some q' \<and> ver (step c s) k = Some (v + int 1) \<and> (edge ^^ 1) q q'"
    by (simp add: eq_OO)
  then show ?thesis by blast
qed

lemma steps_count:
  assumes "st s k = Some q" and "ver s k = Some v"
  shows "\<exists>n q'. st (fold step cs s) k = Some q' \<and> ver (fold step cs s) k = Some (v + int n) \<and>
    (edge ^^ n) q q'"
  using assms
proof (induction cs arbitrary: s q v)
  case Nil
  then have "st s k = Some q \<and> ver s k = Some (v + int 0) \<and> (edge ^^ 0) q q" by simp
  then show ?case by auto
next
  case (Cons c cs)
  obtain n q' where 1: "st (step c s) k = Some q'" "ver (step c s) k = Some (v + int n)"
      "(edge ^^ n) q q'"
    using step_counts [OF Cons.prems] by blast
  obtain m q'' where 2: "st (fold step cs (step c s)) k = Some q''"
      "ver (fold step cs (step c s)) k = Some (v + int n + int m)" "(edge ^^ m) q' q''"
    using Cons.IH [OF 1(1,2)] by blast
  have "(edge ^^ (n + m)) q q''"
    using 1(3) 2(3) unfolding relpowp_add by blast
  with 2 show ?case by (auto simp: add.assoc intro!: exI [of _ "n + m"])
qed

lemma final_state:
  assumes "st s k = Some q" and "ver s k = Some v" and "\<And>q'. \<not> edge q q'"
  shows "st (fold step cs s) k = Some q \<and> ver (fold step cs s) k = Some v"
proof -
  obtain n q' where n: "st (fold step cs s) k = Some q'"
      "ver (fold step cs s) k = Some (v + int n)" "(edge ^^ n) q q'"
    using steps_count [OF assms(1,2)] by blast
  have "n = 0"
  proof (cases n)
    case (Suc m)
    with n(3) have "(edge ^^ Suc m) q q'" by simp
    then show ?thesis using assms(3) relpowp_Suc_D2 by metis
  qed
  with n show ?thesis by simp
qed

end

end
