(* ===== verification/StateMachine.thy ===== *)
theory StateMachine
  imports Database CasStore
begin

text \<open>
  \<^verbatim>\<open>src/symphony/state-machine.ts\<close>: \<open>SymphonyStateMachine\<close>. A transition reads the
  run's row, checks it (terminal idempotency, the transition table, the expected version, the
  claim epoch), updates it under \<open>WHERE state_version = $8\<close> and appends an event. The watchdog
  sweep moves the runs that outstayed their state's timeout.
\<close>

subsection \<open>Contexts, results and events\<close>

record transition_context =
  ctx_run :: uuid
  ctx_target :: RunState
  ctx_expected :: int
  ctx_epoch :: "int option"
  ctx_actor :: string
  ctx_trigger :: string
  ctx_error_message :: "string option"
  ctx_error_code :: "string option"
  ctx_failure_class :: "FailureClass option"
  ctx_stage :: "RunStage option"
  ctx_metadata :: "(string \<times> json) list"

record transition_result =
  tr_success :: bool
  tr_state :: RunState
  tr_version :: int
  tr_error :: "string option"

definition recordEvent ::
  "clock \<Rightarrow> uuid \<Rightarrow> string \<Rightarrow> string \<Rightarrow> (string \<times> json) list \<Rightarrow> symphony_db \<Rightarrow> symphony_db"
where
  "recordEvent clk runId kind actor payload db =
     (let namespace =
            (case find_run db runId of Some r \<Rightarrow> run_namespace r | None \<Rightarrow> ''unknown'')
      in db\<lparr>events := events db @
           [\<lparr>ev_run = runId, ev_namespace = namespace, ev_kind = kind, ev_actor = actor,
             ev_payload = payload, ev_emitted = db_now clk\<rparr>]\<rparr>)"

definition transition_payload ::
  "transition_context \<Rightarrow> RunState \<Rightarrow> int \<Rightarrow> (string \<times> json) list" where
  "transition_payload ctx currentState newVersion =
     obj_spread
       [(''previous_state'', JStr (state_value currentState)),
        (''new_state'', JStr (state_value (ctx_target ctx))),
        (''trigger'', JStr (ctx_trigger ctx)),
        (''state_version'', JNum (of_int newVersion)),
        (''claim_epoch'', json_opt (\<lambda>e. JNum (of_int e)) (ctx_epoch ctx)),
        (''error_message'', json_opt JStr (ctx_error_message ctx)),
        (''error_code'', json_opt JStr (ctx_error_code ctx)),
        (''failure_class'', json_opt (\<lambda>c. JStr (failure_value c)) (ctx_failure_class ctx)),
        (''stage'', json_opt (\<lambda>s. JStr (stage_value s)) (ctx_stage ctx))]
       (ctx_metadata ctx)"

subsection \<open>The transition\<close>

text \<open>The checks on the row that was read: an early return, or none of them applies.\<close>

definition transition_guard ::
  "transition_context \<Rightarrow> run_row \<Rightarrow> transition_result option" where
  "transition_guard ctx row =
     (let currentState = run_status row;
          currentVersion = run_version row;
          reject = (\<lambda>e. Some \<lparr>tr_success = False, tr_state = currentState,
                             tr_version = currentVersion, tr_error = Some e\<rparr>) in
      if isTerminalState currentState \<and> currentState = ctx_target ctx
      then Some \<lparr>tr_success = True, tr_state = currentState, tr_version = currentVersion,
                 tr_error = None\<rparr>
      else if isTerminalState currentState \<and> currentState \<noteq> ctx_target ctx
      then reject (''Run is in terminal state '' @ [CHR 0x27] @ state_value currentState
             @ [CHR 0x27] @ '', cannot transition to '' @ [CHR 0x27]
             @ state_value (ctx_target ctx) @ [CHR 0x27])
      else if \<not> isValidTransition currentState (ctx_target ctx)
      then reject (''Invalid transition from '' @ [CHR 0x27] @ state_value currentState
             @ [CHR 0x27] @ '' to '' @ [CHR 0x27] @ state_value (ctx_target ctx) @ [CHR 0x27])
      else if currentVersion \<noteq> ctx_expected ctx
      then reject (''State version mismatch: expected '' @ show_int (ctx_expected ctx)
             @ '', actual '' @ show_int currentVersion)
      else case ctx_epoch ctx of
          None \<Rightarrow> None
        | Some e \<Rightarrow>
            (case run_epoch row of
               None \<Rightarrow> reject (''Claim epoch provided ('' @ show_int e
                         @ '') but run has no claim epoch'')
             | Some e' \<Rightarrow>
                 if e' \<noteq> e
                 then reject (''Claim epoch mismatch: expected '' @ show_int e
                        @ '', actual '' @ show_int e')
                 else None))"

text \<open>What \<open>UPDATE symphony_run SET \<dots>\<close> writes into a row, with the trigger's stamp.\<close>

definition transition_set :: "clock \<Rightarrow> transition_context \<Rightarrow> int \<Rightarrow> run_row \<Rightarrow> run_row" where
  "transition_set clk ctx newVersion r =
     set_symphony_run_updated_at clk
       (r\<lparr>run_status := ctx_target ctx,
          run_version := newVersion,
          run_error_message :=
            (case ctx_error_message ctx of Some m \<Rightarrow> Some m | None \<Rightarrow> run_error_message r),
          run_error_code :=
            (case ctx_error_code ctx of Some c \<Rightarrow> Some c | None \<Rightarrow> run_error_code r),
          run_started :=
            (if run_started r = None \<and> ctx_target ctx \<noteq> Unclaimed then Some (js_now clk)
             else run_started r),
          run_completed :=
            (if isTerminalState (ctx_target ctx) then Some (js_now clk) else run_completed r)\<rparr>)"

definition transition_cas :: "transition_context \<Rightarrow> run_row \<Rightarrow> bool" where
  "transition_cas ctx r = (run_id r = ctx_run ctx \<and> run_version r = ctx_expected ctx)"

definition transition_update ::
  "clock \<Rightarrow> transition_context \<Rightarrow> int \<Rightarrow> symphony_db \<Rightarrow> symphony_db" where
  "transition_update clk ctx newVersion db =
     db\<lparr>runs := sql_update (transition_cas ctx) (transition_set clk ctx newVersion) (runs db)\<rparr>"

text \<open>The write half, given the row that was read: the update, then the event.\<close>

definition transition_commit ::
  "clock \<Rightarrow> transition_context \<Rightarrow> run_row \<Rightarrow> symphony_db \<Rightarrow> transition_result \<times> symphony_db"
where
  "transition_commit clk ctx row db =
     (let newVersion = run_version row + 1 in
      if sql_count (transition_cas ctx) (runs db) = 0
      then (\<lparr>tr_success = False, tr_state = run_status row, tr_version = run_version row,
             tr_error = Some ''Concurrent modification detected (CAS failed)''\<rparr>, db)
      else (\<lparr>tr_success = True, tr_state = ctx_target ctx, tr_version = newVersion,
             tr_error = None\<rparr>,
            recordEvent clk (ctx_run ctx) ''state_transition'' (ctx_actor ctx)
              (transition_payload ctx (run_status row) newVersion)
              (transition_update clk ctx newVersion db)))"

definition transition ::
  "clock \<Rightarrow> transition_context \<Rightarrow> symphony_db \<Rightarrow> transition_result \<times> symphony_db" where
  "transition clk ctx db =
     (case find_run db (ctx_run ctx) of
        None \<Rightarrow>
          (\<lparr>tr_success = False, tr_state = Unclaimed, tr_version = 0,
            tr_error = Some (''Run '' @ ctx_run ctx @ '' not found'')\<rparr>, db)
      | Some row \<Rightarrow>
          (case transition_guard ctx row of
             Some r \<Rightarrow> (r, db)
           | None \<Rightarrow> transition_commit clk ctx row db))"

subsection \<open>What a transition does\<close>

text \<open>The condition under which a row is moved.\<close>

definition transition_applies :: "transition_context \<Rightarrow> run_row \<Rightarrow> bool" where
  "transition_applies ctx r \<longleftrightarrow>
     run_id r = ctx_run ctx \<and> isValidTransition (run_status r) (ctx_target ctx) \<and>
     run_version r = ctx_expected ctx \<and>
     (case ctx_epoch ctx of None \<Rightarrow> True | Some e \<Rightarrow> run_epoch r = Some e)"

lemma transition_guard_None:
  "transition_guard ctx r = None \<longleftrightarrow>
     isValidTransition (run_status r) (ctx_target ctx) \<and> run_version r = ctx_expected ctx \<and>
     (case ctx_epoch ctx of None \<Rightarrow> True | Some e \<Rightarrow> run_epoch r = Some e)"
  by (auto simp: transition_guard_def Let_def dest: terminal_no_successor split: option.splits)

lemma transition_guard_Some:
  assumes "transition_guard ctx r = Some res"
  shows "tr_state res = run_status r" and "tr_version res = run_version r"
    and "tr_success res \<longleftrightarrow> isTerminalState (run_status r) \<and> run_status r = ctx_target ctx"
  using assms by (auto simp: transition_guard_def Let_def split: if_splits option.splits)

lemma transition_set_simps [simp]:
  "run_id (transition_set clk ctx v r) = run_id r"
  "run_status (transition_set clk ctx v r) = ctx_target ctx"
  "run_version (transition_set clk ctx v r) = v"
  "run_epoch (transition_set clk ctx v r) = run_epoch r"
  "run_namespace (transition_set clk ctx v r) = run_namespace r"
  "run_updated (transition_set clk ctx v r) = db_now clk"
  by (simp_all add: transition_set_def set_symphony_run_updated_at_def)

lemma find_run_recordEvent [frame_simps, simp]:
  "find_run (recordEvent clk i k a p db) j = find_run db j"
  "runs (recordEvent clk i k a p db) = runs db"
  "run_keys (recordEvent clk i k a p db) = run_keys db"
  by (simp_all add: recordEvent_def Let_def)

lemma find_run_transition_update:
  "find_run (transition_update clk ctx v db) j =
     map_option (\<lambda>r. if transition_cas ctx r then transition_set clk ctx v r else r)
       (find_run db j)"
  by (simp add: transition_update_def find_run_runs_update)

lemma run_keys_transition_update [simp]:
  "run_keys (transition_update clk ctx v db) = run_keys db"
  by (simp add: transition_update_def run_keys_runs_update)

lemma transition_cas_found:
  assumes "find_run db (ctx_run ctx) = Some r" and "run_version r = ctx_expected ctx"
  shows "sql_count (transition_cas ctx) (runs db) \<noteq> 0"
proof -
  from assms(1) have "r \<in> set (runs db)" and "run_id r = ctx_run ctx"
    by (rule find_run_in, rule find_run_id)
  with assms(2) show ?thesis
    by (auto simp: sql_count_eq_0 transition_cas_def)
qed

lemma transition_not_applies:
  assumes "\<And>r. find_run db (ctx_run ctx) = Some r \<Longrightarrow> \<not> transition_applies ctx r"
  shows "snd (transition clk ctx db) = db"
proof (cases "find_run db (ctx_run ctx)")
  case None
  then show ?thesis by (simp add: transition_def)
next
  case (Some r)
  with assms [OF Some] have "transition_guard ctx r \<noteq> None"
    using find_run_id [OF Some] by (auto simp: transition_guard_None transition_applies_def)
  with Some show ?thesis by (auto simp: transition_def)
qed

lemma transition_applied:
  assumes "find_run db (ctx_run ctx) = Some r" and "transition_applies ctx r"
  shows "transition clk ctx db =
    (\<lparr>tr_success = True, tr_state = ctx_target ctx, tr_version = run_version r + 1,
      tr_error = None\<rparr>,
     recordEvent clk (ctx_run ctx) ''state_transition'' (ctx_actor ctx)
       (transition_payload ctx (run_status r) (run_version r + 1))
       (transition_update clk ctx (run_version r + 1) db))"
proof -
  from assms(2) have "transition_guard ctx r = None" and "run_version r = ctx_expected ctx"
    by (simp_all add: transition_guard_None transition_applies_def)
  then show ?thesis
    using assms(1) transition_cas_found [OF assms(1)]
    by (simp add: transition_def transition_commit_def Let_def)
qed

lemma transition_run_after:
  assumes "find_run db (ctx_run ctx) = Some r" and "transition_applies ctx r"
  shows "find_run (snd (transition clk ctx db)) j =
    (if j = ctx_run ctx then Some (transition_set clk ctx (run_version r + 1) r)
     else find_run db j)"
proof -
  have cas: "transition_cas ctx q \<longleftrightarrow> q = r" if "find_run db k = Some q" for q k
    using that assms find_run_id [OF that]
    by (auto simp: transition_cas_def transition_applies_def)
  have rid: "run_id r = ctx_run ctx" using assms(1) by (rule find_run_id)
  show ?thesis
  proof (cases "find_run db j")
    case None
    with assms(1) show ?thesis
      by (auto simp: transition_applied [OF assms] find_run_transition_update)
  next
    case (Some q)
    with assms(1) cas [OF Some] find_run_id [OF Some] rid show ?thesis
      by (auto simp: transition_applied [OF assms] find_run_transition_update)
  qed
qed

lemma run_keys_transition [simp]: "run_keys (snd (transition clk ctx db)) = run_keys db"
  by (simp add: transition_def transition_commit_def Let_def split: option.splits)

subsection \<open>The run store as a versioned machine\<close>

type_synonym transition_call = "clock \<times> transition_context"

definition apply_call :: "transition_call \<Rightarrow> symphony_db \<Rightarrow> symphony_db" where
  "apply_call call db = snd (transition (fst call) (snd call) db)"

definition run_version_of :: "symphony_db \<Rightarrow> uuid \<Rightarrow> int option" where
  "run_version_of db i = map_option run_version (find_run db i)"

definition run_status_of :: "symphony_db \<Rightarrow> uuid \<Rightarrow> RunState option" where
  "run_status_of db i = map_option run_status (find_run db i)"

lemma apply_call_cases:
  "apply_call call db = db \<or>
   (\<exists>r. find_run db (ctx_run (snd call)) = Some r \<and> transition_applies (snd call) r \<and>
      find_run (apply_call call db) = (find_run db)(ctx_run (snd call) :=
        Some (transition_set (fst call) (snd call) (run_version r + 1) r)))"
proof (cases "\<exists>r. find_run db (ctx_run (snd call)) = Some r \<and> transition_applies (snd call) r")
  case True
  then obtain r where "find_run db (ctx_run (snd call)) = Some r" "transition_applies (snd call) r"
    by blast
  then show ?thesis
    by (intro disjI2 exI [of _ r] conjI ext) (simp_all add: apply_call_def transition_run_after)
next
  case False
  then have "apply_call call db = db"
    unfolding apply_call_def by (intro transition_not_applies) blast
  then show ?thesis ..
qed

interpretation run_store: cas_machine run_version_of apply_call
  "\<lambda>call. ctx_run (snd call)" "\<lambda>call. ctx_expected (snd call)" run_status_of run_edge
proof unfold_locales
  fix c :: transition_call and s :: symphony_db
  show "apply_call c s = s \<or>
    (run_version_of s (ctx_run (snd c)) = Some (ctx_expected (snd c)) \<and>
     run_version_of (apply_call c s) =
       (run_version_of s)(ctx_run (snd c) := Some (ctx_expected (snd c) + 1)))"
    using apply_call_cases [of c s]
    by (auto simp: run_version_of_def transition_applies_def fun_eq_iff)
next
  fix c :: transition_call and s :: symphony_db
  assume "apply_call c s \<noteq> s"
  then obtain r where r: "find_run s (ctx_run (snd c)) = Some r" "transition_applies (snd c) r"
      "find_run (apply_call c s) = (find_run s)(ctx_run (snd c) :=
        Some (transition_set (fst c) (snd c) (run_version r + 1) r))"
    using apply_call_cases [of c s] by blast
  then have "run_status_of s (ctx_run (snd c)) = Some (run_status r) \<and>
    run_edge (run_status r) (ctx_target (snd c)) \<and>
    run_status_of (apply_call c s) =
      (run_status_of s)(ctx_run (snd c) := Some (ctx_target (snd c)))"
    by (auto simp: run_status_of_def run_edge_def transition_applies_def fun_eq_iff)
  then show "\<exists>q q'. run_status_of s (ctx_run (snd c)) = Some q \<and> run_edge q q' \<and>
    run_status_of (apply_call c s) = (run_status_of s)(ctx_run (snd c) := Some q')"
    by blast
qed

subsection \<open>Snapshots, stages and retry eligibility\<close>

record run_snapshot =
  sn_id :: uuid
  sn_namespace :: string
  sn_work_item :: uuid
  sn_project :: "uuid option"
  sn_orchestrator :: "string option"
  sn_status :: RunState
  sn_stage :: "RunStage option"
  sn_version :: int
  sn_epoch :: "int option"
  sn_attempt :: int
  sn_error_message :: "string option"
  sn_error_code :: "string option"
  sn_started :: "millis option"
  sn_updated :: millis

text \<open>The snapshot's epoch comes from the claim the run points to (\<open>LEFT JOIN\<close>), the fence of
  a transition from the run's own column.\<close>

definition getRunSnapshot :: "symphony_db \<Rightarrow> uuid \<Rightarrow> run_snapshot option" where
  "getRunSnapshot db runId =
     map_option (\<lambda>r.
       \<lparr>sn_id = run_id r, sn_namespace = run_namespace r, sn_work_item = run_work_item r,
        sn_project = run_project r, sn_orchestrator = run_orchestrator r,
        sn_status = run_status r, sn_stage = run_stage r, sn_version = run_version r,
        sn_epoch =
          (case run_claim r of None \<Rightarrow> None
           | Some c \<Rightarrow> map_option claim_epoch (by_key claim_id c (claims db))),
        sn_attempt = run_attempt r, sn_error_message = run_error_message r,
        sn_error_code = run_error_code r, sn_started = run_started r,
        sn_updated = run_updated r\<rparr>) (find_run db runId)"

definition updateStage ::
  "clock \<Rightarrow> uuid \<Rightarrow> string \<Rightarrow> symphony_db \<Rightarrow> RunStage option \<times> symphony_db" where
  "updateStage clk runId output db =
     (case inferStage output of
        None \<Rightarrow> (None, db)
      | Some stage \<Rightarrow>
          (Some stage,
           db\<lparr>runs := sql_update (\<lambda>r. run_id r = runId)
                (\<lambda>r. set_symphony_run_updated_at clk (r\<lparr>run_stage := Some stage\<rparr>)) (runs db)\<rparr>))"

record retry_check =
  rc_class :: "FailureClass option"
  rc_can_retry :: bool
  rc_max_retries :: enat
  rc_recovery :: "RecoveryStrategy option"

definition classifyAndCheckRetry ::
  "string \<Rightarrow> string option \<Rightarrow> nat \<Rightarrow> FailureClass option \<Rightarrow> retry_check" where
  "classifyAndCheckRetry errorMessage errorCode currentRetryCount override =
     (case (case override of Some c \<Rightarrow> Some c | None \<Rightarrow> classifyFailure errorMessage errorCode) of
        None \<Rightarrow> \<lparr>rc_class = None, rc_can_retry = False, rc_max_retries = 0, rc_recovery = None\<rparr>
      | Some fc \<Rightarrow>
          (let maxRetries =
                 (case map_of FAILURE_RETRY_LIMITS fc of Some m \<Rightarrow> m | None \<Rightarrow> 0) in
           \<lparr>rc_class = Some fc, rc_can_retry = (enat currentRetryCount < maxRetries),
            rc_max_retries = maxRetries, rc_recovery = map_of FAILURE_RECOVERY fc\<rparr>))"

subsection \<open>The watchdog\<close>

fun timeoutTargetState :: "RunState \<Rightarrow> RunState option" where
  "timeoutTargetState Claimed = Some Orphaned"
| "timeoutTargetState Provisioning = Some Failed"
| "timeoutTargetState Prompting = Some Failed"
| "timeoutTargetState Running = Some Stalled"
| "timeoutTargetState VerifyingResult = Some Failed"
| "timeoutTargetState MergePending = Some Failed"
| "timeoutTargetState PostMergeVerify = Some Failed"
| "timeoutTargetState IssueClosing = Some Failed"
| "timeoutTargetState AwaitingApproval = Some Paused"
| "timeoutTargetState Terminating = Some CleanupFailed"
| "timeoutTargetState _ = None"

record watchdog_options =
  wd_overrides :: "(RunState \<times> int) list"
  wd_batch :: "nat option"

record watchdog_move =
  wm_run :: uuid
  wm_from :: RunState
  wm_to :: RunState

text \<open>\<open>SELECT \<dots> ORDER BY updated_at LIMIT n FOR UPDATE SKIP LOCKED\<close>: the rows in a state with
  a timeout that are not completed and that no other transaction holds.\<close>

definition watchdog_eligible :: "(uuid \<Rightarrow> bool) \<Rightarrow> run_row \<Rightarrow> bool" where
  "watchdog_eligible locked r =
     (run_status r \<in> set (map fst STATE_TIMEOUTS) \<and> run_completed r = None \<and> \<not> locked (run_id r))"

definition watchdog_select :: "(uuid \<Rightarrow> bool) \<Rightarrow> nat \<Rightarrow> symphony_db \<Rightarrow> run_row list" where
  "watchdog_select locked batch db =
     take batch (sort_key run_updated (filter (watchdog_eligible locked) (runs db)))"

definition watchdog_timeout :: "watchdog_options \<Rightarrow> RunState \<Rightarrow> int option" where
  "watchdog_timeout opts s =
     (case map_of (wd_overrides opts) s of Some t \<Rightarrow> Some t | None \<Rightarrow> map_of STATE_TIMEOUTS s)"

text \<open>The call the loop makes for a row, if the row's time is up.\<close>

definition watchdog_call ::
  "clock \<Rightarrow> string \<Rightarrow> watchdog_options \<Rightarrow> run_row \<Rightarrow> transition_call option" where
  "watchdog_call clk orchestratorId opts r =
     (let state = run_status r;
          elapsed = of_int (js_now clk - run_updated r) / 1000 :: rat in
      case watchdog_timeout opts state of
        None \<Rightarrow> None
      | Some timeout \<Rightarrow>
          if timeout = 0 then None
          else if elapsed < of_int timeout then None
          else (case timeoutTargetState state of
              None \<Rightarrow> None
            | Some targetState \<Rightarrow>
                Some (clk,
                  \<lparr>ctx_run = run_id r, ctx_target = targetState,
                   ctx_expected = run_version r, ctx_epoch = None,
                   ctx_actor = orchestratorId,
                   ctx_trigger = ''timeout:'' @ state_value state @ '':''
                     @ show_int (math_round elapsed) @ ''s'',
                   ctx_error_message = Some (''State '' @ [CHR 0x27] @ state_value state
                     @ [CHR 0x27] @ '' timed out after '' @ show_int (math_round elapsed)
                     @ ''s (limit: '' @ show_int timeout @ ''s)''),
                   ctx_error_code = None, ctx_failure_class = None, ctx_stage = None,
                   ctx_metadata = []\<rparr>)))"

definition watchdog_step ::
  "clock \<Rightarrow> string \<Rightarrow> watchdog_options \<Rightarrow> run_row \<Rightarrow> watchdog_move list \<times> symphony_db \<Rightarrow>
   watchdog_move list \<times> symphony_db" where
  "watchdog_step clk orchestratorId opts r acc =
     (case watchdog_call clk orchestratorId opts r of
        None \<Rightarrow> acc
      | Some call \<Rightarrow>
          (case transition (fst call) (snd call) (snd acc) of
             (result, db') \<Rightarrow>
               (if tr_success result
                then fst acc @ [\<lparr>wm_run = run_id r, wm_from = run_status r,
                                 wm_to = ctx_target (snd call)\<rparr>]
                else fst acc, db')))"

definition watchdogSweep ::
  "clock \<Rightarrow> (uuid \<Rightarrow> bool) \<Rightarrow> string \<Rightarrow> watchdog_options \<Rightarrow> symphony_db \<Rightarrow>
   watchdog_move list \<times> symphony_db" where
  "watchdogSweep clk locked orchestratorId opts db =
     (let batchSize = (case wd_batch opts of Some n \<Rightarrow> n | None \<Rightarrow> 50) in
      fold (watchdog_step clk orchestratorId opts) (watchdog_select locked batchSize db) ([], db))"

text \<open>The condition that a row's time is up.\<close>

definition timed_out :: "clock \<Rightarrow> watchdog_options \<Rightarrow> run_row \<Rightarrow> bool" where
  "timed_out clk opts r \<longleftrightarrow>
     (\<exists>t. watchdog_timeout opts (run_status r) = Some t \<and> t \<noteq> 0 \<and>
        t * 1000 \<le> js_now clk - run_updated r)"

lemma timeoutTarget_valid: "timeoutTargetState s = Some t \<Longrightarrow> isValidTransition s t"
  by (cases s) (auto simp: state_tables)

lemma timeoutTarget_dom: "timeoutTargetState s \<noteq> None \<longleftrightarrow> s \<in> set (map fst STATE_TIMEOUTS)"
  by (cases s) (simp_all add: state_tables)

lemma watchdog_call_Some:
  assumes "watchdog_call clk orch opts r = Some call"
  shows "fst call = clk" and "ctx_run (snd call) = run_id r"
    and "ctx_expected (snd call) = run_version r" and "ctx_epoch (snd call) = None"
    and "timeoutTargetState (run_status r) = Some (ctx_target (snd call))"
    and "timed_out clk opts r"
  using assms
  by (auto simp: watchdog_call_def timed_out_def Let_def not_less field_simps
      split: option.splits if_splits)

lemma watchdog_call_timed_out:
  assumes "timed_out clk opts r" and "run_status r \<in> set (map fst STATE_TIMEOUTS)"
  shows "\<exists>call. watchdog_call clk orch opts r = Some call"
proof -
  obtain t where t: "watchdog_timeout opts (run_status r) = Some t" "t \<noteq> 0"
      "t * 1000 \<le> js_now clk - run_updated r"
    using assms(1) by (auto simp: timed_out_def)
  from t(3) have "(of_int t :: rat) * 1000 \<le> of_int (js_now clk - run_updated r)"
    by (metis of_int_le_iff of_int_mult of_int_numeral)
  then have "\<not> (of_int (js_now clk - run_updated r) / 1000 :: rat) < of_int t"
    by (simp add: field_simps)
  moreover obtain s' where "timeoutTargetState (run_status r) = Some s'"
    using assms(2) timeoutTarget_dom by blast
  ultimately show ?thesis
    using t(1,2) by (simp add: watchdog_call_def Let_def)
qed

lemma watchdog_call_applies:
  "watchdog_call clk orch opts r = Some call \<Longrightarrow> transition_applies (snd call) r"
  using watchdog_call_Some [of clk orch opts r call] timeoutTarget_valid
  by (auto simp: transition_applies_def)

definition watchdog_move_of :: "run_row \<Rightarrow> watchdog_move" where
  "watchdog_move_of r =
     \<lparr>wm_run = run_id r, wm_from = run_status r,
      wm_to = (case timeoutTargetState (run_status r) of Some t \<Rightarrow> t | None \<Rightarrow> run_status r)\<rparr>"

definition watchdog_after ::
  "clock \<Rightarrow> string \<Rightarrow> watchdog_options \<Rightarrow> run_row \<Rightarrow> run_row" where
  "watchdog_after clk orch opts r =
     (case watchdog_call clk orch opts r of
        None \<Rightarrow> r
      | Some call \<Rightarrow> transition_set clk (snd call) (run_version r + 1) r)"

lemma watchdog_after_id [simp]: "run_id (watchdog_after clk orch opts r) = run_id r"
  by (simp add: watchdog_after_def split: option.splits)

lemma watchdog_step_spec:
  assumes "find_run (snd acc) (run_id r) = Some r"
  shows "fst (watchdog_step clk orch opts r acc) =
      fst acc @ (if watchdog_call clk orch opts r = None then [] else [watchdog_move_of r])"
    and "find_run (snd (watchdog_step clk orch opts r acc)) j =
      (if j = run_id r then Some (watchdog_after clk orch opts r) else find_run (snd acc) j)"
proof -
  show "fst (watchdog_step clk orch opts r acc) =
      fst acc @ (if watchdog_call clk orch opts r = None then [] else [watchdog_move_of r])"
  proof (cases "watchdog_call clk orch opts r")
    case None
    then show ?thesis by (simp add: watchdog_step_def)
  next
    case (Some call)
    note c = watchdog_call_Some [OF Some]
    show ?thesis
      using Some transition_applied [of "snd acc" "snd call" r] watchdog_call_applies [OF Some]
        assms c
      by (simp add: watchdog_step_def watchdog_move_of_def)
  qed
  show "find_run (snd (watchdog_step clk orch opts r acc)) j =
      (if j = run_id r then Some (watchdog_after clk orch opts r) else find_run (snd acc) j)"
  proof (cases "watchdog_call clk orch opts r")
    case None
    with assms show ?thesis by (simp add: watchdog_step_def watchdog_after_def)
  next
    case (Some call)
    note c = watchdog_call_Some [OF Some]
    have "find_run (snd acc) (ctx_run (snd call)) = Some r" using assms c(2) by simp
    from transition_run_after [OF this watchdog_call_applies [OF Some], of "fst call" j]
    show ?thesis
      using Some c by (simp add: watchdog_step_def watchdog_after_def split_beta)
  qed
qed

lemma watchdog_fold:
  assumes "distinct (map run_id rs)" and "\<forall>r \<in> set rs. find_run (snd acc) (run_id r) = Some r"
  shows "fst (fold (watchdog_step clk orch opts) rs acc) =
      fst acc @ map watchdog_move_of (filter (\<lambda>r. watchdog_call clk orch opts r \<noteq> None) rs)
    \<and> find_run (snd (fold (watchdog_step clk orch opts) rs acc)) j =
      (if j \<in> run_id ` set rs
       then map_option (watchdog_after clk orch opts) (find_run (snd acc) j)
       else find_run (snd acc) j)"
  using assms
proof (induction rs arbitrary: acc)
  case Nil
  then show ?case by simp
next
  case (Cons r rs)
  let ?acc = "watchdog_step clk orch opts r acc"
  have r: "find_run (snd acc) (run_id r) = Some r" using Cons.prems(2) by simp
  note step = watchdog_step_spec [OF r, of clk orch opts]
  have "\<forall>q \<in> set rs. find_run (snd ?acc) (run_id q) = Some q"
    using Cons.prems by (auto simp: step(2) image_iff)
  with Cons.IH [of ?acc] Cons.prems(1) have
    "fst (fold (watchdog_step clk orch opts) rs ?acc) =
        fst ?acc @ map watchdog_move_of (filter (\<lambda>r. watchdog_call clk orch opts r \<noteq> None) rs)"
    "find_run (snd (fold (watchdog_step clk orch opts) rs ?acc)) j =
        (if j \<in> run_id ` set rs
         then map_option (watchdog_after clk orch opts) (find_run (snd ?acc) j)
         else find_run (snd ?acc) j)"
    by simp_all
  then show ?case
    using Cons.prems(1) r by (auto simp: step image_iff)
qed

lemma watchdog_select_rows:
  assumes "run_keys db"
  shows "distinct (map run_id (watchdog_select locked n db))"
    and "r \<in> set (watchdog_select locked n db) \<Longrightarrow>
      find_run db (run_id r) = Some r \<and> watchdog_eligible locked r"
proof -
  let ?rs = "sort_key run_updated (filter (watchdog_eligible locked) (runs db))"
  have "distinct (map run_id (filter (watchdog_eligible locked) (runs db)))"
    using assms by (simp add: run_keys_def distinct_map_filter)
  then have "distinct (map run_id ?rs)"
    by (metis distinct_map distinct_sort set_sort)
  then show "distinct (map run_id (watchdog_select locked n db))"
    by (metis watchdog_select_def take_map distinct_take)
  show "find_run db (run_id r) = Some r \<and> watchdog_eligible locked r"
    if "r \<in> set (watchdog_select locked n db)"
  proof -
    from that have "r \<in> set ?rs" by (metis watchdog_select_def in_set_takeD)
    then show ?thesis using assms by (simp add: find_run_iff)
  qed
qed

lemma watchdog_call_iff:
  "watchdog_eligible locked r \<Longrightarrow> watchdog_call clk orch opts r \<noteq> None \<longleftrightarrow> timed_out clk opts r"
  using watchdog_call_timed_out [of clk opts r orch] watchdog_call_Some(6) [of clk orch opts r]
  by (auto simp: watchdog_eligible_def)

subsection \<open>Properties\<close>

definition example_ctx :: transition_context where
  "example_ctx =
    \<lparr>ctx_run = ''run-1'', ctx_target = VerifyingResult, ctx_expected = 4, ctx_epoch = None,
     ctx_actor = ''orch-1'', ctx_trigger = ''agent_exit'', ctx_error_message = None,
     ctx_error_code = None, ctx_failure_class = None, ctx_stage = None, ctx_metadata = []\<rparr>"

lemma example_ctx_applies: "transition_applies example_ctx example_run"
  by (simp add: transition_applies_def example_ctx_def example_run_def state_tables)



text \<open>
  C2. Over any sequence of transition calls, by any actors and with any arguments, a run's version
  grows by exactly the number of moves it made and its status follows a path of that length in
  the transition graph.
\<close>

theorem transition_history:
  assumes "find_run db i = Some r"
  shows "\<exists>n r'. find_run (fold apply_call calls db) i = Some r' \<and>
    run_version r' = run_version r + int n \<and>
    (run_edge ^^ n) (run_status r) (run_status r')"
proof -
  have "run_status_of db i = Some (run_status r)" and "run_version_of db i = Some (run_version r)"
    using assms by (simp_all add: run_status_of_def run_version_of_def)
  from run_store.steps_count [OF this, of calls] show ?thesis
    by (auto simp: run_status_of_def run_version_of_def)
qed

theorem transition_history_witness:
  "\<exists>n r'. find_run (fold apply_call [(\<lparr>js_now = 5, db_now = 6\<rparr>, example_ctx)] example_db) ''run-1''
      = Some r' \<and> run_version r' = 4 + int n \<and> (run_edge ^^ n) Running (run_status r')"
  using transition_history [OF find_example_run, of "[(\<lparr>js_now = 5, db_now = 6\<rparr>, example_ctx)]"]
  by (simp add: example_run_def)

text \<open>
  Compare-and-swap has one winner: once a call has moved a run from a version, any later call
  that names the run and that version or an older one changes nothing, whatever happened in
  between.
\<close>

theorem transition_single_winner:
  assumes "find_run db (ctx_run a) = Some r" and "transition_applies a r"
    and "ctx_run b = ctx_run a" and "ctx_expected b \<le> ctx_expected a"
  shows "snd (transition clk' b (fold apply_call calls (snd (transition clk a db)))) =
    fold apply_call calls (snd (transition clk a db))"
proof -
  have "find_run (apply_call (clk, a) db) (ctx_run a) \<noteq> find_run db (ctx_run a)"
  proof
    assume "find_run (apply_call (clk, a) db) (ctx_run a) = find_run db (ctx_run a)"
    with assms(1) have "transition_set clk a (run_version r + 1) r = r"
      by (simp add: apply_call_def transition_run_after [OF assms(1,2)])
    from arg_cong [OF this, of run_version] show False by simp
  qed
  then have "apply_call (clk, a) db \<noteq> db" by metis
  from run_store.single_winner [of "(clk, a)" db "(clk', b)" calls, OF this] assms(3,4)
  show ?thesis by (simp add: apply_call_def)
qed

theorem transition_single_winner_witness:
  "snd (transition \<lparr>js_now = 9, db_now = 9\<rparr> (example_ctx\<lparr>ctx_target := Failed\<rparr>)
     (snd (transition \<lparr>js_now = 5, db_now = 6\<rparr> example_ctx example_db))) =
   snd (transition \<lparr>js_now = 5, db_now = 6\<rparr> example_ctx example_db)"
proof -
  have f: "find_run example_db (ctx_run example_ctx) = Some example_run"
    using find_example_run by (simp add: example_ctx_def)
  show ?thesis
    using transition_single_winner [OF f example_ctx_applies,
        of "example_ctx\<lparr>ctx_target := Failed\<rparr>" "\<lparr>js_now = 9, db_now = 9\<rparr>" "[]"
        "\<lparr>js_now = 5, db_now = 6\<rparr>"]
    by simp
qed


definition watchdog_defaults :: watchdog_options where
  "watchdog_defaults = \<lparr>wd_overrides = [], wd_batch = None\<rparr>"


text \<open>\<open>n\<close> healthy runs that started a moment before a claim that is never picked up.\<close>

definition starved_db :: "nat \<Rightarrow> symphony_db" where
  "starved_db n = empty_db\<lparr>runs :=
     map (\<lambda>k. example_run\<lparr>run_id := show_nat k, run_status := Running\<rparr>) [0..<n]
     @ [example_run\<lparr>run_id := ''stuck'', run_status := Claimed, run_updated := 1\<rparr>]\<rparr>"

definition starved_clock :: clock where
  "starved_clock = \<lparr>js_now = 3599999, db_now = 3599999\<rparr>"

text \<open>
  The batch limit is applied before the timeouts are looked at, so a sweep can starve: with as
  many young \<open>Running\<close> runs as the batch is large, a claim that is an hour past its 60 seconds
  (and eligible) is never reached, and the sweep does nothing, for every batch size.
\<close>

theorem watchdog_starvation:
  "watchdogSweep starved_clock (\<lambda>_. False) orch \<lparr>wd_overrides = [], wd_batch = Some n\<rparr>
     (starved_db n) = ([], starved_db n) \<and>
   (\<exists>r. List.member (runs (starved_db n)) r \<and> run_id r = ''stuck'' \<and>
     watchdog_eligible (\<lambda>_. False) r \<and>
     timed_out starved_clock \<lparr>wd_overrides = [], wd_batch = Some n\<rparr> r)"
proof -
  let ?opts = "\<lparr>wd_overrides = [], wd_batch = Some n\<rparr>"
  let ?young = "map (\<lambda>k. example_run\<lparr>run_id := show_nat k, run_status := Running\<rparr>) [0..<n]"
  let ?stuck = "example_run\<lparr>run_id := ''stuck'', run_status := Claimed, run_updated := 1\<rparr>"
  have el: "watchdog_eligible (\<lambda>_. False) r" if "r \<in> set (?young @ [?stuck])" for r
    using that by (auto simp: watchdog_eligible_def example_run_def state_tables)
  then have "filter (watchdog_eligible (\<lambda>_. False)) (runs (starved_db n)) = ?young @ [?stuck]"
    by (simp add: starved_db_def empty_db_def)
  moreover have "sorted (map run_updated (?young @ [?stuck]))"
    by (simp add: example_run_def sorted_append comp_def map_replicate_const sorted_replicate)
  ultimately have select: "watchdog_select (\<lambda>_. False) n (starved_db n) = ?young"
    unfolding watchdog_select_def by (simp only: sort_key_id_if_sorted) simp
  have young: "watchdog_call starved_clock orch ?opts r = None" if "r \<in> set ?young" for r
    using that by (auto simp: watchdog_call_def watchdog_timeout_def example_run_def state_tables
        starved_clock_def)
  have "fold (watchdog_step starved_clock orch ?opts) rs acc = acc"
    if "\<And>r. r \<in> set rs \<Longrightarrow> watchdog_call starved_clock orch ?opts r = None" for rs acc
    using that by (induction rs) (simp_all add: watchdog_step_def)
  then have "watchdogSweep starved_clock (\<lambda>_. False) orch ?opts (starved_db n) =
      ([], starved_db n)"
    using young by (simp only: watchdogSweep_def watchdog_options.simps option.case Let_def select)
  moreover have "timed_out starved_clock ?opts ?stuck"
    by (simp add: timed_out_def watchdog_timeout_def example_run_def state_tables
        starved_clock_def)
  ultimately show ?thesis
    using el [of ?stuck]
    by (intro conjI exI [of _ ?stuck]) (simp_all add: starved_db_def empty_db_def)
qed

end
