(* ===== verification/Roles.thy ===== *)
theory Roles
  imports Database
begin

text \<open>
  The context of a request and the role check of \<^verbatim>\<open>src/api/auth/middleware.ts\<close>, which the
  endpoints of the runs and those of the other entities share.
\<close>

record NamespaceContext =
  nc_store :: string
  nc_query :: "string list"
  nc_m2m :: bool
  nc_roles :: "(string \<times> string) list"

text \<open>The names a plain object has without having them: reading one of them from \<open>roles\<close> gives
  a function or an object, which is not falsy and not a role.\<close>

definition object_prototype :: "string list" where
  "object_prototype = [''constructor'', ''toString'', ''toLocaleString'', ''valueOf'', ''hasOwnProperty'',
     ''isPrototypeOf'', ''propertyIsEnumerable'', ''__proto__'', ''__defineGetter__'', ''__defineSetter__'',
     ''__lookupGetter__'', ''__lookupSetter__'']"

datatype 'a property = Own 'a | Inherited

definition js_get :: "(string \<times> 'a) list \<Rightarrow> string \<Rightarrow> 'a property option" where
  "js_get obj key =
     (case map_of obj key of Some v \<Rightarrow> Some (Own v)
      | None \<Rightarrow> if List.member object_prototype key then Some Inherited else None)"

datatype NamespaceAccess = Read | ReadWrite

definition requireMinRole :: "NamespaceContext option \<Rightarrow> string \<Rightarrow> NamespaceAccess \<Rightarrow> string + unit" where
  "requireMinRole context namespace minRole =
     (case context of
        None \<Rightarrow> Inr ()
      | Some ctx \<Rightarrow>
          if nc_m2m ctx then Inr ()
          else
            (let userAccess = js_get (nc_roles ctx) namespace in
             if userAccess = None \<or> userAccess = Some (Own []) then Inl ''No access to namespace''
             else if minRole = ReadWrite \<and> userAccess = Some (Own ''read'')
             then Inl (''Requires readwrite access (current: '' @ ''read'' @ '')'')
             else Inr ()))"

end
