(* ===== verification/RunRoutes.thy ===== *)
theory RunRoutes
  imports Roles
begin

text \<open>
  \<^verbatim>\<open>src/api/symphony/routes.ts\<close>: the four endpoints with which a person moves a run
  (cancel, retry, approve, merge), with the checks every write endpoint makes first: the shape of
  the id, the namespace of the request and the role in it (\<^verbatim>\<open>src/api/auth/middleware.ts\<close>).
  Each endpoint is a single \<open>UPDATE\<close> guarded by the run's status. None of them touches
  \<open>state_version\<close> or records an event.
\<close>

subsection \<open>The request\<close>

datatype route_reply =
    RouteError nat string string
  | RouteData run_row
  | RouteSilent

definition getWriteNamespace :: "NamespaceContext option \<Rightarrow> route_reply + string" where
  "getWriteNamespace nsctx =
     (case nsctx of
        None \<Rightarrow> Inl (RouteError 403 ''NAMESPACE_REQUIRED'' ''Namespace access denied'')
      | Some ctx \<Rightarrow>
          (case requireMinRole nsctx (nc_store ctx) ReadWrite of
             Inl m \<Rightarrow> Inl (RouteError 403 ''INSUFFICIENT_ROLE'' m)
           | Inr _ \<Rightarrow> Inr (nc_store ctx)))"

definition isValidUUID :: "string \<Rightarrow> bool" where
  "isValidUUID s = uuid_text s"

subsection \<open>The endpoints\<close>

text \<open>The skeleton the four handlers share: the checks in order, then the guarded update. An empty
  namespace is falsy: the handler returns without a reply.\<close>

definition run_endpoint ::
  "(run_row \<Rightarrow> bool) \<Rightarrow> (run_row \<Rightarrow> run_row) \<Rightarrow> string \<Rightarrow> clock \<Rightarrow> NamespaceContext option \<Rightarrow> string \<Rightarrow>
   symphony_db \<Rightarrow> route_reply \<times> symphony_db"
where
  "run_endpoint allowed assign notFound clk nsctx id' db =
     (if \<not> isValidUUID id' then (RouteError 400 ''INVALID_UUID'' ''Invalid run ID'', db)
      else (case getWriteNamespace nsctx of
          Inl reply \<Rightarrow> (reply, db)
        | Inr namespace \<Rightarrow>
            if namespace = [] then (RouteSilent, db)
            else
              (let hit = (\<lambda>r. run_id r = id' \<and> run_namespace r = namespace \<and> allowed r);
                   upd = (\<lambda>r. set_symphony_run_updated_at clk (assign r))
               in (case find hit (runs db) of
                     None \<Rightarrow> (RouteError 404 ''NOT_FOUND'' notFound, db)
                   | Some r \<Rightarrow> (RouteData (upd r),
                               db\<lparr>runs := sql_update hit upd (runs db)\<rparr>)))))"

definition cancel_run where
  "cancel_run clk =
     run_endpoint
       (\<lambda>r. run_status r \<notin> {Succeeded, Cancelled, Terminated, Released, CleanupFailed})
       (\<lambda>r. r\<lparr>run_status := Cancelled, run_completed := Some (db_now clk)\<rparr>)
       ''Run not found or already in terminal state'' clk"

definition retry_run where
  "retry_run clk =
     run_endpoint (\<lambda>r. run_status r \<in> {Failed, Stalled, Paused})
       (\<lambda>r. r\<lparr>run_status := RetryQueued, run_retry_count := run_retry_count r + 1\<rparr>)
       ''Run not found or not in retryable state'' clk"

definition approve_run where
  "approve_run clk =
     run_endpoint (\<lambda>r. run_status r = AwaitingApproval)
       (\<lambda>r. r\<lparr>run_status := Running\<rparr>)
       ''Run not found or not awaiting approval'' clk"

definition merge_run where
  "merge_run clk =
     run_endpoint (\<lambda>r. run_status r \<in> {VerifyingResult, AwaitingApproval})
       (\<lambda>r. r\<lparr>run_status := MergePending\<rparr>)
       ''Run not found or not in mergeable state'' clk"

datatype run_action = CancelRun | RetryRun | ApproveRun | MergeRun

fun run_route ::
  "run_action \<Rightarrow> clock \<Rightarrow> NamespaceContext option \<Rightarrow> string \<Rightarrow> symphony_db \<Rightarrow> route_reply \<times> symphony_db"
where
  "run_route CancelRun = cancel_run"
| "run_route RetryRun = retry_run"
| "run_route ApproveRun = approve_run"
| "run_route MergeRun = merge_run"

subsection \<open>What an endpoint does\<close>

text \<open>The contract, stated apart from the handlers: who may act, on which states, with which
  result.\<close>

definition may_write :: "NamespaceContext option \<Rightarrow> string \<Rightarrow> bool" where
  "may_write nsctx namespace =
     (case nsctx of None \<Rightarrow> False
      | Some ctx \<Rightarrow> nc_store ctx = namespace \<and> namespace \<noteq> [] \<and>
          (nc_m2m ctx \<or> js_get (nc_roles ctx) namespace \<notin> {None, Some (Own []), Some (Own ''read'')}))"

fun action_target :: "run_action \<Rightarrow> RunState" where
  "action_target CancelRun = Cancelled"
| "action_target RetryRun = RetryQueued"
| "action_target ApproveRun = Running"
| "action_target MergeRun = MergePending"

text \<open>Acting on a state: the table's edge, or one of the two cancellations it does not have.\<close>

definition action_allowed :: "run_action \<Rightarrow> RunState \<Rightarrow> bool" where
  "action_allowed a s =
     (case a of
        CancelRun \<Rightarrow> isValidTransition s Cancelled \<or> s = Failed \<or> s = Terminating
      | RetryRun \<Rightarrow> isValidTransition s RetryQueued
      | ApproveRun \<Rightarrow> isValidTransition s Running \<and> s \<noteq> Prompting
      | MergeRun \<Rightarrow> isValidTransition s MergePending)"

definition action_effect :: "run_action \<Rightarrow> clock \<Rightarrow> run_row \<Rightarrow> run_row" where
  "action_effect a clk r = set_symphony_run_updated_at clk
     (let r' = r\<lparr>run_status := action_target a\<rparr> in
      (case a of
         CancelRun \<Rightarrow> r'\<lparr>run_completed := Some (db_now clk)\<rparr>
       | RetryRun \<Rightarrow> r'\<lparr>run_retry_count := run_retry_count r + 1\<rparr>
       | _ \<Rightarrow> r'))"

lemma getWriteNamespace_Inr [outcome_iff]:
  "getWriteNamespace nsctx = Inr n \<and> n \<noteq> [] \<longleftrightarrow> may_write nsctx n"
  by (auto simp: getWriteNamespace_def requireMinRole_def may_write_def Let_def
      split: option.splits sum.splits if_splits)

lemma getWriteNamespace_Inl:
  "getWriteNamespace nsctx = Inl reply \<Longrightarrow> \<exists>c m. reply = RouteError 403 c m"
  by (auto simp: getWriteNamespace_def split: option.splits sum.splits)

lemma action_effect_simps [simp]:
  "run_id (action_effect a clk r) = run_id r"
  "run_version (action_effect a clk r) = run_version r"
  "run_epoch (action_effect a clk r) = run_epoch r"
  "run_namespace (action_effect a clk r) = run_namespace r"
  "run_status (action_effect a clk r) = action_target a"
  "run_updated (action_effect a clk r) = db_now clk"
  by (cases a; simp add: action_effect_def set_symphony_run_updated_at_def)+

text \<open>The message of the 404 each handler answers when its update hit no row.\<close>

fun action_not_found :: "run_action \<Rightarrow> string" where
  "action_not_found CancelRun = ''Run not found or already in terminal state''"
| "action_not_found RetryRun = ''Run not found or not in retryable state''"
| "action_not_found ApproveRun = ''Run not found or not awaiting approval''"
| "action_not_found MergeRun = ''Run not found or not in mergeable state''"

lemma run_route_endpoint:
  "run_route a clk =
     run_endpoint (\<lambda>r. action_allowed a (run_status r))
       (\<lambda>r. case a of
          CancelRun \<Rightarrow> r\<lparr>run_status := Cancelled, run_completed := Some (db_now clk)\<rparr>
        | RetryRun \<Rightarrow> r\<lparr>run_status := RetryQueued, run_retry_count := run_retry_count r + 1\<rparr>
        | _ \<Rightarrow> r\<lparr>run_status := action_target a\<rparr>)
       (action_not_found a) clk"
proof -
  have c: "s \<notin> {Succeeded, Cancelled, Terminated, Released, CleanupFailed} \<longleftrightarrow>
      action_allowed CancelRun s" for s
    by (cases s) (simp_all add: action_allowed_def state_tables)
  have r: "s \<in> {Failed, Stalled, Paused} \<longleftrightarrow> action_allowed RetryRun s" for s
    by (cases s) (simp_all add: action_allowed_def state_tables)
  have a: "s = AwaitingApproval \<longleftrightarrow> action_allowed ApproveRun s" for s
    by (cases s) (simp_all add: action_allowed_def state_tables)
  have m: "s \<in> {VerifyingResult, AwaitingApproval} \<longleftrightarrow> action_allowed MergeRun s" for s
    by (cases s) (simp_all add: action_allowed_def state_tables)
  show ?thesis
    by (cases a)
      (simp_all only: run_route.simps cancel_run_def retry_run_def approve_run_def merge_run_def
        c r a m run_action.case action_target.simps action_not_found.simps)
qed

text \<open>The row an endpoint hits, when there is one.\<close>

definition action_hits ::
  "run_action \<Rightarrow> NamespaceContext option \<Rightarrow> string \<Rightarrow> run_row \<Rightarrow> bool" where
  "action_hits a nsctx i r \<longleftrightarrow> run_id r = i \<and> isValidUUID i \<and> may_write nsctx (run_namespace r) \<and>
     action_allowed a (run_status r)"

lemma run_route_db:
  "snd (run_route a clk nsctx i db) =
     db\<lparr>runs := sql_update (action_hits a nsctx i) (action_effect a clk) (runs db)\<rparr>"
proof (cases "isValidUUID i \<and> (\<exists>n. may_write nsctx n)")
  case False
  then have "sql_update (action_hits a nsctx i) (action_effect a clk) (runs db) = runs db"
    by (intro sql_update_none) (auto simp: action_hits_def)
  moreover have "snd (run_route a clk nsctx i db) = db"
    using False getWriteNamespace_Inr [of nsctx]
    by (auto simp: run_route_endpoint run_endpoint_def split: sum.splits)
  ultimately show ?thesis by simp
next
  case True
  then obtain n where n: "getWriteNamespace nsctx = Inr n" "n \<noteq> []" and u: "isValidUUID i"
    using getWriteNamespace_Inr [of nsctx] by blast
  have hit: "action_hits a nsctx i r \<longleftrightarrow>
      run_id r = i \<and> run_namespace r = n \<and> action_allowed a (run_status r)" for r
    using n u getWriteNamespace_Inr [of nsctx "run_namespace r"]
    by (auto simp: action_hits_def)
  have eff: "action_effect a clk = (\<lambda>r. set_symphony_run_updated_at clk (case a of
          CancelRun \<Rightarrow> r\<lparr>run_status := Cancelled, run_completed := Some (db_now clk)\<rparr>
        | RetryRun \<Rightarrow> r\<lparr>run_status := RetryQueued, run_retry_count := run_retry_count r + 1\<rparr>
        | _ \<Rightarrow> r\<lparr>run_status := action_target a\<rparr>))"
    by (cases a) (simp_all add: action_effect_def fun_eq_iff)
  have none: "find (\<lambda>r. run_id r = i \<and> run_namespace r = n \<and> action_allowed a (run_status r))
        (runs db) = None \<Longrightarrow>
      sql_update (action_hits a nsctx i) (action_effect a clk) (runs db) = runs db"
    by (intro sql_update_none) (auto simp: hit find_None_iff)
  show ?thesis
    using n u none
    by (auto simp: run_route_endpoint run_endpoint_def Let_def eff
        hit [abs_def] split: option.splits)
qed

lemma find_run_route:
  "find_run (snd (run_route a clk nsctx i db)) j =
     map_option (\<lambda>r. if action_hits a nsctx i r then action_effect a clk r else r) (find_run db j)"
  by (simp add: run_route_db find_run_runs_update)

lemma run_keys_route [simp]: "run_keys (snd (run_route a clk nsctx i db)) = run_keys db"
  by (simp add: run_route_db run_keys_runs_update)

subsection \<open>Properties\<close>

text \<open>What a caller is told when nothing was changed.\<close>

definition route_refusal ::
  "run_action \<Rightarrow> NamespaceContext option \<Rightarrow> string \<Rightarrow> route_reply \<Rightarrow> bool" where
  "route_refusal a nsctx i reply \<longleftrightarrow>
     (if \<not> isValidUUID i then reply = RouteError 400 ''INVALID_UUID'' ''Invalid run ID''
      else if list_ex (may_write nsctx) (case nsctx of None \<Rightarrow> [] | Some c \<Rightarrow> [nc_store c])
      then reply = RouteError 404 ''NOT_FOUND'' (action_not_found a)
      else (case reply of RouteError c _ _ \<Rightarrow> c = 403 | RouteSilent \<Rightarrow> True | RouteData _ \<Rightarrow> False))"

lemma run_route_reply:
  assumes "run_keys db"
  shows "find_run db i = Some r \<and> action_hits a nsctx i r \<Longrightarrow>
      fst (run_route a clk nsctx i db) = RouteData (action_effect a clk r)"
    and "(\<And>r. find_run db i = Some r \<Longrightarrow> \<not> action_hits a nsctx i r) \<Longrightarrow>
      route_refusal a nsctx i (fst (run_route a clk nsctx i db))"
proof -
  have eff: "set_symphony_run_updated_at clk (case a of
          CancelRun \<Rightarrow> r\<lparr>run_status := Cancelled, run_completed := Some (db_now clk)\<rparr>
        | RetryRun \<Rightarrow> r\<lparr>run_status := RetryQueued, run_retry_count := run_retry_count r + 1\<rparr>
        | _ \<Rightarrow> r\<lparr>run_status := action_target a\<rparr>) = action_effect a clk r" for r
    by (cases a) (simp_all add: action_effect_def)
  show "fst (run_route a clk nsctx i db) = RouteData (action_effect a clk r)"
    if h: "find_run db i = Some r \<and> action_hits a nsctx i r"
  proof -
    from h have n: "getWriteNamespace nsctx = Inr (run_namespace r)" "run_namespace r \<noteq> []"
      and u: "isValidUUID i"
      using getWriteNamespace_Inr [of nsctx] by (auto simp: action_hits_def)
    have "find (\<lambda>q. run_id q = i \<and> run_namespace q = run_namespace r \<and>
        action_allowed a (run_status q)) (runs db) = Some r" (is "find ?P _ = _")
    proof (cases "find ?P (runs db)")
      case None
      with h show ?thesis
        using assms by (auto simp: find_None_iff find_run_iff action_hits_def)
    next
      case (Some q)
      then have "q \<in> set (runs db)" "run_id q = i" by (auto simp: find_Some_iff)
      with assms have "find_run db i = Some q" by (simp add: find_run_iff)
      with h have "q = r" by simp
      with Some show ?thesis by simp
    qed
    with n u show ?thesis by (simp add: run_route_endpoint run_endpoint_def Let_def eff)
  qed
  show "route_refusal a nsctx i (fst (run_route a clk nsctx i db))"
    if h: "\<And>r. find_run db i = Some r \<Longrightarrow> \<not> action_hits a nsctx i r"
  proof (cases "isValidUUID i \<and> (\<exists>n. may_write nsctx n)")
    case False
    then show ?thesis
      using getWriteNamespace_Inr [of nsctx] getWriteNamespace_Inl [of nsctx]
      by (auto simp: run_route_endpoint run_endpoint_def route_refusal_def list_ex_iff
          split: sum.splits)
  next
    case True
    then obtain n where n: "getWriteNamespace nsctx = Inr n" "n \<noteq> []" "may_write nsctx n"
      and u: "isValidUUID i"
      using getWriteNamespace_Inr [of nsctx] by blast
    have "find (\<lambda>q. run_id q = i \<and> run_namespace q = n \<and> action_allowed a (run_status q))
        (runs db) = None"
      using h n(3) u assms by (auto simp: find_None_iff find_run_iff action_hits_def)
    moreover have "list_ex (may_write nsctx) (case nsctx of None \<Rightarrow> [] | Some c \<Rightarrow> [nc_store c])"
      using n(3) by (auto simp: may_write_def split: option.splits)
    ultimately show ?thesis
      using n u by (simp add: run_route_endpoint run_endpoint_def Let_def route_refusal_def)
  qed
qed


definition example_uuid :: uuid where
  "example_uuid = ''0190c1de-0000-4000-8000-00000000abcd''"

definition m2m_context :: "NamespaceContext option" where
  "m2m_context = Some \<lparr>nc_store = ''acme'', nc_query = [''acme''], nc_m2m = True, nc_roles = []\<rparr>"

definition route_db :: "RunState \<Rightarrow> symphony_db" where
  "route_db s = empty_db\<lparr>runs := [example_run\<lparr>run_id := example_uuid, run_status := s\<rparr>]\<rparr>"

lemma example_hits:
  "action_hits a m2m_context example_uuid (example_run\<lparr>run_id := example_uuid, run_status := s\<rparr>)
     = action_allowed a s"
  by (simp add: action_hits_def example_run_def m2m_context_def may_write_def isValidUUID_def
      example_uuid_def uuid_text_def hex_letter_def Let_def)

lemma find_route_db:
  "run_keys (route_db s)"
  "find_run (route_db s) example_uuid = Some (example_run\<lparr>run_id := example_uuid, run_status := s\<rparr>)"
  by (simp_all add: route_db_def run_keys_def find_run_def by_key_def empty_db_def)


end
