(* ===== verification/Interleaving.thy ===== *)
theory Interleaving
  imports StateMachine RunRoutes
begin

text \<open>
  \<open>transition\<close> on the bare pool is three statements, each its own transaction: the row lock of
  \<open>SELECT \<dots> FOR UPDATE\<close> is gone before the \<open>UPDATE\<close> runs. Here any number of
  workers interleave these statements with each other and with the endpoints a person uses. The
  version in the \<open>WHERE\<close> clause is enough among the workers; it is not enough against the
  endpoints, which move a run without raising its version.
\<close>

subsection \<open>Workers between their statements\<close>

datatype worker_pc =
    Idle
  | Checked transition_context run_row
  | Updated transition_context run_row

record pool_state =
  pool_db :: symphony_db
  pool_pc :: "nat \<Rightarrow> worker_pc"

text \<open>
  A worker reads a row and checks it; a failing check returns without a write, so only a passing
  one is a step. Then the update runs, and a hit is followed by the event.
\<close>

inductive worker_step :: "pool_state \<Rightarrow> pool_state \<Rightarrow> bool" where
  check: "pool_pc s w = Idle \<Longrightarrow> find_run (pool_db s) (ctx_run ctx) = Some row \<Longrightarrow>
    transition_guard ctx row = None \<Longrightarrow>
    worker_step s (s\<lparr>pool_pc := (pool_pc s)(w := Checked ctx row)\<rparr>)"
| hit: "pool_pc s w = Checked ctx row \<Longrightarrow> sql_exists (transition_cas ctx) (runs (pool_db s)) \<Longrightarrow>
    worker_step s
      \<lparr>pool_db = transition_update clk ctx (run_version row + 1) (pool_db s),
       pool_pc = (pool_pc s)(w := Updated ctx row)\<rparr>"
| miss: "pool_pc s w = Checked ctx row \<Longrightarrow>
    \<not> sql_exists (transition_cas ctx) (runs (pool_db s)) \<Longrightarrow>
    worker_step s (s\<lparr>pool_pc := (pool_pc s)(w := Idle)\<rparr>)"
| record_event: "pool_pc s w = Updated ctx row \<Longrightarrow>
    worker_step s
      \<lparr>pool_db = recordEvent clk (ctx_run ctx) ''state_transition'' (ctx_actor ctx)
         (transition_payload ctx (run_status row) (run_version row + 1)) (pool_db s),
       pool_pc = (pool_pc s)(w := Idle)\<rparr>"

inductive pool_step :: "pool_state \<Rightarrow> pool_state \<Rightarrow> bool" where
  worker: "worker_step s s' \<Longrightarrow> pool_step s s'"
| person: "pool_step s (s\<lparr>pool_db := snd (run_route a clk nsctx i (pool_db s))\<rparr>)"

definition all_idle :: "pool_state \<Rightarrow> bool" where
  "all_idle s = (pool_pc s = (\<lambda>_. Idle))"

text \<open>Undisturbed, the three statements are the function \<open>transition\<close>.\<close>

lemma worker_runs_transition:
  assumes "pool_pc s w = Idle" and "find_run (pool_db s) (ctx_run ctx) = Some r"
    and "transition_applies ctx r"
  shows "worker_step\<^sup>*\<^sup>* s (s\<lparr>pool_db := snd (transition clk ctx (pool_db s))\<rparr>)"
proof -
  let ?s1 = "s\<lparr>pool_pc := (pool_pc s)(w := Checked ctx r)\<rparr>"
  let ?db2 = "transition_update clk ctx (run_version r + 1) (pool_db s)"
  let ?s2 = "\<lparr>pool_db = ?db2, pool_pc = (pool_pc s)(w := Updated ctx r)\<rparr>"
  let ?s3 = "s\<lparr>pool_db := snd (transition clk ctx (pool_db s))\<rparr>"
  have g: "transition_guard ctx r = None"
    using assms(3) by (simp add: transition_guard_None transition_applies_def)
  have "run_version r = ctx_expected ctx" using assms(3) by (simp add: transition_applies_def)
  from transition_cas_found [OF assms(2) this]
  have e: "sql_exists (transition_cas ctx) (runs (pool_db s))"
    by (simp add: sql_exists_iff sql_count_eq_0)
  have "worker_step s ?s1" by (rule worker_step.check [OF assms(1,2) g])
  moreover have "worker_step ?s1 ?s2"
    using worker_step.hit [of ?s1 w ctx r clk] e by simp
  moreover have "worker_step ?s2 ?s3"
    using worker_step.record_event [of ?s2 w ctx r clk] assms(1)
    unfolding transition_applied [OF assms(2,3)] by (cases s) (simp add: fun_upd_idem)
  ultimately show ?thesis 
    by (rule converse_rtranclp_into_rtranclp
        [OF _ converse_rtranclp_into_rtranclp [OF _ r_into_rtranclp]])
qed

subsection \<open>Workers alone\<close>

text \<open>What a worker remembers of a row is never newer than the row, and is the row's status while
  the version has not moved.\<close>

definition remembers :: "pool_state \<Rightarrow> bool" where
  "remembers s \<longleftrightarrow> (\<forall>w ctx row. pool_pc s w = Checked ctx row \<longrightarrow>
     transition_guard ctx row = None \<and>
     (\<forall>r. find_run (pool_db s) (ctx_run ctx) = Some r \<longrightarrow>
       run_version row \<le> run_version r \<and>
       (run_version row = run_version r \<longrightarrow> run_status row = run_status r)))"

lemma remembersD:
  assumes "remembers s" and "pool_pc s w = Checked ctx row"
  shows "transition_guard ctx row = None"
    and "find_run (pool_db s) (ctx_run ctx) = Some r \<Longrightarrow> run_version row \<le> run_version r"
    and "find_run (pool_db s) (ctx_run ctx) = Some r \<Longrightarrow> run_version row = run_version r \<Longrightarrow>
      run_status row = run_status r"
  using assms unfolding remembers_def by blast+

text \<open>What one worker step does to a run: nothing, or a valid edge and the next version.\<close>

definition run_move :: "run_row \<Rightarrow> run_row \<Rightarrow> bool" where
  "run_move r r' \<longleftrightarrow> r' = r \<or>
     (run_edge (run_status r) (run_status r') \<and> run_version r' = run_version r + 1)"

lemma worker_step_move:
  assumes "worker_step s s'" and "remembers s" and "find_run (pool_db s) i = Some r"
  shows "\<exists>r'. find_run (pool_db s') i = Some r' \<and> run_move r r'"
  using assms
proof (cases rule: worker_step.cases)
  case (hit w ctx row clk)
  note mem = remembersD [OF assms(2) hit(2)]
  have v: "run_version row = ctx_expected ctx"
    and e: "isValidTransition (run_status row) (ctx_target ctx)"
    using mem(1) by (simp_all add: transition_guard_None)
  show ?thesis
  proof (cases "transition_cas ctx r")
    case True
    then have "run_id r = ctx_run ctx" and "run_version r = run_version row"
      using v by (simp_all add: transition_cas_def)
    with assms(3) find_run_id [OF assms(3)] mem(3) [of r]
    have "run_status row = run_status r" by simp
    with True e v show ?thesis
      using assms(3)
      by (simp add: hit(1) find_run_transition_update run_move_def run_edge_def transition_cas_def)
  next
    case False
    with assms(3) show ?thesis
      by (simp add: hit(1) find_run_transition_update run_move_def)
  qed
qed (simp_all add: run_move_def)

lemma remembers_step:
  assumes "worker_step s s'" and "remembers s"
  shows "remembers s'"
proof -
  have old: "transition_guard ctx row = None \<and>
     (\<forall>r'. find_run (pool_db s') (ctx_run ctx) = Some r' \<longrightarrow>
       run_version row \<le> run_version r' \<and>
       (run_version row = run_version r' \<longrightarrow> run_status row = run_status r'))"
    if p: "pool_pc s w = Checked ctx row" for w ctx row
  proof (intro conjI allI impI)
    note mem = remembersD [OF assms(2) p]
    show "transition_guard ctx row = None" by (rule mem(1))
    fix r' assume r': "find_run (pool_db s') (ctx_run ctx) = Some r'"
    have "\<exists>r. find_run (pool_db s) (ctx_run ctx) = Some r"
      using assms(1) r'
      by (cases rule: worker_step.cases) (auto simp: find_run_transition_update)
    then obtain r where r: "find_run (pool_db s) (ctx_run ctx) = Some r" by blast
    with worker_step_move [OF assms r] r' have "run_move r r'" by simp
    with mem(2,3) [OF r] show "run_version row \<le> run_version r'"
      and "run_version row = run_version r' \<Longrightarrow> run_status row = run_status r'"
      by (auto simp: run_move_def)
  qed
  have new: "pool_pc s' w = Checked ctx row \<Longrightarrow> pool_pc s w = Checked ctx row \<or>
      transition_guard ctx row = None \<and> find_run (pool_db s') (ctx_run ctx) = Some row" for w ctx row
    using assms(1) by (cases rule: worker_step.cases) (auto split: if_splits)
  show ?thesis
    unfolding remembers_def
  proof (intro allI impI)
    fix w ctx row assume "pool_pc s' w = Checked ctx row"
    from new [OF this] old [of w ctx row]
    show "transition_guard ctx row = None \<and>
     (\<forall>r. find_run (pool_db s') (ctx_run ctx) = Some r \<longrightarrow>
       run_version row \<le> run_version r \<and>
       (run_version row = run_version r \<longrightarrow> run_status row = run_status r))"
      by auto
  qed
qed

lemma worker_steps_count:
  assumes "worker_step\<^sup>*\<^sup>* s s'" and "remembers s" and "find_run (pool_db s) i = Some r"
  shows "remembers s' \<and> (\<exists>n r'. find_run (pool_db s') i = Some r' \<and>
    run_version r' = run_version r + int n \<and> (run_edge ^^ n) (run_status r) (run_status r'))"
  using assms(1)
proof (induction rule: rtranclp_induct)
  case base
  have "find_run (pool_db s) i = Some r \<and> run_version r = run_version r + int 0 \<and>
    (run_edge ^^ 0) (run_status r) (run_status r)" using assms(3) by simp
  with assms(2) show ?case by blast
next
  case (step t t')
  then obtain n q where q: "find_run (pool_db t) i = Some q"
    "run_version q = run_version r + int n" "(run_edge ^^ n) (run_status r) (run_status q)"
    by blast
  from worker_step_move [OF step.hyps(2) _ q(1)] step.IH
  obtain q' where q': "find_run (pool_db t') i = Some q'" "run_move q q'" by blast
  have "\<exists>m. run_version q' = run_version r + int m \<and> (run_edge ^^ m) (run_status r) (run_status q')"
  proof (cases "q' = q")
    case True
    with q show ?thesis by blast
  next
    case False
    with q' have "run_edge (run_status q) (run_status q')" "run_version q' = run_version q + 1"
      by (simp_all add: run_move_def)
    with q(2,3) have "run_version q' = run_version r + int (Suc n) \<and>
      (run_edge ^^ Suc n) (run_status r) (run_status q')" by (auto intro: relcomppI)
    then show ?thesis by blast
  qed
  with q'(1) remembers_step [OF step.hyps(2)] step.IH show ?case by blast
qed

lemma remembers_idle: "all_idle s \<Longrightarrow> remembers s"
  by (simp add: all_idle_def remembers_def)

subsection \<open>Properties\<close>

text \<open>
  C5. Among workers the compare-and-swap is enough even without the row lock: however any number of
  them interleave the reads, updates and event inserts of their transitions, every run's status
  follows a path of the transition graph whose length is the growth of its version.
\<close>

theorem workers_follow_graph:
  assumes "worker_step\<^sup>*\<^sup>* s s'" and "all_idle s" and "find_run (pool_db s) i = Some r"
  shows "\<exists>n r'. find_run (pool_db s') i = Some r' \<and> run_version r' = run_version r + int n \<and>
    (run_edge ^^ n) (run_status r) (run_status r')"
  using worker_steps_count [OF assms(1) remembers_idle [OF assms(2)] assms(3)] by blast

definition example_pool :: pool_state where
  "example_pool = \<lparr>pool_db = example_db, pool_pc = (\<lambda>_. Idle)\<rparr>"

theorem workers_follow_graph_witness:
  "\<exists>n r'. find_run (snd (transition \<lparr>js_now = 5, db_now = 6\<rparr> example_ctx example_db)) ''run-1''
      = Some r' \<and> run_version r' = 4 + int n \<and> (run_edge ^^ n) Running (run_status r')"
proof -
  have "all_idle example_pool" and p: "pool_pc example_pool 0 = Idle"
    and d: "pool_db example_pool = example_db"
    by (simp_all add: all_idle_def example_pool_def)
  moreover have "find_run (pool_db example_pool) (ctx_run example_ctx) = Some example_run"
    using find_example_run by (simp add: d example_ctx_def)
  ultimately show ?thesis
    using workers_follow_graph [OF worker_runs_transition [where clk = "\<lparr>js_now = 5, db_now = 6\<rparr>",
          OF p _ example_ctx_applies], where i = "''run-1''" and r = example_run]
    by (simp add: example_ctx_def example_run_def)
qed

text \<open>
  Against the endpoints it is not enough. Whenever a transition is allowed and the run may be
  cancelled, there is an interleaving in which the cancellation is confirmed to the caller between
  the transition's read and its update, and the run ends in the transition's target all the same:
  a cancelled run, completion time set, is moved on because cancelling left its version alone.
\<close>

theorem cancel_lost:
  assumes "run_keys (pool_db s)" and "pool_pc s w = Idle"
    and "find_run (pool_db s) (ctx_run ctx) = Some r" and "transition_applies ctx r"
    and "action_hits CancelRun nsctx (ctx_run ctx) r"
  shows "\<exists>t u q q'. pool_step\<^sup>*\<^sup>* s t \<and>
      fst (run_route CancelRun clk nsctx (ctx_run ctx) (pool_db t)) = RouteData q \<and>
      run_status q = Cancelled \<and> isTerminalState (run_status q) \<and>
      pool_step\<^sup>*\<^sup>* (t\<lparr>pool_db := snd (run_route CancelRun clk nsctx (ctx_run ctx) (pool_db t))\<rparr>) u \<and>
      find_run (pool_db u) (ctx_run ctx) = Some q' \<and> run_status q' = ctx_target ctx \<and>
      run_completed q' \<noteq> None \<and> run_version q' = run_version r + 1"
proof -
  let ?q = "action_effect CancelRun clk r"
  let ?t = "s\<lparr>pool_pc := (pool_pc s)(w := Checked ctx r)\<rparr>"
  let ?c = "?t\<lparr>pool_db := snd (run_route CancelRun clk nsctx (ctx_run ctx) (pool_db ?t))\<rparr>"
  let ?u = "\<lparr>pool_db = transition_update clk ctx (run_version r + 1) (pool_db ?c),
       pool_pc = (pool_pc ?c)(w := Updated ctx r)\<rparr>"
  have g: "transition_guard ctx r = None" and v: "run_version r = ctx_expected ctx"
    using assms(4) by (simp_all add: transition_guard_None transition_applies_def)
  have "pool_step\<^sup>*\<^sup>* s ?t"
    by (intro r_into_rtranclp pool_step.worker worker_step.check [OF assms(2,3) g])
  moreover have "fst (run_route CancelRun clk nsctx (ctx_run ctx) (pool_db ?t)) = RouteData ?q"
    using run_route_reply(1) [OF assms(1)] assms(3,5) by (simp del: run_route.simps)
  moreover have c: "find_run (pool_db ?c) (ctx_run ctx) = Some ?q"
    using assms(3,5) by (simp add: find_run_route del: run_route.simps)
  moreover have "pool_step\<^sup>*\<^sup>* ?c ?u"
  proof (intro r_into_rtranclp pool_step.worker worker_step.hit)
    show "pool_pc ?c w = Checked ctx r" by simp
    show "sql_exists (transition_cas ctx) (runs (pool_db ?c))"
      using transition_cas_found [OF c] v by (simp add: sql_exists_iff sql_count_eq_0)
  qed
  moreover have "transition_cas ctx ?q"
    using v find_run_id [OF assms(3)] by (simp add: transition_cas_def)
  then have "find_run (pool_db ?u) (ctx_run ctx) =
      Some (transition_set clk ctx (run_version r + 1) ?q)"
    using c by (simp add: find_run_transition_update)
  moreover have "run_completed (transition_set clk ctx (run_version r + 1) ?q) \<noteq> None"
    by (simp add: transition_set_def set_symphony_run_updated_at_def action_effect_def)
  ultimately show ?thesis
    by (intro exI [of _ ?t] exI [of _ ?u] exI [of _ ?q]
        exI [of _ "transition_set clk ctx (run_version r + 1) ?q"] conjI)
      (simp_all add: state_tables)
qed

theorem cancel_lost_witness:
  "\<exists>t u q q'. pool_step\<^sup>*\<^sup>* \<lparr>pool_db = route_db Running, pool_pc = (\<lambda>_. Idle)\<rparr> t \<and>
      fst (run_route CancelRun \<lparr>js_now = 5, db_now = 6\<rparr> m2m_context example_uuid (pool_db t)) = RouteData q \<and>
      run_status q = Cancelled \<and>
      pool_step\<^sup>*\<^sup>* (t\<lparr>pool_db := snd (run_route CancelRun \<lparr>js_now = 5, db_now = 6\<rparr> m2m_context
        example_uuid (pool_db t))\<rparr>) u \<and>
      find_run (pool_db u) example_uuid = Some q' \<and> run_status q' = VerifyingResult"
proof -
  let ?ctx = "example_ctx\<lparr>ctx_run := example_uuid\<rparr>"
  let ?r = "example_run\<lparr>run_id := example_uuid, run_status := Running\<rparr>"
  have a: "transition_applies ?ctx ?r"
    by (simp add: transition_applies_def example_ctx_def example_run_def state_tables)
  have h: "action_hits CancelRun m2m_context (ctx_run ?ctx) ?r"
    using example_hits [of CancelRun Running] by (simp add: action_allowed_def state_tables)
  have c: "ctx_run ?ctx = example_uuid" "ctx_target ?ctx = VerifyingResult"
    by (simp_all add: example_ctx_def)
  show ?thesis
    using cancel_lost [where s = "\<lparr>pool_db = route_db Running, pool_pc = (\<lambda>_. Idle)\<rparr>" and w = 0
        and clk = "\<lparr>js_now = 5, db_now = 6\<rparr>", OF _ _ _ a h] find_route_db [of Running]
    by (simp only: c pool_state.simps simp_thms) blast
qed

end
