(* ===== verification/Claims.thy ===== *)
theory Claims
  imports Database "HOL-Library.Multiset" "HOL-Library.Word" "HOL-Library.Product_Lexorder" "HOL-Library.List_Lexorder"
    "HOL-Library.Char_ord"
begin

text \<open>
  \<^verbatim>\<open>src/symphony/claim.ts\<close>: \<open>SymphonyClaimManager\<close>. A claim is one transaction: an
  idempotency check, advisory locks in a fixed order, the checks of the four concurrency levels
  and the insert with the next epoch. Release, expiry and renewal are single guarded updates, and
  candidate selection is a query.

  The transactions of \<open>claimWorkItem\<close> are serialised by their first lock (see the section on
  locks), so each is a function of the database here. Which claim rows other transactions have
  locked is a parameter (\<open>SKIP LOCKED\<close>), as is the id \<open>gen_random_uuid()\<close> draws.
\<close>

unbundle bit_operations_syntax

subsection \<open>Lock keys\<close>

text \<open>FNV-1a over the characters; \<open>^\<close>, \<open>Math.imul\<close> and \<open>>>>\<close> all work on 32 bits.\<close>

definition uuidToLockKey :: "uuid \<Rightarrow> int" where
  "uuidToLockKey uuid =
     uint (fold (\<lambda>c hash. (hash XOR word_of_nat (of_char c)) * 16777619) uuid
       (2166136261 :: 32 word))"

lemma uuidToLockKey_range: "0 \<le> uuidToLockKey s \<and> uuidToLockKey s < 2 ^ 32"
  unfolding uuidToLockKey_def using uint_lt2p [where 'a = 32] by simp

subsection \<open>Options and outcomes\<close>

record claim_options =
  co_orchestrator :: string
  co_host :: uuid
  co_project :: uuid
  co_namespace :: string
  co_max_agents :: int
  co_state_limits :: "(RunState \<times> int) list option"
  co_lease_seconds :: "int option"
  co_idem_key :: "string option"
  co_target_state :: "RunState option"

text \<open>The reason of a rejection holds the numbers its message prints: the count and the limit.\<close>

datatype claim_rejection =
    AlreadyClaimed
  | GlobalLimit int int
  | ProjectLimit int rat
  | HostLimit int int
  | StateLimit RunState int int

datatype claim_result =
    ClaimGranted uuid int
  | ClaimRejected claim_rejection

text \<open>What makes \<open>claimWorkItem\<close> throw, after its \<open>ROLLBACK\<close>: a lock key that is not a
  PostgreSQL \<open>integer\<close>, or the unique index on active claims.\<close>

datatype claim_exception =
    LockKeyOutOfRange int int
  | DuplicateActiveClaim

definition CLAIM_TIMEOUT_SECONDS :: int where
  "CLAIM_TIMEOUT_SECONDS = 60"

fun claim_open :: "ClaimStatus \<Rightarrow> bool" where
  "claim_open ClaimPending = True"
| "claim_open ClaimAssigned = True"
| "claim_open ClaimActive = True"
| "claim_open _ = False"

subsection \<open>Counts and limits\<close>

definition countActiveRuns :: "symphony_db \<Rightarrow> int" where
  "countActiveRuns db = int (sql_count (\<lambda>r. List.member ACTIVE_STATES (run_status r)) (runs db))"

definition countActiveRunsForProject :: "symphony_db \<Rightarrow> uuid \<Rightarrow> int" where
  "countActiveRunsForProject db projectId =
     int (sql_count (\<lambda>r. run_project r = Some projectId \<and> List.member ACTIVE_STATES (run_status r))
       (runs db))"

definition countActiveRunsOnHost :: "symphony_db \<Rightarrow> uuid \<Rightarrow> int" where
  "countActiveRunsOnHost db hostId =
     int (sql_count
       (\<lambda>(r, w). run_workspace r = Some (ws_id w) \<and> ws_connection w = hostId \<and>
          List.member ACTIVE_STATES (run_status r))
       (List.product (runs db) (workspaces db)))"

definition countRunsInState :: "symphony_db \<Rightarrow> RunState \<Rightarrow> int" where
  "countRunsInState db state = int (sql_count (\<lambda>r. run_status r = state) (runs db))"

text \<open>The newest configuration of the project; the query declares \<open>max_concurrent\<close> a number.\<close>

definition getProjectConcurrencyLimit :: "symphony_db \<Rightarrow> uuid \<Rightarrow> rat option" where
  "getProjectConcurrencyLimit db projectId =
     (case sort_key (\<lambda>c. - oc_version c) (filter (\<lambda>c. oc_project c = Some projectId) (configs db)) of
        [] \<Rightarrow> None
      | c # _ \<Rightarrow>
          (case map_of (oc_config c) ''max_concurrent'' of Some (JNum q) \<Rightarrow> Some q | _ \<Rightarrow> None))"

definition getHostConcurrencyLimit :: "symphony_db \<Rightarrow> uuid \<Rightarrow> uuid \<Rightarrow> int option" where
  "getHostConcurrencyLimit db hostId projectId =
     map_option ph_max_sessions
       (find (\<lambda>h. ph_connection h = hostId \<and> ph_project h = projectId) (hosts db))"

subsection \<open>Claiming\<close>

definition LOCK_NS_GLOBAL :: int where "LOCK_NS_GLOBAL = 1"
definition LOCK_NS_PROJECT :: int where "LOCK_NS_PROJECT = 2"
definition LOCK_NS_HOST :: int where "LOCK_NS_HOST = 3"
definition LOCK_NS_STATE :: int where "LOCK_NS_STATE = 4"
definition LOCK_KEY_GLOBAL :: int where "LOCK_KEY_GLOBAL = 1"

lemmas lock_constants =
  LOCK_NS_GLOBAL_def LOCK_NS_PROJECT_def LOCK_NS_HOST_def LOCK_NS_STATE_def LOCK_KEY_GLOBAL_def

text \<open>The calls of \<open>pg_advisory_xact_lock(ns, key)\<close> a claim makes, in order.\<close>

definition claim_locks :: "claim_options \<Rightarrow> (int \<times> int) list" where
  "claim_locks opts =
     [(LOCK_NS_GLOBAL, LOCK_KEY_GLOBAL),
      (LOCK_NS_PROJECT, uuidToLockKey (co_project opts)),
      (LOCK_NS_HOST, uuidToLockKey (co_host opts))] @
     (case (co_target_state opts, co_state_limits opts) of
        (Some s, Some limits) \<Rightarrow>
          if map_of limits s \<noteq> None then [(LOCK_NS_STATE, js_indexOf all_run_states s)] else []
      | _ \<Rightarrow> [])"

text \<open>The two-key form of the lock function takes two 32-bit \<open>integer\<close> arguments; a parameter
  outside that type is an error of the statement.\<close>

definition pg_int4 :: "int \<Rightarrow> bool" where
  "pg_int4 k \<longleftrightarrow> - (2 ^ 31) \<le> k \<and> k < 2 ^ 31"

definition acquire_locks :: "(int \<times> int) list \<Rightarrow> claim_exception option" where
  "acquire_locks ls =
     map_option (\<lambda>(ns, k). LockKeyOutOfRange ns k) (find (\<lambda>(ns, k). \<not> (pg_int4 ns \<and> pg_int4 k)) ls)"

definition idempotent_claim ::
  "clock \<Rightarrow> uuid \<Rightarrow> claim_options \<Rightarrow> symphony_db \<Rightarrow> claim_row option" where
  "idempotent_claim clk workItemId opts db =
     (case co_idem_key opts of
        None \<Rightarrow> None
      | Some key \<Rightarrow>
          if key = [] then None
          else find (\<lambda>c. claim_work_item c = workItemId \<and> claim_idem_key c = Some key \<and>
                 claim_open (claim_status c) \<and>
                 (case claim_lease c of None \<Rightarrow> False | Some t \<Rightarrow> db_now clk < t)) (claims db))"

text \<open>The four levels, each an early return.\<close>

definition concurrency_check :: "claim_options \<Rightarrow> symphony_db \<Rightarrow> claim_rejection option" where
  "concurrency_check opts db =
     (let globalCount = countActiveRuns db in
      if co_max_agents opts \<le> globalCount then Some (GlobalLimit globalCount (co_max_agents opts))
      else
        (let projectCount = countActiveRunsForProject db (co_project opts) in
         case (case getProjectConcurrencyLimit db (co_project opts) of
                 None \<Rightarrow> None
               | Some limit \<Rightarrow>
                   if limit \<le> of_int projectCount then Some (ProjectLimit projectCount limit)
                   else None) of
           Some rej \<Rightarrow> Some rej
         | None \<Rightarrow>
             (let hostCount = countActiveRunsOnHost db (co_host opts) in
              case (case getHostConcurrencyLimit db (co_host opts) (co_project opts) of
                      None \<Rightarrow> None
                    | Some limit \<Rightarrow>
                        if limit \<le> hostCount then Some (HostLimit hostCount limit) else None) of
                Some rej \<Rightarrow> Some rej
              | None \<Rightarrow>
                  (case (co_target_state opts, co_state_limits opts) of
                     (Some s, Some limits) \<Rightarrow>
                       (case map_of limits s of
                          None \<Rightarrow> None
                        | Some limit \<Rightarrow>
                            (let stateCount = countRunsInState db s in
                             if limit \<le> stateCount then Some (StateLimit s stateCount limit)
                             else None))
                   | _ \<Rightarrow> None))))"

definition next_epoch :: "symphony_db \<Rightarrow> uuid \<Rightarrow> int" where
  "next_epoch db workItemId =
     (case map claim_epoch (filter (\<lambda>c. claim_work_item c = workItemId) (claims db)) of
        [] \<Rightarrow> 0 + 1
      | es \<Rightarrow> Max (set es) + 1)"

definition claim_insert ::
  "clock \<Rightarrow> uuid \<Rightarrow> uuid \<Rightarrow> claim_options \<Rightarrow> symphony_db \<Rightarrow>
   (claim_exception + claim_result) \<times> symphony_db"
where
  "claim_insert clk newId workItemId opts db =
     (let epoch = next_epoch db workItemId;
          lease = (case co_lease_seconds opts of Some s \<Rightarrow> s | None \<Rightarrow> CLAIM_TIMEOUT_SECONDS);
          row = \<lparr>claim_id = newId, claim_namespace = co_namespace opts,
                 claim_work_item = workItemId, claim_orchestrator = co_orchestrator opts,
                 claim_status = ClaimActive, claim_epoch = epoch,
                 claim_lease = Some (js_now clk + lease * 1000), claim_released = None,
                 claim_idem_key = co_idem_key opts\<rparr>
      in if list_ex (\<lambda>c. claim_work_item c = workItemId \<and> claim_open (claim_status c)) (claims db)
         then (Inl DuplicateActiveClaim, db)
         else (Inr (ClaimGranted newId epoch), db\<lparr>claims := claims db @ [row]\<rparr>))"

definition claimWorkItem ::
  "clock \<Rightarrow> (claim_row \<Rightarrow> bool) \<Rightarrow> uuid \<Rightarrow> uuid \<Rightarrow> claim_options \<Rightarrow> symphony_db \<Rightarrow>
   (claim_exception + claim_result) \<times> symphony_db"
where
  "claimWorkItem clk locked newId workItemId opts db =
     (case idempotent_claim clk workItemId opts db of
        Some c \<Rightarrow> (Inr (ClaimGranted (claim_id c) (claim_epoch c)), db)
      | None \<Rightarrow>
          (case acquire_locks (claim_locks opts) of
             Some e \<Rightarrow> (Inl e, db)
           | None \<Rightarrow>
               if list_ex (\<lambda>c. claim_work_item c = workItemId \<and> claim_open (claim_status c) \<and>
                    \<not> locked c) (claims db)
               then (Inr (ClaimRejected AlreadyClaimed), db)
               else (case concurrency_check opts db of
                   Some rej \<Rightarrow> (Inr (ClaimRejected rej), db)
                 | None \<Rightarrow> claim_insert clk newId workItemId opts db)))"

subsection \<open>Releasing, expiring, renewing\<close>

definition update_claims ::
  "(claim_row \<Rightarrow> bool) \<Rightarrow> (claim_row \<Rightarrow> claim_row) \<Rightarrow> symphony_db \<Rightarrow> nat \<times> symphony_db" where
  "update_claims P f db =
     (sql_count P (claims db), db\<lparr>claims := sql_update P f (claims db)\<rparr>)"

definition releaseClaim :: "clock \<Rightarrow> uuid \<Rightarrow> symphony_db \<Rightarrow> bool \<times> symphony_db" where
  "releaseClaim clk claimId db =
     (let (n, db') = update_claims (\<lambda>c. claim_id c = claimId \<and> claim_open (claim_status c))
            (\<lambda>c. c\<lparr>claim_status := ClaimReleased, claim_released := Some (db_now clk)\<rparr>) db
      in (n > 0, db'))"

definition expireStaleClaims :: "clock \<Rightarrow> string option \<Rightarrow> symphony_db \<Rightarrow> nat \<times> symphony_db" where
  "expireStaleClaims clk orchestratorId db =
     update_claims
       (\<lambda>c. claim_open (claim_status c) \<and>
          (case claim_lease c of None \<Rightarrow> False | Some t \<Rightarrow> t < db_now clk) \<and>
          (case orchestratorId of None \<Rightarrow> True | Some i \<Rightarrow> i = [] \<or> claim_orchestrator c = i))
       (\<lambda>c. c\<lparr>claim_status := ClaimExpired, claim_released := Some (db_now clk)\<rparr>) db"

definition renewLease :: "clock \<Rightarrow> uuid \<Rightarrow> int option \<Rightarrow> symphony_db \<Rightarrow> bool \<times> symphony_db" where
  "renewLease clk claimId extensionSeconds db =
     (let extension = (case extensionSeconds of Some s \<Rightarrow> s | None \<Rightarrow> CLAIM_TIMEOUT_SECONDS);
          (n, db') = update_claims (\<lambda>c. claim_id c = claimId \<and> claim_open (claim_status c))
            (\<lambda>c. c\<lparr>claim_lease := Some (db_now clk + 1000 * extension)\<rparr>) db
      in (n > 0, db'))"

subsection \<open>Candidate selection\<close>

record candidate_options =
  cs_namespace :: string
  cs_project :: "uuid option"
  cs_limit :: "nat option"

record claim_candidate =
  cd_work_item :: uuid
  cd_project :: "uuid option"
  cd_priority :: "int option"
  cd_created :: millis
  cd_identifier :: string

definition candidate_eligible :: "candidate_options \<Rightarrow> symphony_db \<Rightarrow> work_item_row \<Rightarrow> bool" where
  "candidate_eligible opts db wi \<longleftrightarrow>
     wi_namespace wi = cs_namespace opts \<and>
     (case cs_project opts of None \<Rightarrow> True | Some p \<Rightarrow> p = [] \<or> wi_parent wi = Some p) \<and>
     \<not> sql_exists (\<lambda>sc. claim_work_item sc = wi_id wi \<and> claim_open (claim_status sc)) (claims db) \<and>
     \<not> sql_exists (\<lambda>sr. run_work_item sr = wi_id wi \<and>
        run_status sr \<notin> {Succeeded, Failed, Cancelled, Terminated, Released, CleanupFailed}) (runs db)"

definition candidate_of :: "work_item_row \<Rightarrow> claim_candidate" where
  "candidate_of wi =
     \<lparr>cd_work_item = wi_id wi, cd_project = wi_parent wi, cd_priority = wi_priority wi,
      cd_created = wi_created wi,
      cd_identifier = (case wi_identifier wi of Some s \<Rightarrow> s | None \<Rightarrow> wi_id wi)\<rparr>"

text \<open>\<open>ORDER BY priority ASC NULLS LAST, created_at ASC, identifier ASC\<close>, with texts compared
  character by character.\<close>

definition candidate_rank :: "claim_candidate \<Rightarrow> (bool \<times> int) \<times> millis \<times> string" where
  "candidate_rank c =
     (case cd_priority c of None \<Rightarrow> (True, 0) | Some p \<Rightarrow> (False, p), cd_created c, cd_identifier c)"

definition selectCandidates :: "candidate_options \<Rightarrow> symphony_db \<Rightarrow> claim_candidate list" where
  "selectCandidates opts db =
     take (case cs_limit opts of Some n \<Rightarrow> n | None \<Rightarrow> 100)
       (sort_key candidate_rank
         (map candidate_of (filter (candidate_eligible opts db) (work_items db))))"

subsection \<open>The levels and the claim\<close>

text \<open>Room at all four levels, each strictly below its limit.\<close>

definition within_limits :: "claim_options \<Rightarrow> symphony_db \<Rightarrow> bool" where
  "within_limits opts db \<longleftrightarrow>
     countActiveRuns db < co_max_agents opts \<and>
     (case getProjectConcurrencyLimit db (co_project opts) of
        None \<Rightarrow> True | Some l \<Rightarrow> of_int (countActiveRunsForProject db (co_project opts)) < l) \<and>
     (case getHostConcurrencyLimit db (co_host opts) (co_project opts) of
        None \<Rightarrow> True | Some l \<Rightarrow> countActiveRunsOnHost db (co_host opts) < l) \<and>
     (case (co_target_state opts, co_state_limits opts) of
        (Some s, Some ls) \<Rightarrow> (case map_of ls s of None \<Rightarrow> True | Some l \<Rightarrow> countRunsInState db s < l)
      | _ \<Rightarrow> True)"

text \<open>What a rejection reports is what was measured, and it is at or over its limit.\<close>

fun rejection_truthful :: "claim_options \<Rightarrow> symphony_db \<Rightarrow> uuid \<Rightarrow> claim_rejection \<Rightarrow> bool" where
  "rejection_truthful opts db w AlreadyClaimed =
     list_ex (\<lambda>c. claim_work_item c = w \<and> claim_open (claim_status c)) (claims db)"
| "rejection_truthful opts db w (GlobalLimit n m) =
     (n = countActiveRuns db \<and> m = co_max_agents opts \<and> m \<le> n)"
| "rejection_truthful opts db w (ProjectLimit n q) =
     (n = countActiveRunsForProject db (co_project opts) \<and>
      getProjectConcurrencyLimit db (co_project opts) = Some q \<and> q \<le> of_int n)"
| "rejection_truthful opts db w (HostLimit n m) =
     (n = countActiveRunsOnHost db (co_host opts) \<and>
      getHostConcurrencyLimit db (co_host opts) (co_project opts) = Some m \<and> m \<le> n)"
| "rejection_truthful opts db w (StateLimit s n m) =
     (co_target_state opts = Some s \<and> n = countRunsInState db s \<and> m \<le> n \<and>
      (case co_state_limits opts of None \<Rightarrow> False | Some ls \<Rightarrow> map_of ls s = Some m))"

lemma concurrency_check_None [outcome_iff]:
  "concurrency_check opts db = None \<longleftrightarrow> within_limits opts db"
  by (auto simp: concurrency_check_def within_limits_def Let_def not_le split: option.splits)

lemma concurrency_check_Some:
  "concurrency_check opts db = Some rej \<Longrightarrow> rejection_truthful opts db w rej"
  by (auto simp: concurrency_check_def Let_def split: option.splits if_splits)

lemma counts_claims [frame_simps]:
  "countActiveRuns (db\<lparr>claims := cs\<rparr>) = countActiveRuns db"
  "countActiveRunsForProject (db\<lparr>claims := cs\<rparr>) p = countActiveRunsForProject db p"
  "countActiveRunsOnHost (db\<lparr>claims := cs\<rparr>) h = countActiveRunsOnHost db h"
  "countRunsInState (db\<lparr>claims := cs\<rparr>) st = countRunsInState db st"
  "getProjectConcurrencyLimit (db\<lparr>claims := cs\<rparr>) p = getProjectConcurrencyLimit db p"
  "getHostConcurrencyLimit (db\<lparr>claims := cs\<rparr>) h p = getHostConcurrencyLimit db h p"
  by (simp_all add: countActiveRuns_def countActiveRunsForProject_def countActiveRunsOnHost_def
      countRunsInState_def getProjectConcurrencyLimit_def getHostConcurrencyLimit_def)

lemma within_limits_claims [frame_simps]:
  "within_limits opts (db\<lparr>claims := cs\<rparr>) = within_limits opts db"
  by (simp only: within_limits_def counts_claims)

lemma next_epoch_greater:
  "c \<in> set (claims db) \<Longrightarrow> claim_work_item c = w \<Longrightarrow> claim_epoch c < next_epoch db w"
proof -
  assume c: "c \<in> set (claims db)" "claim_work_item c = w"
  let ?es = "map claim_epoch (filter (\<lambda>c. claim_work_item c = w) (claims db))"
  have m: "claim_epoch c \<in> set ?es" using c by auto
  then have "next_epoch db w = Max (set ?es) + 1"
    unfolding next_epoch_def by (cases ?es) simp_all
  moreover have "claim_epoch c \<le> Max (set ?es)" using m by (intro Max_ge) simp_all
  ultimately show ?thesis by simp
qed

lemma acquire_locks_Some:
  "acquire_locks ls = Some e \<Longrightarrow>
    \<exists>ns k. e = LockKeyOutOfRange ns k \<and> (ns, k) \<in> set ls \<and> \<not> (pg_int4 ns \<and> pg_int4 k)"
  unfolding acquire_locks_def
  by (induction ls) (auto split: if_splits)

lemma claim_locks_ns: "(ns, k) \<in> set (claim_locks opts) \<Longrightarrow> ns \<in> {1, 2, 3, 4}"
  by (auto simp: claim_locks_def lock_constants split: option.splits if_splits)

subsection \<open>The life of a claim\<close>

inductive claim_step :: "symphony_db \<Rightarrow> symphony_db \<Rightarrow> bool" where
  claim: "claim_step db (snd (claimWorkItem clk locked newId w opts db))"
| release: "claim_step db (snd (releaseClaim clk i db))"
| expire: "claim_step db (snd (expireStaleClaims clk orch db))"
| renew: "claim_step db (snd (renewLease clk i ext db))"

text \<open>Per work item, epochs grow in the order of the inserts and at most one claim is open.\<close>

definition claims_ordered :: "claim_row list \<Rightarrow> bool" where
  "claims_ordered cs =
     sorted_wrt (\<lambda>a b. claim_work_item a = claim_work_item b \<longrightarrow>
       claim_epoch a < claim_epoch b \<and> \<not> (claim_open (claim_status a) \<and> claim_open (claim_status b)))
     cs"

text \<open>How one row may develop: its identity is fixed, and a closed claim is never touched again.\<close>

definition claim_develops :: "claim_row \<Rightarrow> claim_row \<Rightarrow> bool" where
  "claim_develops c c' \<longleftrightarrow>
     claim_id c' = claim_id c \<and> claim_work_item c' = claim_work_item c \<and>
     claim_epoch c' = claim_epoch c \<and> claim_orchestrator c' = claim_orchestrator c \<and>
     (claim_open (claim_status c) \<or> c' = c)"

lemma claim_develops_refl [simp]: "claim_develops c c"
  by (simp add: claim_develops_def)

lemma claim_develops_trans: "claim_develops a b \<Longrightarrow> claim_develops b c \<Longrightarrow> claim_develops a c"
  by (auto simp: claim_develops_def)

lemma claim_develops_open: "claim_develops c c' \<Longrightarrow> claim_open (claim_status c') \<Longrightarrow>
    claim_open (claim_status c)"
  by (auto simp: claim_develops_def)

lemma claims_ordered_develops:
  assumes "list_all2 claim_develops cs cs'" and "claims_ordered cs"
  shows "claims_ordered cs'"
  unfolding claims_ordered_def sorted_wrt_iff_nth_less
proof (intro allI impI)
  fix i j assume ij: "i < j" "j < length cs'"
    and w: "claim_work_item (cs' ! i) = claim_work_item (cs' ! j)"
  have d: "claim_develops (cs ! i) (cs' ! i)" "claim_develops (cs ! j) (cs' ! j)"
    using assms(1) ij by (auto simp: list_all2_conv_all_nth)
  have "j < length cs" using assms(1) ij by (simp add: list_all2_lengthD)
  with assms(2) ij w d have "claim_epoch (cs ! i) < claim_epoch (cs ! j) \<and>
      \<not> (claim_open (claim_status (cs ! i)) \<and> claim_open (claim_status (cs ! j)))"
    by (auto simp: claims_ordered_def sorted_wrt_iff_nth_less claim_develops_def)
  with d show "claim_epoch (cs' ! i) < claim_epoch (cs' ! j) \<and>
      \<not> (claim_open (claim_status (cs' ! i)) \<and> claim_open (claim_status (cs' ! j)))"
    using claim_develops_open by (auto simp: claim_develops_def)
qed

lemma list_all2_sql_update:
  "(\<And>r. P r \<Longrightarrow> R r (f r)) \<Longrightarrow> (\<And>r. R r r) \<Longrightarrow> list_all2 R t (sql_update P f t)"
  by (simp add: sql_update_def list.rel_map(2) list.rel_refl_strong)

lemma claim_update_develops:
  "list_all2 claim_develops (claims db) (claims (snd (releaseClaim clk i db)))"
  "list_all2 claim_develops (claims db) (claims (snd (expireStaleClaims clk orch db)))"
  "list_all2 claim_develops (claims db) (claims (snd (renewLease clk i ext db)))"
  by (auto simp: releaseClaim_def expireStaleClaims_def renewLease_def update_claims_def Let_def
      claim_develops_def intro!: list_all2_sql_update)

text \<open>The outcomes of a claim.\<close>

definition new_claim :: "clock \<Rightarrow> uuid \<Rightarrow> uuid \<Rightarrow> claim_options \<Rightarrow> int \<Rightarrow> claim_row" where
  "new_claim clk newId w opts e =
     \<lparr>claim_id = newId, claim_namespace = co_namespace opts, claim_work_item = w,
      claim_orchestrator = co_orchestrator opts, claim_status = ClaimActive, claim_epoch = e,
      claim_lease = Some (js_now clk +
        (case co_lease_seconds opts of Some s \<Rightarrow> s | None \<Rightarrow> CLAIM_TIMEOUT_SECONDS) * 1000),
      claim_released = None, claim_idem_key = co_idem_key opts\<rparr>"

lemma claimWorkItem_cases:
  obtains
    (repeated) c where "idempotent_claim clk w opts db = Some c"
      "claimWorkItem clk locked newId w opts db =
         (Inr (ClaimGranted (claim_id c) (claim_epoch c)), db)"
  | (bad_key) ns k where "claimWorkItem clk locked newId w opts db = (Inl (LockKeyOutOfRange ns k), db)"
      "(ns, k) \<in> set (claim_locks opts)" "\<not> pg_int4 k"
  | (rejected) rej where "claimWorkItem clk locked newId w opts db = (Inr (ClaimRejected rej), db)"
      "rejection_truthful opts db w rej"
  | (duplicate) "claimWorkItem clk locked newId w opts db = (Inl DuplicateActiveClaim, db)"
      "list_ex (\<lambda>c. claim_work_item c = w \<and> claim_open (claim_status c) \<and> locked c) (claims db)"
  | (granted) "claimWorkItem clk locked newId w opts db =
        (Inr (ClaimGranted newId (next_epoch db w)),
         db\<lparr>claims := claims db @ [new_claim clk newId w opts (next_epoch db w)]\<rparr>)"
      "within_limits opts db" "acquire_locks (claim_locks opts) = None"
      "\<not> list_ex (\<lambda>c. claim_work_item c = w \<and> claim_open (claim_status c)) (claims db)"
proof (cases "idempotent_claim clk w opts db")
  case (Some c)
  then show ?thesis by (intro repeated [of c]) (simp_all add: claimWorkItem_def)
next
  case no_idem: None
  show ?thesis
  proof (cases "acquire_locks (claim_locks opts)")
    case (Some e)
    from acquire_locks_Some [OF this] obtain ns k
      where "e = LockKeyOutOfRange ns k" "(ns, k) \<in> set (claim_locks opts)"
        "\<not> (pg_int4 ns \<and> pg_int4 k)" by blast
    moreover from this(2) claim_locks_ns have "pg_int4 ns" by (fastforce simp: pg_int4_def)
    ultimately show ?thesis
      using no_idem Some by (intro bad_key [of ns k]) (simp_all add: claimWorkItem_def)
  next
    case no_lock_error: None
    show ?thesis
    proof (cases "list_ex (\<lambda>c. claim_work_item c = w \<and> claim_open (claim_status c) \<and> \<not> locked c)
        (claims db)")
      case True
      then show ?thesis
        using no_idem no_lock_error
        by (intro rejected [of AlreadyClaimed]) (auto simp: claimWorkItem_def list_ex_iff)
    next
      case unseen: False
      show ?thesis
      proof (cases "concurrency_check opts db")
        case (Some rej)
        then show ?thesis
          using no_idem no_lock_error unseen concurrency_check_Some [OF Some]
          by (intro rejected [of rej]) (simp_all add: claimWorkItem_def)
      next
        case None
        with no_idem no_lock_error unseen have run: "claimWorkItem clk locked newId w opts db =
            claim_insert clk newId w opts db" by (simp add: claimWorkItem_def)
        show ?thesis
        proof (cases "list_ex (\<lambda>c. claim_work_item c = w \<and> claim_open (claim_status c)) (claims db)")
          case True
          then show ?thesis
            using unseen by (intro duplicate) (auto simp: run claim_insert_def Let_def list_ex_iff)
        next
          case False
          then show ?thesis
            using None no_lock_error
            by (intro granted) (simp_all add: run claim_insert_def new_claim_def Let_def
                concurrency_check_None)
        qed
      qed
    qed
  qed
qed

lemma claim_step_develops:
  assumes "claim_step db db'"
  shows "\<exists>new. (\<exists>cs. claims db' = cs @ new \<and> list_all2 claim_develops (claims db) cs) \<and>
    (claims_ordered (claims db) \<longrightarrow> claims_ordered (claims db'))"
  using assms
proof (cases rule: claim_step.cases)
  case (claim clk locked newId w opts)
  have same: ?thesis if "db' = db"
    using that by (intro exI [of _ "[]"] conjI exI [of _ "claims db"])
      (simp_all add: list.rel_refl)
  show ?thesis
  proof (cases rule: claimWorkItem_cases [of clk w opts db locked newId])
    case granted
    let ?c = "new_claim clk newId w opts (next_epoch db w)"
    have "claims_ordered (claims db) \<longrightarrow> claims_ordered (claims db')"
      using claim granted(1,4) next_epoch_greater [of _ db w]
      by (auto simp: claims_ordered_def sorted_wrt_append new_claim_def list_ex_iff)
    then show ?thesis
      using claim granted(1)
      by (intro exI [of _ "[?c]"] conjI exI [of _ "claims db"]) (simp_all add: list.rel_refl)
  qed (use claim same in simp_all)
next
  case (release clk i)
  with claim_update_develops(1) [of db clk i] claims_ordered_develops show ?thesis
    by (intro exI [of _ "[]"]) auto
next
  case (expire clk orch)
  with claim_update_develops(2) [of db clk orch] claims_ordered_develops show ?thesis
    by (intro exI [of _ "[]"]) auto
next
  case (renew clk i ext)
  with claim_update_develops(3) [of db clk i ext] claims_ordered_develops show ?thesis
    by (intro exI [of _ "[]"]) auto
qed

lemma claim_steps_develop:
  assumes "claim_step\<^sup>*\<^sup>* db db'"
  shows "(\<exists>cs new. claims db' = cs @ new \<and> list_all2 claim_develops (claims db) cs) \<and>
    (claims_ordered (claims db) \<longrightarrow> claims_ordered (claims db'))"
  using assms
proof (induction rule: rtranclp_induct)
  case base
  show ?case
    by (intro conjI exI [of _ "claims db"] exI [of _ "[]"]) (simp_all add: list.rel_refl)
next
  case (step d d')
  then obtain cs new where 1: "claims d = cs @ new" "list_all2 claim_develops (claims db) cs"
    by blast
  obtain ds new' where 2: "claims d' = ds @ new'" "list_all2 claim_develops (claims d) ds"
    and o: "claims_ordered (claims d) \<longrightarrow> claims_ordered (claims d')"
    using claim_step_develops [OF step.hyps(2)] by blast
  from 1(1) 2(2) obtain ds1 ds2 where 3: "ds = ds1 @ ds2" "list_all2 claim_develops cs ds1"
    by (auto simp: list_all2_append1)
  from 1(2) 3(2) have "list_all2 claim_develops (claims db) ds1"
    using list_all2_trans [of claim_develops claim_develops claim_develops] claim_develops_trans
    by blast
  with 2(1) 3(1) o step.IH show ?case by auto
qed

lemma claims_ordered_one_open:
  "claims_ordered cs \<Longrightarrow> sql_count (\<lambda>c. claim_work_item c = w \<and> claim_open (claim_status c)) cs \<le> 1"
proof (induction cs)
  case Nil
  then show ?case by (simp add: sql_count_def)
next
  case (Cons c cs)
  have "sql_count (\<lambda>c. claim_work_item c = w \<and> claim_open (claim_status c)) cs = 0"
    if "claim_work_item c = w" "claim_open (claim_status c)"
    using Cons.prems that by (auto simp: sql_count_eq_0 claims_ordered_def)
  with Cons show ?case by (auto simp: sql_count_def claims_ordered_def)
qed

subsection \<open>Locks\<close>

text \<open>
  A claim holds the first \<open>k\<close> locks of its list and asks for the next one; advisory transaction
  locks are held to the end of the transaction.
\<close>

record claim_tx =
  tx_opts :: claim_options
  tx_held :: nat

definition tx_holds :: "claim_tx \<Rightarrow> (int \<times> int) list" where
  "tx_holds t = take (tx_held t) (claim_locks (tx_opts t))"

definition tx_wants :: "claim_tx \<Rightarrow> (int \<times> int) option" where
  "tx_wants t =
     (if tx_held t < length (claim_locks (tx_opts t))
      then Some (claim_locks (tx_opts t) ! tx_held t) else None)"

definition waits_for :: "claim_tx \<Rightarrow> claim_tx \<Rightarrow> bool" where
  "waits_for t u = (case tx_wants t of None \<Rightarrow> False | Some l \<Rightarrow> l \<in> set (tx_holds u))"

lemma claim_locks_increasing: "sorted_wrt (<) (map fst (claim_locks opts))"
  by (auto simp: claim_locks_def lock_constants split: option.splits)

text \<open>How far a transaction has got: the namespace of the lock it asks for.\<close>

definition tx_rank :: "claim_tx \<Rightarrow> int" where
  "tx_rank t = (case tx_wants t of None \<Rightarrow> 5 | Some l \<Rightarrow> fst l)"

lemma waits_for_rank: "waits_for t u \<Longrightarrow> tx_rank t < tx_rank u"
proof -
  assume "waits_for t u"
  then obtain l where w: "tx_wants t = Some l" and h: "l \<in> set (tx_holds u)"
    by (auto simp: waits_for_def split: option.splits)
  let ?ls = "claim_locks (tx_opts u)"
  from h obtain i where i: "i < tx_held u" "i < length ?ls" "l = ?ls ! i"
    by (auto simp: tx_holds_def in_set_conv_nth)
  have inc: "fst (?ls ! j) < fst (?ls ! k)" if "j < k" "k < length ?ls" for j k
    using claim_locks_increasing [of "tx_opts u"] that by (simp add: sorted_wrt_iff_nth_less)
  have "l \<in> set ?ls" using i by simp
  then have "fst l < 5" using claim_locks_ns [of "fst l" "snd l" "tx_opts u"] by auto
  with w i inc [of i "tx_held u"] show ?thesis by (auto simp: tx_rank_def tx_wants_def)
qed

lemma waits_for_rank_trancl: "waits_for\<^sup>+\<^sup>+ t u \<Longrightarrow> tx_rank t < tx_rank u"
  by (induction rule: tranclp_induct) (auto dest: waits_for_rank)

subsection \<open>Properties\<close>

definition example_options :: claim_options where
  "example_options =
     \<lparr>co_orchestrator = ''orch-1'', co_host = ''host-b'', co_project = ''proj-1'',
      co_namespace = ''acme'', co_max_agents = 1, co_state_limits = None, co_lease_seconds = None,
      co_idem_key = Some ''key-1'', co_target_state = None\<rparr>"

lemma example_keys: "uuidToLockKey ''proj-1'' = 1152774288" "uuidToLockKey ''host-b'' = 1052156364"
  by code_simp+

lemma example_options_lease:
  "co_idem_key example_options = Some ''key-1''" "co_lease_seconds example_options = None"
  by (simp_all add: example_options_def)

lemma example_locks: "acquire_locks (claim_locks example_options) = None"
  by (simp add: acquire_locks_def claim_locks_def example_options_def lock_constants example_keys
      pg_int4_def)

lemma empty_db_claims [simp]:
  "claims empty_db = []" "runs empty_db = []" "workspaces empty_db = []" "configs empty_db = []"
  "hosts empty_db = []"
  by (simp_all add: empty_db_def)

lemma example_within: "within_limits example_options empty_db"
  by (simp add: within_limits_def example_options_def countActiveRuns_def sql_count_def
      getProjectConcurrencyLimit_def getHostConcurrencyLimit_def)

lemma example_claim:
  "claimWorkItem clk locked newId w example_options empty_db =
     (Inr (ClaimGranted newId 1), empty_db\<lparr>claims := [new_claim clk newId w example_options 1]\<rparr>)"
proof (cases rule: claimWorkItem_cases [of clk w example_options empty_db locked newId])
  case (repeated c)
  then show ?thesis by (simp add: idempotent_claim_def example_options_def)
next
  case (bad_key ns k)
  then show ?thesis
    by (auto simp: claim_locks_def example_options_def lock_constants example_keys pg_int4_def)
next
  case (rejected rej)
  then show ?thesis
    by (cases rej) (auto simp: example_options_def countActiveRuns_def sql_count_def
      getProjectConcurrencyLimit_def getHostConcurrencyLimit_def)
next
  case duplicate
  then show ?thesis by simp
next
  case granted
  then show ?thesis by (simp add: next_epoch_def)
qed



text \<open>
  C7. Claims fence each other: from a table where it holds, after any sequence of claims,
  releases, expiries and renewals, epochs of a work item still grow in the order the claims were
  made and at most one of them is open, the old rows are all still there in the same place with
  their epochs, and a claim once closed has not been touched again.
\<close>

theorem claims_fenced:
  assumes "claim_step\<^sup>*\<^sup>* db db'" and "claims_ordered (claims db)"
  shows "claims_ordered (claims db') \<and>
    sql_count (\<lambda>c. claim_work_item c = w \<and> claim_open (claim_status c)) (claims db') \<le> 1 \<and>
    list_all2 claim_develops (claims db) (take (length (claims db)) (claims db'))"
proof -
  obtain cs new where "claims db' = cs @ new" "list_all2 claim_develops (claims db) cs"
    and "claims_ordered (claims db')"
    using claim_steps_develop [OF assms(1)] assms(2) by blast
  then show ?thesis
    using claims_ordered_one_open [of "claims db'" w] by (auto simp: list_all2_lengthD)
qed

theorem claims_fenced_witness:
  "claims_ordered (claims (snd (claimWorkItem \<lparr>js_now = 5, db_now = 6\<rparr> (\<lambda>_. False) ''claim-1''
     ''item-1'' example_options empty_db)))"
proof -
  have "claim_step\<^sup>*\<^sup>* empty_db (snd (claimWorkItem \<lparr>js_now = 5, db_now = 6\<rparr> (\<lambda>_. False) ''claim-1''
     ''item-1'' example_options empty_db))"
    by (intro r_into_rtranclp claim_step.claim)
  from claims_fenced [OF this] show ?thesis by (simp add: claims_ordered_def)
qed

text \<open>
  C8. The lock order is free of deadlock: whatever claims run at once, none of them waits for
  itself through any chain of claims each waiting for a lock the next one holds. And a claim that
  holds any lock holds the global one, so the checks and the insert of two claims never overlap.
\<close>

theorem claim_locks_deadlock_free:
  "\<not> waits_for\<^sup>+\<^sup>+ t t \<and> (tx_holds t = [] \<or> hd (tx_holds t) = (LOCK_NS_GLOBAL, LOCK_KEY_GLOBAL))"
  using waits_for_rank_trancl [of t t]
  by (cases "tx_held t") (auto simp: tx_holds_def claim_locks_def)

text \<open>
  The lock keys are unsigned 32-bit numbers, but the lock function takes signed ones: for a
  project whose hash has the top bit set, no claim is ever granted (idempotent repeats apart); each
  attempt throws before any check is made.
\<close>

theorem claim_lock_key_overflow:
  assumes "2 ^ 31 \<le> uuidToLockKey (co_project opts)" and "idempotent_claim clk w opts db = None"
  shows "claimWorkItem clk locked newId w opts db =
    (Inl (LockKeyOutOfRange LOCK_NS_PROJECT (uuidToLockKey (co_project opts))), db)"
  using assms
  by (simp add: claimWorkItem_def acquire_locks_def claim_locks_def lock_constants pg_int4_def)

definition overflow_project :: uuid where
  "overflow_project = ''6f1c2f04-3f0c-4a57-9d57-0c0c1c5a9e01''"

lemma overflow_key: "uuidToLockKey overflow_project = 2232005526"
  by code_simp

theorem claim_lock_key_overflow_witness:
  "claimWorkItem \<lparr>js_now = 5, db_now = 6\<rparr> (\<lambda>_. False) ''claim-1'' ''item-1''
     (example_options\<lparr>co_project := overflow_project\<rparr>) empty_db =
   (Inl (LockKeyOutOfRange 2 2232005526), empty_db)"
  using claim_lock_key_overflow [of "example_options\<lparr>co_project := overflow_project\<rparr>"
      "\<lparr>js_now = 5, db_now = 6\<rparr>" "''item-1''" empty_db "\<lambda>_. False" "''claim-1''"]
  by (simp add: overflow_key lock_constants idempotent_claim_def example_options_def)

text \<open>Claiming a list of work items one after the other, each with the id drawn for it.\<close>

fun claim_each ::
  "clock \<Rightarrow> claim_options \<Rightarrow> (uuid \<times> uuid) list \<Rightarrow> symphony_db \<Rightarrow> symphony_db" where
  "claim_each clk opts [] db = db"
| "claim_each clk opts ((newId, w) # ps) db =
     claim_each clk opts ps (snd (claimWorkItem clk (\<lambda>_. False) newId w opts db))"

text \<open>
  The limits count runs, and a claim makes no run: as long as the runs are within the limits,
  claims of any number of distinct work items without an open claim are all granted in a row, so
  the open claims outgrow \<open>maxConcurrentAgents\<close> and every other limit.
\<close>

theorem claims_exceed_limits:
  assumes "within_limits opts db" and "acquire_locks (claim_locks opts) = None"
    and "distinct (map snd ps)"
    and "\<And>c. List.member (claims db) c \<Longrightarrow> claim_open (claim_status c) \<Longrightarrow>
      claim_work_item c \<notin> set (map snd ps)"
  shows "sql_count (\<lambda>c. claim_open (claim_status c)) (claims (claim_each clk opts ps db)) =
    sql_count (\<lambda>c. claim_open (claim_status c)) (claims db) + length ps"
  using assms
proof (induction ps arbitrary: db)
  case Nil
  then show ?case by simp
next
  case (Cons p ps)
  obtain newId w where p: "p = (newId, w)" by force
  have free: "\<not> list_ex (\<lambda>c. claim_work_item c = w \<and> claim_open (claim_status c)) (claims db)"
    using Cons.prems(4) p by (auto simp: list_ex_iff)
  then have "idempotent_claim clk w opts db = None"
    by (auto simp: idempotent_claim_def find_None_iff list_ex_iff split: option.splits)
  moreover have "concurrency_check opts db = None"
    using Cons.prems(1) by (simp add: concurrency_check_None)
  moreover have "\<not> list_ex (\<lambda>c. claim_work_item c = w \<and> claim_open (claim_status c) \<and> \<not> False) (claims db)"
    using free by simp
  ultimately have run: "snd (claimWorkItem clk (\<lambda>_. False) newId w opts db) =
      db\<lparr>claims := claims db @ [new_claim clk newId w opts (next_epoch db w)]\<rparr>"
    using free Cons.prems(2)
    by (simp add: claimWorkItem_def claim_insert_def new_claim_def Let_def)
  let ?db = "db\<lparr>claims := claims db @ [new_claim clk newId w opts (next_epoch db w)]\<rparr>"
  have "sql_count (\<lambda>c. claim_open (claim_status c)) (claims (claim_each clk opts ps ?db)) =
      sql_count (\<lambda>c. claim_open (claim_status c)) (claims ?db) + length ps"
    using Cons.prems p
    by (intro Cons.IH) (force simp: within_limits_claims new_claim_def)+
  then show ?case by (simp add: p run sql_count_append) (simp add: sql_count_def new_claim_def)
qed

theorem claims_exceed_limits_witness:
  "sql_count (\<lambda>c. claim_open (claim_status c)) (claims (claim_each \<lparr>js_now = 5, db_now = 6\<rparr>
     (example_options\<lparr>co_max_agents := 1\<rparr>)
     [(''c1'', ''item-1''), (''c2'', ''item-2''), (''c3'', ''item-3'')] empty_db)) = 3"
proof -
  have "example_options\<lparr>co_max_agents := 1\<rparr> = example_options"
    by (simp add: example_options_def)
  then show ?thesis
    using claims_exceed_limits [OF example_within example_locks,
        where ps = "[(''c1'', ''item-1''), (''c2'', ''item-2''), (''c3'', ''item-3'')]"
        and clk = "\<lparr>js_now = 5, db_now = 6\<rparr>"]
    by (simp add: sql_count_def)
qed

text \<open>
  Repeating a claim is safe: after a claim with a non-empty idempotency key was granted, the
  same call made again before the lease runs out, under any new id, returns the same claim and
  epoch and changes nothing.
\<close>

theorem claim_idempotent:
  assumes "claimWorkItem clk locked newId w opts db = (Inr (ClaimGranted i e), db')" and "db' \<noteq> db"
    and "co_idem_key opts = Some key" and "key \<noteq> []"
    and "db_now clk' < js_now clk +
      (case co_lease_seconds opts of Some s \<Rightarrow> s | None \<Rightarrow> CLAIM_TIMEOUT_SECONDS) * 1000"
  shows "claimWorkItem clk' locked' newId' w opts db' = (Inr (ClaimGranted i e), db')"
proof (cases rule: claimWorkItem_cases [of clk w opts db locked newId])
  case granted
  let ?c = "new_claim clk newId w opts (next_epoch db w)"
  have db': "db' = db\<lparr>claims := claims db @ [?c]\<rparr>" "i = newId" "e = next_epoch db w"
    using granted(1) assms(1) by simp_all
  let ?P = "\<lambda>c. claim_work_item c = w \<and> claim_idem_key c = Some key \<and>
    claim_open (claim_status c) \<and> (case claim_lease c of None \<Rightarrow> False | Some t \<Rightarrow> db_now clk' < t)"
  have "find ?P (claims db) = None" using granted(4) by (auto simp: find_None_iff list_ex_iff)
  moreover have "?P ?c" using assms(3,5) by (simp add: new_claim_def)
  ultimately have "find ?P (claims db @ [?c]) = Some ?c"
    by (simp add: find_append)
  then have "idempotent_claim clk' w opts db' = Some ?c"
    using assms(3,4) by (simp add: idempotent_claim_def db')
  then show ?thesis by (simp add: claimWorkItem_def db' new_claim_def)
qed (use assms(1,2) in simp_all)

theorem claim_idempotent_witness:
  "fst (claimWorkItem \<lparr>js_now = 60000, db_now = 60000\<rparr> (\<lambda>_. True) ''other'' ''item-1'' example_options
     (snd (claimWorkItem \<lparr>js_now = 5, db_now = 6\<rparr> (\<lambda>_. False) ''claim-1'' ''item-1''
       example_options empty_db))) = Inr (ClaimGranted ''claim-1'' 1)"
proof -
  have ne: "empty_db\<lparr>claims := [c]\<rparr> \<noteq> empty_db" for c
    by (metis empty_db_claims(1) not_Cons_self2 symphony_db.select_convs(2)
        symphony_db.surjective symphony_db.update_convs(2))
  show ?thesis
    using claim_idempotent [where key = "''key-1''" and clk' = "\<lparr>js_now = 60000, db_now = 60000\<rparr>"
        and locked' = "\<lambda>_. True" and newId' = "''other''",
        OF example_claim [of "\<lparr>js_now = 5, db_now = 6\<rparr>" "\<lambda>_. False" "''claim-1''" "''item-1''"] ne]
    by (simp add: example_claim CLAIM_TIMEOUT_SECONDS_def example_options_lease)
qed

text \<open>
  Candidate selection is the sorted prefix of the eligible work items of the namespace: by
  priority (none last), then age, then identifier, at most the limit. Every candidate is free of
  open claims, and its runs have all ended or failed; a failed run can still be retried, so a
  candidate may have a run that comes back to life.
\<close>

theorem selectCandidates_spec:
  "\<exists>rest. mset (selectCandidates opts db @ rest) =
      mset (map candidate_of (filter (candidate_eligible opts db) (work_items db))) \<and>
    sorted (map candidate_rank (selectCandidates opts db @ rest)) \<and>
    length (selectCandidates opts db) \<le> (case cs_limit opts of Some n \<Rightarrow> n | None \<Rightarrow> 100) \<and>
    list_all (\<lambda>c.
      \<not> list_ex (\<lambda>sc. claim_work_item sc = cd_work_item c \<and> claim_open (claim_status sc)) (claims db) \<and>
      list_all (\<lambda>r. isTerminalState (run_status r) \<or> run_status r = Failed)
        (filter (\<lambda>r. run_work_item r = cd_work_item c) (runs db)))
     (selectCandidates opts db)"
proof -
  let ?n = "case cs_limit opts of Some n \<Rightarrow> n | None \<Rightarrow> 100"
  let ?all = "sort_key candidate_rank
    (map candidate_of (filter (candidate_eligible opts db) (work_items db)))"
  have split: "selectCandidates opts db @ drop ?n ?all = ?all"
    by (simp add: selectCandidates_def)
  have ok: "\<not> list_ex (\<lambda>sc. claim_work_item sc = cd_work_item c \<and> claim_open (claim_status sc)) (claims db) \<and>
      list_all (\<lambda>r. isTerminalState (run_status r) \<or> run_status r = Failed)
        (filter (\<lambda>r. run_work_item r = cd_work_item c) (runs db))"
    if "c \<in> set (selectCandidates opts db)" for c
  proof -
    from that have "c \<in> set ?all" by (auto simp: selectCandidates_def dest: in_set_takeD)
    then obtain wi where "c = candidate_of wi" "candidate_eligible opts db wi" by auto
    then show ?thesis
      by (auto simp: candidate_eligible_def candidate_of_def sql_exists_def list_ex_iff list_all_iff
          state_tables)
  qed
  show ?thesis
  proof (intro exI [of _ "drop ?n ?all"] conjI)
    show "mset (selectCandidates opts db @ drop ?n ?all) =
        mset (map candidate_of (filter (candidate_eligible opts db) (work_items db)))"
      by (simp only: split mset_sort)
    show "sorted (map candidate_rank (selectCandidates opts db @ drop ?n ?all))"
      by (simp only: split sorted_sort_key)
    show "length (selectCandidates opts db) \<le> ?n"
      by (simp add: selectCandidates_def)
  qed (use ok in \<open>simp add: list_all_iff\<close>)
qed

end
