(* ===== verification/Breaker.thy ===== *)
theory Breaker
  imports Prelude
begin

text \<open>
  The interface of a circuit breaker as its callers rely on it: ask for admission, report success,
  report failure, each at a time. The laws are those the two breakers of the program share; the
  caller's lemmas (the circuit opens at exactly the threshold, an open circuit refuses everything
  until its deadline, a healthy caller is never refused) are proved here once.
\<close>

datatype CircuitState = Closed | Open | HalfOpen

fun circuit_value :: "CircuitState \<Rightarrow> string" where
  "circuit_value Closed = ''closed''"
| "circuit_value Open = ''open''"
| "circuit_value HalfOpen = ''half_open''"

locale breaker =
  fixes ask :: "millis \<Rightarrow> 's \<Rightarrow> bool \<times> 's"
    and ok :: "millis \<Rightarrow> 's \<Rightarrow> 's"
    and fail :: "millis \<Rightarrow> 's \<Rightarrow> 's"
    and mode :: "'s \<Rightarrow> CircuitState"
    and failures :: "'s \<Rightarrow> int"
    and deadline :: "'s \<Rightarrow> millis"
    and threshold :: int
    and cooldown :: millis
    and inv :: "'s \<Rightarrow> bool"
  assumes ask_closed: "inv s \<Longrightarrow> mode s = Closed \<Longrightarrow>
      fst (ask t s) \<and> mode (snd (ask t s)) = Closed \<and> failures (snd (ask t s)) = failures s"
    and ask_open: "inv s \<Longrightarrow> mode s = Open \<Longrightarrow> t < deadline s \<Longrightarrow>
      \<not> fst (ask t s) \<and> mode (snd (ask t s)) = Open \<and> deadline (snd (ask t s)) = deadline s"
    and ask_probe: "inv s \<Longrightarrow> mode s = Open \<Longrightarrow> deadline s \<le> t \<Longrightarrow>
      fst (ask t s) \<and> mode (snd (ask t s)) = HalfOpen"
    and ok_closed: "inv s \<Longrightarrow> mode s = Closed \<Longrightarrow> mode (ok t s) = Closed \<and> failures (ok t s) = 0"
    and fail_closed: "inv s \<Longrightarrow> mode s = Closed \<Longrightarrow> failures (fail t s) = failures s + 1 \<and>
      (if threshold \<le> failures s + 1 then mode (fail t s) = Open \<and> deadline (fail t s) = t + cooldown
       else mode (fail t s) = Closed)"
    and fail_open: "inv s \<Longrightarrow> mode s = Open \<Longrightarrow> mode (fail t s) = Open \<and> deadline (fail t s) = deadline s"
    and fail_probe: "inv s \<Longrightarrow> mode s = HalfOpen \<Longrightarrow>
      mode (fail t s) = Open \<and> deadline (fail t s) = t + cooldown"
    and inv_step: "inv s \<Longrightarrow> inv (snd (ask t s)) \<and> inv (ok t s) \<and> inv (fail t s)"
begin

text \<open>A run of failures: the circuit is closed below the threshold and open from it on.\<close>

lemma failures_closed:
  assumes "inv s" and "mode s = Closed" and "failures s + int (length ts) < threshold"
  shows "inv (fold fail ts s) \<and> mode (fold fail ts s) = Closed \<and>
    failures (fold fail ts s) = failures s + int (length ts)"
  using assms
proof (induction ts arbitrary: s)
  case Nil
  then show ?case by simp
next
  case (Cons t ts)
  then show ?case
    using fail_closed [of s t] inv_step [of s t] Cons.IH [of "fail t s"] by simp
qed

lemma opens_at_threshold:
  assumes "inv s" and "mode s = Closed" and "failures s = 0" and "int (length ts) + 1 = threshold"
  shows "mode (fold fail ts s) = Closed \<and> mode (fold fail (ts @ [t]) s) = Open \<and>
    deadline (fold fail (ts @ [t]) s) = t + cooldown \<and> inv (fold fail (ts @ [t]) s)"
proof -
  from failures_closed [of s ts] assms
  have c: "inv (fold fail ts s)" "mode (fold fail ts s) = Closed"
      "failures (fold fail ts s) = int (length ts)" by simp_all
  with fail_closed [OF c(1,2), of t] inv_step [OF c(1), of t] assms(4) show ?thesis by simp
qed

text \<open>What callers do while the circuit is open: ask, and report failures of calls under way.\<close>

definition pester :: "(bool \<times> millis) \<Rightarrow> 's \<Rightarrow> 's" where
  "pester e s = (if fst e then snd (ask (snd e) s) else fail (snd e) s)"

lemma open_refuses:
  assumes "inv s" and "mode s = Open" and "\<forall>e \<in> set es. snd e < deadline s" and "t < deadline s"
  shows "\<not> fst (ask t (fold pester es s)) \<and> mode (fold pester es s) = Open"
proof -
  have "inv (fold pester es s) \<and> mode (fold pester es s) = Open \<and>
      deadline (fold pester es s) = deadline s"
    using assms(1-3)
  proof (induction es arbitrary: s)
    case Nil
    then show ?case by simp
  next
    case (Cons e es)
    then show ?case
      using ask_open [of s "snd e"] fail_open [of s "snd e"] inv_step [of s "snd e"]
      by (cases "fst e") (simp_all add: pester_def)
  qed
  with ask_open [of "fold pester es s" t] assms(4) show ?thesis by simp
qed

text \<open>After the threshold of failures in a row nothing is let through for the whole cooldown.\<close>

lemma protects:
  assumes "inv s" and "mode s = Closed" and "failures s = 0" and "int (length ts) + 1 = threshold"
    and "\<forall>e \<in> set es. snd e < t + cooldown" and "u < t + cooldown"
  shows "\<not> fst (ask u (fold pester es (fold fail (ts @ [t]) s)))"
  using open_refuses [of "fold fail (ts @ [t]) s" es u] opens_at_threshold [OF assms(1-4), of t]
    assms(5,6) by simp

text \<open>A circuit whose failures never reach the threshold between two successes stays closed.\<close>

definition burst :: "millis list \<Rightarrow> millis \<Rightarrow> 's \<Rightarrow> 's" where
  "burst ts t s = ok t (fold fail ts s)"

lemma bursts_closed:
  assumes "inv s" and "mode s = Closed" and "failures s = 0"
    and "\<forall>b \<in> set bs. int (length (fst b)) < threshold"
  shows "mode (fold (\<lambda>b. burst (fst b) (snd b)) bs s) = Closed \<and>
    fst (ask t (fold (\<lambda>b. burst (fst b) (snd b)) bs s))"
proof -
  have "inv (fold (\<lambda>b. burst (fst b) (snd b)) bs s) \<and>
      mode (fold (\<lambda>b. burst (fst b) (snd b)) bs s) = Closed"
    using assms
  proof (induction bs arbitrary: s)
    case Nil
    then show ?case by simp
  next
    case (Cons b bs)
    have "inv (fold fail (fst b) s) \<and> mode (fold fail (fst b) s) = Closed"
      using failures_closed [of s "fst b"] Cons.prems by simp
    then have "inv (burst (fst b) (snd b) s) \<and> mode (burst (fst b) (snd b) s) = Closed \<and>
        failures (burst (fst b) (snd b) s) = 0"
      using ok_closed inv_step by (simp add: burst_def)
    with Cons.IH Cons.prems(4) show ?case by simp
  qed
  with ask_closed show ?thesis by simp
qed

end

end
