(* ===== verification/Retry.thy ===== *)
theory Retry
  imports Database Breaker "HOL-Library.List_Lexorder" "HOL-Library.Char_ord"
begin

text \<open>
  \<^verbatim>\<open>src/symphony-worker/retry.ts\<close>: backoff, retry eligibility, token budgets, the host circuit
  breaker with its persistence, health and rate-limit gates, the recovery sweep's advisory lock,
  configuration snapshots and the detection of substantial issue edits.

  Callbacks (\<open>randomFn\<close>, \<open>sshCheck\<close>, \<open>diskCheck\<close>) are their results, \<open>None\<close>
  when they throw. Amounts the sources divide are \<open>rat\<close>.
\<close>

subsection \<open>Backoff\<close>

definition calculateRetryDelay :: "int \<Rightarrow> int \<Rightarrow> int \<Rightarrow> rat \<Rightarrow> int" where
  "calculateRetryDelay attempt baseMs maxMs raw =
     (if attempt < 1 then baseMs
      else
        (let exponential = baseMs * 2 ^ nat (attempt - 1);
             capped = min exponential maxMs;
             clamped = max 0 (min 1 raw);
             jitter = 1 / 2 + clamped * (1 / 2)
         in \<lfloor>of_int capped * jitter\<rfloor>))"

definition calculateContinuationWait :: "int \<Rightarrow> int \<Rightarrow> int \<Rightarrow> int" where
  "calculateContinuationWait continuationCount baseMs maxMs =
     (if continuationCount < 1 then baseMs
      else min (baseMs * 2 ^ nat (continuationCount - 1)) maxMs)"

definition MAX_CONTINUATIONS_WITHOUT_PROGRESS :: int where
  "MAX_CONTINUATIONS_WITHOUT_PROGRESS = 3"

definition shouldPauseForNoProgress :: "int \<Rightarrow> bool" where
  "shouldPauseForNoProgress continuationsSinceProgress =
     (MAX_CONTINUATIONS_WITHOUT_PROGRESS \<le> continuationsSinceProgress)"

record retry_eligibility =
  re_can :: bool
  re_max :: enat
  re_recovery :: "RecoveryStrategy option"
  re_delay :: int

definition checkRetryEligibility :: "FailureClass \<Rightarrow> int \<Rightarrow> rat \<Rightarrow> retry_eligibility" where
  "checkRetryEligibility failureClass currentAttempt raw =
     (let maxRetries = (case map_of FAILURE_RETRY_LIMITS failureClass of Some n \<Rightarrow> n | None \<Rightarrow> 0);
          canRetry = (currentAttempt < 0 \<or> enat (nat currentAttempt) < maxRetries)
      in \<lparr>re_can = canRetry, re_max = maxRetries,
          re_recovery = map_of FAILURE_RECOVERY failureClass,
          re_delay = (if canRetry then calculateRetryDelay (currentAttempt + 1) 10000 300000 raw else 0)\<rparr>)"

subsection \<open>Budgets\<close>

record BudgetLimits =
  perRunTokenLimit :: int
  perProjectDailyBudget :: int
  globalDailyBudget :: int

datatype budget_level = PerRun | PerProject | GlobalLevel

text \<open>A refusal names its level, the usage and the limit its message prints.\<close>

datatype budget_check =
    BudgetAllowed
  | BudgetRefused budget_level int int

definition DEFAULT_BUDGET_LIMITS :: BudgetLimits where
  "DEFAULT_BUDGET_LIMITS = \<lparr>perRunTokenLimit = 0, perProjectDailyBudget = 0, globalDailyBudget = 0\<rparr>"

text \<open>\<open>(payload->>'tokens_used')::bigint\<close>: \<open>NULL\<close> for a missing or null field, an
  error for what is not a whole number.\<close>

definition tokens_used :: "event_row \<Rightarrow> string + int option" where
  "tokens_used e =
     (case map_of (ev_payload e) ''tokens_used'' of
        None \<Rightarrow> Inr None
      | Some JNull \<Rightarrow> Inr None
      | Some (JNum q) \<Rightarrow>
          if of_int \<lfloor>q\<rfloor> = q then Inr (Some \<lfloor>q\<rfloor>) else Inl ''invalid input syntax for type bigint''
      | Some (JStr s) \<Rightarrow>
          (case read_decimal s of
             Some n \<Rightarrow> Inr (Some n)
           | None \<Rightarrow> Inl ''invalid input syntax for type bigint'')
      | Some _ \<Rightarrow> Inl ''invalid input syntax for type bigint'')"

text \<open>The selected values, without the nulls an aggregate skips.\<close>

fun token_values :: "event_row list \<Rightarrow> string + int list" where
  "token_values [] = Inr []"
| "token_values (e # es) =
     (case tokens_used e of
        Inl m \<Rightarrow> Inl m
      | Inr v \<Rightarrow>
          (case token_values es of
             Inl m \<Rightarrow> Inl m
           | Inr vs \<Rightarrow> Inr (case v of None \<Rightarrow> vs | Some n \<Rightarrow> n # vs)))"

definition token_sum :: "event_row list \<Rightarrow> string + int" where
  "token_sum es = (case token_values es of Inl m \<Rightarrow> Inl m | Inr vs \<Rightarrow> Inr (sum_list vs))"

definition day_start :: "clock \<Rightarrow> millis" where
  "day_start clk = db_now clk - db_now clk mod 86400000"

definition getRunTokenUsage :: "symphony_db \<Rightarrow> uuid \<Rightarrow> string + int" where
  "getRunTokenUsage db runId =
     token_sum (filter (\<lambda>e. ev_run e = runId \<and> ev_kind e = ''token_usage'') (events db))"

definition getProjectDailyTokenUsage ::
  "clock \<Rightarrow> symphony_db \<Rightarrow> string \<Rightarrow> uuid \<Rightarrow> string + int" where
  "getProjectDailyTokenUsage clk db namespace projectId =
     token_sum (filter (\<lambda>e.
       (case find_run db (ev_run e) of
          None \<Rightarrow> False
        | Some r \<Rightarrow> run_namespace r = namespace \<and> run_project r = Some projectId) \<and>
       ev_kind e = ''token_usage'' \<and> day_start clk \<le> ev_emitted e) (events db))"

definition getGlobalDailyTokenUsage :: "clock \<Rightarrow> symphony_db \<Rightarrow> string \<Rightarrow> string + int" where
  "getGlobalDailyTokenUsage clk db namespace =
     token_sum (filter (\<lambda>e.
       (case find_run db (ev_run e) of None \<Rightarrow> False | Some r \<Rightarrow> run_namespace r = namespace) \<and>
       ev_kind e = ''token_usage'' \<and> day_start clk \<le> ev_emitted e) (events db))"

text \<open>One level: skipped when its limit is zero, an error when its query throws.\<close>

definition budget_level_check ::
  "budget_level \<Rightarrow> int \<Rightarrow> (string + int) \<Rightarrow> int \<Rightarrow> string + budget_check" where
  "budget_level_check level limit usage estimatedTokens =
     (if limit > 0
      then (case usage of
          Inl m \<Rightarrow> Inl m
        | Inr n \<Rightarrow>
            if n + estimatedTokens > limit then Inr (BudgetRefused level n limit)
            else Inr BudgetAllowed)
      else Inr BudgetAllowed)"

definition checkBudget ::
  "clock \<Rightarrow> symphony_db \<Rightarrow> string \<Rightarrow> uuid \<Rightarrow> uuid \<Rightarrow> BudgetLimits \<Rightarrow> int \<Rightarrow> string + budget_check"
where
  "checkBudget clk db namespace runId projectId limits estimatedTokens =
     (case budget_level_check PerRun (perRunTokenLimit limits) (getRunTokenUsage db runId)
             estimatedTokens of
        Inr BudgetAllowed \<Rightarrow>
          (case budget_level_check PerProject (perProjectDailyBudget limits)
                  (getProjectDailyTokenUsage clk db namespace projectId) estimatedTokens of
             Inr BudgetAllowed \<Rightarrow>
               budget_level_check GlobalLevel (globalDailyBudget limits)
                 (getGlobalDailyTokenUsage clk db namespace) estimatedTokens
           | res \<Rightarrow> res)
      | res \<Rightarrow> res)"

text \<open>\<open>parseInt\<close> of an average drops its fraction.\<close>

definition trunc :: "rat \<Rightarrow> int" where
  "trunc q = (if q < 0 then - \<lfloor>- q\<rfloor> else \<lfloor>q\<rfloor>)"

definition estimateTokenUsage ::
  "clock \<Rightarrow> symphony_db \<Rightarrow> string \<Rightarrow> uuid \<Rightarrow> string + int" where
  "estimateTokenUsage clk db namespace projectId =
     (case token_values (filter (\<lambda>e.
        (case find_run db (ev_run e) of
           None \<Rightarrow> False
         | Some r \<Rightarrow> run_namespace r = namespace \<and> run_project r = Some projectId) \<and>
        ev_kind e = ''token_usage'' \<and> db_now clk - 7 * 86400000 \<le> ev_emitted e) (events db)) of
        Inl m \<Rightarrow> Inl m
      | Inr vs \<Rightarrow>
          Inr (if vs = [] then 50000 else trunc (of_int (sum_list vs) / of_nat (length vs))))"

subsection \<open>The circuit breaker\<close>

record CircuitBreakerConfig =
  bc_id :: string
  bc_failure_threshold :: int
  bc_recovery_timeout :: millis
  bc_success_threshold :: int

record CircuitBreakerState =
  bs_id :: string
  bs_state :: CircuitState
  bs_failures :: int
  bs_successes :: int
  bs_last_failure :: "millis option"
  bs_last_success :: "millis option"
  bs_last_transition :: millis

record CircuitBreaker =
  cb_config :: CircuitBreakerConfig
  cb_state :: CircuitState
  cb_failures :: int
  cb_successes :: int
  cb_last_failure :: "millis option"
  cb_last_success :: "millis option"
  cb_last_transition :: millis
  cb_probe :: bool

definition new_breaker :: "millis \<Rightarrow> CircuitBreakerConfig \<Rightarrow> CircuitBreaker" where
  "new_breaker now config =
     \<lparr>cb_config = config, cb_state = Closed, cb_failures = 0, cb_successes = 0,
      cb_last_failure = None, cb_last_success = None, cb_last_transition = now, cb_probe = False\<rparr>"

definition getFullState :: "CircuitBreaker \<Rightarrow> CircuitBreakerState" where
  "getFullState b =
     \<lparr>bs_id = bc_id (cb_config b), bs_state = cb_state b, bs_failures = cb_failures b,
      bs_successes = cb_successes b, bs_last_failure = cb_last_failure b,
      bs_last_success = cb_last_success b, bs_last_transition = cb_last_transition b\<rparr>"

definition restoreState :: "CircuitBreakerState \<Rightarrow> CircuitBreaker \<Rightarrow> CircuitBreaker" where
  "restoreState p b =
     b\<lparr>cb_state := bs_state p, cb_failures := bs_failures p, cb_successes := bs_successes p,
       cb_last_failure := bs_last_failure p, cb_last_success := bs_last_success p,
       cb_last_transition := bs_last_transition p\<rparr>"

definition transitionTo :: "millis \<Rightarrow> CircuitState \<Rightarrow> CircuitBreaker \<Rightarrow> CircuitBreaker" where
  "transitionTo now newState b = b\<lparr>cb_state := newState, cb_last_transition := now\<rparr>"

text \<open>\<open>isAllowed\<close> takes the time as a parameter, but stamps the transition with the clock.\<close>

definition isAllowed :: "millis \<Rightarrow> millis \<Rightarrow> CircuitBreaker \<Rightarrow> bool \<times> CircuitBreaker" where
  "isAllowed now nowMs b =
     (case cb_state b of
        Closed \<Rightarrow> (True, b)
      | Open \<Rightarrow>
          if bc_recovery_timeout (cb_config b) \<le> nowMs - cb_last_transition b
          then (True, (transitionTo now HalfOpen b)\<lparr>cb_probe := True\<rparr>)
          else (False, b)
      | HalfOpen \<Rightarrow> if cb_probe b then (False, b) else (True, b\<lparr>cb_probe := True\<rparr>))"

definition recordSuccess :: "millis \<Rightarrow> CircuitBreaker \<Rightarrow> CircuitBreaker" where
  "recordSuccess now b =
     (let b = b\<lparr>cb_last_success := Some now\<rparr> in
      case cb_state b of
        HalfOpen \<Rightarrow>
          (let b = b\<lparr>cb_probe := False, cb_successes := cb_successes b + 1\<rparr> in
           if bc_success_threshold (cb_config b) \<le> cb_successes b
           then (transitionTo now Closed b)\<lparr>cb_failures := 0, cb_successes := 0\<rparr>
           else b)
      | Closed \<Rightarrow> b\<lparr>cb_failures := 0, cb_successes := 0\<rparr>
      | Open \<Rightarrow> b)"

definition recordFailure :: "millis \<Rightarrow> CircuitBreaker \<Rightarrow> CircuitBreaker" where
  "recordFailure now b =
     (let b = b\<lparr>cb_last_failure := Some now\<rparr> in
      case cb_state b of
        Closed \<Rightarrow>
          (let b = b\<lparr>cb_failures := cb_failures b + 1\<rparr> in
           if bc_failure_threshold (cb_config b) \<le> cb_failures b then transitionTo now Open b else b)
      | HalfOpen \<Rightarrow> (transitionTo now Open (b\<lparr>cb_probe := False\<rparr>))\<lparr>cb_successes := 0\<rparr>
      | Open \<Rightarrow> b)"

text \<open>The persisted row, one per namespace and breaker.\<close>

record breaker_row =
  br_namespace :: string
  br_id :: string
  br_state :: string
  br_failures :: int
  br_successes :: int
  br_last_failure :: "millis option"
  br_last_success :: "millis option"
  br_last_transition :: millis

definition persistCircuitBreakerState ::
  "string \<Rightarrow> CircuitBreakerState \<Rightarrow> breaker_row list \<Rightarrow> breaker_row list" where
  "persistCircuitBreakerState namespace s t =
     sql_upsert (\<lambda>r. (br_namespace r, br_id r))
       (\<lambda>r e. r\<lparr>br_state := br_state e, br_failures := br_failures e,
          br_successes := br_successes e, br_last_failure := br_last_failure e,
          br_last_success := br_last_success e, br_last_transition := br_last_transition e\<rparr>)
       \<lparr>br_namespace = namespace, br_id = bs_id s, br_state = circuit_value (bs_state s),
        br_failures = bs_failures s, br_successes = bs_successes s,
        br_last_failure = bs_last_failure s, br_last_success = bs_last_success s,
        br_last_transition = bs_last_transition s\<rparr> t"

definition circuit_of_value :: "string \<Rightarrow> CircuitState" where
  "circuit_of_value s =
     (case find (\<lambda>c. circuit_value c = s) [Closed, Open, HalfOpen] of
        Some c \<Rightarrow> c | None \<Rightarrow> Closed)"

definition loadCircuitBreakerState ::
  "string \<Rightarrow> string \<Rightarrow> breaker_row list \<Rightarrow> CircuitBreakerState option" where
  "loadCircuitBreakerState namespace breakerId t =
     map_option (\<lambda>r.
       \<lparr>bs_id = br_id r, bs_state = circuit_of_value (br_state r), bs_failures = br_failures r,
        bs_successes = br_successes r, bs_last_failure = br_last_failure r,
        bs_last_success = br_last_success r, bs_last_transition = br_last_transition r\<rparr>)
       (by_key (\<lambda>r. (br_namespace r, br_id r)) (namespace, breakerId) t)"

subsection \<open>Health and rate gates\<close>

record host_health =
  hh_healthy :: bool
  hh_ssh :: bool
  hh_disk :: bool
  hh_free :: int

definition probeHostHealth :: "bool option \<Rightarrow> int option \<Rightarrow> int \<Rightarrow> host_health" where
  "probeHostHealth sshCheck diskCheck minDiskBytes =
     (let sshOk = (case sshCheck of Some b \<Rightarrow> b | None \<Rightarrow> False);
          (freeBytes, diskOk) =
            (if sshOk
             then (case diskCheck of Some n \<Rightarrow> (n, minDiskBytes \<le> n) | None \<Rightarrow> (0, False))
             else (0, False))
      in \<lparr>hh_healthy = (sshOk \<and> diskOk), hh_ssh = sshOk, hh_disk = diskOk, hh_free = freeBytes\<rparr>)"

definition checkGitHubRateLimit :: "int \<Rightarrow> int \<Rightarrow> int \<Rightarrow> millis \<Rightarrow> bool \<times> millis" where
  "checkGitHubRateLimit remaining resetEpoch reserveQuota nowMs =
     (if remaining > reserveQuota then (True, 0)
      else (False, max (resetEpoch * 1000 - nowMs) 0))"

definition MIN_DISK_FREE_BYTES :: int where
  "MIN_DISK_FREE_BYTES = 5 * 1024 * 1024 * 1024"

text \<open>A getter that throws makes the check throw.\<close>

definition checkDiskSpace :: "int option \<Rightarrow> int \<Rightarrow> (bool \<times> int \<times> int) option" where
  "checkDiskSpace freeBytesGetter threshold =
     map_option (\<lambda>n. (threshold \<le> n, n, threshold)) freeBytesGetter"

subsection \<open>Configuration\<close>

definition snapshotConfigVersion :: "clock \<Rightarrow> uuid \<Rightarrow> int \<Rightarrow> symphony_db \<Rightarrow> symphony_db" where
  "snapshotConfigVersion clk runId configVersion db =
     db\<lparr>runs := sql_update (\<lambda>r. run_id r = runId)
       (\<lambda>r. set_symphony_run_updated_at clk (r\<lparr>run_config_version := Some configVersion\<rparr>)) (runs db)\<rparr>"

definition budget_keys :: "string list" where
  "budget_keys = [''perRunTokenLimit'', ''perProjectDailyBudget'', ''globalDailyBudget'',
     ''githubRateLimitReserve'']"

record config_change =
  cc_budget_only :: bool
  cc_structural :: bool
  cc_changed :: "string list"

text \<open>The keys of both objects in insertion order; two values differ when their serialisations do,
  and \<open>undefined\<close> differs from every value.\<close>

definition classifyConfigChange ::
  "(string \<times> json) list \<Rightarrow> (string \<times> json) list \<Rightarrow> config_change" where
  "classifyConfigChange oldConfig newConfig =
     (let allKeys = map fst oldConfig @
            filter (\<lambda>k. \<not> List.member (map fst oldConfig) k) (map fst newConfig);
          changedKeys = filter (\<lambda>k. map_of oldConfig k \<noteq> map_of newConfig k) allKeys;
          structural = list_ex (\<lambda>k. \<not> List.member budget_keys k) changedKeys
      in \<lparr>cc_budget_only = (changedKeys \<noteq> [] \<and> \<not> structural), cc_structural = structural,
          cc_changed = changedKeys\<rparr>)"

subsection \<open>Issue edits\<close>

datatype EditSensitivity = TitleAndAc | AnyBodyChange | LabelsOnly | AllChanges

record IssueSnapshot =
  is_title :: string
  is_body :: string
  is_labels :: "string list"
  is_assignees :: "string list"

text \<open>
  The section pattern \<^verbatim>\<open>##\s*Acceptance\s*Criteria\s*\n\<close> without case: \<open>\s*\n\<close> takes the
  white space up to its last line feed. The section runs up to the next \<open>##\<close> at the start
  of a line, or to the end.
\<close>

definition strip_literal_i :: "string \<Rightarrow> string \<Rightarrow> string option" where
  "strip_literal_i lit s =
     (if js_toLowerCase (take (length lit) s) = lit then Some (drop (length lit) s) else None)"

definition ac_heading :: "string \<Rightarrow> string option" where
  "ac_heading s =
     (case strip_literal_i ''##'' s of
        None \<Rightarrow> None
      | Some s1 \<Rightarrow>
          (case strip_literal_i ''acceptance'' (dropWhile js_space s1) of
             None \<Rightarrow> None
           | Some s2 \<Rightarrow>
               (case strip_literal_i ''criteria'' (dropWhile js_space s2) of
                  None \<Rightarrow> None
                | Some s3 \<Rightarrow>
                    (let w = takeWhile js_space s3;
                         after = rev (takeWhile (\<lambda>c. c \<noteq> CHR 0x0A) (rev w))
                     in if CHR 0x0A \<in> set w
                        then Some (after @ dropWhile js_space s3) else None))))"

fun until_heading :: "string \<Rightarrow> string" where
  "until_heading [] = []"
| "until_heading (c # cs) =
     (if c = CHR 0x0A \<and> js_startsWith cs ''##'' then [] else c # until_heading cs)"

fun ac_section :: "string \<Rightarrow> string option" where
  "ac_section [] = None"
| "ac_section (c # cs) =
     (case ac_heading (c # cs) of
        Some rest \<Rightarrow> Some (until_heading rest)
      | None \<Rightarrow> ac_section cs)"

text \<open>All matches of \<^verbatim>\<open>- \[[ x]\] .+\<close>, to the end of their lines.\<close>

definition checklist_item :: "string \<Rightarrow> string option" where
  "checklist_item s =
     (if (js_startsWith s ''- [ ] '' \<or> js_startsWith s ''- [x] '') \<and>
         takeWhile (\<lambda>c. \<not> js_line_terminator c) (drop 6 s) \<noteq> []
      then Some (take 6 s @ takeWhile (\<lambda>c. \<not> js_line_terminator c) (drop 6 s)) else None)"

function checklist_items :: "string \<Rightarrow> string list" where
  "checklist_items [] = []"
| "checklist_items (c # cs) =
     (case checklist_item (c # cs) of
        Some item \<Rightarrow> item # checklist_items (drop (length item - 1) cs)
      | None \<Rightarrow> checklist_items cs)"
  by pat_completeness auto
termination
  by (relation "measure length") auto

definition extractAcceptanceCriteria :: "string \<Rightarrow> string" where
  "extractAcceptanceCriteria body =
     (case ac_section body of
        Some section \<Rightarrow> js_trim section
      | None \<Rightarrow> js_join [CHR 0x0A] (checklist_items body))"

definition changed_fields :: "IssueSnapshot \<Rightarrow> IssueSnapshot \<Rightarrow> string list" where
  "changed_fields previous current =
     (if is_title previous \<noteq> is_title current then [''title''] else []) @
     (if is_body previous \<noteq> is_body current then [''body''] else []) @
     (if js_join '','' (sort (is_labels previous)) \<noteq> js_join '','' (sort (is_labels current))
      then [''labels''] else []) @
     (if js_join '','' (sort (is_assignees previous)) \<noteq> js_join '','' (sort (is_assignees current))
      then [''assignees''] else [])"

definition detectSubstantialEdit ::
  "IssueSnapshot \<Rightarrow> IssueSnapshot \<Rightarrow> EditSensitivity \<Rightarrow> bool \<times> string list" where
  "detectSubstantialEdit previous current sensitivity =
     (let changedFields = changed_fields previous current;
          changed = (\<lambda>f. List.member changedFields f) in
      if changedFields = [] then (False, changedFields)
      else (case sensitivity of
          AllChanges \<Rightarrow> (True, changedFields)
        | AnyBodyChange \<Rightarrow> (changed ''body'' \<or> changed ''title'', changedFields)
        | LabelsOnly \<Rightarrow> (changed ''labels'', changedFields)
        | TitleAndAc \<Rightarrow>
            (if changed ''title'' then (True, changedFields)
             else if changed ''body'' \<and> extractAcceptanceCriteria (is_body previous)
                       \<noteq> extractAcceptanceCriteria (is_body current)
             then (True, changedFields)
             else if changed ''labels'' then (True, changedFields)
             else if changed ''assignees'' then (True, changedFields)
             else (False, changedFields))))"

subsection \<open>The breaker's contract\<close>

definition breaker_ask :: "millis \<Rightarrow> CircuitBreaker \<Rightarrow> bool \<times> CircuitBreaker" where
  "breaker_ask t b = isAllowed t t b"

definition breaker_deadline :: "CircuitBreaker \<Rightarrow> millis" where
  "breaker_deadline b = cb_last_transition b + bc_recovery_timeout (cb_config b)"

lemmas breaker_ops = isAllowed_def recordSuccess_def recordFailure_def transitionTo_def Let_def

lemma breaker_config_kept [simp]:
  "cb_config (snd (isAllowed now nowMs b)) = cb_config b"
  "cb_config (recordSuccess now b) = cb_config b"
  "cb_config (recordFailure now b) = cb_config b"
  by (simp_all add: breaker_ops split: CircuitState.splits)

interpretation host: breaker
  breaker_ask recordSuccess recordFailure cb_state cb_failures breaker_deadline
  "bc_failure_threshold config" "bc_recovery_timeout config" "\<lambda>b. cb_config b = config"
  for config
  by unfold_locales
    (auto simp: breaker_ask_def breaker_deadline_def breaker_ops split: CircuitState.splits)

subsection \<open>Properties\<close>

text \<open>
  A retry waits between half of the capped exponential and the capped exponential, whatever the
  random source returns: never more than \<open>maxMs\<close>, never less than half of the first delay (or
  of the cap, if that is smaller), and with the same draw a later attempt never waits less.
\<close>

theorem retry_delay_bounds:
  assumes "1 \<le> attempt" and "0 \<le> baseMs" and "0 \<le> maxMs"
  shows "min (baseMs * 2 ^ nat (attempt - 1)) maxMs div 2 \<le> calculateRetryDelay attempt baseMs maxMs raw \<and>
    calculateRetryDelay attempt baseMs maxMs raw \<le> min (baseMs * 2 ^ nat (attempt - 1)) maxMs \<and>
    min baseMs maxMs div 2 \<le> calculateRetryDelay attempt baseMs maxMs raw \<and>
    calculateRetryDelay attempt baseMs maxMs raw \<le> calculateRetryDelay (attempt + 1) baseMs maxMs raw"
proof -
  let ?c = "min (baseMs * 2 ^ nat (attempt - 1)) maxMs"
  let ?c' = "min (baseMs * 2 ^ nat attempt) maxMs"
  let ?j = "1 / 2 + max 0 (min 1 raw) * (1 / 2) :: rat"
  have j: "1 / 2 \<le> ?j" "?j \<le> 1" by (simp_all add: max_def min_def)
  have c0: "0 \<le> ?c" using assms by simp
  have base: "baseMs * 1 \<le> baseMs * 2 ^ nat (attempt - 1)"
    using assms by (intro mult_left_mono) simp_all
  have "nat attempt = Suc (nat (attempt - 1))" using assms(1) by simp
  then have "baseMs * 2 ^ nat attempt = 2 * (baseMs * 2 ^ nat (attempt - 1))" by simp
  moreover have "0 \<le> baseMs * 2 ^ nat (attempt - 1)" using assms(2) by simp
  ultimately have step: "?c \<le> ?c'" by linarith
  have low: "(of_int ?c :: rat) * (1 / 2) \<le> of_int ?c * ?j"
    using c0 j by (intro mult_left_mono) simp_all
  have high: "(of_int ?c :: rat) * ?j \<le> of_int ?c * 1"
    using c0 j by (intro mult_left_mono) simp_all
  have up: "(of_int ?c :: rat) * ?j \<le> of_int ?c' * ?j"
  proof (rule mult_right_mono)
    show "(of_int ?c :: rat) \<le> of_int ?c'" using step by (simp only: of_int_le_iff)
    show "0 \<le> ?j" using j(1) by linarith
  qed
  have d: "calculateRetryDelay attempt baseMs maxMs raw = \<lfloor>of_int ?c * ?j\<rfloor>"
    "calculateRetryDelay (attempt + 1) baseMs maxMs raw = \<lfloor>of_int ?c' * ?j\<rfloor>"
    using assms(1) by (simp_all add: calculateRetryDelay_def Let_def)
  have half: "?c div 2 = \<lfloor>(of_int ?c :: rat) * (1 / 2)\<rfloor>"
    using floor_divide_of_int_eq [of ?c 2, where ?'a = rat] by simp
  have l: "?c div 2 \<le> calculateRetryDelay attempt baseMs maxMs raw"
    unfolding d(1) half by (rule floor_mono [OF low])
  have "min baseMs maxMs \<le> ?c" using base by (auto simp: min_def)
  then have "min baseMs maxMs div 2 \<le> ?c div 2" by (rule zdiv_mono1) simp
  with l have "min baseMs maxMs div 2 \<le> calculateRetryDelay attempt baseMs maxMs raw" by linarith
  moreover have "calculateRetryDelay attempt baseMs maxMs raw \<le> ?c"
    unfolding d(1) using floor_mono [OF high] by simp
  moreover have "calculateRetryDelay attempt baseMs maxMs raw \<le>
      calculateRetryDelay (attempt + 1) baseMs maxMs raw"
    unfolding d by (rule floor_mono [OF up])
  ultimately show ?thesis using l by blast
qed

theorem retry_delay_bounds_witness:
  "150000 \<le> calculateRetryDelay 9 10000 300000 (1 / 3) \<and>
   calculateRetryDelay 9 10000 300000 (1 / 3) \<le> 300000"
  using retry_delay_bounds [of 9 10000 300000 "1 / 3"] by simp

text \<open>Traffic while the circuit is open: requests asking, and failures of requests under way.\<close>

definition host_traffic :: "bool \<times> millis \<Rightarrow> CircuitBreaker \<Rightarrow> CircuitBreaker" where
  "host_traffic e b = (if fst e then snd (breaker_ask (snd e) b) else recordFailure (snd e) b)"

text \<open>A burst of failures that a success ends.\<close>

definition host_burst :: "millis list \<times> millis \<Rightarrow> CircuitBreaker \<Rightarrow> CircuitBreaker" where
  "host_burst s b = recordSuccess (snd s) (fold recordFailure (fst s) b)"

lemma host_traffic_pester: "host_traffic = host.pester"
  by (simp add: fun_eq_iff host_traffic_def host.pester_def)

lemma host_burst_burst: "host_burst = (\<lambda>s. host.burst (fst s) (snd s))"
  by (simp add: fun_eq_iff host_burst_def host.burst_def)

text \<open>
  A host that fails as often in a row as the threshold is left alone for the whole recovery
  timeout, whatever is asked or reported meanwhile; a host whose failures always stop short of the
  threshold before a success is never refused.
\<close>

theorem host_breaker_protects:
  assumes "int (length ts) + 1 = bc_failure_threshold config"
    and "list_all (\<lambda>e. snd e < t + bc_recovery_timeout config) es"
    and "u < t + bc_recovery_timeout config"
    and "list_all (\<lambda>s. int (length (fst s)) < bc_failure_threshold config) bursts"
  shows "\<not> fst (breaker_ask u (fold host_traffic es (fold recordFailure (ts @ [t]) (new_breaker s config)))) \<and>
    fst (breaker_ask v (fold host_burst bursts (new_breaker s config)))"
proof -
  let ?b = "new_breaker s config"
  have b: "cb_config ?b = config" "cb_state ?b = Closed" "cb_failures ?b = 0"
    by (simp_all add: new_breaker_def)
  show ?thesis
    using host.protects [OF b assms(1), of es t u] host.bursts_closed [OF b, of bursts v] assms(2-4)
    by (simp add: host_traffic_pester host_burst_burst list_all_iff)
qed

definition example_breaker_config :: CircuitBreakerConfig where
  "example_breaker_config =
     \<lparr>bc_id = ''host-1'', bc_failure_threshold = 2, bc_recovery_timeout = 1000,
      bc_success_threshold = 1\<rparr>"

theorem host_breaker_protects_witness:
  "\<not> fst (breaker_ask 999 (fold host_traffic [(True, 500), (False, 600)]
     (fold recordFailure [0, 1] (new_breaker 0 example_breaker_config))))"
  using host_breaker_protects [where ts = "[0]" and t = 1 and u = 999 and bursts = "[]" and s = 0
      and es = "[(True, 500), (False, 600)]" and config = example_breaker_config]
  by (simp add: example_breaker_config_def)

text \<open>Asking for admission again and again, at any times.\<close>

definition ask_all :: "(millis \<times> millis) list \<Rightarrow> CircuitBreaker \<Rightarrow> bool list \<times> CircuitBreaker" where
  "ask_all ts b =
     fold (\<lambda>(now, nowMs) (rs, b). let (r, b') = isAllowed now nowMs b in (rs @ [r], b')) ts ([], b)"

lemma ask_all_waiting:
  assumes "cb_state b = HalfOpen" and "cb_probe b"
  shows "ask_all ts b = (map (\<lambda>_. False) ts, b)"
proof -
  have "fold (\<lambda>(now, nowMs) (rs, b). let (r, b') = isAllowed now nowMs b in (rs @ [r], b')) ts (rs, b)
      = (rs @ map (\<lambda>_. False) ts, b)" for rs
    using assms by (induction ts arbitrary: rs) (auto simp: isAllowed_def)
  then show ?thesis by (simp add: ask_all_def)
qed

text \<open>A probe that succeeds: asked for, granted, reported.\<close>

definition good_probe :: "millis \<Rightarrow> CircuitBreaker \<Rightarrow> CircuitBreaker" where
  "good_probe t b = recordSuccess t (snd (isAllowed t t b))"

lemma good_probes_close:
  assumes "cb_state b = HalfOpen" and "\<not> cb_probe b"
    and "cb_successes b + int (length ts) = bc_success_threshold (cb_config b)" and "ts \<noteq> []"
  shows "cb_state (fold good_probe ts b) = Closed \<and> cb_failures (fold good_probe ts b) = 0"
  using assms
proof (induction ts arbitrary: b)
  case Nil
  then show ?case by simp
next
  case (Cons t ts)
  let ?b = "good_probe t b"
  show ?case
  proof (cases "ts = []")
    case True
    then show ?thesis using Cons.prems by (simp add: good_probe_def breaker_ops)
  next
    case False
    then have "0 < int (length ts)" by simp
    then have "\<not> bc_success_threshold (cb_config b) \<le> cb_successes b + 1"
      using Cons.prems(3) by (simp only: length_Cons of_nat_Suc)
    then have "cb_state ?b = HalfOpen \<and> \<not> cb_probe ?b \<and> cb_successes ?b = cb_successes b + 1 \<and>
        cb_config ?b = cb_config b"
      using Cons.prems by (simp add: good_probe_def breaker_ops)
    with Cons.IH [of ?b] Cons.prems(3) False show ?thesis by simp
  qed
qed

text \<open>
  C9. Once the recovery timeout of an open circuit is over, exactly one request is let through as a
  probe: until it reports, every other request is refused, at whatever times they come, so a probe
  that never reports keeps the circuit shut for good. If it fails the circuit is open again from
  that moment; if as many probes in a row succeed as the success threshold asks for, it closes.
\<close>

theorem host_breaker_single_probe:
  assumes "cb_state b = Open" and "cb_last_transition b + bc_recovery_timeout (cb_config b) \<le> t"
  shows "case isAllowed t t b of (granted, b1) \<Rightarrow>
    granted \<and>
    ask_all ts b1 = (map (\<lambda>_. False) ts, b1) \<and>
    cb_state (recordFailure u b1) = Open \<and>
    cb_last_transition (recordFailure u b1) = u \<and>
    cb_state (recordSuccess u b1) =
      (if bc_success_threshold (cb_config b) \<le> cb_successes b + 1 then Closed else HalfOpen) \<and>
    (int (length us) = bc_success_threshold (cb_config b) - cb_successes b - 1 \<longrightarrow>
      cb_state (fold good_probe us (recordSuccess u b1)) = Closed)"
proof -
  let ?b1 = "snd (isAllowed t t b)"
  have g: "fst (isAllowed t t b)" and h: "cb_state ?b1 = HalfOpen" "cb_probe ?b1"
      "cb_successes ?b1 = cb_successes b" "cb_config ?b1 = cb_config b"
    using assms by (auto simp: breaker_ops)
  have f: "cb_state (recordFailure u ?b1) = Open" "cb_last_transition (recordFailure u ?b1) = u"
    using h by (simp_all add: recordFailure_def transitionTo_def Let_def)
  have s: "cb_state (recordSuccess u ?b1) =
      (if bc_success_threshold (cb_config b) \<le> cb_successes b + 1 then Closed else HalfOpen)"
    using h by (simp add: recordSuccess_def transitionTo_def Let_def)
  have "cb_state (fold good_probe us (recordSuccess u ?b1)) = Closed"
    if len: "int (length us) = bc_success_threshold (cb_config b) - cb_successes b - 1"
  proof (cases "us = []")
    case True
    with len s show ?thesis by simp
  next
    case False
    then have "0 < int (length us)" by simp
    with len have more: "\<not> bc_success_threshold (cb_config b) \<le> cb_successes b + 1" by linarith
    then have "cb_state (recordSuccess u ?b1) = HalfOpen" "\<not> cb_probe (recordSuccess u ?b1)"
      "cb_successes (recordSuccess u ?b1) = cb_successes b + 1"
      using h by (simp_all add: recordSuccess_def transitionTo_def Let_def)
    with good_probes_close [of "recordSuccess u ?b1" us] len False h(4) show ?thesis by simp
  qed
  with g f s ask_all_waiting [OF h(1,2)] show ?thesis
    by (cases "isAllowed t t b") simp
qed

theorem host_breaker_single_probe_witness:
  "case isAllowed 2000 2000 (fold recordFailure [0, 1] (new_breaker 0 example_breaker_config)) of
     (granted, b1) \<Rightarrow> granted \<and> fst (ask_all [(2001, 2001), (9999, 9999)] b1) = [False, False]"
proof -
  let ?b = "fold recordFailure [0, 1] (new_breaker 0 example_breaker_config)"
  have "cb_state ?b = Open" and "cb_last_transition ?b + bc_recovery_timeout (cb_config ?b) \<le> 2000"
    by (simp_all add: breaker_ops new_breaker_def example_breaker_config_def)
  from host_breaker_single_probe [OF this, of "[(2001, 2001), (9999, 9999)]"] show ?thesis
    by (auto split: prod.splits)
qed

text \<open>
  Breaker state survives a restart: persisting a breaker and loading it into a new one of the
  same configuration gives the breaker back, with no probe in flight; the rows of other namespaces
  and breakers are not touched.
\<close>

theorem breaker_persist_roundtrip:
  "map_option (\<lambda>p. restoreState p (new_breaker now (cb_config b)))
     (loadCircuitBreakerState namespace (bc_id (cb_config b))
       (persistCircuitBreakerState namespace (getFullState b) t)) = Some (b\<lparr>cb_probe := False\<rparr>) \<and>
   (if (namespace', i) = (namespace, bc_id (cb_config b)) then True
    else loadCircuitBreakerState namespace' i (persistCircuitBreakerState namespace (getFullState b) t)
      = loadCircuitBreakerState namespace' i t)"
proof -
  have v: "circuit_of_value (circuit_value c) = c" for c
    by (cases c) (simp_all add: circuit_of_value_def)
  have k: "by_key (\<lambda>r. (br_namespace r, br_id r)) k (persistCircuitBreakerState namespace s t) =
      (if k = (namespace, bs_id s)
       then Some \<lparr>br_namespace = namespace, br_id = bs_id s, br_state = circuit_value (bs_state s),
          br_failures = bs_failures s, br_successes = bs_successes s,
          br_last_failure = bs_last_failure s, br_last_success = bs_last_success s,
          br_last_transition = bs_last_transition s\<rparr>
       else by_key (\<lambda>r. (br_namespace r, br_id r)) k t)" for k s
    unfolding persistCircuitBreakerState_def
    by (subst by_key_sql_upsert) (auto dest!: by_key_SomeD split: option.splits)
  show ?thesis
    by (cases b) (simp add: loadCircuitBreakerState_def k v getFullState_def restoreState_def
        new_breaker_def)
qed

text \<open>A level's usage and limit, apart from the order in which the levels are tried.\<close>

fun budget_usage ::
  "clock \<Rightarrow> symphony_db \<Rightarrow> string \<Rightarrow> uuid \<Rightarrow> uuid \<Rightarrow> budget_level \<Rightarrow> string + int" where
  "budget_usage clk db namespace runId projectId PerRun = getRunTokenUsage db runId"
| "budget_usage clk db namespace runId projectId PerProject =
     getProjectDailyTokenUsage clk db namespace projectId"
| "budget_usage clk db namespace runId projectId GlobalLevel =
     getGlobalDailyTokenUsage clk db namespace"

fun budget_limit :: "BudgetLimits \<Rightarrow> budget_level \<Rightarrow> int" where
  "budget_limit limits PerRun = perRunTokenLimit limits"
| "budget_limit limits PerProject = perProjectDailyBudget limits"
| "budget_limit limits GlobalLevel = globalDailyBudget limits"

lemma budget_level_check_cases [outcome_iff]:
  "budget_level_check lv limit usage est = Inr BudgetAllowed \<longleftrightarrow>
     limit \<le> 0 \<or> (\<exists>n. usage = Inr n \<and> n + est \<le> limit)"
  "budget_level_check lv limit usage est = Inr (BudgetRefused lv' n l) \<longleftrightarrow>
     lv' = lv \<and> l = limit \<and> 0 < limit \<and> usage = Inr n \<and> limit < n + est"
  "budget_level_check lv limit usage est = Inl m \<longleftrightarrow> 0 < limit \<and> usage = Inl m"
  by (auto simp: budget_level_check_def split: sum.splits)

text \<open>
  The budget gate: a run is allowed when at each of the three levels that has a limit the usage
  plus the estimate stays within it; a refusal names a level with its usage and limit that the
  estimate would exceed; it fails only when the usage query of a limited level does. A limit of
  zero or less is no limit, and its usage is not read.
\<close>

theorem checkBudget_spec:
  "case checkBudget clk db namespace runId projectId limits est of
     Inr BudgetAllowed \<Rightarrow>
       list_all (\<lambda>lv. if budget_limit limits lv \<le> 0 then True
         else case budget_usage clk db namespace runId projectId lv of
             Inr n \<Rightarrow> n + est \<le> budget_limit limits lv | Inl _ \<Rightarrow> False)
         [PerRun, PerProject, GlobalLevel]
   | Inr (BudgetRefused lv n l) \<Rightarrow>
       l = budget_limit limits lv \<and> 0 < l \<and>
       budget_usage clk db namespace runId projectId lv = Inr n \<and> l < n + est
   | Inl m \<Rightarrow> list_ex (\<lambda>lv. 0 < budget_limit limits lv \<and>
       budget_usage clk db namespace runId projectId lv = Inl m) [PerRun, PerProject, GlobalLevel]"
proof -
  let ?level = "\<lambda>lv. budget_level_check lv (budget_limit limits lv)
    (budget_usage clk db namespace runId projectId lv) est"
  have "checkBudget clk db namespace runId projectId limits est =
     (if ?level PerRun \<noteq> Inr BudgetAllowed then ?level PerRun
      else if ?level PerProject \<noteq> Inr BudgetAllowed then ?level PerProject
      else ?level GlobalLevel)"
    by (auto simp: checkBudget_def split: sum.splits budget_check.splits)
  then obtain res where res: "checkBudget clk db namespace runId projectId limits est = res"
    "(\<exists>lv. res = ?level lv) \<and>
     (res = Inr BudgetAllowed \<longrightarrow> (\<forall>lv. ?level lv = Inr BudgetAllowed))"
    by (smt (verit) budget_level.exhaust)
  show ?thesis
  proof (cases "res = Inr BudgetAllowed")
    case True
    let ?within = "\<lambda>lv. if budget_limit limits lv \<le> 0 then True
       else case budget_usage clk db namespace runId projectId lv of
           Inr n \<Rightarrow> n + est \<le> budget_limit limits lv | Inl _ \<Rightarrow> False"
    from True res(2) have all: "?level lv = Inr BudgetAllowed" for lv by blast
    have within: "?within lv" for lv
      using all [of lv] unfolding budget_level_check_cases(1) by (auto split: sum.splits)
    have "list_all ?within [PerRun, PerProject, GlobalLevel]"
      unfolding list_all_iff using within by blast
    then show ?thesis
      unfolding res(1) True by (simp only: sum.case budget_check.case)
  next
    case False
    from res(2) obtain lv where lv: "res = ?level lv" by blast
    show ?thesis
    proof (cases res)
      case (Inl m)
      then show ?thesis
        using lv [symmetric] unfolding res(1) Inl
        by (cases lv) (simp_all add: budget_level_check_cases)
    next
      case (Inr c)
      with False obtain lv' n l where "res = Inr (BudgetRefused lv' n l)" by (cases c) auto
      with lv [symmetric] show ?thesis
        unfolding res(1) by (simp add: budget_level_check_cases)
    qed
  qed
qed

end
