(* ===== verification/WorkerBreaker.thy ===== *)
theory WorkerBreaker
  imports Breaker
begin

text \<open>
  \<^verbatim>\<open>src/worker/circuit-breaker.ts\<close>: the webhook dispatcher's breaker, one state per
  destination host. Parsing a URL is the platform's \<open>new URL(s).host\<close>, a parameter here
  (\<open>None\<close> when it throws); the state-change callback is a list of notifications.
\<close>

record DestinationState =
  ds_state :: CircuitState
  ds_failures :: int
  ds_last_failure :: "millis option"
  ds_open_until :: "millis option"

record breaker_options =
  bo_threshold :: "int option"
  bo_cooldown :: "millis option"

record worker_breaker =
  wb_threshold :: int
  wb_cooldown :: millis
  wb_destinations :: "(string \<times> DestinationState) list"
  wb_notified :: "(string \<times> CircuitState \<times> CircuitState \<times> int) list"

type_synonym url_host = "string \<Rightarrow> string option"

definition destinationKey :: "url_host \<Rightarrow> string \<Rightarrow> string" where
  "destinationKey host destination =
     (case host destination of Some h \<Rightarrow> h | None \<Rightarrow> destination)"

definition new_worker_breaker :: "breaker_options \<Rightarrow> worker_breaker" where
  "new_worker_breaker options =
     \<lparr>wb_threshold = (case bo_threshold options of Some n \<Rightarrow> n | None \<Rightarrow> 5),
      wb_cooldown = (case bo_cooldown options of Some n \<Rightarrow> n | None \<Rightarrow> 60000),
      wb_destinations = [], wb_notified = []\<rparr>"

definition fresh_destination :: DestinationState where
  "fresh_destination =
     \<lparr>ds_state = Closed, ds_failures = 0, ds_last_failure = None, ds_open_until = None\<rparr>"

definition set_destination :: "string \<Rightarrow> DestinationState \<Rightarrow> worker_breaker \<Rightarrow> worker_breaker" where
  "set_destination key s b = b\<lparr>wb_destinations := AList.update key s (wb_destinations b)\<rparr>"

definition getOrCreate ::
  "url_host \<Rightarrow> string \<Rightarrow> worker_breaker \<Rightarrow> DestinationState \<times> worker_breaker" where
  "getOrCreate host destination b =
     (let key = destinationKey host destination in
      case map_of (wb_destinations b) key of
        Some s \<Rightarrow> (s, b)
      | None \<Rightarrow> (fresh_destination, set_destination key fresh_destination b))"

definition notify :: "string \<Rightarrow> CircuitState \<Rightarrow> CircuitState \<Rightarrow> int \<Rightarrow> worker_breaker \<Rightarrow> worker_breaker" where
  "notify destination prev new n b =
     b\<lparr>wb_notified := wb_notified b @ [(destination, prev, new, n)]\<rparr>"

definition isOpen :: "url_host \<Rightarrow> millis \<Rightarrow> string \<Rightarrow> worker_breaker \<Rightarrow> bool \<times> worker_breaker" where
  "isOpen host now destination b =
     (let (s, b) = getOrCreate host destination b in
      if ds_state s = Closed then (False, b)
      else if ds_state s = Open then
        (if (case ds_open_until s of None \<Rightarrow> False | Some u \<Rightarrow> u \<le> now)
         then (False,
               notify destination Open HalfOpen (ds_failures s)
                 (set_destination (destinationKey host destination) (s\<lparr>ds_state := HalfOpen\<rparr>) b))
         else (True, b))
      else (False, b))"

definition recordSuccess_w :: "url_host \<Rightarrow> string \<Rightarrow> worker_breaker \<Rightarrow> worker_breaker" where
  "recordSuccess_w host destination b =
     (let key = destinationKey host destination;
          previousState =
            (case map_of (wb_destinations b) key of Some s \<Rightarrow> ds_state s | None \<Rightarrow> Closed);
          b = set_destination key fresh_destination b
      in if previousState \<noteq> Closed then notify destination previousState Closed 0 b else b)"

definition recordFailure_w :: "url_host \<Rightarrow> millis \<Rightarrow> string \<Rightarrow> worker_breaker \<Rightarrow> worker_breaker" where
  "recordFailure_w host now destination b =
     (let (s, b) = getOrCreate host destination b;
          key = destinationKey host destination;
          previousState = ds_state s;
          s = s\<lparr>ds_failures := ds_failures s + 1, ds_last_failure := Some now\<rparr>
      in if wb_threshold b \<le> ds_failures s \<and> previousState \<noteq> Open
         then notify destination previousState Open (ds_failures s)
                (set_destination key
                  (s\<lparr>ds_state := Open, ds_open_until := Some (now + wb_cooldown b)\<rparr>) b)
         else set_destination key s b)"

definition getState_w :: "url_host \<Rightarrow> millis \<Rightarrow> string \<Rightarrow> worker_breaker \<Rightarrow> CircuitState \<times> worker_breaker" where
  "getState_w host now destination b =
     (let (s, b) = getOrCreate host destination (snd (isOpen host now destination b))
      in (ds_state s, b))"

text \<open>
  \<open>for (const key of this.destinations.keys()) this.isOpen(key)\<close>: the iterator also visits
  keys added on the way. The loop is bounded by a count of visits that the caller chooses.
\<close>

fun refresh_keys :: "url_host \<Rightarrow> millis \<Rightarrow> nat \<Rightarrow> nat \<Rightarrow> worker_breaker \<Rightarrow> worker_breaker option" where
  "refresh_keys host now i fuel b =
     (if length (wb_destinations b) \<le> i then Some b
      else (case fuel of
          0 \<Rightarrow> None
        | Suc f \<Rightarrow> refresh_keys host now (Suc i) f
            (snd (isOpen host now (fst (wb_destinations b ! i)) b))))"

definition getStats_w ::
  "url_host \<Rightarrow> millis \<Rightarrow> nat \<Rightarrow> worker_breaker \<Rightarrow> ((string \<times> DestinationState) list \<times> worker_breaker) option"
where
  "getStats_w host now fuel b =
     map_option (\<lambda>b'. (wb_destinations b', b')) (refresh_keys host now 0 fuel b)"

declare refresh_keys.simps [simp del]

subsection \<open>One destination as a breaker\<close>

definition destination_state :: "url_host \<Rightarrow> string \<Rightarrow> worker_breaker \<Rightarrow> DestinationState" where
  "destination_state host d b =
     (case map_of (wb_destinations b) (destinationKey host d) of
        Some s \<Rightarrow> s | None \<Rightarrow> fresh_destination)"

text \<open>An open circuit has its deadline, and a circuit that is not closed keeps the failures that opened it.\<close>

definition destination_inv :: "int \<Rightarrow> millis \<Rightarrow> url_host \<Rightarrow> string \<Rightarrow> worker_breaker \<Rightarrow> bool" where
  "destination_inv threshold cooldown host d b \<longleftrightarrow>
     wb_threshold b = threshold \<and> wb_cooldown b = cooldown \<and>
     (let s = destination_state host d b in
      (ds_state s = Open \<longrightarrow> ds_open_until s \<noteq> None) \<and>
      (ds_state s \<noteq> Closed \<longrightarrow> threshold \<le> ds_failures s))"

definition destination_deadline :: "url_host \<Rightarrow> string \<Rightarrow> worker_breaker \<Rightarrow> millis" where
  "destination_deadline host d b =
     (case ds_open_until (destination_state host d b) of Some u \<Rightarrow> u | None \<Rightarrow> 0)"

lemma set_destination_simps [simp]:
  "wb_threshold (set_destination k s b) = wb_threshold b"
  "wb_cooldown (set_destination k s b) = wb_cooldown b"
  "map_of (wb_destinations (set_destination k s b)) k' =
     (if k' = k then Some s else map_of (wb_destinations b) k')"
  by (simp_all add: set_destination_def update_conv')

lemma notify_simps [simp]:
  "wb_threshold (notify d p n k b) = wb_threshold b"
  "wb_cooldown (notify d p n k b) = wb_cooldown b"
  "wb_destinations (notify d p n k b) = wb_destinations b"
  by (simp_all add: notify_def)

lemma fresh_destination_simps [simp]:
  "ds_state fresh_destination = Closed" "ds_failures fresh_destination = 0"
  "ds_open_until fresh_destination = None"
  by (simp_all add: fresh_destination_def)

text \<open>What each operation does to the state of its own destination, and to any other host.\<close>

lemma isOpen_state:
  "destination_state host d' (snd (isOpen host now d b)) =
    (let s = destination_state host d b in
     if destinationKey host d' = destinationKey host d \<and> ds_state s = Open \<and>
        (case ds_open_until s of None \<Rightarrow> False | Some u \<Rightarrow> u \<le> now)
     then s\<lparr>ds_state := HalfOpen\<rparr> else destination_state host d' b)"
  "fst (isOpen host now d b) =
    (let s = destination_state host d b in
     ds_state s = Open \<and> (case ds_open_until s of None \<Rightarrow> True | Some u \<Rightarrow> now < u))"
  by (auto simp: isOpen_def getOrCreate_def destination_state_def Let_def not_le
      split: option.splits)

lemma recordSuccess_state:
  "destination_state host d' (recordSuccess_w host d b) =
    (if destinationKey host d' = destinationKey host d then fresh_destination
     else destination_state host d' b)"
  by (auto simp: recordSuccess_w_def destination_state_def Let_def)

lemma recordFailure_state:
  "destination_state host d' (recordFailure_w host now d b) =
    (let s = destination_state host d b;
         s' = s\<lparr>ds_failures := ds_failures s + 1, ds_last_failure := Some now\<rparr> in
     if destinationKey host d' = destinationKey host d
     then (if wb_threshold b \<le> ds_failures s + 1 \<and> ds_state s \<noteq> Open
           then s'\<lparr>ds_state := Open, ds_open_until := Some (now + wb_cooldown b)\<rparr> else s')
     else destination_state host d' b)"
  by (auto simp: recordFailure_w_def getOrCreate_def destination_state_def Let_def
      split: option.splits)

lemma worker_config_kept [simp]:
  "wb_threshold (snd (isOpen host now d b)) = wb_threshold b"
  "wb_cooldown (snd (isOpen host now d b)) = wb_cooldown b"
  "wb_threshold (recordSuccess_w host d b) = wb_threshold b"
  "wb_cooldown (recordSuccess_w host d b) = wb_cooldown b"
  "wb_threshold (recordFailure_w host now d b) = wb_threshold b"
  "wb_cooldown (recordFailure_w host now d b) = wb_cooldown b"
  by (auto simp: isOpen_def recordSuccess_w_def recordFailure_w_def getOrCreate_def Let_def
      split: option.splits)

definition destination_ask ::
  "url_host \<Rightarrow> string \<Rightarrow> millis \<Rightarrow> worker_breaker \<Rightarrow> bool \<times> worker_breaker" where
  "destination_ask host d t b = (let (blocked, b') = isOpen host t d b in (\<not> blocked, b'))"

lemma destination_ask_simps:
  "fst (destination_ask host d t b) = (\<not> fst (isOpen host t d b))"
  "snd (destination_ask host d t b) = snd (isOpen host t d b)"
  by (simp_all add: destination_ask_def split: prod.splits)

interpretation worker: breaker
  "destination_ask host d" "\<lambda>_. recordSuccess_w host d" "\<lambda>t. recordFailure_w host t d"
  "\<lambda>b. ds_state (destination_state host d b)" "\<lambda>b. ds_failures (destination_state host d b)"
  "destination_deadline host d" threshold cooldown "destination_inv threshold cooldown host d"
  for host d threshold cooldown
  by unfold_locales
    (auto simp: destination_ask_simps isOpen_state recordSuccess_state recordFailure_state
      destination_inv_def destination_deadline_def Let_def split: option.splits if_splits)

subsection \<open>Properties\<close>

text \<open>Traffic around an open circuit: requests asking for admission, failures reported by requests
  under way (to any host), and successes.\<close>

datatype breaker_event =
    AskEvent string millis
  | FailEvent string millis
  | OkEvent string

fun apply_breaker_event :: "url_host \<Rightarrow> breaker_event \<Rightarrow> worker_breaker \<Rightarrow> worker_breaker" where
  "apply_breaker_event host (AskEvent d t) b = snd (isOpen host t d b)"
| "apply_breaker_event host (FailEvent d t) b = recordFailure_w host t d b"
| "apply_breaker_event host (OkEvent d) b = recordSuccess_w host d b"

text \<open>Before a time, and no success for the host.\<close>

fun quiet_event :: "url_host \<Rightarrow> string \<Rightarrow> millis \<Rightarrow> breaker_event \<Rightarrow> bool" where
  "quiet_event host d u (AskEvent d' t) = (t < u)"
| "quiet_event host d u (FailEvent d' t) = (t < u)"
| "quiet_event host d u (OkEvent d') = (destinationKey host d' \<noteq> destinationKey host d)"

definition open_until :: "url_host \<Rightarrow> string \<Rightarrow> millis \<Rightarrow> worker_breaker \<Rightarrow> bool" where
  "open_until host d u b \<longleftrightarrow>
     ds_state (destination_state host d b) = Open \<and>
     ds_open_until (destination_state host d b) = Some u"

lemma destination_state_key:
  "destinationKey host d' = destinationKey host d \<Longrightarrow>
    destination_state host d' b = destination_state host d b"
  by (simp add: destination_state_def)

lemma open_until_event:
  assumes "open_until host d u b" and "quiet_event host d u e"
  shows "open_until host d u (apply_breaker_event host e b)"
proof (cases e)
  case (AskEvent d' t)
  then show ?thesis
    using assms destination_state_key [of host d' d b]
    by (auto simp: open_until_def isOpen_state Let_def)
next
  case (FailEvent d' t)
  then show ?thesis
    using assms destination_state_key [of host d' d b]
    by (auto simp: open_until_def recordFailure_state Let_def)
next
  case (OkEvent d')
  then show ?thesis
    using assms by (auto simp: open_until_def recordSuccess_state)
qed

lemma open_until_events:
  "open_until host d u b \<Longrightarrow> list_all (quiet_event host d u) es \<Longrightarrow>
    open_until host d u (fold (apply_breaker_event host) es b)"
  by (induction es arbitrary: b) (simp_all add: open_until_event)

lemma new_breaker_inv:
  "destination_inv (wb_threshold (new_worker_breaker opts)) (wb_cooldown (new_worker_breaker opts))
     host d (new_worker_breaker opts)"
  "destination_state host d (new_worker_breaker opts) = fresh_destination"
  by (simp_all add: destination_inv_def destination_state_def new_worker_breaker_def)

text \<open>
  The breaker protects a failing host: after as many consecutive failures as the threshold, the
  last at time \<open>t\<close>, every URL of that host is blocked at every time before \<open>t\<close> plus the
  cooldown, whatever requests ask, whatever further failures are reported, and whatever happens to
  other hosts in between; and one failure fewer leaves the host open to requests.
\<close>

theorem worker_breaker_protects:
  assumes "int (length ts) + 1 = wb_threshold (new_worker_breaker opts)"
    and "list_all (quiet_event host d (t + wb_cooldown (new_worker_breaker opts))) es"
    and "u < t + wb_cooldown (new_worker_breaker opts)"
    and "destinationKey host d' = destinationKey host d"
  shows "fst (isOpen host u d' (fold (apply_breaker_event host) es
      (fold (\<lambda>t. recordFailure_w host t d) (ts @ [t]) (new_worker_breaker opts)))) \<and>
    \<not> fst (isOpen host u d' (fold (\<lambda>t. recordFailure_w host t d) ts (new_worker_breaker opts)))"
proof -
  let ?b = "new_worker_breaker opts"
  let ?C = "wb_cooldown ?b"
  let ?s = "fold (\<lambda>t. recordFailure_w host t d) (ts @ [t]) ?b"
  let ?s' = "fold (\<lambda>t. recordFailure_w host t d) ts ?b"
  have o: "ds_state (destination_state host d ?s') = Closed \<and>
      ds_state (destination_state host d ?s) = Open \<and>
      destination_deadline host d ?s = t + ?C \<and> destination_inv (wb_threshold ?b) ?C host d ?s"
    using worker.opens_at_threshold [OF new_breaker_inv(1) _ _ assms(1), of host d t]
    by (simp add: new_breaker_inv(2))
  then have "open_until host d (t + ?C) ?s"
    by (auto simp: open_until_def destination_deadline_def destination_inv_def Let_def
        split: option.splits)
  from open_until_events [OF this assms(2)] have
    "open_until host d (t + ?C) (fold (apply_breaker_event host) es ?s)" .
  then have "fst (isOpen host u d' (fold (apply_breaker_event host) es ?s))"
    using assms(3) destination_state_key [OF assms(4)] by (simp add: isOpen_state open_until_def)
  moreover have "\<not> fst (isOpen host u d' ?s')"
    using o destination_state_key [OF assms(4)] by (simp add: isOpen_state)
  ultimately show ?thesis ..
qed

definition webhook_options :: breaker_options where
  "webhook_options = \<lparr>bo_threshold = Some 2, bo_cooldown = None\<rparr>"

text \<open>A stand-in for URL parsing on the addresses of the examples: what follows the scheme, up to
  the next slash.\<close>

definition example_host :: url_host where
  "example_host s =
     (if js_startsWith s ''https://'' then Some (takeWhile (\<lambda>c. c \<noteq> CHR ''/'') (drop 8 s)) else None)"

theorem worker_breaker_protects_witness:
  "fst (isOpen example_host 59999 ''https://a/x'' (fold (apply_breaker_event example_host)
      [AskEvent ''https://a/z'' 100, FailEvent ''https://a/y'' 200, OkEvent ''https://b/'']
      (fold (\<lambda>t. recordFailure_w example_host t ''https://a/y'') [0, 1]
        (new_worker_breaker webhook_options))))"
proof -
  have c: "wb_threshold (new_worker_breaker webhook_options) = 2"
    "wb_cooldown (new_worker_breaker webhook_options) = 60000"
    by (simp_all add: new_worker_breaker_def webhook_options_def)
  have k: "destinationKey example_host ''https://a/x'' = ''a''"
    "destinationKey example_host ''https://a/y'' = ''a''"
    "destinationKey example_host ''https://b/'' = ''b''"
    by (simp_all add: destinationKey_def example_host_def js_startsWith_def)
  show ?thesis
    using worker_breaker_protects [where ts = "[0]" and t = 1 and opts = webhook_options
        and host = example_host and d = "''https://a/y''" and d' = "''https://a/x''" and u = 59999
        and es = "[AskEvent ''https://a/z'' 100, FailEvent ''https://a/y'' 200, OkEvent ''https://b/'']"]
    by (simp add: c k)
qed

text \<open>
  After the cooldown it is not one probe but every request: a half-open circuit lets any number
  of requests through, at any times, until one of them reports.
\<close>

theorem worker_breaker_probe_flood:
  assumes "ds_state (destination_state host d b) = Open"
    and "ds_open_until (destination_state host d b) = Some u" and "u \<le> t"
  shows "\<not> fst (isOpen host t d b) \<and>
    \<not> fst (isOpen host t' d (fold (apply_breaker_event host) (map (AskEvent d) ts)
      (snd (isOpen host t d b))))"
proof -
  have "ds_state (destination_state host d (fold (apply_breaker_event host) (map (AskEvent d) ts) c))
      = HalfOpen" if "ds_state (destination_state host d c) = HalfOpen" for c
    using that by (induction ts arbitrary: c) (simp_all add: isOpen_state Let_def)
  moreover have "ds_state (destination_state host d (snd (isOpen host t d b))) = HalfOpen"
    using assms by (simp add: isOpen_state Let_def)
  ultimately show ?thesis
    using assms by (simp add: isOpen_state(2) Let_def)
qed

theorem worker_breaker_probe_flood_witness:
  "\<not> fst (isOpen example_host 60002 ''https://a/y'' (fold (apply_breaker_event example_host)
      (map (AskEvent ''https://a/y'') [60001, 60001, 60002])
      (snd (isOpen example_host 60001 ''https://a/y''
        (fold (\<lambda>t. recordFailure_w example_host t ''https://a/y'') [0, 1]
          (new_worker_breaker webhook_options))))))"
proof -
  let ?b = "fold (\<lambda>t. recordFailure_w example_host t ''https://a/y'') [0, 1]
    (new_worker_breaker webhook_options)"
  have "destination_state example_host ''https://a/y'' ?b =
      fresh_destination\<lparr>ds_failures := 2, ds_last_failure := Some 1, ds_state := Open,
        ds_open_until := Some 60001\<rparr>"
    by (simp add: recordFailure_state new_breaker_inv Let_def)
      (simp add: new_worker_breaker_def webhook_options_def)
  then show ?thesis
    using worker_breaker_probe_flood [where host = example_host and d = "''https://a/y''" and b = ?b
        and u = 60001 and t = 60001 and t' = 60002 and ts = "[60001, 60001, 60002]"]
    by simp
qed

end
