(* ===== verification/RateLimit.thy ===== *)
theory RateLimit
  imports Prelude
begin

text \<open>
  \<^verbatim>\<open>src/symphony-worker/rate-limit.ts\<close>: the GitHub quota per namespace and resource. Headers
  are parsed and recorded, budget is reserved by a guarded decrement that keeps a reserve, and the
  polling interval spreads what is left of the window. The Prometheus gauges are not modelled.
\<close>

record RateLimitStatus =
  rl_remaining :: int
  rl_limit :: int
  rl_resets_at :: millis
  rl_limited :: bool

record GitHubRateLimitHeaders =
  gh_remaining :: int
  gh_limit :: int
  gh_reset_epoch :: int
  gh_resource :: string

record rate_row =
  rr_namespace :: string
  rr_resource :: string
  rr_remaining :: int
  rr_limit :: int
  rr_resets_at :: millis

definition DEFAULT_RESERVE :: int where
  "DEFAULT_RESERVE = 100"

text \<open>A header that is missing or empty is falsy.\<close>

definition header :: "(string \<times> string) list \<Rightarrow> string \<Rightarrow> string option" where
  "header headers name =
     (case map_of headers name of Some v \<Rightarrow> if v = [] then None else Some v | None \<Rightarrow> None)"

definition parseRateLimitHeaders :: "(string \<times> string) list \<Rightarrow> GitHubRateLimitHeaders option" where
  "parseRateLimitHeaders headers =
     (case (header headers ''x-ratelimit-remaining'', header headers ''x-ratelimit-limit'',
            header headers ''x-ratelimit-reset'') of
        (Some remaining, Some limit, Some reset) \<Rightarrow>
          (case (js_parseInt remaining, js_parseInt limit, js_parseInt reset) of
             (Some parsedRemaining, Some parsedLimit, Some parsedReset) \<Rightarrow>
               Some \<lparr>gh_remaining = parsedRemaining, gh_limit = parsedLimit,
                 gh_reset_epoch = parsedReset,
                 gh_resource = (case header headers ''x-ratelimit-resource'' of
                   Some r \<Rightarrow> r | None \<Rightarrow> ''core'')\<rparr>
           | _ \<Rightarrow> None)
      | _ \<Rightarrow> None)"

definition rate_key :: "rate_row \<Rightarrow> string \<times> string" where
  "rate_key r = (rr_namespace r, rr_resource r)"

definition checkRateLimit ::
  "millis \<Rightarrow> string \<Rightarrow> string \<Rightarrow> int \<Rightarrow> rate_row list \<Rightarrow> RateLimitStatus option" where
  "checkRateLimit now namespace resource reserve t =
     map_option (\<lambda>row.
       if rr_resets_at row \<le> now
       then \<lparr>rl_remaining = rr_limit row, rl_limit = rr_limit row, rl_resets_at = rr_resets_at row,
             rl_limited = False\<rparr>
       else \<lparr>rl_remaining = rr_remaining row, rl_limit = rr_limit row,
             rl_resets_at = rr_resets_at row, rl_limited = (rr_remaining row \<le> reserve)\<rparr>)
     (by_key rate_key (namespace, resource) t)"

text \<open>The guarded decrement: one atomic statement.\<close>

definition reserve_update ::
  "string \<Rightarrow> string \<Rightarrow> int \<Rightarrow> int \<Rightarrow> rate_row list \<Rightarrow> bool \<times> rate_row list" where
  "reserve_update namespace resource count reserve t =
     (let hit = (\<lambda>r. rate_key r = (namespace, resource) \<and> count + reserve \<le> rr_remaining r)
      in (sql_count hit t \<noteq> 0,
          sql_update hit (\<lambda>r. r\<lparr>rr_remaining := rr_remaining r - count\<rparr>) t))"

text \<open>What was decided on the row that was read: an answer, or to go on to the update.\<close>

definition reserve_decide :: "RateLimitStatus option \<Rightarrow> millis \<Rightarrow> int \<Rightarrow> int \<Rightarrow> bool option" where
  "reserve_decide status now count reserve =
     (case status of
        None \<Rightarrow> Some True
      | Some s \<Rightarrow>
          if rl_resets_at s \<le> now then Some True
          else if rl_remaining s - count < reserve then Some False
          else None)"

definition reserveBudget ::
  "millis \<Rightarrow> string \<Rightarrow> string \<Rightarrow> int \<Rightarrow> int \<Rightarrow> rate_row list \<Rightarrow> bool \<times> rate_row list" where
  "reserveBudget now namespace resource count reserve t =
     (case reserve_decide (checkRateLimit now namespace resource reserve t) now count reserve of
        Some b \<Rightarrow> (b, t)
      | None \<Rightarrow> reserve_update namespace resource count reserve t)"

definition recordApiCall ::
  "string \<Rightarrow> string \<Rightarrow> GitHubRateLimitHeaders \<Rightarrow> rate_row list \<Rightarrow> rate_row list" where
  "recordApiCall namespace resource headers t =
     sql_upsert rate_key
       (\<lambda>r e. r\<lparr>rr_remaining := rr_remaining e, rr_limit := rr_limit e, rr_resets_at := rr_resets_at e\<rparr>)
       \<lparr>rr_namespace = namespace, rr_resource = resource, rr_remaining = gh_remaining headers,
        rr_limit = gh_limit headers, rr_resets_at = gh_reset_epoch headers * 1000\<rparr> t"

definition calculatePollingInterval ::
  "millis \<Rightarrow> RateLimitStatus option \<Rightarrow> int \<Rightarrow> int \<Rightarrow> int \<Rightarrow> int" where
  "calculatePollingInterval now status reserve minIntervalMs maxIntervalMs =
     (case status of
        None \<Rightarrow> 30000
      | Some s \<Rightarrow>
          (let remainingMs = max (rl_resets_at s - now) 1000;
               available = max (rl_remaining s - reserve) 0
           in if available \<le> 0 then min remainingMs maxIntervalMs
              else (let intervalMs = remainingMs div available
                    in max minIntervalMs (min intervalMs maxIntervalMs))))"

subsection \<open>Reservations against each other\<close>

definition remaining_of :: "string \<Rightarrow> string \<Rightarrow> rate_row list \<Rightarrow> int option" where
  "remaining_of namespace resource t =
     map_option rr_remaining (by_key rate_key (namespace, resource) t)"

lemma rate_key_remaining [simp]: "rate_key (r\<lparr>rr_remaining := n\<rparr>) = rate_key r"
  by (simp add: rate_key_def)

lemma reserve_update_row:
  assumes "distinct (map rate_key t)" and "by_key rate_key (ns, res) t = Some r"
  shows "fst (reserve_update ns res count reserve t) = (count + reserve \<le> rr_remaining r)"
    and "by_key rate_key k (snd (reserve_update ns res count reserve t)) =
      (if k = (ns, res) \<and> count + reserve \<le> rr_remaining r
       then Some (r\<lparr>rr_remaining := rr_remaining r - count\<rparr>) else by_key rate_key k t)"
    and "distinct (map rate_key (snd (reserve_update ns res count reserve t)))"
proof -
  have r: "r \<in> set t" "rate_key r = (ns, res)"
    using assms by (simp_all add: by_key_Some_iff)
  have u: "q = r" if "q \<in> set t" "rate_key q = (ns, res)" for q
    using that r assms(1) by (metis by_key_Some_iff option.inject)
  show "fst (reserve_update ns res count reserve t) = (count + reserve \<le> rr_remaining r)"
    by (simp add: reserve_update_def Let_def sql_count_eq_0) (use r u in blast)
  have upd: "by_key rate_key k (snd (reserve_update ns res count reserve t)) =
      map_option (\<lambda>q. if rate_key q = (ns, res) \<and> count + reserve \<le> rr_remaining q
        then q\<lparr>rr_remaining := rr_remaining q - count\<rparr> else q) (by_key rate_key k t)"
    by (simp add: reserve_update_def Let_def by_key_sql_update)
  show "by_key rate_key k (snd (reserve_update ns res count reserve t)) =
      (if k = (ns, res) \<and> count + reserve \<le> rr_remaining r
       then Some (r\<lparr>rr_remaining := rr_remaining r - count\<rparr>) else by_key rate_key k t)"
  proof (cases "by_key rate_key k t")
    case None
    with assms(2) show ?thesis unfolding upd by auto
  next
    case (Some q)
    then have "rate_key q = k" by (rule by_key_SomeD [THEN conjunct2])
    with Some assms(2) show ?thesis unfolding upd by (cases "k = (ns, res)") auto
  qed
  show "distinct (map rate_key (snd (reserve_update ns res count reserve t)))"
    using assms(1) by (simp add: reserve_update_def Let_def map_key_sql_update)
qed

text \<open>
  Many callers of one quota: a caller reads the row and decides, any number of the others' updates
  run, then its own update runs if it decided to. A step is the decided caller's update.
\<close>

fun grants :: "string \<Rightarrow> string \<Rightarrow> int \<Rightarrow> int list \<Rightarrow> rate_row list \<Rightarrow> int \<times> rate_row list" where
  "grants ns res reserve [] t = (0, t)"
| "grants ns res reserve (c # cs) t =
     (let (won, t') = reserve_update ns res c reserve t;
          (granted, t'') = grants ns res reserve cs t'
      in ((if won then c else 0) + granted, t''))"

lemma grants_total:
  assumes "distinct (map rate_key t)" and "by_key rate_key (ns, res) t = Some r"
    and "\<forall>c \<in> set cs. 0 \<le> c" and "reserve \<le> rr_remaining r"
  shows "\<exists>r'. by_key rate_key (ns, res) (snd (grants ns res reserve cs t)) = Some r' \<and>
    rr_remaining r' = rr_remaining r - fst (grants ns res reserve cs t) \<and>
    reserve \<le> rr_remaining r' \<and> rr_resets_at r' = rr_resets_at r \<and>
    distinct (map rate_key (snd (grants ns res reserve cs t)))"
  using assms
proof (induction cs arbitrary: t r)
  case Nil
  then show ?case by simp
next
  case (Cons c cs)
  let ?t = "snd (reserve_update ns res c reserve t)"
  note step = reserve_update_row [where count = c and reserve = reserve, OF Cons.prems(1,2)]
  let ?r = "if c + reserve \<le> rr_remaining r then r\<lparr>rr_remaining := rr_remaining r - c\<rparr> else r"
  have "by_key rate_key (ns, res) ?t = Some ?r"
    using step(2) Cons.prems(2) by simp
  moreover have "\<forall>c \<in> set cs. 0 \<le> c" and "reserve \<le> rr_remaining ?r"
    using Cons.prems(3,4) by simp_all
  ultimately obtain r' where
    "by_key rate_key (ns, res) (snd (grants ns res reserve cs ?t)) = Some r'"
    "rr_remaining r' = rr_remaining ?r - fst (grants ns res reserve cs ?t)"
    "reserve \<le> rr_remaining r'" "rr_resets_at r' = rr_resets_at ?r"
    "distinct (map rate_key (snd (grants ns res reserve cs ?t)))"
    using Cons.IH [OF step(3)] by blast
  with step(1) show ?case
    by (auto simp: split_beta split: if_splits)
qed

subsection \<open>Properties\<close>

text \<open>
  C10. Reserving never eats into the reserve: whatever callers decided on stale reads, and in
  whatever order their updates run, within a window the amounts granted add up to exactly what the
  row lost and at least the reserve is left.
\<close>

theorem reserve_never_below:
  assumes "distinct (map rate_key t)" and "by_key rate_key (ns, res) t = Some r"
    and "list_all (\<lambda>c. 0 \<le> c) counts" and "reserve \<le> rr_remaining r"
  shows "case grants ns res reserve counts t of (granted, t') \<Rightarrow>
    remaining_of ns res t' = Some (rr_remaining r - granted) \<and>
    granted \<le> rr_remaining r - reserve"
  using grants_total [OF assms(1,2) _ assms(4), of counts] assms(3)
  by (auto simp: remaining_of_def list_all_iff split: prod.splits)

definition example_rates :: "rate_row list" where
  "example_rates =
     [\<lparr>rr_namespace = ''acme'', rr_resource = ''core'', rr_remaining = 103, rr_limit = 5000,
       rr_resets_at = 60000\<rparr>]"

theorem reserve_never_below_witness:
  "remaining_of ''acme'' ''core'' (snd (grants ''acme'' ''core'' 100 [2, 2, 1] example_rates)) = Some 100"
  using reserve_never_below [where t = example_rates and ns = "''acme''" and res = "''core''"
      and r = "hd example_rates" and reserve = 100 and counts = "[2, 2, 1]"]
  by (simp add: example_rates_def by_key_def rate_key_def reserve_update_def sql_count_def
      sql_update_def)

text \<open>
  The gate as a whole: without data, or once the window is over, every reservation is granted
  and nothing is counted; inside the window one is granted exactly when it leaves the reserve,
  and then the row is reduced by its count. Recording a response replaces the row, so the next check
  sees the recorded numbers.
\<close>

theorem reserveBudget_spec:
  assumes "distinct (map rate_key t)"
  shows "reserveBudget now ns res count reserve t =
      (case by_key rate_key (ns, res) t of
         None \<Rightarrow> (True, t)
       | Some r \<Rightarrow>
           if rr_resets_at r \<le> now then (True, t)
           else if count + reserve \<le> rr_remaining r
           then (True, sql_update (\<lambda>q. rate_key q = (ns, res))
                  (\<lambda>q. q\<lparr>rr_remaining := rr_remaining q - count\<rparr>) t)
           else (False, t)) \<and>
    checkRateLimit now ns res reserve (recordApiCall ns res h t) =
      (if gh_reset_epoch h * 1000 \<le> now
       then Some \<lparr>rl_remaining = gh_limit h, rl_limit = gh_limit h,
              rl_resets_at = gh_reset_epoch h * 1000, rl_limited = False\<rparr>
       else Some \<lparr>rl_remaining = gh_remaining h, rl_limit = gh_limit h,
              rl_resets_at = gh_reset_epoch h * 1000,
              rl_limited = (gh_remaining h \<le> reserve)\<rparr>)"
proof
  show "reserveBudget now ns res count reserve t =
      (case by_key rate_key (ns, res) t of
         None \<Rightarrow> (True, t)
       | Some r \<Rightarrow>
           if rr_resets_at r \<le> now then (True, t)
           else if count + reserve \<le> rr_remaining r
           then (True, sql_update (\<lambda>q. rate_key q = (ns, res))
                  (\<lambda>q. q\<lparr>rr_remaining := rr_remaining q - count\<rparr>) t)
           else (False, t))"
  proof (cases "by_key rate_key (ns, res) t")
    case None
    then show ?thesis by (simp add: reserveBudget_def checkRateLimit_def reserve_decide_def)
  next
    case (Some r)
    have "sql_update (\<lambda>q. rate_key q = (ns, res) \<and> count + reserve \<le> rr_remaining q) f t =
        sql_update (\<lambda>q. rate_key q = (ns, res)) f t" if "count + reserve \<le> rr_remaining r" for f
      using that Some assms by (auto simp: sql_update_def by_key_Some_iff)
        (metis assms by_key_Some_iff option.inject)
    then show ?thesis
      using Some reserve_update_row(1) [OF assms Some]
      by (auto simp: reserveBudget_def checkRateLimit_def reserve_decide_def reserve_update_def Let_def)
  qed
  show "checkRateLimit now ns res reserve (recordApiCall ns res h t) =
      (if gh_reset_epoch h * 1000 \<le> now
       then Some \<lparr>rl_remaining = gh_limit h, rl_limit = gh_limit h,
              rl_resets_at = gh_reset_epoch h * 1000, rl_limited = False\<rparr>
       else Some \<lparr>rl_remaining = gh_remaining h, rl_limit = gh_limit h,
              rl_resets_at = gh_reset_epoch h * 1000,
              rl_limited = (gh_remaining h \<le> reserve)\<rparr>)"
  proof -
    have "by_key rate_key (ns, res) (recordApiCall ns res h t) = Some r \<Longrightarrow>
        rr_remaining r = gh_remaining h \<and> rr_limit r = gh_limit h \<and>
        rr_resets_at r = gh_reset_epoch h * 1000" for r
      unfolding recordApiCall_def
      by (subst (asm) by_key_sql_upsert) (auto simp: rate_key_def split: option.splits)
    moreover have "by_key rate_key (ns, res) (recordApiCall ns res h t) \<noteq> None"
      unfolding recordApiCall_def by (subst by_key_sql_upsert) (auto simp: rate_key_def)
    ultimately obtain r where "by_key rate_key (ns, res) (recordApiCall ns res h t) = Some r"
      "rr_remaining r = gh_remaining h" "rr_limit r = gh_limit h"
      "rr_resets_at r = gh_reset_epoch h * 1000" by blast
    then show ?thesis by (simp add: checkRateLimit_def)
  qed
qed

theorem reserveBudget_spec_witness:
  "fst (reserveBudget 0 ''acme'' ''core'' 4 100 example_rates) = False"
  using reserveBudget_spec [of example_rates 0 "''acme''" "''core''" 4 100]
  by (simp add: example_rates_def by_key_def rate_key_def)

text \<open>
  Polling is paced: with quota left the interval lies between the two bounds, and unless the
  lower bound forces it up, polling at it until the reset spends no more calls than are available;
  without quota left it waits for the reset, at most the upper bound.
\<close>

theorem polling_interval_bounds:
  assumes "minIntervalMs \<le> maxIntervalMs"
  shows "let i = calculatePollingInterval now (Some s) reserve minIntervalMs maxIntervalMs;
      left = max (rl_resets_at s - now) 1000; available = rl_remaining s - reserve in
    i \<le> maxIntervalMs \<and>
    (if 0 < available
     then minIntervalMs \<le> i \<and> (i = minIntervalMs \<or> i * available \<le> left)
     else i = min left maxIntervalMs)"
proof -
  let ?left = "max (rl_resets_at s - now) 1000"
  let ?available = "rl_remaining s - reserve"
  have "min (?left div ?available) maxIntervalMs * ?available \<le> ?left" if "0 < ?available"
  proof -
    have "min (?left div ?available) maxIntervalMs * ?available \<le> ?left div ?available * ?available"
      using that by (intro mult_right_mono) simp_all
    also have "\<dots> \<le> ?left"
      using that by (simp add: minus_mod_eq_div_mult [symmetric])
    finally show ?thesis .
  qed
  then show ?thesis
    using assms by (auto simp: calculatePollingInterval_def Let_def max_def [of minIntervalMs])
qed

theorem polling_interval_bounds_witness:
  "calculatePollingInterval 0 (Some \<lparr>rl_remaining = 160, rl_limit = 5000, rl_resets_at = 600000,
     rl_limited = False\<rparr>) 100 5000 300000 * 60 \<le> 600000"
  using polling_interval_bounds [of 5000 300000 0 "\<lparr>rl_remaining = 160, rl_limit = 5000,
      rl_resets_at = 600000, rl_limited = False\<rparr>" 100]
  by (simp add: calculatePollingInterval_def)

end
