(* ===== verification/Recovery.thy ===== *)
theory Recovery
  imports StateMachine
begin

text \<open>
  \<^verbatim>\<open>src/symphony-worker/heartbeat.ts\<close> and \<^verbatim>\<open>recovery.ts\<close>: each orchestrator
  keeps a heartbeat row alive with a timer; at startup another one finds the stale rows, moves
  the runs of their orchestrators to recovery states, releases their claims and deletes the rows.
  Counters and log lines are not modelled.
\<close>

subsection \<open>Heartbeats\<close>

definition generateOrchestratorId :: "string \<Rightarrow> int \<Rightarrow> string \<Rightarrow> string" where
  "generateOrchestratorId host pid rand = host @ ''-'' @ show_int pid @ ''-'' @ rand"

definition writeHeartbeat ::
  "clock \<Rightarrow> string \<Rightarrow> string \<Rightarrow> int \<Rightarrow> int \<Rightarrow> symphony_db \<Rightarrow> symphony_db" where
  "writeHeartbeat clk namespace orchestratorId activeRuns pid db =
     db\<lparr>heartbeats :=
       sql_upsert hb_orchestrator
         (\<lambda>r e. r\<lparr>hb_last := db_now clk, hb_active_runs := hb_active_runs e, hb_pid := hb_pid e\<rparr>)
         \<lparr>hb_orchestrator = orchestratorId, hb_namespace = namespace, hb_last = db_now clk,
          hb_active_runs = activeRuns, hb_pid = pid\<rparr> (heartbeats db)\<rparr>"

definition STALE_THRESHOLD_MS :: millis where
  "STALE_THRESHOLD_MS = 90000"

definition findStaleOrchestrators ::
  "clock \<Rightarrow> string \<Rightarrow> millis option \<Rightarrow> symphony_db \<Rightarrow> string list" where
  "findStaleOrchestrators clk namespace thresholdMs db =
     (let threshold = (case thresholdMs of Some t \<Rightarrow> t | None \<Rightarrow> STALE_THRESHOLD_MS)
      in map hb_orchestrator
           (filter (\<lambda>h. hb_namespace h = namespace \<and> hb_last h < db_now clk - threshold)
             (heartbeats db)))"

definition removeHeartbeat :: "string \<Rightarrow> symphony_db \<Rightarrow> symphony_db" where
  "removeHeartbeat orchestratorId db =
     db\<lparr>heartbeats := filter (\<lambda>h. hb_orchestrator h \<noteq> orchestratorId) (heartbeats db)\<rparr>"

text \<open>The manager's timer is one of the active timers of the event loop; ids are handed out in order.
  A write fails when the database is not up.\<close>

record heartbeat_manager =
  hm_namespace :: string
  hm_orchestrator :: string
  hm_interval :: millis
  hm_pid :: int
  hm_timer :: "nat option"

record event_loop =
  el_timers :: "nat list"
  el_next :: nat

definition new_heartbeat_manager ::
  "string \<Rightarrow> string \<Rightarrow> millis option \<Rightarrow> int \<Rightarrow> heartbeat_manager" where
  "new_heartbeat_manager namespace orchestratorId intervalMs pid =
     \<lparr>hm_namespace = namespace, hm_orchestrator = orchestratorId,
      hm_interval = (case intervalMs of Some i \<Rightarrow> i | None \<Rightarrow> 30000), hm_pid = pid, hm_timer = None\<rparr>"

text \<open>\<open>start\<close>: an immediate write that may throw, then the timer.\<close>

definition hm_start ::
  "clock \<Rightarrow> bool \<Rightarrow> int \<Rightarrow> heartbeat_manager \<times> event_loop \<times> symphony_db \<Rightarrow>
   bool \<times> heartbeat_manager \<times> event_loop \<times> symphony_db"
where
  "hm_start clk dbUp activeRuns s =
     (case s of (m, el, db) \<Rightarrow>
        if \<not> dbUp then (False, m, el, db)
        else (True, m\<lparr>hm_timer := Some (el_next el)\<rparr>,
              el\<lparr>el_timers := el_next el # el_timers el, el_next := el_next el + 1\<rparr>,
              writeHeartbeat clk (hm_namespace m) (hm_orchestrator m) activeRuns (hm_pid m) db))"

text \<open>A timer firing: the write's failure is swallowed.\<close>

definition hm_tick ::
  "clock \<Rightarrow> bool \<Rightarrow> int \<Rightarrow> heartbeat_manager \<Rightarrow> symphony_db \<Rightarrow> symphony_db" where
  "hm_tick clk dbUp activeRuns m db =
     (if dbUp then writeHeartbeat clk (hm_namespace m) (hm_orchestrator m) activeRuns (hm_pid m) db
      else db)"

definition hm_stop :: "heartbeat_manager \<times> event_loop \<Rightarrow> heartbeat_manager \<times> event_loop" where
  "hm_stop s =
     (case s of (m, el) \<Rightarrow>
        (case hm_timer m of
           None \<Rightarrow> (m, el)
         | Some i \<Rightarrow> (m\<lparr>hm_timer := None\<rparr>, el\<lparr>el_timers := filter (\<lambda>j. j \<noteq> i) (el_timers el)\<rparr>)))"

subsection \<open>Recovery\<close>

definition RECOVERY_TRANSITIONS :: "(RunState \<times> RunState) list" where
  "RECOVERY_TRANSITIONS =
     [(Claimed, Failed), (Provisioning, Failed), (Prompting, Failed), (Running, Stalled),
      (AwaitingApproval, Stalled), (VerifyingResult, Stalled), (MergePending, Stalled),
      (PostMergeVerify, Stalled), (IssueClosing, Stalled), (ContinuationWait, Stalled),
      (Paused, Orphaned), (Terminating, Terminated), (RetryQueued, Failed)]"

record recovery_result =
  rv_run :: uuid
  rv_previous :: RunState
  rv_new :: RunState

definition recover_set :: "clock \<Rightarrow> string \<Rightarrow> RunState \<Rightarrow> run_row \<Rightarrow> run_row" where
  "recover_set clk stale newStatus r =
     set_symphony_run_updated_at clk
       (r\<lparr>run_status := newStatus,
          run_error_message := Some (''Recovered: orchestrator '' @ [CHR 0x27] @ stale @ [CHR 0x27]
            @ '' became stale''),
          run_completed := Some (db_now clk)\<rparr>)"

definition release_claims_of :: "clock \<Rightarrow> string \<Rightarrow> symphony_db \<Rightarrow> symphony_db" where
  "release_claims_of clk stale db =
     db\<lparr>claims := sql_update
       (\<lambda>c. claim_orchestrator c = stale \<and>
          claim_status c \<in> {ClaimPending, ClaimAssigned, ClaimActive})
       (\<lambda>c. c\<lparr>claim_status := ClaimReleased, claim_released := Some (db_now clk)\<rparr>) (claims db)\<rparr>"

definition recover_step ::
  "clock \<Rightarrow> string \<Rightarrow> run_row \<Rightarrow> recovery_result list \<times> symphony_db \<Rightarrow>
   recovery_result list \<times> symphony_db"
where
  "recover_step clk stale run acc =
     (case acc of (results, db) \<Rightarrow>
        (case map_of RECOVERY_TRANSITIONS (run_status run) of
           None \<Rightarrow> (results, db)
         | Some newStatus \<Rightarrow>
             (results @ [\<lparr>rv_run = run_id run, rv_previous = run_status run, rv_new = newStatus\<rparr>],
              release_claims_of clk stale
                (db\<lparr>runs := sql_update
                   (\<lambda>r. run_id r = run_id run \<and> run_status r = run_status run)
                   (recover_set clk stale newStatus) (runs db)\<rparr>))))"

definition orphaned_by :: "string \<Rightarrow> string \<Rightarrow> run_row \<Rightarrow> bool" where
  "orphaned_by namespace stale r =
     (run_namespace r = namespace \<and> run_orchestrator r = Some stale \<and>
      \<not> List.member TERMINAL_STATES (run_status r))"

definition recoverOrphanedRuns ::
  "clock \<Rightarrow> string \<Rightarrow> string \<Rightarrow> symphony_db \<Rightarrow> recovery_result list \<times> symphony_db" where
  "recoverOrphanedRuns clk namespace stale db =
     fold (recover_step clk stale) (filter (orphaned_by namespace stale) (runs db)) ([], db)"

definition recoverySweep ::
  "clock \<Rightarrow> string \<Rightarrow> millis option \<Rightarrow> symphony_db \<Rightarrow> recovery_result list \<times> symphony_db" where
  "recoverySweep clk namespace staleThresholdMs db =
     fold (\<lambda>stale (allResults, db).
        (case recoverOrphanedRuns clk namespace stale db of
           (results, db') \<Rightarrow> (allResults @ results, removeHeartbeat stale db')))
       (findStaleOrchestrators clk namespace staleThresholdMs db) ([], db)"

subsection \<open>What recovery does to a run\<close>

text \<open>The runs an orchestrator's recovery moves, and how.\<close>

definition recoverable :: "string \<Rightarrow> string \<Rightarrow> run_row \<Rightarrow> bool" where
  "recoverable namespace stale r \<longleftrightarrow>
     orphaned_by namespace stale r \<and> map_of RECOVERY_TRANSITIONS (run_status r) \<noteq> None"

definition recovered :: "clock \<Rightarrow> string \<Rightarrow> run_row \<Rightarrow> run_row" where
  "recovered clk stale r =
     (case map_of RECOVERY_TRANSITIONS (run_status r) of
        None \<Rightarrow> r | Some s \<Rightarrow> recover_set clk stale s r)"

definition recovery_of :: "run_row \<Rightarrow> recovery_result" where
  "recovery_of r =
     \<lparr>rv_run = run_id r, rv_previous = run_status r,
      rv_new = (case map_of RECOVERY_TRANSITIONS (run_status r) of None \<Rightarrow> run_status r | Some s \<Rightarrow> s)\<rparr>"

lemma recover_set_simps [simp]:
  "run_id (recover_set clk stale s r) = run_id r"
  "run_status (recover_set clk stale s r) = s"
  "run_version (recover_set clk stale s r) = run_version r"
  "run_namespace (recover_set clk stale s r) = run_namespace r"
  "run_orchestrator (recover_set clk stale s r) = run_orchestrator r"
  "run_completed (recover_set clk stale s r) = Some (db_now clk)"
  by (simp_all add: recover_set_def set_symphony_run_updated_at_def)

lemma recovered_simps [simp]:
  "run_id (recovered clk stale r) = run_id r"
  "run_version (recovered clk stale r) = run_version r"
  "run_namespace (recovered clk stale r) = run_namespace r"
  "run_orchestrator (recovered clk stale r) = run_orchestrator r"
  by (simp_all add: recovered_def split: option.splits)

lemma release_claims_frame [frame_simps, simp]:
  "runs (release_claims_of clk stale db) = runs db"
  "heartbeats (release_claims_of clk stale db) = heartbeats db"
  "find_run (release_claims_of clk stale db) i = find_run db i"
  "run_keys (release_claims_of clk stale db) = run_keys db"
  by (simp_all add: release_claims_of_def find_run_def run_keys_def)

lemma recover_step_find:
  assumes "find_run db (run_id q) = Some q"
  shows "find_run (snd (recover_step clk stale q (res, db))) i =
    (if i = run_id q then Some (recovered clk stale q) else find_run db i)"
proof (cases "map_of RECOVERY_TRANSITIONS (run_status q)")
  case None
  with assms show ?thesis by (simp add: recover_step_def recovered_def)
next
  case (Some s)
  let ?upd = "\<lambda>r. if run_id r = run_id q \<and> run_status r = run_status q
    then recover_set clk stale s r else r"
  have u: "find_run (snd (recover_step clk stale q (res, db))) i = map_option ?upd (find_run db i)"
    using Some by (simp add: recover_step_def find_run_runs_update)
  show ?thesis
  proof (cases "i = run_id q")
    case True
    with assms Some show ?thesis unfolding u by (simp add: recovered_def)
  next
    case False
    have "?upd r = r" if "find_run db i = Some r" for r
      using find_run_id [OF that] False by simp
    then have "map_option ?upd (find_run db i) = find_run db i"
      by (cases "find_run db i") simp_all
    with False show ?thesis unfolding u by simp
  qed
qed

lemma recover_step_fst:
  "fst (recover_step clk stale q (res, db)) =
    res @ (if map_of RECOVERY_TRANSITIONS (run_status q) = None then [] else [recovery_of q])"
  by (simp add: recover_step_def recovery_of_def split: option.splits)

lemma recover_fold:
  assumes "distinct (map run_id rs)" and "\<forall>q \<in> set rs. find_run db (run_id q) = Some q"
  shows "find_run (snd (fold (recover_step clk stale) rs (res, db))) i =
      map_option (\<lambda>r. if r \<in> set rs then recovered clk stale r else r) (find_run db i) \<and>
    fst (fold (recover_step clk stale) rs (res, db)) =
      res @ map recovery_of (filter (\<lambda>q. map_of RECOVERY_TRANSITIONS (run_status q) \<noteq> None) rs)"
  using assms
proof (induction rs arbitrary: res db)
  case Nil
  then show ?case by (simp add: option.map_ident)
next
  case (Cons q rs)
  obtain res' db' where s: "recover_step clk stale q (res, db) = (res', db')" by fastforce
  have step: "find_run db' j = (if j = run_id q then Some (recovered clk stale q) else find_run db j)" for j
    using recover_step_find [of db q clk stale res j] Cons.prems(2) s by simp
  have "\<forall>p \<in> set rs. find_run db' (run_id p) = Some p"
    using Cons.prems by (auto simp: step image_iff)
  then have IH: "find_run (snd (fold (recover_step clk stale) rs (res', db'))) i =
      map_option (\<lambda>r. if r \<in> set rs then recovered clk stale r else r) (find_run db' i)"
    "fst (fold (recover_step clk stale) rs (res', db')) =
      res' @ map recovery_of (filter (\<lambda>q. map_of RECOVERY_TRANSITIONS (run_status q) \<noteq> None) rs)"
    using Cons.IH [of db' res'] Cons.prems(1) by simp_all
  have "map_option (\<lambda>r. if r \<in> set rs then recovered clk stale r else r) (find_run db' i) =
      map_option (\<lambda>r. if r \<in> set (q # rs) then recovered clk stale r else r) (find_run db i)"
  proof (cases "i = run_id q")
    case True
    have "recovered clk stale q \<notin> set rs"
    proof
      assume "recovered clk stale q \<in> set rs"
      then have "run_id q \<in> run_id ` set rs" by (metis image_eqI recovered_simps(1))
      with Cons.prems(1) show False by simp
    qed
    with True Cons.prems(2) show ?thesis by (simp add: step)
  next
    case False
    have "r \<noteq> q" if "find_run db i = Some r" for r
      using False find_run_id [OF that] by blast
    with False show ?thesis by (cases "find_run db i") (auto simp: step)
  qed
  moreover have "res' = res @ (if map_of RECOVERY_TRANSITIONS (run_status q) = None then []
      else [recovery_of q])"
    using recover_step_fst [of clk stale q res db] s by simp
  ultimately show ?case using IH by (simp add: s)
qed

lemma recoverOrphanedRuns_runs:
  assumes "run_keys db"
  shows "find_run (snd (recoverOrphanedRuns clk namespace stale db)) i =
      map_option (\<lambda>r. if recoverable namespace stale r then recovered clk stale r else r)
        (find_run db i)"
    and "fst (recoverOrphanedRuns clk namespace stale db) =
      map recovery_of (filter (recoverable namespace stale) (runs db))"
proof -
  let ?rs = "filter (orphaned_by namespace stale) (runs db)"
  have d: "distinct (map run_id ?rs)"
    using assms by (simp add: run_keys_def distinct_map_filter)
  have f: "\<forall>q \<in> set ?rs. find_run db (run_id q) = Some q"
    using assms by (simp add: find_run_iff)
  show "find_run (snd (recoverOrphanedRuns clk namespace stale db)) i =
      map_option (\<lambda>r. if recoverable namespace stale r then recovered clk stale r else r)
        (find_run db i)"
    using recover_fold [OF d f, of clk stale "[]" i]
    by (cases "find_run db i")
      (auto simp: recoverOrphanedRuns_def recoverable_def recovered_def dest: find_run_in)
  show "fst (recoverOrphanedRuns clk namespace stale db) =
      map recovery_of (filter (recoverable namespace stale) (runs db))"
    using recover_fold [OF d f, of clk stale "[]"]
    by (simp add: recoverOrphanedRuns_def recoverable_def [abs_def] conj_commute)
qed

lemma recover_step_claims:
  "claims (snd (recover_step clk stale q (res, db))) =
    (if map_of RECOVERY_TRANSITIONS (run_status q) = None then claims db
     else claims (release_claims_of clk stale db))"
  "heartbeats (snd (recover_step clk stale q (res, db))) = heartbeats db"
  "run_keys (snd (recover_step clk stale q (res, db))) = run_keys db"
  by (auto simp: recover_step_def release_claims_of_def run_keys_runs_update split: option.splits)

lemma release_claims_idem:
  "claims d = claims (release_claims_of clk stale db) \<Longrightarrow>
    claims (release_claims_of clk stale d) = claims (release_claims_of clk stale db)"
  by (auto simp: release_claims_of_def sql_update_def)

lemma recover_fold_claims:
  "claims (snd (fold (recover_step clk stale) rs (res, db))) =
    (if list_ex (\<lambda>q. map_of RECOVERY_TRANSITIONS (run_status q) \<noteq> None) rs
     then claims (release_claims_of clk stale db) else claims db)"
  "heartbeats (snd (fold (recover_step clk stale) rs (res, db))) = heartbeats db"
  "run_keys (snd (fold (recover_step clk stale) rs (res, db))) = run_keys db"
proof (induction rs arbitrary: res db)
  case (Cons q rs)
  { case 1
    obtain res' db' where s: "recover_step clk stale q (res, db) = (res', db')" by fastforce
    show ?case
      using Cons.IH(1) [of res' db'] recover_step_claims(1) [of clk stale q res db]
        release_claims_idem [of db' clk stale db]
      by (auto simp: s release_claims_of_def) }
  { case 2
    obtain res' db' where s: "recover_step clk stale q (res, db) = (res', db')" by fastforce
    show ?case using Cons.IH(2) [of res' db'] recover_step_claims(2) [of clk stale q res db]
      by (simp add: s) }
  { case 3
    obtain res' db' where s: "recover_step clk stale q (res, db) = (res', db')" by fastforce
    show ?case using Cons.IH(3) [of res' db'] recover_step_claims(3) [of clk stale q res db]
      by (simp add: s) }
qed simp_all

lemma recoverOrphanedRuns_tables:
  "claims (snd (recoverOrphanedRuns clk namespace stale db)) =
    (if list_ex (recoverable namespace stale) (runs db)
     then claims (release_claims_of clk stale db) else claims db)"
  "heartbeats (snd (recoverOrphanedRuns clk namespace stale db)) = heartbeats db"
  "run_keys (snd (recoverOrphanedRuns clk namespace stale db)) = run_keys db"
proof -
  have "list_ex (\<lambda>q. map_of RECOVERY_TRANSITIONS (run_status q) \<noteq> None)
      (filter (orphaned_by namespace stale) (runs db)) = list_ex (recoverable namespace stale) (runs db)"
    by (auto simp: list_ex_iff recoverable_def)
  then show "claims (snd (recoverOrphanedRuns clk namespace stale db)) =
    (if list_ex (recoverable namespace stale) (runs db)
     then claims (release_claims_of clk stale db) else claims db)"
    by (simp only: recoverOrphanedRuns_def recover_fold_claims(1))
qed (simp_all add: recoverOrphanedRuns_def recover_fold_claims)

lemma recovery_status:
  "map_of RECOVERY_TRANSITIONS s = Some t \<Longrightarrow>
    map_of RECOVERY_TRANSITIONS t = None \<and> \<not> isTerminalState s \<and>
    (isValidTransition s t \<longleftrightarrow> s \<in> {Provisioning, Prompting, Running, Terminating})"
  by (cases s) (auto simp: RECOVERY_TRANSITIONS_def state_tables)

lemma recovered_not_recoverable:
  "recoverable namespace stale r \<Longrightarrow> \<not> recoverable namespace' stale' (recovered clk stale r)"
  by (auto simp: recoverable_def recovered_def dest: recovery_status)

subsection \<open>The sweep\<close>

text \<open>The orchestrator a run belongs to is among those swept.\<close>

definition swept :: "string \<Rightarrow> string list \<Rightarrow> run_row \<Rightarrow> bool" where
  "swept namespace stales r \<longleftrightarrow>
     (case run_orchestrator r of
        None \<Rightarrow> False
      | Some o' \<Rightarrow> List.member stales o' \<and> recoverable namespace o' r)"

definition swept_run :: "clock \<Rightarrow> run_row \<Rightarrow> run_row" where
  "swept_run clk r = (case run_orchestrator r of None \<Rightarrow> r | Some o' \<Rightarrow> recovered clk o' r)"

lemma recoverable_orchestrator: "recoverable namespace stale r \<Longrightarrow> run_orchestrator r = Some stale"
  by (simp add: recoverable_def orphaned_by_def)

lemma sweep_fold:
  assumes "run_keys db"
  shows "find_run (snd (fold (\<lambda>stale (allResults, db).
        (case recoverOrphanedRuns clk namespace stale db of
           (results, db') \<Rightarrow> (allResults @ results, removeHeartbeat stale db'))) stales (acc, db))) i =
      map_option (\<lambda>r. if swept namespace stales r then swept_run clk r else r) (find_run db i) \<and>
    heartbeats (snd (fold (\<lambda>stale (allResults, db).
        (case recoverOrphanedRuns clk namespace stale db of
           (results, db') \<Rightarrow> (allResults @ results, removeHeartbeat stale db'))) stales (acc, db))) =
      filter (\<lambda>h. \<not> List.member stales (hb_orchestrator h)) (heartbeats db)"
  using assms
proof (induction stales arbitrary: acc db)
  case Nil
  have "\<not> swept namespace [] r" for r by (simp add: swept_def split: option.splits)
  then show ?case by (simp add: option.map_ident)
next
  case (Cons stale stales)
  obtain res db' where s: "recoverOrphanedRuns clk namespace stale db = (res, db')" by fastforce
  note tables = recoverOrphanedRuns_tables [of clk namespace stale db]
  have k: "run_keys (removeHeartbeat stale db')"
    using Cons.prems tables(3) s by (simp add: removeHeartbeat_def)
  have f: "find_run (removeHeartbeat stale db') i =
      map_option (\<lambda>r. if recoverable namespace stale r then recovered clk stale r else r) (find_run db i)"
    using recoverOrphanedRuns_runs(1) [OF Cons.prems, of clk namespace stale i] s
    by (simp add: removeHeartbeat_def)
  have h: "heartbeats (removeHeartbeat stale db') =
      filter (\<lambda>h. hb_orchestrator h \<noteq> stale) (heartbeats db)"
    using tables(2) s by (simp add: removeHeartbeat_def)
  have one: "(if swept namespace stales (if recoverable namespace stale r then recovered clk stale r else r)
      then swept_run clk (if recoverable namespace stale r then recovered clk stale r else r)
      else (if recoverable namespace stale r then recovered clk stale r else r)) =
      (if swept namespace (stale # stales) r then swept_run clk r else r)" for r
  proof (cases "recoverable namespace stale r")
    case True
    then have "\<not> swept namespace stales (recovered clk stale r)"
      using recovered_not_recoverable by (auto simp: swept_def split: option.splits)
    with True recoverable_orchestrator [OF True] show ?thesis by (auto simp: swept_def swept_run_def)
  next
    case False
    then show ?thesis by (auto simp: swept_def split: option.splits)
  qed
  from Cons.IH [OF k, of "acc @ res"] show ?case
    by (simp add: s f h one option.map_comp comp_def conj_commute)
qed

subsection \<open>Properties\<close>


lemma example_db_keys: "run_keys example_db"
  by (simp add: run_keys_def example_db_def empty_db_def)

lemma example_recoverable: "recoverable ''acme'' ''orch-1'' example_run"
  by (simp add: recoverable_def orphaned_by_def example_run_def RECOVERY_TRANSITIONS_def state_tables)


text \<open>
  The sweep reaches all and only what it should: of the runs of the namespace, exactly those
  whose orchestrator's heartbeat is stale and whose state is recoverable are moved; afterwards the
  runs of a stale orchestrator are in a terminal state or wait in one of the four states recovery
  skips, and its heartbeat is gone.
\<close>

theorem recoverySweep_spec:
  assumes "run_keys db"
  shows "let stales = findStaleOrchestrators clk namespace threshold db;
      db' = snd (recoverySweep clk namespace threshold db) in
    find_run db' i =
      map_option (\<lambda>r. if swept namespace stales r then swept_run clk r else r) (find_run db i) \<and>
    (case find_run db' i of
       None \<Rightarrow> True
     | Some r \<Rightarrow>
         if run_namespace r = namespace \<and>
            (case run_orchestrator r of None \<Rightarrow> False | Some o' \<Rightarrow> List.member stales o')
         then isTerminalState (run_status r) \<or>
           List.member [Unclaimed, Failed, Stalled, Orphaned] (run_status r)
         else find_run db i = Some r) \<and>
    heartbeats db' = filter (\<lambda>h. \<not> List.member stales (hb_orchestrator h)) (heartbeats db)"
proof -
  let ?stales = "findStaleOrchestrators clk namespace threshold db"
  let ?db' = "snd (recoverySweep clk namespace threshold db)"
  have f: "find_run ?db' i =
      map_option (\<lambda>r. if swept namespace ?stales r then swept_run clk r else r) (find_run db i)"
    and h: "heartbeats ?db' = filter (\<lambda>h. \<not> List.member ?stales (hb_orchestrator h)) (heartbeats db)"
    using sweep_fold [OF assms, of clk namespace ?stales "[]" i] by (simp_all only: recoverySweep_def)
  have left: "isTerminalState s \<or> s \<in> {Unclaimed, Failed, Stalled, Orphaned}"
    if "map_of RECOVERY_TRANSITIONS s = None" for s
    using that by (cases s) (simp_all add: RECOVERY_TRANSITIONS_def state_tables)
  have "case find_run ?db' i of
       None \<Rightarrow> True
     | Some r \<Rightarrow>
         if run_namespace r = namespace \<and>
            (case run_orchestrator r of None \<Rightarrow> False | Some o' \<Rightarrow> List.member ?stales o')
         then isTerminalState (run_status r) \<or>
           List.member [Unclaimed, Failed, Stalled, Orphaned] (run_status r)
         else find_run db i = Some r"
  proof (cases "find_run db i")
    case None
    then show ?thesis by (simp add: f)
  next
    case (Some r)
    show ?thesis
    proof (cases "swept namespace ?stales r")
      case True
      then obtain o' s where o: "run_orchestrator r = Some o'" "o' \<in> set ?stales"
        "recoverable namespace o' r" "map_of RECOVERY_TRANSITIONS (run_status r) = Some s"
        by (auto simp: swept_def recoverable_def split: option.splits)
      then have "run_namespace r = namespace"
        by (simp add: recoverable_def orphaned_by_def)
      with Some True o recovery_status [OF o(4)] left [of s] show ?thesis
        by (simp add: f swept_run_def recovered_def)
    next
      case False
      have "isTerminalState (run_status r) \<or> run_status r \<in> {Unclaimed, Failed, Stalled, Orphaned}"
        if "run_namespace r = namespace" "run_orchestrator r = Some o'" "o' \<in> set ?stales" for o'
        using False that left [of "run_status r"]
        by (auto simp: swept_def recoverable_def orphaned_by_def isTerminalState_def)
      with Some False show ?thesis by (auto simp: f split: option.splits)
    qed
  qed
  with f h show ?thesis by (simp only: Let_def simp_thms)
qed

definition stale_db :: symphony_db where
  "stale_db = example_db\<lparr>heartbeats :=
     [\<lparr>hb_orchestrator = ''orch-1'', hb_namespace = ''acme'', hb_last = 0, hb_active_runs = 1, hb_pid = 7\<rparr>]\<rparr>"

lemma find_stale_db: "find_run stale_db ''run-1'' = Some example_run"
  using find_example_run by (simp add: stale_db_def)

theorem recoverySweep_spec_witness:
  "heartbeats (snd (recoverySweep \<lparr>js_now = 90001, db_now = 90001\<rparr> ''acme'' None stale_db)) = []"
proof -
  have "run_keys stale_db" using example_db_keys by (simp add: stale_db_def)
  from recoverySweep_spec [OF this, where clk = "\<lparr>js_now = 90001, db_now = 90001\<rparr>"
      and namespace = "''acme''" and threshold = None and i = "''run-1''"] show ?thesis
    by (simp add: Let_def stale_db_def findStaleOrchestrators_def STALE_THRESHOLD_MS_def)
qed

text \<open>
  Recovery stamps a completion time on runs that are not over. Whatever transitions a recovered
  run makes afterwards, back to \<open>Running\<close> included, the watchdog never selects it again: its
  timeouts are off for good.
\<close>

theorem recovered_never_watched:
  assumes "run_keys db" and "find_run db i = Some r" and "recoverable namespace stale r"
  shows "case find_run (fold apply_call calls (snd (recoverOrphanedRuns clk namespace stale db))) i of
    None \<Rightarrow> False
  | Some r' \<Rightarrow> \<not> watchdog_eligible locked r' \<and> run_completed r' \<noteq> None"
proof -
  let ?P = "\<lambda>db'. \<exists>r'. find_run db' i = Some r' \<and> run_completed r' \<noteq> None"
  have step: "?P (apply_call c d)" if "?P d" for c d
    using that apply_call_cases [of c d]
    by (auto simp: transition_set_def set_symphony_run_updated_at_def split: if_splits)
  have "?P (snd (recoverOrphanedRuns clk namespace stale db))"
    using recoverOrphanedRuns_runs(1) [OF assms(1), of clk namespace stale i] assms(2,3)
    by (auto simp: recovered_def recoverable_def)
  then have "?P (fold apply_call calls d)" if "d = snd (recoverOrphanedRuns clk namespace stale db)" for d
    using step that
  proof (induction calls arbitrary: d rule: rev_induct)
    case Nil
    then show ?case by simp
  next
    case (snoc c cs)
    then show ?case by simp
  qed
  then show ?thesis by (fastforce simp: watchdog_eligible_def)
qed

definition rerun_calls :: "transition_call list" where
  "rerun_calls = map (\<lambda>(s, v). (\<lparr>js_now = 100, db_now = 100\<rparr>,
     example_ctx\<lparr>ctx_target := s, ctx_expected := v\<rparr>))
     [(RetryQueued, 4), (Provisioning, 5), (Prompting, 6), (Running, 7)]"

theorem recovered_never_watched_witness:
  "case find_run (fold apply_call rerun_calls
     (snd (recoverOrphanedRuns \<lparr>js_now = 5, db_now = 6\<rparr> ''acme'' ''orch-1'' example_db))) ''run-1'' of
    None \<Rightarrow> False | Some r' \<Rightarrow> \<not> watchdog_eligible (\<lambda>_. False) r'"
  using recovered_never_watched [OF example_db_keys find_example_run example_recoverable,
      where calls = rerun_calls and clk = "\<lparr>js_now = 5, db_now = 6\<rparr>" and locked = "\<lambda>_. False"]
  by (auto split: option.splits)

text \<open>Heartbeats written by one orchestrator at the given times, in a database that is up.\<close>

definition beat :: "heartbeat_manager \<Rightarrow> millis \<Rightarrow> symphony_db \<Rightarrow> symphony_db" where
  "beat m t db = hm_tick \<lparr>js_now = t, db_now = t\<rparr> True 0 m db"

lemma beat_row:
  "by_key hb_orchestrator k (heartbeats (beat m t db)) =
    (if k = hm_orchestrator m
     then Some (case by_key hb_orchestrator k (heartbeats db) of
         None \<Rightarrow> \<lparr>hb_orchestrator = k, hb_namespace = hm_namespace m, hb_last = t,
                  hb_active_runs = 0, hb_pid = hm_pid m\<rparr>
       | Some r \<Rightarrow> r\<lparr>hb_last := t, hb_active_runs := 0, hb_pid := hm_pid m\<rparr>)
     else by_key hb_orchestrator k (heartbeats db))"
  by (auto simp: beat_def hm_tick_def writeHeartbeat_def by_key_sql_upsert split: option.splits)

lemma beat_distinct:
  "distinct (map hb_orchestrator (heartbeats (beat m t db))) =
    distinct (map hb_orchestrator (heartbeats db))"
  by (simp add: beat_def hm_tick_def writeHeartbeat_def distinct_sql_upsert)

lemma beats_row:
  "ts \<noteq> [] \<Longrightarrow> \<exists>r. by_key hb_orchestrator (hm_orchestrator m) (heartbeats (fold (beat m) ts db)) = Some r \<and>
    hb_last r = last ts \<and> distinct (map hb_orchestrator (heartbeats (fold (beat m) ts db))) =
      distinct (map hb_orchestrator (heartbeats db))"
proof (induction ts rule: rev_induct)
  case Nil
  then show ?case by simp
next
  case (snoc t ts)
  have "distinct (map hb_orchestrator (heartbeats (fold (beat m) ts db))) =
      distinct (map hb_orchestrator (heartbeats db))"
    by (induction ts rule: rev_induct) (simp_all add: beat_distinct)
  then show ?case
    by (simp add: beat_row beat_distinct split: option.splits)
qed

text \<open>
  A live orchestrator is not taken for dead: up to the staleness threshold after its last
  heartbeat no search of any namespace finds it; after that the search of its own namespace does.
\<close>

theorem heartbeat_liveness:
  assumes "ts \<noteq> []" and "distinct (map hb_orchestrator (heartbeats db))"
  shows "if db_now clk \<le> last ts + (case threshold of Some t \<Rightarrow> t | None \<Rightarrow> STALE_THRESHOLD_MS)
    then hm_orchestrator m \<notin> set (findStaleOrchestrators clk namespace threshold (fold (beat m) ts db))
    else \<exists>ns. hm_orchestrator m \<in> set (findStaleOrchestrators clk ns threshold (fold (beat m) ts db))"
proof -
  obtain r where r: "by_key hb_orchestrator (hm_orchestrator m) (heartbeats (fold (beat m) ts db)) = Some r"
    "hb_last r = last ts" "distinct (map hb_orchestrator (heartbeats (fold (beat m) ts db)))"
    using beats_row [OF assms(1), of m db] assms(2) by blast
  then have only: "h = r" if "h \<in> set (heartbeats (fold (beat m) ts db))"
      "hb_orchestrator h = hm_orchestrator m" for h
    using that by (metis by_key_Some_iff option.inject)
  from r have i: "r \<in> set (heartbeats (fold (beat m) ts db))" "hb_orchestrator r = hm_orchestrator m"
    by (simp_all add: by_key_Some_iff)
  let ?th = "case threshold of Some t \<Rightarrow> t | None \<Rightarrow> STALE_THRESHOLD_MS"
  have "hm_orchestrator m \<in> set (findStaleOrchestrators clk ns threshold (fold (beat m) ts db)) \<longleftrightarrow>
      hb_namespace r = ns \<and> last ts < db_now clk - ?th" for ns
  proof
    assume "hm_orchestrator m \<in> set (findStaleOrchestrators clk ns threshold (fold (beat m) ts db))"
    then obtain h where "h \<in> set (heartbeats (fold (beat m) ts db))" "hb_orchestrator h = hm_orchestrator m"
      "hb_namespace h = ns" "hb_last h < db_now clk - ?th"
      by (auto simp: findStaleOrchestrators_def Let_def)
    with only r(2) show "hb_namespace r = ns \<and> last ts < db_now clk - ?th" by metis
  next
    assume "hb_namespace r = ns \<and> last ts < db_now clk - ?th"
    with i r(2) show "hm_orchestrator m \<in> set (findStaleOrchestrators clk ns threshold (fold (beat m) ts db))"
      by (auto simp: findStaleOrchestrators_def Let_def image_iff intro!: bexI [of _ r])
  qed
  then show ?thesis by auto
qed

theorem heartbeat_liveness_witness:
  "''orch-1'' \<notin> set (findStaleOrchestrators \<lparr>js_now = 120000, db_now = 120000\<rparr> ''acme'' None
     (fold (beat (new_heartbeat_manager ''acme'' ''orch-1'' None 7)) [0, 30000] stale_db))"
  using heartbeat_liveness [of "[0, 30000]" stale_db "\<lparr>js_now = 120000, db_now = 120000\<rparr>" None
      "new_heartbeat_manager ''acme'' ''orch-1'' None 7" "''acme''"]
  by (simp add: stale_db_def new_heartbeat_manager_def STALE_THRESHOLD_MS_def)

end
