(* ===== verification/DurableWrite.thy ===== *)
theory DurableWrite
  imports Database
begin

text \<open>
  \<^verbatim>\<open>src/symphony/durable-write.ts\<close>: a critical write is tried up to \<open>maxRetries\<close>
  times with backoff, then its payload goes to the dead-letter table, whose entries are listed
  and resolved. The write is a function on the state it changes that returns an error message or
  succeeds; whether the dead-letter insert fails is a parameter of the same kind. The delays slept
  are collected in order.
\<close>

definition DEFAULT_MAX_RETRIES :: int where "DEFAULT_MAX_RETRIES = 3"
definition BASE_DELAY_MS :: int where "BASE_DELAY_MS = 100"
definition MAX_DELAY_MS :: int where "MAX_DELAY_MS = 5000"

record durable_options =
  do_max_retries :: "int option"
  do_source :: string
  do_namespace :: string

record durable_result =
  dr_success :: bool
  dr_attempts :: int
  dr_dead_lettered :: bool
  dr_error :: "string option"

record dead_letter_row =
  dl_id :: uuid
  dl_namespace :: string
  dl_payload :: "(string \<times> json) list"
  dl_error :: string
  dl_source :: string
  dl_created :: millis
  dl_resolved_at :: "millis option"
  dl_resolved_by :: "string option"

definition retry_pause :: "int \<Rightarrow> rat \<Rightarrow> int" where
  "retry_pause attempt rand =
     min (BASE_DELAY_MS * 2 ^ nat (attempt - 1) + \<lfloor>rand * 100\<rfloor>) MAX_DELAY_MS"

text \<open>The loop from an attempt on: the attempt that succeeded, or the last error.\<close>

function write_attempts ::
  "('s \<Rightarrow> (string + unit) \<times> 's) \<Rightarrow> (int \<Rightarrow> rat) \<Rightarrow> int \<Rightarrow> int \<Rightarrow> string option \<Rightarrow> 's \<Rightarrow>
   (string option + int) \<times> int list \<times> 's"
where
  "write_attempts writeFn rand maxRetries attempt lastError s =
     (if maxRetries < attempt then (Inl lastError, [], s)
      else (case writeFn s of
          (Inr _, s') \<Rightarrow> (Inr attempt, [], s')
        | (Inl e, s') \<Rightarrow>
            (let pause = (if attempt < maxRetries then [retry_pause attempt (rand attempt)] else []);
                 (res, delays, s'') = write_attempts writeFn rand maxRetries (attempt + 1) (Some e) s'
             in (res, pause @ delays, s''))))"
  by pat_completeness auto
termination
  by (relation "measure (\<lambda>(writeFn, rand, maxRetries, attempt, lastError, s).
        nat (maxRetries + 1 - attempt))") auto

declare write_attempts.simps [simp del]

text \<open>The insert, with the id and time the database gives the row.\<close>

definition writeToDeadLetter ::
  "clock \<Rightarrow> uuid \<Rightarrow> string \<Rightarrow> (string \<times> json) list \<Rightarrow> string \<Rightarrow> string \<Rightarrow> dead_letter_row list \<Rightarrow>
   uuid \<times> dead_letter_row list"
where
  "writeToDeadLetter clk newId namespace payload error source t =
     (newId, t @ [\<lparr>dl_id = newId, dl_namespace = namespace, dl_payload = payload, dl_error = error,
        dl_source = source, dl_created = db_now clk, dl_resolved_at = None, dl_resolved_by = None\<rparr>])"

definition durableWrite ::
  "clock \<Rightarrow> uuid \<Rightarrow> (int \<Rightarrow> rat) \<Rightarrow> ('s \<Rightarrow> (string + unit) \<times> 's) \<Rightarrow> string option \<Rightarrow>
   (string \<times> json) list \<Rightarrow> durable_options \<Rightarrow> 's \<Rightarrow> dead_letter_row list \<Rightarrow>
   durable_result \<times> int list \<times> 's \<times> dead_letter_row list"
where
  "durableWrite clk newId rand writeFn dlqFails payload options s t =
     (let maxRetries = (case do_max_retries options of Some n \<Rightarrow> n | None \<Rightarrow> DEFAULT_MAX_RETRIES) in
      case write_attempts writeFn rand maxRetries 1 None s of
        (Inr attempt, delays, s') \<Rightarrow>
          (\<lparr>dr_success = True, dr_attempts = attempt, dr_dead_lettered = False, dr_error = None\<rparr>,
           delays, s', t)
      | (Inl lastError, delays, s') \<Rightarrow>
          (let errorMessage = (case lastError of Some e \<Rightarrow> e | None \<Rightarrow> ''Unknown error'') in
           case dlqFails of
             None \<Rightarrow>
               (\<lparr>dr_success = False, dr_attempts = maxRetries, dr_dead_lettered = True,
                 dr_error = Some errorMessage\<rparr>, delays, s',
                snd (writeToDeadLetter clk newId (do_namespace options) payload errorMessage
                  (do_source options) t))
           | Some dlqError \<Rightarrow>
               (\<lparr>dr_success = False, dr_attempts = maxRetries, dr_dead_lettered = False,
                 dr_error = Some (''Write and DLQ both failed: '' @ errorMessage @ ''; DLQ: '' @ dlqError)\<rparr>,
                delays, s', t)))"

definition resolveDeadLetter ::
  "clock \<Rightarrow> uuid \<Rightarrow> string \<Rightarrow> string option \<Rightarrow> dead_letter_row list \<Rightarrow> bool \<times> dead_letter_row list"
where
  "resolveDeadLetter clk i resolvedBy namespace t =
     (let hit = (\<lambda>r. dl_id r = i \<and> dl_resolved_at r = None \<and>
            (case namespace of None \<Rightarrow> True | Some n \<Rightarrow> n = [] \<or> dl_namespace r = n))
      in (sql_count hit t > 0,
          sql_update hit
            (\<lambda>r. r\<lparr>dl_resolved_at := Some (db_now clk), dl_resolved_by := Some resolvedBy\<rparr>) t))"

definition getUnresolvedDeadLetters ::
  "string option \<Rightarrow> string option \<Rightarrow> nat option \<Rightarrow> dead_letter_row list \<Rightarrow> dead_letter_row list"
where
  "getUnresolvedDeadLetters namespace source limit t =
     take (case limit of Some n \<Rightarrow> n | None \<Rightarrow> 100)
       (sort_key dl_created
         (filter (\<lambda>r. dl_resolved_at r = None \<and>
            (case namespace of None \<Rightarrow> True | Some n \<Rightarrow> n = [] \<or> dl_namespace r = n) \<and>
            (case source of None \<Rightarrow> True | Some n \<Rightarrow> n = [] \<or> dl_source r = n)) t))"

subsection \<open>The attempts\<close>

text \<open>The write's state before its attempt number \<open>n + 1\<close>, and that attempt's outcome.\<close>

definition state_after :: "('s \<Rightarrow> (string + unit) \<times> 's) \<Rightarrow> nat \<Rightarrow> 's \<Rightarrow> 's" where
  "state_after writeFn n s = ((\<lambda>x. snd (writeFn x)) ^^ n) s"

definition attempt_error :: "('s \<Rightarrow> (string + unit) \<times> 's) \<Rightarrow> 's \<Rightarrow> nat \<Rightarrow> string option" where
  "attempt_error writeFn s n =
     (case fst (writeFn (state_after writeFn n s)) of Inl e \<Rightarrow> Some e | Inr _ \<Rightarrow> None)"

lemma state_after_Suc: "state_after writeFn (Suc n) s = state_after writeFn n (snd (writeFn s))"
  by (simp add: state_after_def funpow_Suc_right del: funpow.simps)

lemma state_after_0 [simp]: "state_after writeFn 0 s = s"
  by (simp add: state_after_def)

lemma write_attempts_spec:
  assumes "int n = maxRetries + 1 - attempt" and "0 < attempt"
  shows "case write_attempts writeFn rand maxRetries attempt lastError s of
      (Inr a, delays, s') \<Rightarrow> \<exists>k < n. a = attempt + int k \<and> s' = state_after writeFn (Suc k) s \<and>
        (\<forall>j < k. attempt_error writeFn s j \<noteq> None) \<and> attempt_error writeFn s k = None \<and>
        delays = map (\<lambda>j. retry_pause (attempt + int j) (rand (attempt + int j))) [0..<k]
    | (Inl e, delays, s') \<Rightarrow> s' = state_after writeFn n s \<and>
        (\<forall>j < n. attempt_error writeFn s j \<noteq> None) \<and>
        e = (if n = 0 then lastError else attempt_error writeFn s (n - 1)) \<and>
        delays = map (\<lambda>j. retry_pause (attempt + int j) (rand (attempt + int j))) [0..<n - 1]"
  using assms
proof (induction n arbitrary: attempt lastError s)
  case 0
  then show ?case by (simp add: write_attempts.simps [of writeFn rand maxRetries attempt])
next
  case (Suc n)
  have le: "\<not> maxRetries < attempt" using Suc.prems by simp
  obtain r s' where w: "writeFn s = (r, s')" by fastforce
  have err: "attempt_error writeFn s (Suc j) = attempt_error writeFn s' j" for j
    by (simp add: attempt_error_def state_after_Suc w)
  have err0: "attempt_error writeFn s 0 = (case r of Inl e \<Rightarrow> Some e | Inr _ \<Rightarrow> None)"
    by (simp add: attempt_error_def w)
  have shift: "(\<forall>j < Suc m. attempt_error writeFn s j \<noteq> None) \<longleftrightarrow>
      attempt_error writeFn s 0 \<noteq> None \<and> (\<forall>j < m. attempt_error writeFn s' j \<noteq> None)" for m
    by (auto simp: less_Suc_eq_0_disj err)
  have pauses: "map (\<lambda>j. retry_pause (attempt + int j) (rand (attempt + int j))) [0..<Suc m] =
      retry_pause attempt (rand attempt) #
      map (\<lambda>j. retry_pause (attempt + 1 + int j) (rand (attempt + 1 + int j))) [0..<m]" for m
    by (simp add: upt_rec [of 0 "Suc m"] map_Suc_upt [symmetric] comp_def algebra_simps
        del: upt_Suc)
  show ?case
  proof (cases r)
    case (Inr u)
    then show ?thesis
      using le w err0 by (simp add: write_attempts.simps [of writeFn rand maxRetries attempt]
          state_after_def exI [of _ 0])
  next
    case (Inl e)
    obtain res delays s'' where rec:
      "write_attempts writeFn rand maxRetries (attempt + 1) (Some e) s' = (res, delays, s'')"
      by (metis prod_cases3)
    have step: "write_attempts writeFn rand maxRetries attempt lastError s =
        (res, (if attempt < maxRetries then [retry_pause attempt (rand attempt)] else []) @ delays, s'')"
      using le w Inl rec by (simp add: write_attempts.simps [of writeFn rand maxRetries attempt])
    note IH = Suc.IH [where attempt = "attempt + 1" and lastError = "Some e" and s = s', unfolded rec]
    have more: "attempt < maxRetries \<longleftrightarrow> n \<noteq> 0" using Suc.prems by auto
    show ?thesis
    proof (cases res)
      case (Inr a)
      with IH Suc.prems obtain k where k: "k < n" "a = attempt + 1 + int k"
        "s'' = state_after writeFn (Suc k) s'" "\<forall>j < k. attempt_error writeFn s' j \<noteq> None"
        "attempt_error writeFn s' k = None"
        "delays = map (\<lambda>j. retry_pause (attempt + 1 + int j) (rand (attempt + 1 + int j))) [0..<k]"
        by auto
      then have "Suc k < Suc n \<and> a = attempt + int (Suc k) \<and>
          s'' = state_after writeFn (Suc (Suc k)) s \<and>
          (\<forall>j < Suc k. attempt_error writeFn s j \<noteq> None) \<and> attempt_error writeFn s (Suc k) = None \<and>
          (if attempt < maxRetries then [retry_pause attempt (rand attempt)] else []) @ delays =
            map (\<lambda>j. retry_pause (attempt + int j) (rand (attempt + int j))) [0..<Suc k]"
        using more err err0 Inl by (simp only: shift pauses) (simp add: state_after_Suc w)
      with Inr show ?thesis unfolding step by auto
    next
      case (Inl l)
      with IH Suc.prems have l: "s'' = state_after writeFn n s'"
        "\<forall>j < n. attempt_error writeFn s' j \<noteq> None"
        "l = (if n = 0 then Some e else attempt_error writeFn s' (n - 1))"
        "delays = map (\<lambda>j. retry_pause (attempt + 1 + int j) (rand (attempt + 1 + int j))) [0..<n - 1]"
        by auto
      have "l = attempt_error writeFn s n"
        using l(3) err0 err [of "n - 1"] \<open>r = Inl e\<close> by (cases n) simp_all
      moreover have "(if attempt < maxRetries then [retry_pause attempt (rand attempt)] else []) @ delays =
          map (\<lambda>j. retry_pause (attempt + int j) (rand (attempt + int j))) [0..<n]"
        using l(4) more pauses [of "n - 1"] by (cases n) simp_all
      moreover have "\<forall>j < Suc n. attempt_error writeFn s j \<noteq> None"
        using l(2) err0 \<open>r = Inl e\<close> by (simp only: shift) simp
      ultimately show ?thesis
        using l(1) Inl unfolding step by (simp add: state_after_Suc w)
    qed
  qed
qed

subsection \<open>Properties\<close>

text \<open>
  C12. No critical write is lost silently. It succeeds at the first attempt that does, having failed
  at all earlier ones; otherwise all \<open>maxRetries\<close> attempts were made and failed, and the payload
  is in the dead-letter table exactly once, under the last error, unless that insert failed too,
  which the result says. The write runs once per attempt, and no pause exceeds five seconds.
\<close>

theorem durableWrite_spec:
  "case durableWrite clk newId rand writeFn dlqFails payload options s t of (res, delays, s', t') \<Rightarrow>
    let maxRetries = (case do_max_retries options of Some n \<Rightarrow> n | None \<Rightarrow> DEFAULT_MAX_RETRIES) in
    list_all (\<lambda>d. d \<le> 5000) delays \<and>
    (if dr_success res
     then \<exists>k. int k < maxRetries \<and> dr_attempts res = int k + 1 \<and> length delays = k \<and>
       s' = state_after writeFn (k + 1) s \<and>
       list_all (\<lambda>j. attempt_error writeFn s j \<noteq> None) [0..<k] \<and>
       attempt_error writeFn s k = None \<and> t' = t
     else dr_attempts res = maxRetries \<and> s' = state_after writeFn (nat maxRetries) s \<and>
       list_all (\<lambda>j. attempt_error writeFn s j \<noteq> None) [0..<nat maxRetries] \<and>
       dr_dead_lettered res = (dlqFails = None) \<and>
       t' = (if dlqFails = None
         then t @ [\<lparr>dl_id = newId, dl_namespace = do_namespace options, dl_payload = payload,
           dl_error = (if maxRetries \<le> 0 then ''Unknown error''
             else the (attempt_error writeFn s (nat maxRetries - 1))),
           dl_source = do_source options, dl_created = db_now clk, dl_resolved_at = None,
           dl_resolved_by = None\<rparr>]
         else t))"
proof -
  define m where "m = (case do_max_retries options of Some n \<Rightarrow> n | None \<Rightarrow> DEFAULT_MAX_RETRIES)"
  obtain r delays s' where w: "write_attempts writeFn rand m 1 None s = (r, delays, s')"
    by (metis prod_cases3)
  have pause: "retry_pause a q \<le> 5000" for a q by (simp add: retry_pause_def MAX_DELAY_MS_def)
  have base: "case (r, delays, s') of
      (Inr a, delays, s') \<Rightarrow> \<exists>k < nat m. a = 1 + int k \<and> s' = state_after writeFn (Suc k) s \<and>
        (\<forall>j < k. attempt_error writeFn s j \<noteq> None) \<and> attempt_error writeFn s k = None \<and>
        delays = map (\<lambda>j. retry_pause (1 + int j) (rand (1 + int j))) [0..<k]
    | (Inl e, delays, s') \<Rightarrow> s' = state_after writeFn (nat m) s \<and>
        (\<forall>j < nat m. attempt_error writeFn s j \<noteq> None) \<and>
        e = (if nat m = 0 then None else attempt_error writeFn s (nat m - 1)) \<and>
        delays = map (\<lambda>j. retry_pause (1 + int j) (rand (1 + int j))) [0..<nat m - 1]"
  proof (cases "0 \<le> m")
    case True
    then show ?thesis
      using write_attempts_spec [where n = "nat m" and maxRetries = m and attempt = 1
          and writeFn = writeFn and rand = rand and lastError = None and s = s] by (simp add: w)
  next
    case False
    then have "(r, delays, s') = (Inl None, [], s)"
      using w by (simp add: write_attempts.simps [of writeFn rand m 1])
    with False show ?thesis by simp
  qed
  show ?thesis
  proof (cases r)
    case (Inr a)
    with base obtain k where "k < nat m" "a = 1 + int k" "s' = state_after writeFn (Suc k) s"
      "\<forall>j < k. attempt_error writeFn s j \<noteq> None" "attempt_error writeFn s k = None"
      "delays = map (\<lambda>j. retry_pause (1 + int j) (rand (1 + int j))) [0..<k]"
      by auto
    then show ?thesis
      using Inr w pause
      by (auto simp: durableWrite_def m_def [symmetric] Let_def list_all_iff
          intro!: exI [of _ k])
  next
    case (Inl e)
    with base have e: "s' = state_after writeFn (nat m) s"
      "\<forall>j < nat m. attempt_error writeFn s j \<noteq> None"
      "e = (if nat m = 0 then None else attempt_error writeFn s (nat m - 1))"
      "delays = map (\<lambda>j. retry_pause (1 + int j) (rand (1 + int j))) [0..<nat m - 1]"
      by auto
    have "(case e of Some e \<Rightarrow> e | None \<Rightarrow> ''Unknown error'') =
        (if m \<le> 0 then ''Unknown error'' else the (attempt_error writeFn s (nat m - 1)))"
    proof (cases "m \<le> 0")
      case True
      with e(3) show ?thesis by simp
    next
      case False
      with e(2) have "attempt_error writeFn s (nat m - 1) \<noteq> None" by simp
      with False e(3) show ?thesis by auto
    qed
    then show ?thesis
      using Inl w e pause
      by (auto simp: durableWrite_def m_def [symmetric] Let_def list_all_iff writeToDeadLetter_def
          split: option.splits)
  qed
qed

end
