(* ===== verification/Cleanup.thy ===== *)
theory Cleanup
  imports States
begin

text \<open>
  \<^verbatim>\<open>src/symphony/cleanup.ts\<close>: which containers, worktrees and secrets are orphaned, the
  backlog's service level, deferral, and the sweeper's double check before anything is destroyed.
  A set of run ids is a list; an interval in hours or days is printed with one decimal.
\<close>

definition CLEANUP_RETENTION_DAYS :: int where "CLEANUP_RETENTION_DAYS = 7"
definition DEFERRED_GC_HOURS :: int where "DEFERRED_GC_HOURS = 24"
definition MAX_CLEANUP_BACKLOG_SIZE :: int where "MAX_CLEANUP_BACKLOG_SIZE = 10"
definition MAX_CLEANUP_BACKLOG_AGE_SECONDS :: int where "MAX_CLEANUP_BACKLOG_AGE_SECONDS = 3600"
definition CRITICAL_BACKLOG_AGE_SECONDS :: int where "CRITICAL_BACKLOG_AGE_SECONDS = 24 * 3600"

lemmas cleanup_constants =
  CLEANUP_RETENTION_DAYS_def DEFERRED_GC_HOURS_def MAX_CLEANUP_BACKLOG_SIZE_def
  MAX_CLEANUP_BACKLOG_AGE_SECONDS_def CRITICAL_BACKLOG_AGE_SECONDS_def

record ContainerRecord =
  cr_id :: uuid
  cr_container :: string
  cr_connection :: uuid
  cr_namespace :: string
  cr_run :: "uuid option"
  cr_started :: "millis option"
  cr_max_ttl :: "int option"

record WorkspaceRecord =
  wr_id :: uuid
  wr_connection :: uuid
  wr_namespace :: string
  wr_path :: string
  wr_run :: "uuid option"
  wr_last_used :: "millis option"

record SecretDeploymentRecord =
  sd_id :: uuid
  sd_namespace :: string
  sd_connection :: uuid
  sd_path :: string
  sd_deployed :: millis
  sd_last_used :: "millis option"
  sd_staleness :: string
  sd_run :: "uuid option"

datatype ResourceType = ContainerResource | WorktreeResource | BranchResource | SecretResource | WorkspaceResource

datatype CleanupStatus = CleanupPending | CleanupInProgress | CleanupCompleted | CleanupFailure | CleanupSkipped

record CleanupItem =
  ci_id :: uuid
  ci_namespace :: string
  ci_type :: ResourceType
  ci_resource :: string
  ci_status :: CleanupStatus
  ci_created :: millis
  ci_attempts :: int

record OrphanCandidate =
  orph_type :: ResourceType
  orph_resource :: string
  orph_connection :: uuid
  orph_namespace :: string
  orph_reason :: string

subsection \<open>Detection\<close>

text \<open>The reason a container is orphaned for, tried in the order of the loop's body.\<close>

definition container_orphan_reason :: "millis \<Rightarrow> uuid list \<Rightarrow> ContainerRecord \<Rightarrow> string option" where
  "container_orphan_reason now activeRunIds container =
     (case (case (cr_max_ttl container, cr_started container) of
              (Some ttl, Some started) \<Rightarrow>
                (let elapsed = now - started in
                 if elapsed > ttl * 60 * 60 * 1000
                 then Some (''TTL exceeded: '' @ show_int ttl @ ''h limit, running for ''
                   @ to_fixed 1 (of_int elapsed / 3600000) @ ''h'')
                 else None)
            | _ \<Rightarrow> None) of
        Some reason \<Rightarrow> Some reason
      | None \<Rightarrow>
          (case cr_run container of
             None \<Rightarrow> Some ''No associated run''
           | Some runId \<Rightarrow>
               if \<not> List.member activeRunIds runId
               then Some (''Run '' @ runId @ '' is no longer active'') else None))"

definition identifyOrphanedContainers ::
  "millis \<Rightarrow> ContainerRecord list \<Rightarrow> uuid list \<Rightarrow> OrphanCandidate list" where
  "identifyOrphanedContainers now containers activeRunIds =
     concat (map (\<lambda>c.
       case container_orphan_reason now activeRunIds c of
         None \<Rightarrow> []
       | Some reason \<Rightarrow> [\<lparr>orph_type = ContainerResource, orph_resource = cr_container c,
           orph_connection = cr_connection c, orph_namespace = cr_namespace c,
           orph_reason = reason\<rparr>]) containers)"

definition worktree_stale_reason :: "millis \<Rightarrow> uuid list \<Rightarrow> WorkspaceRecord \<Rightarrow> string option" where
  "worktree_stale_reason now terminalRunIds ws =
     (case wr_run ws of
        Some runId \<Rightarrow>
          if List.member terminalRunIds runId
          then Some (''Run '' @ runId @ '' in terminal state'') else None
      | None \<Rightarrow>
          (case wr_last_used ws of
             None \<Rightarrow> None
           | Some lastUsed \<Rightarrow>
               (let idleMs = now - lastUsed in
                if idleMs > DEFERRED_GC_HOURS * 60 * 60 * 1000
                then Some (''No run, idle for '' @ to_fixed 1 (of_int idleMs / 3600000) @ ''h (>''
                  @ show_int DEFERRED_GC_HOURS @ ''h threshold)'')
                else None)))"

definition identifyStaleWorktrees ::
  "millis \<Rightarrow> WorkspaceRecord list \<Rightarrow> uuid list \<Rightarrow> OrphanCandidate list" where
  "identifyStaleWorktrees now workspaces terminalRunIds =
     concat (map (\<lambda>ws.
       case worktree_stale_reason now terminalRunIds ws of
         None \<Rightarrow> []
       | Some reason \<Rightarrow> [\<lparr>orph_type = WorktreeResource, orph_resource = wr_path ws,
           orph_connection = wr_connection ws, orph_namespace = wr_namespace ws,
           orph_reason = reason\<rparr>]) workspaces)"

definition secret_expired_reason ::
  "millis \<Rightarrow> uuid list \<Rightarrow> SecretDeploymentRecord \<Rightarrow> string option" where
  "secret_expired_reason now activeRunIds secret =
     (if sd_staleness secret = ''cleaned'' then None
      else if (case sd_run secret of None \<Rightarrow> False | Some runId \<Rightarrow> List.member activeRunIds runId)
      then None
      else
        (let referenceDate = (case sd_last_used secret of Some t \<Rightarrow> t | None \<Rightarrow> sd_deployed secret);
             age = now - referenceDate in
         if age > CLEANUP_RETENTION_DAYS * 24 * 60 * 60 * 1000
         then Some (''Unused for '' @ to_fixed 1 (of_int age / 86400000) @ '' days (>''
           @ show_int CLEANUP_RETENTION_DAYS @ ''d retention)'')
         else None))"

definition identifyExpiredSecrets ::
  "millis \<Rightarrow> SecretDeploymentRecord list \<Rightarrow> uuid list \<Rightarrow> OrphanCandidate list" where
  "identifyExpiredSecrets now secrets activeRunIds =
     concat (map (\<lambda>s.
       case secret_expired_reason now activeRunIds s of
         None \<Rightarrow> []
       | Some reason \<Rightarrow> [\<lparr>orph_type = SecretResource, orph_resource = sd_path s,
           orph_connection = sd_connection s, orph_namespace = sd_namespace s,
           orph_reason = reason\<rparr>]) secrets)"

subsection \<open>Service level and deferral\<close>

datatype SloViolation =
    BacklogSize int int string
  | BacklogAge rat int string

record SloStatus =
  slo_healthy :: bool
  slo_critical :: bool
  slo_violations :: "SloViolation list"
  slo_pending :: int
  slo_oldest :: rat

definition checkCleanupSlo :: "millis \<Rightarrow> CleanupItem list \<Rightarrow> SloStatus" where
  "checkCleanupSlo now items =
     (let pendingItems = filter (\<lambda>i. ci_status i = CleanupPending) items;
          oldestAgeSeconds = fold (\<lambda>i oldest.
            (let ageSeconds = of_int (now - ci_created i) / 1000 in
             if ageSeconds > oldest then ageSeconds else oldest)) pendingItems 0;
          n = int (length pendingItems);
          violations =
            (if n > MAX_CLEANUP_BACKLOG_SIZE
             then [BacklogSize n MAX_CLEANUP_BACKLOG_SIZE (''Cleanup backlog size '' @ show_int n
               @ '' exceeds threshold '' @ show_int MAX_CLEANUP_BACKLOG_SIZE)] else []) @
            (if oldestAgeSeconds > of_int MAX_CLEANUP_BACKLOG_AGE_SECONDS
             then [BacklogAge oldestAgeSeconds MAX_CLEANUP_BACKLOG_AGE_SECONDS
               (''Oldest pending item age '' @ to_fixed 0 oldestAgeSeconds @ ''s exceeds threshold ''
                @ show_int MAX_CLEANUP_BACKLOG_AGE_SECONDS @ ''s'')] else [])
      in \<lparr>slo_healthy = (violations = []),
          slo_critical = (oldestAgeSeconds > of_int CRITICAL_BACKLOG_AGE_SECONDS),
          slo_violations = violations, slo_pending = n, slo_oldest = oldestAgeSeconds\<rparr>)"

text \<open>The run's status is whatever text the caller holds; only the terminal values are looked up.\<close>

definition shouldDeferCleanup :: "millis \<Rightarrow> string \<Rightarrow> millis \<Rightarrow> bool" where
  "shouldDeferCleanup now runStatus lastActivityAt =
     (if List.member (map state_value TERMINAL_STATES) runStatus then False
      else now - lastActivityAt < DEFERRED_GC_HOURS * 60 * 60 * 1000)"

subsection \<open>The double check\<close>

datatype ResolvedReason = Cleaned | Reclaimed | ExpiredReason | ManualReason

datatype CleanupOutcome = OutcomeCompleted | OutcomeFailed | OutcomeResolved

record CleanupResult =
  res_status :: CleanupOutcome
  res_reason :: "ResolvedReason option"
  res_error :: "string option"

text \<open>Both callbacks act on a state; an error is the message of what they throw.\<close>

definition executeWithDoubleCheck ::
  "CleanupItem \<Rightarrow> (CleanupItem \<Rightarrow> 's \<Rightarrow> (string + bool) \<times> 's) \<Rightarrow>
   (CleanupItem \<Rightarrow> 's \<Rightarrow> (string + unit) \<times> 's) \<Rightarrow> 's \<Rightarrow> CleanupResult \<times> 's"
where
  "executeWithDoubleCheck item recheckOwnership executeCleanup s =
     (case recheckOwnership item s of
        (Inl err, s') \<Rightarrow>
          (\<lparr>res_status = OutcomeFailed, res_reason = None,
            res_error = Some (''Ownership recheck failed: '' @ err)\<rparr>, s')
      | (Inr reclaimed, s') \<Rightarrow>
          if reclaimed
          then (\<lparr>res_status = OutcomeResolved, res_reason = Some Reclaimed, res_error = None\<rparr>, s')
          else (case executeCleanup item s' of
              (Inr _, s'') \<Rightarrow>
                (\<lparr>res_status = OutcomeCompleted, res_reason = Some Cleaned, res_error = None\<rparr>, s'')
            | (Inl err, s'') \<Rightarrow>
                (\<lparr>res_status = OutcomeFailed, res_reason = None, res_error = Some err\<rparr>, s'')))"

subsection \<open>What is never touched\<close>

lemma in_orphans:
  "c \<in> set (identifyOrphanedContainers now cs active) \<longleftrightarrow>
    (\<exists>r \<in> set cs. orph_type c = ContainerResource \<and> orph_resource c = cr_container r \<and>
      orph_connection c = cr_connection r \<and> orph_namespace c = cr_namespace r \<and>
      container_orphan_reason now active r = Some (orph_reason c))"
  by (cases c) (force simp: identifyOrphanedContainers_def split: option.splits)

text \<open>A container that belongs to an active run and is within its time to live.\<close>

definition container_in_use :: "millis \<Rightarrow> uuid list \<Rightarrow> ContainerRecord \<Rightarrow> bool" where
  "container_in_use now active r \<longleftrightarrow>
     (case cr_run r of None \<Rightarrow> False | Some i \<Rightarrow> List.member active i) \<and>
     (case (cr_max_ttl r, cr_started r) of
        (Some ttl, Some started) \<Rightarrow> now \<le> started + ttl * 3600000 | _ \<Rightarrow> True)"

lemma container_in_use_iff [outcome_iff]:
  "container_orphan_reason now active r = None \<longleftrightarrow> container_in_use now active r"
  by (auto simp: container_orphan_reason_def container_in_use_def Let_def split: option.splits)

text \<open>A sweep over a fleet: detect, enqueue every candidate, and later, against a newer picture of
  the fleet, recheck each before destroying it. A picture is the containers and the active runs.\<close>

record fleet =
  fl_now :: millis
  fl_containers :: "ContainerRecord list"
  fl_active :: "uuid list"

definition detect_items :: "fleet \<Rightarrow> CleanupItem list" where
  "detect_items f =
     map (\<lambda>c. \<lparr>ci_id = [], ci_namespace = orph_namespace c, ci_type = ContainerResource,
       ci_resource = orph_resource c, ci_status = CleanupPending, ci_created = fl_now f,
       ci_attempts = 0\<rparr>)
       (identifyOrphanedContainers (fl_now f) (fl_containers f) (fl_active f))"

definition recheck_container :: "CleanupItem \<Rightarrow> fleet \<Rightarrow> (string + bool) \<times> fleet" where
  "recheck_container item f =
     (Inr (list_ex (\<lambda>r. cr_container r = ci_resource item \<and> cr_namespace r = ci_namespace item \<and>
        container_in_use (fl_now f) (fl_active f) r) (fl_containers f)), f)"

definition destroy_container :: "CleanupItem \<Rightarrow> fleet \<Rightarrow> (string + unit) \<times> fleet" where
  "destroy_container item f =
     (Inr (), f\<lparr>fl_containers := filter (\<lambda>r. \<not> (cr_container r = ci_resource item \<and>
        cr_namespace r = ci_namespace item)) (fl_containers f)\<rparr>)"

definition sweep_fleet :: "CleanupItem list \<Rightarrow> fleet \<Rightarrow> fleet" where
  "sweep_fleet items f =
     fold (\<lambda>i f. snd (executeWithDoubleCheck i recheck_container destroy_container f)) items f"

lemma double_check_fleet:
  "fl_now (snd (executeWithDoubleCheck i recheck_container destroy_container f)) = fl_now f"
  "fl_active (snd (executeWithDoubleCheck i recheck_container destroy_container f)) = fl_active f"
  "r \<in> set (fl_containers (snd (executeWithDoubleCheck i recheck_container destroy_container f))) \<longleftrightarrow>
    r \<in> set (fl_containers f) \<and>
    (cr_container r = ci_resource i \<and> cr_namespace r = ci_namespace i \<longrightarrow>
     (\<exists>q \<in> set (fl_containers f). cr_container q = ci_resource i \<and> cr_namespace q = ci_namespace i \<and>
        container_in_use (fl_now f) (fl_active f) q))"
  by (auto simp: executeWithDoubleCheck_def recheck_container_def destroy_container_def list_ex_iff)

lemma sweep_fleet_kept:
  "r \<in> set (fl_containers (sweep_fleet items f)) \<Longrightarrow> r \<in> set (fl_containers f)"
proof (induction items arbitrary: f)
  case (Cons i items)
  then show ?case using double_check_fleet(3) [where r = r and i = i and f = f] by (fastforce simp: sweep_fleet_def)
qed (simp add: sweep_fleet_def)

lemma sweep_fleet_in_use:
  assumes "r \<in> set (fl_containers f)" and "container_in_use (fl_now f) (fl_active f) r"
  shows "r \<in> set (fl_containers (sweep_fleet items f))"
  using assms
proof (induction items arbitrary: f)
  case (Cons i items)
  let ?f = "snd (executeWithDoubleCheck i recheck_container destroy_container f)"
  have "r \<in> set (fl_containers ?f)" and "container_in_use (fl_now ?f) (fl_active ?f) r"
    using Cons.prems by (auto simp: double_check_fleet)
  from Cons.IH [OF this] show ?case by (simp add: sweep_fleet_def)
qed (simp add: sweep_fleet_def)

lemma sweep_fleet_gone:
  assumes "i \<in> set items" and "cr_container r = ci_resource i" and "cr_namespace r = ci_namespace i"
    and "\<forall>q \<in> set (fl_containers f). cr_container q = ci_resource i \<and> cr_namespace q = ci_namespace i \<longrightarrow>
      \<not> container_in_use (fl_now f) (fl_active f) q"
  shows "r \<notin> set (fl_containers (sweep_fleet items f))"
  using assms(1,4)
proof (induction items arbitrary: f)
  case (Cons j items)
  let ?f = "snd (executeWithDoubleCheck j recheck_container destroy_container f)"
  have sw: "sweep_fleet (j # items) f = sweep_fleet items ?f" by (simp add: sweep_fleet_def)
  show ?case
  proof (cases "j = i")
    case True
    then have "r \<notin> set (fl_containers ?f)"
      using Cons.prems(2) assms(2,3) double_check_fleet(3) [where r = r and i = j and f = f] by blast
    then show ?thesis using sweep_fleet_kept [of r items ?f] sw by auto
  next
    case False
    then have "i \<in> set items" using Cons.prems(1) by simp
    moreover have "\<forall>q \<in> set (fl_containers ?f). cr_container q = ci_resource i \<and>
        cr_namespace q = ci_namespace i \<longrightarrow> \<not> container_in_use (fl_now ?f) (fl_active ?f) q"
      using Cons.prems(2) by (simp add: double_check_fleet)
    ultimately show ?thesis using Cons.IH sw by simp
  qed
qed simp

lemma detect_items_unused:
  "list_all (\<lambda>i. list_ex (\<lambda>q. cr_container q = ci_resource i \<and>
      \<not> container_in_use (fl_now f) (fl_active f) q) (fl_containers f)) (detect_items f)"
proof (unfold list_all_iff list_ex_iff, intro ballI)
  fix i assume "i \<in> set (detect_items f)"
  then obtain c where c: "c \<in> set (identifyOrphanedContainers (fl_now f) (fl_containers f) (fl_active f))"
    and i: "ci_resource i = orph_resource c"
    by (auto simp: detect_items_def)
  from c obtain q where "q \<in> set (fl_containers f)" "orph_resource c = cr_container q"
    and why: "container_orphan_reason (fl_now f) (fl_active f) q = Some (orph_reason c)"
    unfolding in_orphans by blast
  moreover have "\<not> container_in_use (fl_now f) (fl_active f) q"
    using why by (simp flip: container_in_use_iff)
  ultimately show "\<exists>q \<in> set (fl_containers f). cr_container q = ci_resource i \<and>
      \<not> container_in_use (fl_now f) (fl_active f) q"
    using i by auto
qed

subsection \<open>Properties\<close>

text \<open>
  The double check protects a container claimed between detection and cleanup: sweeping the
  candidates of an older picture of the fleet never removes a container that is in use in the
  current one, adds nothing, and removes every candidate that no container in use shares a name
  with. What is detected is exactly what is not in use at that time.
\<close>

theorem cleanup_double_check:
  assumes "List.member (fl_containers new) r"
  shows "(if container_in_use (fl_now new) (fl_active new) r
     then List.member (fl_containers (sweep_fleet (detect_items old) new)) r
     else if list_ex (\<lambda>i. cr_container r = ci_resource i \<and> cr_namespace r = ci_namespace i \<and>
         list_all (\<lambda>q. \<not> (cr_container q = ci_resource i \<and> cr_namespace q = ci_namespace i \<and>
           container_in_use (fl_now new) (fl_active new) q)) (fl_containers new)) (detect_items old)
     then \<not> List.member (fl_containers (sweep_fleet (detect_items old) new)) r
     else True) \<and>
    list_all (List.member (fl_containers new)) (fl_containers (sweep_fleet (detect_items old) new)) \<and>
    list_all (\<lambda>i. list_ex (\<lambda>q. cr_container q = ci_resource i \<and>
      \<not> container_in_use (fl_now old) (fl_active old) q) (fl_containers old)) (detect_items old)"
proof -
  have gone: "r \<notin> set (fl_containers (sweep_fleet (detect_items old) new))"
    if "list_ex (\<lambda>i. cr_container r = ci_resource i \<and> cr_namespace r = ci_namespace i \<and>
         list_all (\<lambda>q. \<not> (cr_container q = ci_resource i \<and> cr_namespace q = ci_namespace i \<and>
           container_in_use (fl_now new) (fl_active new) q)) (fl_containers new)) (detect_items old)"
  proof -
    from that obtain i where "i \<in> set (detect_items old)" "cr_container r = ci_resource i"
      "cr_namespace r = ci_namespace i"
      "\<forall>q \<in> set (fl_containers new). cr_container q = ci_resource i \<and> cr_namespace q = ci_namespace i \<longrightarrow>
        \<not> container_in_use (fl_now new) (fl_active new) q"
      by (auto simp: list_ex_iff list_all_iff)
    then show ?thesis by (rule sweep_fleet_gone)
  qed
  have "list_all (\<lambda>i. list_ex (\<lambda>q. cr_container q = ci_resource i \<and>
      \<not> container_in_use (fl_now old) (fl_active old) q) (fl_containers old)) (detect_items old)"
    by (rule detect_items_unused)
  moreover have "list_all (List.member (fl_containers new)) (fl_containers (sweep_fleet (detect_items old) new))"
    using sweep_fleet_kept [of _ "detect_items old" new] by (simp add: list_all_iff)
  moreover have "r \<in> set (fl_containers (sweep_fleet (detect_items old) new))"
    if "container_in_use (fl_now new) (fl_active new) r"
    using sweep_fleet_in_use [OF _ that] assms by simp
  ultimately show ?thesis using gone by auto
qed

definition example_container :: ContainerRecord where
  "example_container = \<lparr>cr_id = ''c-1'', cr_container = ''box'', cr_connection = ''host-1'',
     cr_namespace = ''acme'', cr_run = None, cr_started = None, cr_max_ttl = None\<rparr>"

theorem cleanup_double_check_witness:
  "List.member (fl_containers (sweep_fleet
     (detect_items \<lparr>fl_now = 0, fl_containers = [example_container], fl_active = []\<rparr>)
     \<lparr>fl_now = 5, fl_containers = [example_container\<lparr>cr_run := Some ''run-1''\<rparr>],
      fl_active = [''run-1'']\<rparr>)) (example_container\<lparr>cr_run := Some ''run-1''\<rparr>)"
  using cleanup_double_check [where new = "\<lparr>fl_now = 5,
      fl_containers = [example_container\<lparr>cr_run := Some ''run-1''\<rparr>], fl_active = [''run-1'']\<rparr>"
      and r = "example_container\<lparr>cr_run := Some ''run-1''\<rparr>"
      and old = "\<lparr>fl_now = 0, fl_containers = [example_container], fl_active = []\<rparr>"]
  by (simp add: container_in_use_def example_container_def)

end
