(* ===== verification/EnvFile.thy ===== *)
theory EnvFile
  imports Prelude
begin

text \<open>
  The texts that provisioning puts into remote commands: the context and its shell-safety check,
  the \<^verbatim>\<open>.env\<close> parser and the content that is written back
  (\<^verbatim>\<open>src/symphony/provisioning.ts\<close>), and the secret deployments validated with the same
  parser (\<^verbatim>\<open>src/symphony/secret-lifecycle.ts\<close>). A thrown error is its message; a
  \<open>Map\<close> is an association list in insertion order.
\<close>

definition dquote :: string where "dquote = [CHR 0x22]"
definition squote :: string where "squote = [CHR 0x27]"
definition backtick :: string where "backtick = [CHR 0x60]"
definition newline :: string where "newline = [CHR 0x0A]"
definition backslash :: string where "backslash = [CHR 0x5C]"

definition ascii_upper :: "char \<Rightarrow> bool" where
  "ascii_upper c = (let n = of_char c :: nat in 65 \<le> n \<and> n \<le> 90)"

definition ascii_lower :: "char \<Rightarrow> bool" where
  "ascii_lower c = (let n = of_char c :: nat in 97 \<le> n \<and> n \<le> 122)"

definition ascii_letter :: "char \<Rightarrow> bool" where
  "ascii_letter c = (ascii_upper c \<or> ascii_lower c)"

subsection \<open>Shell-safe inputs\<close>

record ProvisioningContext =
  pc_run :: uuid
  pc_namespace :: string
  pc_org :: string
  pc_repo :: string
  pc_connection :: uuid
  pc_issue :: int
  pc_slug :: string
  pc_clone_depth :: "int option"
  pc_abs_timeout :: "rat option"
  pc_agent_min :: "string option"
  pc_vault_item :: "string option"

definition shell_safe_char :: "char \<Rightarrow> bool" where
  "shell_safe_char c =
     (ascii_letter c \<or> decimal_digit c \<or> c = CHR ''.'' \<or> c = CHR ''_'' \<or> c = CHR ''-'')"

definition shell_safe :: "string \<Rightarrow> bool" where
  "shell_safe v = (v \<noteq> [] \<and> list_all shell_safe_char v)"

definition validateShellSafe :: "string \<Rightarrow> string \<Rightarrow> string + string" where
  "validateShellSafe v fieldName =
     (if shell_safe v then Inr v
      else Inl (fieldName @ '' contains unsafe characters: '' @ dquote @ v @ dquote @ ''. ''
        @ ''Only [A-Za-z0-9._-] are allowed.''))"

definition vault_metacharacter :: "char \<Rightarrow> bool" where
  "vault_metacharacter c = (c \<in> set ''$;|&><'' \<or> c = CHR 0x60)"

definition validateContextInputs :: "ProvisioningContext \<Rightarrow> string + unit" where
  "validateContextInputs ctx =
     (case validateShellSafe (pc_org ctx) ''org'' of
        Inl e \<Rightarrow> Inl e
      | Inr _ \<Rightarrow>
          (case validateShellSafe (pc_repo ctx) ''repo'' of
             Inl e \<Rightarrow> Inl e
           | Inr _ \<Rightarrow>
               (case validateShellSafe (pc_slug ctx) ''issueSlug'' of
                  Inl e \<Rightarrow> Inl e
                | Inr _ \<Rightarrow>
                    (case pc_vault_item ctx of
                       None \<Rightarrow> Inr ()
                     | Some item \<Rightarrow>
                         if item \<noteq> [] \<and> list_ex vault_metacharacter item
                         then Inl (''envVaultItem contains shell metacharacters: ''
                           @ dquote @ item @ dquote)
                         else Inr ()))))"

lemma validateContextInputs_iff [outcome_iff]:
  "validateContextInputs ctx = Inr () \<longleftrightarrow>
    shell_safe (pc_org ctx) \<and> shell_safe (pc_repo ctx) \<and> shell_safe (pc_slug ctx) \<and>
    (case pc_vault_item ctx of None \<Rightarrow> True | Some item \<Rightarrow> \<not> list_ex vault_metacharacter item)"
  by (auto simp: validateContextInputs_def validateShellSafe_def split: option.splits)

subsection \<open>The .env parser\<close>

type_synonym env_map = "(string \<times> string) list"

definition key_start :: "char \<Rightarrow> bool" where
  "key_start c = (ascii_letter c \<or> c = CHR ''_'')"

definition key_char :: "char \<Rightarrow> bool" where
  "key_char c = (ascii_letter c \<or> decimal_digit c \<or> c = CHR ''_'')"

definition env_key :: "string \<Rightarrow> bool" where
  "env_key k = (k \<noteq> [] \<and> key_start (hd k) \<and> list_all key_char k)"

text \<open>The pattern of a line: an identifier, an equals sign, and what follows on the line.\<close>

definition ENV_LINE_PATTERN :: "string \<Rightarrow> (string \<times> string) option" where
  "ENV_LINE_PATTERN line =
     (let key = takeWhile key_char line; rest = dropWhile key_char line in
      if env_key key \<and> rest \<noteq> [] \<and> hd rest = CHR ''=''
      then Some (key, takeWhile (\<lambda>c. \<not> js_line_terminator c) (tl rest)) else None)"

text \<open>Each pattern with its source as the error prints it.\<close>

definition DANGEROUS_PATTERNS :: "(string \<times> string) list" where
  "DANGEROUS_PATTERNS =
     [(''$('', backslash @ ''$'' @ backslash @ ''(''), (backtick, backtick),
      (''${'', backslash @ ''$'' @ backslash @ ''{'')]"

definition strip_quotes :: "string \<Rightarrow> string" where
  "strip_quotes v =
     (if (js_startsWith v dquote \<and> js_endsWith v dquote)
        \<or> (js_startsWith v squote \<and> js_endsWith v squote)
      then butlast (tl v) else v)"

fun parse_lines :: "nat \<Rightarrow> string list \<Rightarrow> env_map \<Rightarrow> string + env_map" where
  "parse_lines i [] result = Inr result"
| "parse_lines i (l # ls) result =
     (let line = js_trim l in
      if line = [] \<or> js_startsWith line ''#'' then parse_lines (i + 1) ls result
      else case ENV_LINE_PATTERN line of
          None \<Rightarrow> parse_lines (i + 1) ls result
        | Some (key, v) \<Rightarrow>
            (case find (\<lambda>p. js_includes v (fst p)) DANGEROUS_PATTERNS of
               Some p \<Rightarrow> Inl (''Dangerous pattern detected in .env at line '' @ show_nat (i + 1)
                   @ '': '' @ ''key='' @ dquote @ key @ dquote @ '' contains shell code (''
                   @ snd p @ ''). '' @ ''This is a security violation.'')
             | None \<Rightarrow> parse_lines (i + 1) ls (AList.update key (strip_quotes v) result)))"

definition parseEnvFile :: "string \<Rightarrow> string + env_map" where
  "parseEnvFile content = parse_lines 0 (js_split (CHR 0x0A) content) []"

record env_validation =
  ev_valid :: bool
  ev_missing :: "string list"

definition env_has :: "env_map \<Rightarrow> string \<Rightarrow> bool" where
  "env_has env v = (map_of env v \<noteq> None)"

definition validateEnvVars :: "env_map \<Rightarrow> string list \<Rightarrow> env_validation" where
  "validateEnvVars env requiredVars =
     (let missing = filter (\<lambda>v. \<not> env_has env v) requiredVars
      in \<lparr>ev_valid = (missing = []), ev_missing = missing\<rparr>)"

text \<open>What provisioning writes back, and the command that writes it.\<close>

definition safe_content :: "env_map \<Rightarrow> string" where
  "safe_content env = js_join newline (map (\<lambda>(key, v). key @ ''='' @ v) env) @ newline"

definition write_command :: "string \<Rightarrow> env_map \<Rightarrow> string" where
  "write_command envPath env =
     ''cat > '' @ envPath @ '' <<'' @ squote @ ''ENVEOF'' @ squote @ newline @ safe_content env
       @ ''ENVEOF''"

subsection \<open>What the parser accepts\<close>

definition shell_pattern :: "string \<Rightarrow> bool" where
  "shell_pattern v = (js_includes v ''$('' \<or> js_includes v backtick \<or> js_includes v ''${'')"

text \<open>The assignment a line makes, if any: comments and blank lines never match the pattern.\<close>

definition env_assignment :: "string \<Rightarrow> (string \<times> string) option" where
  "env_assignment l = ENV_LINE_PATTERN (js_trim l)"

definition env_assignments :: "string list \<Rightarrow> env_map" where
  "env_assignments ls = List.map_filter env_assignment ls"

lemma env_assignments_simps [simp]:
  "env_assignments [] = []"
  "env_assignments (l # ls) =
    (case env_assignment l of None \<Rightarrow> env_assignments ls | Some a \<Rightarrow> a # env_assignments ls)"
  by (simp_all add: env_assignments_def List.map_filter_def split: option.splits)

lemma find_dangerous:
  "find (\<lambda>p. js_includes v (fst p)) DANGEROUS_PATTERNS = None \<longleftrightarrow> \<not> shell_pattern v"
  by (simp add: DANGEROUS_PATTERNS_def shell_pattern_def)

lemma env_line_skip:
  "line = [] \<or> js_startsWith line ''#'' \<Longrightarrow> ENV_LINE_PATTERN line = None"
proof (elim disjE)
  assume "js_startsWith line ''#''"
  then obtain rest where "line = CHR ''#'' # rest"
    by (auto simp: js_startsWith_prefix prefix_def)
  then show ?thesis
    by (simp add: ENV_LINE_PATTERN_def key_char_def env_key_def ascii_letter_def ascii_upper_def
        ascii_lower_def decimal_digit_def)
qed (simp add: ENV_LINE_PATTERN_def env_key_def)

lemma parse_lines_Cons:
  "parse_lines i (l # ls) result =
    (case env_assignment l of
       None \<Rightarrow> parse_lines (i + 1) ls result
     | Some (key, v) \<Rightarrow>
         (case find (\<lambda>p. js_includes v (fst p)) DANGEROUS_PATTERNS of
            Some p \<Rightarrow> Inl (''Dangerous pattern detected in .env at line '' @ show_nat (i + 1)
                @ '': '' @ ''key='' @ dquote @ key @ dquote @ '' contains shell code (''
                @ snd p @ ''). '' @ ''This is a security violation.'')
          | None \<Rightarrow> parse_lines (i + 1) ls (AList.update key (strip_quotes v) result)))"
  using env_line_skip [of "js_trim l"]
  by (simp add: env_assignment_def Let_def del: js_startsWith_def split: option.splits)

definition assign_all :: "env_map \<Rightarrow> env_map \<Rightarrow> env_map" where
  "assign_all as env = fold (\<lambda>(k, v). AList.update k (strip_quotes v)) as env"

lemma parse_lines_result:
  "case parse_lines i ls env of
     Inl _ \<Rightarrow> list_ex (\<lambda>(k, v). shell_pattern v) (env_assignments ls)
   | Inr env' \<Rightarrow> \<not> list_ex (\<lambda>(k, v). shell_pattern v) (env_assignments ls) \<and>
       env' = assign_all (env_assignments ls) env"
proof (induction ls arbitrary: i env)
  case Nil
  then show ?case by (simp add: assign_all_def)
next
  case (Cons l ls)
  show ?case
  proof (cases "env_assignment l")
    case None
    then show ?thesis using None Cons.IH [where i = "i + 1" and env = env]
      by (simp add: parse_lines_Cons del: parse_lines.simps split: sum.splits)
  next
    case (Some a)
    obtain k v where a: "a = (k, v)" by (cases a)
    show ?thesis
    proof (cases "find (\<lambda>p. js_includes v (fst p)) DANGEROUS_PATTERNS")
      case None
      then have "\<not> shell_pattern v" by (simp add: find_dangerous)
      with None show ?thesis
        using Some a Cons.IH [where i = "i + 1" and env = "AList.update k (strip_quotes v) env"]
        by (simp add: parse_lines_Cons assign_all_def del: parse_lines.simps split: sum.splits)
    next
      case (Some p)
      then have "shell_pattern v" using find_dangerous [of v] by auto
      with Some show ?thesis
        using \<open>env_assignment l = Some a\<close> a by (simp add: parse_lines_Cons del: parse_lines.simps)
    qed
  qed
qed

lemma assign_all_snoc:
  "assign_all (as @ [(k, v)]) env = AList.update k (strip_quotes v) (assign_all as env)"
  by (simp add: assign_all_def)

lemma assign_all_map_of:
  "map_of (assign_all as []) k = map_option strip_quotes (map_of (rev as) k)"
proof (induction as rule: rev_induct)
  case Nil
  then show ?case by (simp add: assign_all_def)
next
  case (snoc a as)
  then show ?case by (cases a) (simp add: assign_all_snoc update_conv')
qed

lemma assign_all_keys:
  "map fst (assign_all as []) = rev (remdups (rev (map fst as)))"
proof (induction as rule: rev_induct)
  case Nil
  then show ?case by (simp add: assign_all_def)
next
  case (snoc a as)
  obtain k v where a: "a = (k, v)" by (cases a)
  have "set (map fst (assign_all as [])) = set (map fst as)"
    by (simp only: snoc.IH set_rev set_remdups)
  then show ?case by (simp add: a assign_all_snoc update_keys snoc.IH)
qed

lemma assign_all_values:
  "(k, v) \<in> set (assign_all as []) \<Longrightarrow> \<exists>w. (k, w) \<in> set as \<and> v = strip_quotes w"
proof -
  assume kv: "(k, v) \<in> set (assign_all as [])"
  have "distinct (map fst (assign_all as []))"
    unfolding assign_all_keys by simp
  with kv have "map_of (assign_all as []) k = Some v" by simp
  then obtain w where "map_of (rev as) k = Some w" "v = strip_quotes w"
    by (auto simp: assign_all_map_of)
  with map_of_SomeD [of "rev as" k w] show ?thesis by auto
qed

lemma env_assignmentD:
  assumes "env_assignment l = Some (k, v)"
  shows "env_key k" and "list_all (\<lambda>c. \<not> js_line_terminator c) v"
  using assms by (auto simp: env_assignment_def ENV_LINE_PATTERN_def Let_def list_all_iff
      split: if_splits dest: set_takeWhileD)

lemma env_assignmentsD:
  "(k, v) \<in> set (env_assignments ls) \<Longrightarrow> env_key k \<and> list_all (\<lambda>c. \<not> js_line_terminator c) v"
  by (induction ls) (auto dest: env_assignmentD split: option.splits)

lemma strip_quotes_sublist: "sublist (strip_quotes v) v"
proof -
  have "prefix (butlast (tl v)) (tl v)" by (rule prefixeq_butlast)
  then have "sublist (butlast (tl v)) (tl v)" by (rule prefix_imp_sublist)
  moreover have "sublist (tl v) v" by (rule suffix_imp_sublist) (rule suffix_tl)
  ultimately have "sublist (butlast (tl v)) v" by (rule sublist_order.order.trans)
  then show ?thesis by (simp add: strip_quotes_def)
qed

lemma shell_pattern_sublist: "sublist v w \<Longrightarrow> shell_pattern v \<Longrightarrow> shell_pattern w"
  by (auto simp: shell_pattern_def js_includes_sublist intro: sublist_order.order.trans)

lemma list_all_sublist: "sublist v w \<Longrightarrow> list_all P w \<Longrightarrow> list_all P v"
  by (auto simp: sublist_def)

text \<open>What holds of every entry of a parsed file.\<close>

definition clean_entry :: "string \<times> string \<Rightarrow> bool" where
  "clean_entry kv = (env_key (fst kv) \<and> \<not> shell_pattern (snd kv) \<and>
     list_all (\<lambda>c. \<not> js_line_terminator c) (snd kv))"

lemma assign_all_clean:
  assumes "\<not> list_ex (\<lambda>(k, v). shell_pattern v) (env_assignments ls)"
  shows "list_all clean_entry (assign_all (env_assignments ls) [])"
proof (unfold list_all_iff, intro ballI)
  fix kv assume kv: "kv \<in> set (assign_all (env_assignments ls) [])"
  obtain k v where [simp]: "kv = (k, v)" by (cases kv)
  from kv obtain w where w: "(k, w) \<in> set (env_assignments ls)" "v = strip_quotes w"
    using assign_all_values by fastforce
  with assms have "\<not> shell_pattern w" by (auto simp: list_ex_iff)
  then have "\<not> shell_pattern v"
    using w(2) strip_quotes_sublist shell_pattern_sublist by blast
  moreover have "list_all (\<lambda>c. \<not> js_line_terminator c) v"
    using env_assignmentsD [OF w(1)] w(2) strip_quotes_sublist list_all_sublist by blast
  ultimately show "clean_entry kv"
    using env_assignmentsD [OF w(1)] by (simp add: clean_entry_def)
qed

lemma parseEnvFile_result:
  "case parseEnvFile content of
     Inl _ \<Rightarrow> list_ex (\<lambda>(k, v). shell_pattern v) (env_assignments (js_split (CHR 0x0A) content))
   | Inr env \<Rightarrow>
       \<not> list_ex (\<lambda>(k, v). shell_pattern v) (env_assignments (js_split (CHR 0x0A) content)) \<and>
       env = assign_all (env_assignments (js_split (CHR 0x0A) content)) []"
  unfolding parseEnvFile_def by (rule parse_lines_result)

lemma parsed_env:
  assumes "parseEnvFile content = Inr env"
  shows "distinct (map fst env)" and "list_all clean_entry env"
  using parseEnvFile_result [of content] assms assign_all_clean assign_all_keys by auto

subsection \<open>Writing the content back\<close>

definition trim_end :: "string \<Rightarrow> string" where
  "trim_end v = rev (dropWhile js_space (rev v))"

definition env_line :: "string \<times> string \<Rightarrow> string" where
  "env_line kv = fst kv @ ''='' @ snd kv"

text \<open>The lines of a here-document: those before the first that is the delimiter.\<close>

definition heredoc_body :: "string \<Rightarrow> string list \<Rightarrow> string list" where
  "heredoc_body delimiter = takeWhile (\<lambda>l. l \<noteq> delimiter)"

lemma key_char_facts:
  assumes "key_char c"
  shows "c \<noteq> CHR ''=''" and "\<not> js_space c" and "c \<noteq> CHR 0x0A" and "c \<noteq> CHR ''#''"
  using assms by (auto simp: key_char_def ascii_letter_def ascii_upper_def ascii_lower_def
      decimal_digit_def js_space_def)

lemma env_key_chars: "env_key k \<Longrightarrow> c \<in> set k \<Longrightarrow> key_char c"
  by (simp add: env_key_def list_all_iff)

lemma prefix_trim_end: "prefix (trim_end v) v"
  using suffix_dropWhile [of js_space "rev v"] by (simp add: trim_end_def suffix_to_prefix)

lemma trim_env_line:
  assumes "env_key k"
  shows "js_trim (k @ ''='' @ v) = k @ ''='' @ trim_end v"
proof -
  obtain c cs where k: "k = c # cs" using assms by (cases k) (auto simp: env_key_def)
  have "\<not> js_space c" using env_key_chars [OF assms, of c] key_char_facts by (simp add: k)
  then have "dropWhile js_space (k @ ''='' @ v) = k @ ''='' @ v" by (simp add: k)
  moreover have "dropWhile js_space (rev v @ CHR ''='' # rev k) = dropWhile js_space (rev v) @ CHR ''='' # rev k"
    by (subst dropWhile_append3) (simp_all add: js_space_def)
  ultimately show ?thesis by (simp add: js_trim_def trim_end_def)
qed

lemma env_line_assignment:
  assumes "clean_entry kv"
  shows "env_assignment (env_line kv) = Some (fst kv, trim_end (snd kv))"
proof -
  obtain k v where kv: "kv = (k, v)" by (cases kv)
  have key: "env_key k" and ends: "list_all (\<lambda>c. \<not> js_line_terminator c) v"
    using assms by (simp_all add: kv clean_entry_def)
  have all: "\<forall>c \<in> set k. key_char c" using key by (simp add: env_key_def list_all_iff)
  have "\<not> key_char (CHR ''='')" using key_char_facts(1) by blast
  then have "takeWhile key_char (k @ ''='' @ w) = k" "dropWhile key_char (k @ ''='' @ w) = ''='' @ w" for w
    using all by (simp_all add: takeWhile_append2 dropWhile_append2)
  moreover have "takeWhile (\<lambda>c. \<not> js_line_terminator c) (trim_end v) = trim_end v"
    using ends prefix_trim_end [of v] by (auto simp: takeWhile_eq_all_conv list_all_iff
        dest: set_mono_prefix)
  ultimately show ?thesis
    using key by (simp add: env_assignment_def env_line_def kv trim_env_line ENV_LINE_PATTERN_def
        del: append.simps) simp
qed

lemma clean_trim_end: "clean_entry (k, v) \<Longrightarrow> \<not> shell_pattern (trim_end v)"
  using shell_pattern_sublist prefix_imp_sublist [OF prefix_trim_end]
  by (fastforce simp: clean_entry_def)

lemma clean_env_assignments:
  "list_all clean_entry env \<Longrightarrow>
    env_assignments (map env_line env) = map (\<lambda>(k, v). (k, trim_end v)) env"
  by (induction env) (auto simp: env_line_assignment)

lemma env_line_no_newline:
  "clean_entry kv \<Longrightarrow> CHR 0x0A \<notin> set (env_line kv)"
  using key_char_facts(3) env_key_chars
  by (fastforce simp: clean_entry_def env_line_def list_all_iff js_line_terminator_def)

lemma safe_content_env_line: "safe_content env = js_join newline (map env_line env) @ newline"
proof -
  have "map (\<lambda>(key, v). key @ ''='' @ v) env = map env_line env"
    by (auto simp: env_line_def)
  then show ?thesis by (simp only: safe_content_def)
qed

lemma safe_content_lines:
  assumes "list_all clean_entry env"
  shows "js_split (CHR 0x0A) (safe_content env @ x) =
    (if env = [] then [[]] else map env_line env) @ js_split (CHR 0x0A) x"
proof -
  have "\<forall>l \<in> set (map env_line env). CHR 0x0A \<notin> set l"
    using assms env_line_no_newline by (auto simp: list_all_iff)
  then have "js_split (CHR 0x0A) (js_join newline (map env_line env) @ newline @ x) =
      (if map env_line env = [] then [[]] else map env_line env) @ js_split (CHR 0x0A) x"
  proof (induction "map env_line env" arbitrary: env)
    case Nil
    then show ?case by (simp add: newline_def)
  next
    case (Cons l ls)
    then obtain kv env' where env: "env = kv # env'" and l: "l = env_line kv" "ls = map env_line env'"
      by (cases env) auto
    have nl: "CHR 0x0A \<notin> set (env_line kv)" using Cons.prems by (simp add: env)
    show ?case
    proof (cases "env' = []")
      case True
      then show ?thesis using nl by (simp add: env newline_def js_split_append_sep)
    next
      case False
      then have "js_join newline (map env_line env) =
          env_line kv @ newline @ js_join newline (map env_line env')"
        by (simp add: env js_join_Cons)
      then show ?thesis
        using nl False Cons.hyps(1) [OF l(2)] Cons.prems
        by (simp add: env newline_def js_split_append_sep)
    qed
  qed
  then show ?thesis by (simp add: safe_content_env_line)
qed

lemma assign_all_distinct:
  assumes "distinct (map fst as)"
  shows "assign_all as [] = map (\<lambda>(k, v). (k, strip_quotes v)) as"
  using assms
proof (induction as rule: rev_induct)
  case Nil
  then show ?case by (simp add: assign_all_def)
next
  case (snoc a as)
  obtain k v where a: "a = (k, v)" by (cases a)
  have "k \<notin> fst ` set (map (\<lambda>(k, v). (k, strip_quotes v)) as)"
    using snoc.prems by (force simp: a)
  moreover have "AList.update k w xs = xs @ [(k, w)]" if "k \<notin> fst ` set xs" for w and xs :: env_map
    using that by (induction xs) auto
  ultimately show ?case using snoc by (simp add: a assign_all_snoc)
qed

lemma write_command_lines:
  assumes "list_all clean_entry env" and "CHR 0x0A \<notin> set envPath"
  shows "js_split (CHR 0x0A) (write_command envPath env) =
    (''cat > '' @ envPath @ '' <<'' @ squote @ ''ENVEOF'' @ squote) #
    (if env = [] then [[]] else map env_line env) @ [''ENVEOF'']"
proof -
  let ?head = "''cat > '' @ envPath @ '' <<'' @ squote @ ''ENVEOF'' @ squote"
  have "write_command envPath env = ?head @ CHR 0x0A # (safe_content env @ ''ENVEOF'')"
    by (simp add: write_command_def newline_def)
  moreover have "CHR 0x0A \<notin> set ?head"
    using assms(2) by (auto simp: squote_def)
  ultimately have "js_split (CHR 0x0A) (write_command envPath env) =
      ?head # js_split (CHR 0x0A) (safe_content env @ ''ENVEOF'')"
    by (metis js_split_append_sep)
  then show ?thesis
    by (simp only: safe_content_lines [OF assms(1)]) (simp add: js_split_singleton)
qed

lemma heredoc_complete:
  assumes "list_all clean_entry env"
  shows "heredoc_body ''ENVEOF'' ((if env = [] then [[]] else map env_line env) @ [''ENVEOF'']) =
    (if env = [] then [[]] else map env_line env)"
proof -
  have "env_line kv \<noteq> ''ENVEOF''" for kv
  proof
    assume eq: "env_line kv = ''ENVEOF''"
    have "CHR ''='' \<in> set (env_line kv)" by (simp add: env_line_def)
    then show False unfolding eq by simp
  qed
  then have "\<forall>l \<in> set (if env = [] then [[]] else map env_line env). l \<noteq> ''ENVEOF''"
    by auto
  then show ?thesis unfolding heredoc_body_def by (subst takeWhile_append2) simp_all
qed

subsection \<open>Properties\<close>

text \<open>
  The .env parser is safe and complete: it fails exactly when some assignment's text holds a
  command substitution, a backtick or a braced expansion. Otherwise the keys are identifiers in the
  order of their first assignment, each bound to its last assignment without surrounding quotes,
  and no value holds any of these patterns or a line terminator.
\<close>

theorem parseEnvFile_spec:
  "let assignments = env_assignments (js_split (CHR 0x0A) content) in
   case parseEnvFile content of
     Inl _ \<Rightarrow> list_ex (\<lambda>a. shell_pattern (snd a)) assignments
   | Inr env \<Rightarrow>
       \<not> list_ex (\<lambda>a. shell_pattern (snd a)) assignments \<and>
       map fst env = rev (remdups (rev (map fst assignments))) \<and>
       map_of env = map_option strip_quotes \<circ> map_of (rev assignments) \<and>
       list_all clean_entry env"
  using parseEnvFile_result [of content] parsed_env(2) [of content] assign_all_keys
  by (auto simp: Let_def assign_all_map_of case_prod_unfold fun_eq_iff split: sum.splits)

text \<open>
  C13. Writing a parsed file back is confined to its here-document: whatever the vault item held,
  the document's lines are exactly the assignments (or one blank line) and end at the closing
  delimiter of the command, and reading the written content again succeeds with the same keys in
  the same order, each value losing only the spaces at its end and one further pair of quotes.
\<close>

theorem env_write_read:
  assumes "parseEnvFile content = Inr env" and "CHR 0x0A \<notin> set envPath"
  shows "heredoc_body ''ENVEOF'' (tl (js_split (CHR 0x0A) (write_command envPath env))) =
      (if env = [] then [[]] else map env_line env) \<and>
    last (js_split (CHR 0x0A) (write_command envPath env)) = ''ENVEOF'' \<and>
    length (js_split (CHR 0x0A) (write_command envPath env)) = max 1 (length env) + 2 \<and>
    parseEnvFile (safe_content env) = Inr (map (\<lambda>(k, v). (k, strip_quotes (trim_end v))) env)"
proof -
  note clean = parsed_env(2) [OF assms(1)] and keys = parsed_env(1) [OF assms(1)]
  have as: "env_assignments (js_split (CHR 0x0A) (safe_content env)) =
      map (\<lambda>(k, v). (k, trim_end v)) env"
    using safe_content_lines [OF clean, of "[]"] clean_env_assignments [OF clean]
    by (cases "env = []") (auto simp: env_assignments_def List.map_filter_def env_assignment_def
        ENV_LINE_PATTERN_def env_key_def js_trim_def)
  have "\<not> list_ex (\<lambda>(k, v). shell_pattern v) (map (\<lambda>(k, v). (k, trim_end v)) env)"
    using clean clean_trim_end by (auto simp: list_ex_iff list_all_iff)
  moreover have "assign_all (map (\<lambda>(k, v). (k, trim_end v)) env) [] =
      map (\<lambda>(k, v). (k, strip_quotes (trim_end v))) env"
    using assign_all_distinct [of "map (\<lambda>(k, v). (k, trim_end v)) env"] keys
    by (simp add: comp_def case_prod_beta)
  ultimately have "parseEnvFile (safe_content env) =
      Inr (map (\<lambda>(k, v). (k, strip_quotes (trim_end v))) env)"
    using parseEnvFile_result [of "safe_content env"] by (auto simp: as split: sum.splits)
  then show ?thesis
    using heredoc_complete [OF clean] unfolding write_command_lines [OF clean assms(2)]
    by (cases env) simp_all
qed

text \<open>A file with a quoted value, a comment and a repeated key.\<close>

definition example_env :: string where
  "example_env = ''A=1'' @ newline @ ''# note'' @ newline @ ''B='' @ dquote @ ''x '' @ dquote
     @ newline @ '' A=2 ''"

theorem env_write_read_witness:
  "parseEnvFile (safe_content [(''A'', ''2''), (''B'', ''x '')]) =
    Inr [(''A'', ''2''), (''B'', ''x'')]"
proof -
  have "parseEnvFile example_env = Inr [(''A'', ''2''), (''B'', ''x '')]" by code_simp
  from env_write_read [OF this, of "''p''"] show ?thesis
    by (simp add: trim_end_def strip_quotes_def js_endsWith_def js_startsWith_def dquote_def
        squote_def js_space_def)
qed

end
