(* ===== verification/SecretLifecycle.thy ===== *)
theory SecretLifecycle
  imports EnvFile
begin

text \<open>
  \<^verbatim>\<open>src/symphony/secret-lifecycle.ts\<close>: the records of deployed secrets, validation of a
  file before provisioning, detection of rotated secrets and the registry of redaction patterns.
  A regular expression is its source and flags; the sources built from secret values are escaped
  literals, whose meaning is \<open>regex_literal\<close>.
\<close>

definition DEFAULT_ROTATION_POLL_INTERVAL_MS :: int where
  "DEFAULT_ROTATION_POLL_INTERVAL_MS = 5 * 60 * 1000"

datatype staleness = SecretCurrent | SecretStale | SecretRotating | SecretCleaned
datatype validation_status = ValidationPending | ValidationValid | ValidationInvalid | ValidationSkipped

record CreateDeploymentInput =
  cd_namespace :: string
  cd_connection :: uuid
  cd_name :: string
  cd_version :: string
  cd_path :: string
  cd_run :: "uuid option"
  cd_expected :: "string list"

record SecretDeployment =
  dep_id :: "uuid option"
  dep_namespace :: string
  dep_connection :: uuid
  dep_name :: string
  dep_version :: string
  dep_path :: string
  dep_deployed :: millis
  dep_last_used :: "millis option"
  dep_staleness :: staleness
  dep_run :: "uuid option"
  dep_expected :: "string list"
  dep_validation :: validation_status
  dep_previous :: "string option"

definition createDeployment :: "clock \<Rightarrow> CreateDeploymentInput \<Rightarrow> SecretDeployment" where
  "createDeployment clk input =
     \<lparr>dep_id = None, dep_namespace = cd_namespace input, dep_connection = cd_connection input,
      dep_name = cd_name input, dep_version = cd_version input, dep_path = cd_path input,
      dep_deployed = js_now clk, dep_last_used = None, dep_staleness = SecretCurrent,
      dep_run = cd_run input, dep_expected = cd_expected input,
      dep_validation = ValidationPending, dep_previous = None\<rparr>"

definition markStale :: "SecretDeployment \<Rightarrow> SecretDeployment" where
  "markStale deployment = deployment\<lparr>dep_staleness := SecretStale\<rparr>"

definition markRotating :: "SecretDeployment \<Rightarrow> SecretDeployment" where
  "markRotating deployment = deployment\<lparr>dep_staleness := SecretRotating\<rparr>"

definition touchLastUsed :: "clock \<Rightarrow> SecretDeployment \<Rightarrow> SecretDeployment" where
  "touchLastUsed clk deployment = deployment\<lparr>dep_last_used := Some (js_now clk)\<rparr>"

record validation_result =
  vr_valid :: bool
  vr_missing :: "string list"
  vr_violation :: bool
  vr_error :: "string option"

definition validateSecretPreProvisioning :: "string \<Rightarrow> string list \<Rightarrow> validation_result" where
  "validateSecretPreProvisioning envContent expectedVars =
     (case parseEnvFile envContent of
        Inl err \<Rightarrow> \<lparr>vr_valid = False, vr_missing = expectedVars, vr_violation = True,
          vr_error = Some err\<rparr>
      | Inr envVars \<Rightarrow>
          (let missingVars = filter (\<lambda>v. \<not> env_has envVars v) expectedVars
           in \<lparr>vr_valid = (missingVars = []), vr_missing = missingVars, vr_violation = False,
             vr_error = None\<rparr>))"

datatype rotation_action = Redeploy | NoAction

record SecretRotationResult =
  rot_rotated :: bool
  rot_action :: rotation_action
  rot_error :: "string option"

text \<open>The dash of the error text, which is not a Latin-1 character, is a hyphen here.\<close>

definition detectSecretRotation :: "string \<Rightarrow> string option \<Rightarrow> SecretRotationResult" where
  "detectSecretRotation deployedVersion currentVersion =
     (case currentVersion of
        None \<Rightarrow> \<lparr>rot_rotated = False, rot_action = NoAction,
          rot_error = Some ''1Password version check unavailable - skipping rotation detection''\<rparr>
      | Some v \<Rightarrow>
          if deployedVersion \<noteq> v
          then \<lparr>rot_rotated = True, rot_action = Redeploy, rot_error = None\<rparr>
          else \<lparr>rot_rotated = False, rot_action = NoAction, rot_error = None\<rparr>)"

subsection \<open>Redaction patterns\<close>

record RedactionPattern =
  rp_source :: string
  rp_flags :: string
  rp_label :: string

definition regex_pattern :: "string \<Rightarrow> string \<Rightarrow> string \<Rightarrow> RedactionPattern" where
  "regex_pattern source flags label = \<lparr>rp_source = source, rp_flags = flags, rp_label = label\<rparr>"

definition not_space_or_quote :: string where
  "not_space_or_quote = ''[^'' @ backslash @ ''s'' @ squote @ dquote @ '']+''"

definition BUILTIN_PATTERN_SOURCES :: "RedactionPattern list" where
  "BUILTIN_PATTERN_SOURCES =
     [regex_pattern (''op:'' @ backslash @ ''/'' @ backslash @ ''/'' @ not_space_or_quote) ''g''
        ''1Password reference'',
      regex_pattern ''ghp_[A-Za-z0-9_]{36,}'' ''g'' ''GitHub PAT (ghp_)'',
      regex_pattern ''github_pat_[A-Za-z0-9_]{22,}'' ''g'' ''GitHub PAT (github_pat_)'',
      regex_pattern ''sk-ant-[A-Za-z0-9_-]{40,}'' ''g'' ''Anthropic API key (sk-ant-)'',
      regex_pattern ''sk-[A-Za-z0-9]{40,}'' ''g'' ''OpenAI API key (sk-)'',
      regex_pattern (''Bearer'' @ backslash @ ''s+[A-Za-z0-9._~+/=-]{20,}'') ''gi'' ''Bearer token'',
      regex_pattern (''[A-Z_]*(?:KEY|SECRET|TOKEN|PASSWORD|CREDENTIAL)='' @ not_space_or_quote) ''g''
        ''credential assignment'']"

definition regex_special :: "char \<Rightarrow> bool" where
  "regex_special c = (c \<in> set ''.*+?^${}()|[]'' \<or> c = CHR 0x5C)"

definition escapeRegex :: "string \<Rightarrow> string" where
  "escapeRegex str = concat (map (\<lambda>c. if regex_special c then [CHR 0x5C, c] else [c]) str)"

definition getRedactionPatterns ::
  "env_map option \<Rightarrow> RedactionPattern list option \<Rightarrow> RedactionPattern list" where
  "getRedactionPatterns envValues additionalPatterns =
     BUILTIN_PATTERN_SOURCES @
     (case envValues of
        None \<Rightarrow> []
      | Some env \<Rightarrow>
          concat (map (\<lambda>(key, v).
            if length v \<ge> 8 then [regex_pattern (escapeRegex v) ''g'' (''env:'' @ key)] else []) env)) @
     (case additionalPatterns of None \<Rightarrow> [] | Some ps \<Rightarrow> ps)"

text \<open>
  The string an expression stands for when it is a sequence of plain characters and escaped syntax
  characters, as ECMAScript reads it: an unescaped syntax character is no literal.
\<close>

definition syntax_character :: "char \<Rightarrow> bool" where
  "syntax_character c = (c \<in> {CHR ''^'', CHR ''$'', CHR 0x5C, CHR ''.'', CHR ''*'', CHR ''+'',
     CHR ''?'', CHR ''('', CHR '')'', CHR ''['', CHR '']'', CHR ''{'', CHR ''}'', CHR ''|''})"

fun regex_literal :: "string \<Rightarrow> string option" where
  "regex_literal [] = Some []"
| "regex_literal [c] = (if syntax_character c then None else Some [c])"
| "regex_literal (c # d # cs) =
     (if c = CHR 0x5C
      then (if syntax_character d then map_option ((#) d) (regex_literal cs) else None)
      else if syntax_character c then None
      else map_option ((#) c) (regex_literal (d # cs)))"

lemma regex_special_syntax: "regex_special = syntax_character"
  by (auto simp: regex_special_def syntax_character_def fun_eq_iff)

lemma regex_literal_plain:
  "\<not> syntax_character c \<Longrightarrow> regex_literal (c # cs) = map_option ((#) c) (regex_literal cs)"
  by (cases cs) (auto simp: syntax_character_def)

lemma regex_literal_escaped:
  "syntax_character d \<Longrightarrow>
    regex_literal (CHR 0x5C # d # cs) = map_option ((#) d) (regex_literal cs)"
  by simp

lemma escapeRegex_literal: "regex_literal (escapeRegex v) = Some v"
  by (induction v)
    (simp_all add: escapeRegex_def regex_special_syntax regex_literal_plain regex_literal_escaped
      del: regex_literal.simps(3))

lemma validateSecret_valid [outcome_iff]:
  "vr_valid (validateSecretPreProvisioning content expected) \<longleftrightarrow>
    (\<exists>env. parseEnvFile content = Inr env \<and> (\<forall>v \<in> set expected. v \<in> fst ` set env))"
  by (auto simp: validateSecretPreProvisioning_def env_has_def Let_def filter_empty_conv
      map_of_eq_None_iff split: sum.splits)

lemma detectSecretRotation_iff [outcome_iff]:
  "rot_rotated (detectSecretRotation d c) \<longleftrightarrow> c \<noteq> None \<and> c \<noteq> Some d"
  "rot_action (detectSecretRotation d c) = Redeploy \<longleftrightarrow> rot_rotated (detectSecretRotation d c)"
  by (auto simp: detectSecretRotation_def split: option.splits)

subsection \<open>Properties\<close>

text \<open>
  A file passes validation only if it is free of shell patterns and assigns every expected
  variable, and then each of its values of eight characters or more is redacted literally: the
  registry holds the seven built-in patterns, one pattern per such value in the order of the keys,
  whose expression stands for exactly that value whatever characters it has, and the additional
  ones.
\<close>

theorem redaction_covers_secrets:
  "case parseEnvFile content of
     Inl e \<Rightarrow> validateSecretPreProvisioning content expected =
       \<lparr>vr_valid = False, vr_missing = expected, vr_violation = True, vr_error = Some e\<rparr>
   | Inr env \<Rightarrow>
       (let patterns = getRedactionPatterns (Some env) extra;
            secrets = filter (\<lambda>kv. 8 \<le> length (snd kv)) env in
        vr_valid (validateSecretPreProvisioning content expected) =
          list_all (\<lambda>v. v \<in> fst ` set env) expected \<and>
        map (\<lambda>p. regex_literal (rp_source p)) (take (length secrets) (drop 7 patterns)) =
          map (\<lambda>kv. Some (snd kv)) secrets \<and>
        map rp_label (take (length secrets) (drop 7 patterns)) =
          map (\<lambda>kv. ''env:'' @ fst kv) secrets \<and>
        take 7 patterns = BUILTIN_PATTERN_SOURCES \<and>
        drop (7 + length secrets) patterns = (case extra of None \<Rightarrow> [] | Some ps \<Rightarrow> ps))"
proof (cases "parseEnvFile content")
  case (Inl e)
  then show ?thesis by (simp add: validateSecretPreProvisioning_def)
next
  case (Inr env)
  let ?secrets = "filter (\<lambda>kv. 8 \<le> length (snd kv)) env"
  let ?mine = "map (\<lambda>kv. regex_pattern (escapeRegex (snd kv)) ''g'' (''env:'' @ fst kv)) ?secrets"
  have "concat (map (\<lambda>(key, v).
      if length v \<ge> 8 then [regex_pattern (escapeRegex v) ''g'' (''env:'' @ key)] else []) env) = ?mine"
    by (induction env) auto
  then have ps: "getRedactionPatterns (Some env) extra =
      BUILTIN_PATTERN_SOURCES @ ?mine @ (case extra of None \<Rightarrow> [] | Some ps \<Rightarrow> ps)"
    by (simp add: getRedactionPatterns_def)
  have "length BUILTIN_PATTERN_SOURCES = 7" by (simp add: BUILTIN_PATTERN_SOURCES_def)
  then show ?thesis
    by (simp add: Inr Let_def ps validateSecret_valid regex_pattern_def escapeRegex_literal
        list_all_iff comp_def)
qed

end
