(* ===== verification/HostSafety.thy ===== *)
theory HostSafety
  imports EnvFile
begin

text \<open>
  What provisioning checks before it touches a host (\<^verbatim>\<open>src/symphony/provisioning.ts\<close>):
  paths, the devcontainer configuration, and the versions and container ids it reads from the
  output of commands. A thrown error is its message.
\<close>

subsection \<open>Paths\<close>

definition path_segments :: "string \<Rightarrow> string list" where
  "path_segments p = filter (\<lambda>s. s \<noteq> [] \<and> s \<noteq> ''.'') (js_split (CHR ''/'') p)"

definition normalizePath :: "string \<Rightarrow> string" where
  "normalizePath inputPath =
     (let parts = filter (\<lambda>p. p \<noteq> [] \<and> p \<noteq> ''.'') (js_split (CHR ''/'') inputPath);
          result = (if js_startsWith inputPath ''/'' then ''/'' @ js_join ''/'' parts
            else js_join ''/'' parts)
      in if result = [] then ''/'' else result)"

definition validatePath :: "string \<Rightarrow> string \<Rightarrow> string + string" where
  "validatePath inputPath expectedParent =
     (if List.member (js_split (CHR ''/'') inputPath) ''..''
      then Inl (''Path traversal detected: '' @ dquote @ inputPath @ dquote @ '' contains ''
        @ squote @ ''..'' @ squote @ '' segments'')
      else
        (let normalized = normalizePath inputPath;
             normalizedParent = normalizePath expectedParent
         in if \<not> js_startsWith normalized (normalizedParent @ ''/'') \<and> normalized \<noteq> normalizedParent
            then Inl (''Path '' @ dquote @ normalized @ dquote @ '' is outside expected parent ''
              @ dquote @ normalizedParent @ dquote)
            else Inr normalized))"

subsection \<open>Devcontainer configuration\<close>

datatype mount = MountString string | MountObject string string string

record DevcontainerConfig =
  dc_name :: "string option"
  dc_remote_user :: "string option"
  dc_container_user :: "string option"
  dc_mounts :: "mount list option"
  dc_run_args :: "string list option"
  dc_privileged :: "bool option"
  dc_cap_add :: "string list option"

definition SAFE_CAPABILITIES :: "string list" where
  "SAFE_CAPABILITIES = [''SYS_PTRACE'']"

definition docker_socket :: string where "docker_socket = ''/var/run/docker.sock''"

definition mount_errors :: "string \<Rightarrow> mount \<Rightarrow> string list" where
  "mount_errors repoPath mount =
     (let mountStr = (case mount of MountString s \<Rightarrow> s | MountObject source _ _ \<Rightarrow> ''source='' @ source) in
      (if js_includes mountStr docker_socket then [''Docker socket mount is not allowed''] else []) @
      (case mount of
         MountString _ \<Rightarrow> []
       | MountObject src _ _ \<Rightarrow>
           if src = [] then []
           else (let repoMatch = (src = repoPath \<or> js_startsWith src (repoPath @ ''/''));
                     tmpMatch = (src = ''/tmp'' \<or> js_startsWith src ''/tmp/'')
                 in if \<not> repoMatch \<and> \<not> tmpMatch
                    then [''host path mount '' @ squote @ src @ squote @ '' is outside the repo directory'']
                    else [])))"

fun run_arg_errors :: "string list \<Rightarrow> string list" where
  "run_arg_errors [] = []"
| "run_arg_errors (arg # rest) =
     (if arg = ''--privileged'' then [''--privileged flag is not allowed in runArgs''] else []) @
     (if arg = ''-v'' \<and> (case rest of [] \<Rightarrow> False | next # _ \<Rightarrow> js_includes next docker_socket)
      then [''Docker socket mount via -v is not allowed in runArgs''] else []) @
     run_arg_errors rest"

definition validateDevcontainerConfig :: "DevcontainerConfig \<Rightarrow> string \<Rightarrow> string list" where
  "validateDevcontainerConfig config repoPath =
     (if dc_privileged config = Some True then [''privileged mode is not allowed''] else []) @
     (case dc_cap_add config of
        None \<Rightarrow> []
      | Some caps \<Rightarrow>
          concat (map (\<lambda>cap. if \<not> List.member SAFE_CAPABILITIES cap
            then [''capability '' @ squote @ cap @ squote @ '' is not in the safe allowlist'']
            else []) caps)) @
     (case dc_mounts config of None \<Rightarrow> [] | Some ms \<Rightarrow> concat (map (mount_errors repoPath) ms)) @
     (case dc_run_args config of None \<Rightarrow> [] | Some args \<Rightarrow> run_arg_errors args)"

subsection \<open>Versions and container ids in command output\<close>

definition version_part :: "string \<Rightarrow> int" where
  "version_part p = (case js_parseInt p of None \<Rightarrow> 0 | Some n \<Rightarrow> n)"

definition version_parts :: "string \<Rightarrow> int list" where
  "version_parts v =
     map version_part (js_split (CHR ''.'') (takeWhile (\<lambda>c. c \<noteq> CHR ''-'' \<and> c \<noteq> CHR ''+'') v))"

text \<open>The loop up to the longer length, a missing part being 0.\<close>

fun compare_parts :: "int list \<Rightarrow> int list \<Rightarrow> int" where
  "compare_parts [] [] = 0"
| "compare_parts (a # as) [] = (if a < 0 then - 1 else if 0 < a then 1 else compare_parts as [])"
| "compare_parts [] (b # bs) = (if 0 < b then - 1 else if b < 0 then 1 else compare_parts [] bs)"
| "compare_parts (a # as) (b # bs) = (if a < b then - 1 else if b < a then 1 else compare_parts as bs)"

definition compareVersions :: "string \<Rightarrow> string \<Rightarrow> int" where
  "compareVersions a b = compare_parts (version_parts a) (version_parts b)"

text \<open>The leftmost match of three numbers with dots between.\<close>

definition version_here :: "string \<Rightarrow> string option" where
  "version_here s =
     (let d1 = takeWhile decimal_digit s; r1 = dropWhile decimal_digit s;
          d2 = takeWhile decimal_digit (tl r1); r2 = dropWhile decimal_digit (tl r1);
          d3 = takeWhile decimal_digit (tl r2)
      in if d1 \<noteq> [] \<and> r1 \<noteq> [] \<and> hd r1 = CHR ''.'' \<and> d2 \<noteq> [] \<and> r2 \<noteq> [] \<and> hd r2 = CHR ''.'' \<and> d3 \<noteq> []
         then Some (d1 @ ''.'' @ d2 @ ''.'' @ d3) else None)"

fun find_version :: "string \<Rightarrow> string option" where
  "find_version [] = None"
| "find_version (c # cs) =
     (case version_here (c # cs) of Some v \<Rightarrow> Some v | None \<Rightarrow> find_version cs)"

definition hex_char :: "char \<Rightarrow> bool" where
  "hex_char c = (decimal_digit c \<or>
     (let n = of_char c :: nat in (97 \<le> n \<and> n \<le> 102) \<or> (65 \<le> n \<and> n \<le> 70)))"

text \<open>After the colon: spaces, an optional quote and 12 to 64 hexadecimal digits.\<close>

definition hex_value :: "string \<Rightarrow> string option" where
  "hex_value s =
     (let t = dropWhile js_space s;
          u = (case t of [] \<Rightarrow> [] | c # cs \<Rightarrow> if c = CHR 0x22 then cs else t);
          digits = take 64 (takeWhile hex_char u)
      in if 12 \<le> length digits then Some digits else None)"

text \<open>The shortest gap to a colon that such a value follows, within the line.\<close>

fun after_gap :: "string \<Rightarrow> string option" where
  "after_gap [] = None"
| "after_gap (c # cs) =
     (case (if c = CHR '':'' then hex_value cs else None) of
        Some v \<Rightarrow> Some v
      | None \<Rightarrow> if js_line_terminator c then None else after_gap cs)"

fun find_container_id :: "string \<Rightarrow> string option" where
  "find_container_id [] = None"
| "find_container_id (c # cs) =
     (case (if js_startsWith (js_toLowerCase (c # cs)) ''containerid''
            then after_gap (drop 11 (c # cs)) else None) of
        Some v \<Rightarrow> Some v
      | None \<Rightarrow> find_container_id cs)"

subsection \<open>Segments\<close>

definition absolute :: "string \<Rightarrow> bool" where
  "absolute p = js_startsWith p ''/''"

lemma absolute_iff: "absolute p \<longleftrightarrow> (\<exists>q. p = CHR ''/'' # q)"
  by (cases p) (auto simp: absolute_def js_startsWith_def)

lemma normalizePath_segments:
  "normalizePath p = (if path_segments p = [] then ''/''
    else (if absolute p then ''/'' else []) @ js_join ''/'' (path_segments p))"
proof -
  have "js_join ''/'' xs \<noteq> []" if "xs \<noteq> []" "[] \<notin> set xs" for xs :: "string list"
    using that by (cases xs; cases "tl xs") auto
  moreover have "[] \<notin> set (path_segments p)" by (simp add: path_segments_def)
  ultimately show ?thesis
    unfolding normalizePath_def path_segments_def [symmetric] Let_def absolute_def [symmetric]
    by (cases "path_segments p = []") auto
qed

text \<open>Segments never hold a separator, so joining and splitting are inverse.\<close>

definition clean_segments :: "string list \<Rightarrow> bool" where
  "clean_segments xs = list_all (\<lambda>s. s \<noteq> [] \<and> s \<noteq> ''.'' \<and> CHR ''/'' \<notin> set s) xs"

lemma clean_path_segments [simp]: "clean_segments (path_segments p)"
  using js_split_no_sep [of _ "CHR ''/''" p]
  by (auto simp: clean_segments_def path_segments_def list_all_iff)

lemma js_split_join_append:
  assumes "xs \<noteq> []" and "\<forall>p \<in> set xs. c \<notin> set p"
  shows "js_split c (js_join [c] xs @ c # z) = xs @ js_split c z"
  using assms
proof (induction xs)
  case (Cons x xs)
  then show ?case by (cases xs) (simp_all add: js_split_append_sep)
qed simp

lemma clean_split: "clean_segments xs \<Longrightarrow> xs \<noteq> [] \<Longrightarrow> js_split (CHR ''/'') (js_join ''/'' xs) = xs"
  by (rule js_split_join) (auto simp: clean_segments_def list_all_iff)

lemma filter_clean: "clean_segments xs \<Longrightarrow> filter (\<lambda>s. s \<noteq> [] \<and> s \<noteq> ''.'') xs = xs"
  by (simp add: clean_segments_def list_all_iff)

lemma path_segments_join:
  assumes "clean_segments xs"
  shows "path_segments ((if b then ''/'' else []) @ js_join ''/'' xs) = xs"
proof (cases "xs = []")
  case True
  then show ?thesis by (simp add: path_segments_def)
next
  case False
  then show ?thesis
    using clean_split [OF assms False] filter_clean [OF assms] by (simp add: path_segments_def)
qed

lemma path_segments_normalize [simp]: "path_segments (normalizePath p) = path_segments p"
proof (cases "path_segments p = []")
  case True
  then show ?thesis unfolding normalizePath_segments [of p] by (simp add: path_segments_def)
next
  case False
  then show ?thesis
    unfolding normalizePath_segments [of p] by (simp add: path_segments_join [OF clean_path_segments] del: append.simps)
qed

lemma join_first: "clean_segments xs \<Longrightarrow> xs \<noteq> [] \<Longrightarrow> \<not> absolute (js_join ''/'' xs)"
  by (cases xs; cases "hd xs"; cases "tl xs")
    (auto simp: clean_segments_def absolute_def js_startsWith_def)

lemma absolute_normalize:
  "absolute (normalizePath p) \<longleftrightarrow> path_segments p = [] \<or> absolute p"
  using join_first [OF clean_path_segments, of p]
  by (auto simp: normalizePath_segments absolute_def js_startsWith_def)

lemma normalizePath_idem: "normalizePath (normalizePath p) = normalizePath p"
  by (subst (1 2) normalizePath_segments) (simp add: absolute_normalize)

lemma join_append:
  assumes "xs \<noteq> []" and "zs \<noteq> []"
  shows "js_join sep (xs @ zs) = js_join sep xs @ sep @ js_join sep zs"
  using assms
proof (induction xs)
  case (Cons x xs)
  then show ?case by (cases xs) (simp_all add: js_join_Cons)
qed simp

lemma join_prefix:
  assumes "clean_segments xs" and "clean_segments ys" and "xs \<noteq> []"
  shows "prefix (js_join ''/'' xs @ ''/'') (js_join ''/'' ys) \<longleftrightarrow> strict_prefix xs ys"
proof
  assume "prefix (js_join ''/'' xs @ ''/'') (js_join ''/'' ys)"
  then obtain z where z: "js_join ''/'' ys = js_join ''/'' xs @ CHR ''/'' # z"
    by (auto simp: prefix_def)
  then have "ys \<noteq> []" by auto
  from arg_cong [OF z, of "js_split (CHR ''/'')"] have "ys = xs @ js_split (CHR ''/'') z"
    using js_split_join_append [of xs "CHR ''/''" z] assms clean_split [OF assms(2) \<open>ys \<noteq> []\<close>]
    by (auto simp: clean_segments_def list_all_iff)
  then show "strict_prefix xs ys"
    using js_split_nonempty [of "CHR ''/''" z] by (auto simp: strict_prefix_def)
next
  assume "strict_prefix xs ys"
  then obtain zs where "ys = xs @ zs" "zs \<noteq> []" by (auto simp: strict_prefix_def prefix_def)
  then show "prefix (js_join ''/'' xs @ ''/'') (js_join ''/'' ys)"
    using assms(3) by (simp add: join_append)
qed

lemma join_inject:
  assumes "clean_segments xs" and "clean_segments ys" and "xs \<noteq> []" and "ys \<noteq> []"
  shows "js_join ''/'' xs = js_join ''/'' ys \<longleftrightarrow> xs = ys"
  using clean_split [OF assms(1,3)] clean_split [OF assms(2,4)] by metis

lemma join_nonempty:
  assumes "clean_segments xs" and "xs \<noteq> []"
  shows "js_join ''/'' xs \<noteq> []"
  using clean_split [OF assms] assms by (auto simp: clean_segments_def)

text \<open>The test of \<open>validatePath\<close> is containment of segments.\<close>

definition within_parent :: "string \<Rightarrow> string \<Rightarrow> bool" where
  "within_parent p parent =
     (if path_segments parent = [] then path_segments p = []
      else absolute p = absolute parent \<and> prefix (path_segments parent) (path_segments p))"

lemma within_parent_iff:
  "js_startsWith (normalizePath p) (normalizePath parent @ ''/'') \<or> normalizePath p = normalizePath parent
    \<longleftrightarrow> within_parent p parent"
proof (cases "path_segments parent = []")
  case True
  have "\<not> prefix ''//'' (normalizePath p)"
    using join_first [OF clean_path_segments, of p]
    by (auto simp: normalizePath_segments absolute_iff prefix_def)
  moreover have "normalizePath p = ''/'' \<longleftrightarrow> path_segments p = []"
  proof
    assume "normalizePath p = ''/''"
    moreover have "path_segments ''/'' = []" by (simp add: path_segments_def)
    ultimately show "path_segments p = []" by (metis path_segments_normalize)
  qed (simp add: normalizePath_segments)
  ultimately show ?thesis
    using True by (simp add: within_parent_def normalizePath_segments [of parent] js_startsWith_prefix)
next
  case parent: False
  show ?thesis
  proof (cases "path_segments p = []")
    case True
    with parent show ?thesis
      using join_first [OF clean_path_segments parent] join_nonempty [OF clean_path_segments parent]
      by (auto simp: within_parent_def normalizePath_segments js_startsWith_prefix absolute_iff
          prefix_def append_eq_Cons_conv Cons_eq_append_conv split: if_splits)
  next
    case False
    note first = join_first [OF clean_path_segments False] join_first [OF clean_path_segments parent]
    note pre = join_prefix [OF clean_path_segments clean_path_segments parent, of p]
    note inj = join_inject [OF clean_path_segments clean_path_segments False parent]
    show ?thesis
    proof (cases "absolute p = absolute parent")
      case True
      have below: "js_startsWith (normalizePath p) (normalizePath parent @ ''/'') \<longleftrightarrow>
          strict_prefix (path_segments parent) (path_segments p)"
        using True False parent pre
        by (cases "absolute parent") (simp_all add: normalizePath_segments js_startsWith_prefix)
      have same: "normalizePath p = normalizePath parent \<longleftrightarrow> path_segments p = path_segments parent"
        using True False parent inj
        by (cases "absolute parent") (simp_all add: normalizePath_segments)
      show ?thesis
        unfolding below same within_parent_def if_not_P [OF parent]
        by (simp add: True strict_prefix_def) (metis prefix_order.order_refl)
    next
      case differ: False
      have "\<not> prefix (normalizePath parent) (normalizePath p)"
      proof
        assume "prefix (normalizePath parent) (normalizePath p)"
        then obtain z where z: "normalizePath p = normalizePath parent @ z" by (auto simp: prefix_def)
        have "absolute (normalizePath parent @ z) \<longleftrightarrow> absolute (normalizePath parent)"
          using join_nonempty [OF clean_path_segments parent] parent
          by (auto simp: absolute_iff normalizePath_segments append_eq_Cons_conv)
        with z differ False parent show False by (metis absolute_normalize)
      qed
      with differ False parent show ?thesis
        by (auto simp: within_parent_def js_startsWith_prefix dest: append_prefixD)
    qed
  qed
qed

lemma validatePath_result:
  "validatePath p parent = Inr q \<longleftrightarrow>
    ''..'' \<notin> set (js_split (CHR ''/'') p) \<and> within_parent p parent \<and> q = normalizePath p"
  unfolding validatePath_def Let_def within_parent_iff [symmetric] by auto

subsection \<open>Accepted configurations\<close>

definition below :: "string \<Rightarrow> string \<Rightarrow> bool" where
  "below dir src = (src = dir \<or> js_startsWith src (dir @ ''/''))"

definition mount_allowed :: "string \<Rightarrow> mount \<Rightarrow> bool" where
  "mount_allowed repoPath m =
     (case m of
        MountString s \<Rightarrow> \<not> js_includes s docker_socket
      | MountObject src _ _ \<Rightarrow>
          \<not> js_includes src docker_socket \<and> (src = [] \<or> below repoPath src \<or> below ''/tmp'' src))"

definition run_args_allowed :: "string list \<Rightarrow> bool" where
  "run_args_allowed args =
     (list_all (\<lambda>a. a \<noteq> ''--privileged'') args \<and>
      list_all (\<lambda>p. \<not> (fst p = ''-v'' \<and> js_includes (snd p) docker_socket)) (zip args (tl args)))"

lemma mount_errors_none: "mount_errors repoPath m = [] \<longleftrightarrow> mount_allowed repoPath m"
proof (cases m)
  case (MountObject src target type)
  have "js_includes (''source='' @ src) docker_socket = js_includes src docker_socket"
    by (simp add: docker_socket_def js_startsWith_def)
  then show ?thesis
    by (auto simp: mount_errors_def mount_allowed_def below_def MountObject Let_def)
qed (simp add: mount_errors_def mount_allowed_def)

lemma run_arg_errors_none: "run_arg_errors args = [] \<longleftrightarrow> run_args_allowed args"
proof (induction args)
  case (Cons a rest)
  then show ?case by (cases rest) (auto simp: run_args_allowed_def)
qed (simp add: run_args_allowed_def)

lemma validateDevcontainerConfig_iff [outcome_iff]:
  "validateDevcontainerConfig c repoPath = [] \<longleftrightarrow>
    dc_privileged c \<noteq> Some True \<and>
    (case dc_cap_add c of None \<Rightarrow> True | Some caps \<Rightarrow> list_all (List.member SAFE_CAPABILITIES) caps) \<and>
    (case dc_mounts c of None \<Rightarrow> True | Some ms \<Rightarrow> list_all (mount_allowed repoPath) ms) \<and>
    (case dc_run_args c of None \<Rightarrow> True | Some args \<Rightarrow> run_args_allowed args)"
  by (auto simp: validateDevcontainerConfig_def mount_errors_none run_arg_errors_none list_all_iff
      split: option.splits if_splits)

subsection \<open>Versions\<close>

text \<open>A version is its parts without the zeros at the end.\<close>

definition canonical :: "int list \<Rightarrow> int list" where
  "canonical ps = rev (dropWhile (\<lambda>p. p = 0) (rev ps))"

lemma canonical_Nil [simp]: "canonical [] = []"
  by (simp add: canonical_def)

lemma canonical_Cons:
  "canonical (p # ps) = (if canonical ps = [] \<and> p = 0 then [] else p # canonical ps)"
  by (auto simp: canonical_def dropWhile_append)

lemma compare_parts_0:
  assumes "list_all (\<lambda>p. 0 \<le> p) ps"
  shows "compare_parts ps [] = (if canonical ps = [] then 0 else 1)"
    and "compare_parts [] ps = (if canonical ps = [] then 0 else - 1)"
  using assms by (induction ps) (auto simp: canonical_Cons)

lemma compare_parts_canonical:
  assumes "list_all (\<lambda>p. 0 \<le> p) as" and "list_all (\<lambda>p. 0 \<le> p) bs"
  shows "compare_parts as bs =
    (if canonical as = canonical bs then 0
     else if ord_class.lexordp (canonical as) (canonical bs) then - 1 else 1)"
  using assms
proof (induction as bs rule: compare_parts.induct)
  case (2 a as)
  then show ?case using compare_parts_0(1) [of "a # as"] by simp
next
  case (3 b bs)
  then show ?case
    using compare_parts_0(2) [of "b # bs"] by (cases "canonical (b # bs)") simp_all
next
  case (4 a as b bs)
  show ?case
  proof (cases "a = b")
    case True
    with 4 show ?thesis
      by (cases "canonical as"; cases "canonical bs") (auto simp: canonical_Cons)
  next
    case False
    with 4(2,3) show ?thesis by (auto simp: canonical_Cons)
  qed
qed simp

lemma digits_value_nonneg: "js_parseInt p = Some n \<Longrightarrow> CHR ''-'' \<notin> set p \<Longrightarrow> 0 \<le> n"
proof -
  assume n: "js_parseInt p = Some n" and "CHR ''-'' \<notin> set p"
  then have "CHR ''-'' \<notin> set (dropWhile js_space p)" using set_dropWhileD by metis
  with n show "0 \<le> n"
    by (cases "dropWhile js_space p") (auto simp: js_parseInt_def Let_def split: if_splits)
qed

lemma version_parts_nonneg: "list_all (\<lambda>p. 0 \<le> p) (version_parts v)"
proof -
  let ?clean = "takeWhile (\<lambda>c. c \<noteq> CHR ''-'' \<and> c \<noteq> CHR ''+'') v"
  have sub: "set p \<subseteq> set s" if "p \<in> set (js_split c s)" for p s :: string and c
    using that by (induction s arbitrary: p) (fastforce split: if_splits list.splits)+
  have "0 \<le> version_part p" if "p \<in> set (js_split (CHR ''.'') ?clean)" for p
  proof -
    have "CHR ''-'' \<notin> set ?clean" by (auto dest: set_takeWhileD)
    then have "CHR ''-'' \<notin> set p" using sub [OF that] by blast
    then show ?thesis using digits_value_nonneg by (auto simp: version_part_def split: option.splits)
  qed
  then show ?thesis by (simp add: version_parts_def list_all_iff)
qed

definition version_shape :: "string \<Rightarrow> bool" where
  "version_shape v \<longleftrightarrow> (\<exists>a b c. v = a @ ''.'' @ b @ ''.'' @ c \<and>
     list_all decimal_digit (a @ b @ c) \<and> a \<noteq> [] \<and> b \<noteq> [] \<and> c \<noteq> [])"

lemma version_shapeI:
  assumes "v = a @ ''.'' @ b @ ''.'' @ c" and "list_all decimal_digit a" and "list_all decimal_digit b"
    and "list_all decimal_digit c" and "a \<noteq> []" and "b \<noteq> []" and "c \<noteq> []"
  shows "version_shape v"
  unfolding version_shape_def using assms by (intro exI [of _ a] exI [of _ b] exI [of _ c]) simp

lemma version_here_shape:
  assumes "version_here s = Some v"
  shows "version_shape v"
proof -
  have digits: "list_all decimal_digit (takeWhile decimal_digit t)" for t
    by (auto simp: list_all_iff dest: set_takeWhileD)
  show ?thesis
    using assms unfolding version_here_def Let_def
    by (auto split: if_splits simp del: append.simps intro: version_shapeI [OF _ digits digits digits])
qed

lemma find_version_shape: "find_version s = Some v \<Longrightarrow> version_shape v"
  by (induction s) (auto split: option.splits dest: version_here_shape)

text \<open>A container id read from a command's output is hexadecimal, so it is safe in a command.\<close>

lemma hex_value_safe: "hex_value s = Some v \<Longrightarrow> shell_safe v \<and> length v \<le> 64"
proof -
  have "shell_safe_char c" if "hex_char c" for c
    using that by (auto simp: hex_char_def shell_safe_char_def ascii_letter_def ascii_lower_def
        ascii_upper_def Let_def)
  moreover assume "hex_value s = Some v"
  ultimately show ?thesis
    by (auto simp: hex_value_def shell_safe_def Let_def list_all_iff split: if_splits
        dest!: in_set_takeD set_takeWhileD)
qed

lemma after_gap_safe: "after_gap s = Some v \<Longrightarrow> shell_safe v \<and> length v \<le> 64"
  by (induction s) (auto split: option.splits if_splits dest: hex_value_safe)

lemma find_container_id_safe: "find_container_id s = Some v \<Longrightarrow> shell_safe v \<and> length v \<le> 64"
  by (induction s) (auto split: option.splits if_splits dest: after_gap_safe)

subsection \<open>Properties\<close>

text \<open>
  Path confinement: a path is accepted exactly when none of its segments is \<open>..\<close> and its
  segments extend those of the expected parent, both absolute or both relative. The path returned
  is normal (normalising it again changes nothing), has the same segments, none of them empty or a
  dot or two dots, and still lies within the parent.
\<close>

theorem validatePath_spec:
  "(case validatePath p parent of
     Inl _ \<Rightarrow> (if List.member (js_split (CHR ''/'') p) ''..'' then True else \<not> within_parent p parent)
   | Inr q \<Rightarrow> \<not> List.member (js_split (CHR ''/'') p) ''..'' \<and> within_parent p parent \<and>
       q = normalizePath p \<and> normalizePath q = q \<and> path_segments q = path_segments p \<and>
       within_parent q parent \<and>
       list_all (\<lambda>s. s \<noteq> [] \<and> s \<noteq> ''.'' \<and> s \<noteq> ''..'' \<and> CHR ''/'' \<notin> set s) (path_segments q))"
proof (cases "validatePath p parent")
  case (Inl e)
  then show ?thesis using validatePath_result [of p parent "normalizePath p"] by auto
next
  case (Inr q)
  have p: "''..'' \<notin> set (js_split (CHR ''/'') p)" "within_parent p parent" and q: "q = normalizePath p"
    using Inr by (simp_all add: validatePath_result)
  have "within_parent q parent"
  proof (cases "path_segments p = []")
    case True
    with p(2) show ?thesis by (cases "path_segments parent = []") (simp_all add: q within_parent_def)
  next
    case False
    with p(2) show ?thesis
      by (cases "path_segments parent = []") (simp_all add: q within_parent_def absolute_normalize)
  qed
  moreover have "''..'' \<notin> set (path_segments p)" using p(1) by (simp add: path_segments_def)
  ultimately show ?thesis
    using p q Inr clean_path_segments [of p]
    by (auto simp: normalizePath_idem clean_segments_def list_all_iff)
qed

text \<open>
  A devcontainer configuration is accepted exactly when it is not privileged, asks only for
  the listed capability, mounts no Docker socket and no object source outside the repository and
  \<open>/tmp\<close> as texts, and its arguments are neither the bare privileged flag nor the socket
  after \<open>-v\<close>. These tests are textual: a string mount of the host's root, a source that climbs
  out of \<open>/tmp\<close>, and the other spellings of the same flags all pass.
\<close>

theorem validateDevcontainerConfig_spec:
  "(validateDevcontainerConfig c repoPath = []) =
     (dc_privileged c \<noteq> Some True \<and>
      list_all (\<lambda>cap. cap = ''SYS_PTRACE'') (case dc_cap_add c of None \<Rightarrow> [] | Some caps \<Rightarrow> caps) \<and>
      list_all (mount_allowed repoPath) (case dc_mounts c of None \<Rightarrow> [] | Some ms \<Rightarrow> ms) \<and>
      run_args_allowed (case dc_run_args c of None \<Rightarrow> [] | Some args \<Rightarrow> args)) \<and>
   validateDevcontainerConfig (c\<lparr>dc_privileged := Some False, dc_cap_add := None,
     dc_mounts := Some [MountString ''source=/,target=/host,type=bind'',
       MountObject ''/tmp/../etc'' ''/etc'' ''bind''],
     dc_run_args := Some [''--privileged=true'', ''--cap-add=ALL'', ''--volume'', docker_socket]\<rparr>)
     repoPath = []"
proof -
  have caps: "List.member SAFE_CAPABILITIES = (\<lambda>cap. cap = ''SYS_PTRACE'')"
    by (simp add: SAFE_CAPABILITIES_def fun_eq_iff)
  have "(validateDevcontainerConfig c repoPath = []) =
     (dc_privileged c \<noteq> Some True \<and>
      list_all (\<lambda>cap. cap = ''SYS_PTRACE'') (case dc_cap_add c of None \<Rightarrow> [] | Some caps \<Rightarrow> caps) \<and>
      list_all (mount_allowed repoPath) (case dc_mounts c of None \<Rightarrow> [] | Some ms \<Rightarrow> ms) \<and>
      run_args_allowed (case dc_run_args c of None \<Rightarrow> [] | Some args \<Rightarrow> args))"
    unfolding validateDevcontainerConfig_iff caps
    by (cases "dc_cap_add c"; cases "dc_mounts c"; cases "dc_run_args c")
      (simp_all add: run_args_allowed_def)
  moreover have "mount_allowed repoPath (MountString ''source=/,target=/host,type=bind'')"
    and "mount_allowed repoPath (MountObject ''/tmp/../etc'' ''/etc'' ''bind'')"
    and "run_args_allowed [''--privileged=true'', ''--cap-add=ALL'', ''--volume'', docker_socket]"
    by (simp_all add: mount_allowed_def below_def run_args_allowed_def docker_socket_def
        js_startsWith_def)
  ultimately show ?thesis
    by (simp add: validateDevcontainerConfig_iff)
qed

text \<open>
  Comparing versions is the lexicographic order on their numeric parts up to zeros at the end:
  the result is 0 exactly for equal canonical parts, and otherwise says which is smaller. It
  ignores everything from the first hyphen or plus sign on.
\<close>

theorem compareVersions_spec:
  "compareVersions a b =
     (if canonical (version_parts a) = canonical (version_parts b) then 0
      else if ord_class.lexordp (canonical (version_parts a)) (canonical (version_parts b))
      then - 1 else 1) \<and>
   compareVersions b a = - compareVersions a b \<and>
   compareVersions (a @ ''-'' @ prerelease) (a @ ''+'' @ build) = 0"
proof -
  have spec: "compareVersions x y =
     (if canonical (version_parts x) = canonical (version_parts y) then 0
      else if ord_class.lexordp (canonical (version_parts x)) (canonical (version_parts y))
      then - 1 else 1)" for x y
    unfolding compareVersions_def by (rule compare_parts_canonical [OF version_parts_nonneg version_parts_nonneg])
  have "version_parts (a @ ''-'' @ prerelease) = version_parts (a @ ''+'' @ build)"
    by (simp add: version_parts_def takeWhile_tail takeWhile_append)
  then have "compareVersions (a @ ''-'' @ prerelease) (a @ ''+'' @ build) = 0" by (simp add: spec)
  moreover have "compareVersions b a = - compareVersions a b"
    unfolding spec [of a b] spec [of b a]
    using lexordp_linear [of "canonical (version_parts a)" "canonical (version_parts b)"]
      lexordp_antisym [of "canonical (version_parts a)" "canonical (version_parts b)"]
    by auto
  ultimately show ?thesis using spec [of a b] by blast
qed

end
