(* ===== verification/Provisioning.thy ===== *)
theory Provisioning
  imports HostSafety Database
begin

text \<open>
  \<^verbatim>\<open>src/symphony/provisioning.ts\<close>, the pipeline: eight steps run in order, each
  recorded before and after, with a rollback action registered for what it leaves behind; a failed
  or cancelled pipeline runs the registered actions in reverse order. The five services the
  pipeline is built with are interfaces without an implementation in the file: they are a record
  of functions on a world, each returning a value or the message it throws. So is \<open>JSON.parse\<close>
  into the declared shape of a configuration. A rollback closure is the datatype of what it captures.
\<close>

subsection \<open>Steps, results and services\<close>

datatype PipelineStep =
  disk_check | ssh_connect | repo_check | env_sync | devcontainer_up | container_exec |
  agent_verify | worktree_setup

definition PIPELINE_STEPS :: "PipelineStep list" where
  "PIPELINE_STEPS = [disk_check, ssh_connect, repo_check, env_sync, devcontainer_up,
     container_exec, agent_verify, worktree_setup]"

datatype StepStatus =
  StepPending | StepRunning | StepCompleted | StepFailed | StepRolledBack | StepSkipped

fun STEP_TIMEOUTS :: "PipelineStep \<Rightarrow> rat" where
  "STEP_TIMEOUTS disk_check = 30"
| "STEP_TIMEOUTS ssh_connect = 30"
| "STEP_TIMEOUTS repo_check = 5 * 60"
| "STEP_TIMEOUTS env_sync = 30"
| "STEP_TIMEOUTS devcontainer_up = 15 * 60"
| "STEP_TIMEOUTS container_exec = 30"
| "STEP_TIMEOUTS agent_verify = 60"
| "STEP_TIMEOUTS worktree_setup = 2 * 60"

definition MIN_DISK_BYTES :: int where "MIN_DISK_BYTES = 10 * 1024 * 1024 * 1024"
definition DEVCONTAINER_ABSOLUTE_TIMEOUT_MINUTES :: rat where
  "DEVCONTAINER_ABSOLUTE_TIMEOUT_MINUTES = 60"

type_synonym step_data = "(string \<times> json) list"

record StepResult =
  sr_step :: PipelineStep
  sr_status :: StepStatus
  sr_started :: millis
  sr_completed :: "millis option"
  sr_error :: "string option"
  sr_data :: "step_data option"

datatype rollback =
    RbDisconnect
  | RbRemoveRepo string
  | RbRemoveEnv string
  | RbRemoveContainer string
  | RbExitExec
  | RbRemoveWorktree string string string

record PipelineResult =
  pr_success :: bool
  pr_steps :: "StepResult list"
  pr_rollback :: "(PipelineStep \<times> bool \<times> string option) list option"
  pr_error :: "string option"
  pr_cancelled :: bool

record 's services =
  sv_run :: "string \<Rightarrow> rat \<Rightarrow> 's \<Rightarrow> (string + string) \<times> 's"
  sv_connect :: "'s \<Rightarrow> (string + unit) \<times> 's"
  sv_disconnect :: "'s \<Rightarrow> (string + unit) \<times> 's"
  sv_cancelled :: "uuid \<Rightarrow> 's \<Rightarrow> (string + bool) \<times> 's"
  sv_record :: "uuid \<Rightarrow> PipelineStep \<Rightarrow> StepStatus \<Rightarrow> string option \<Rightarrow> step_data option \<Rightarrow> 's \<Rightarrow>
    (string + unit) \<times> 's"
  sv_statuses :: "uuid \<Rightarrow> 's \<Rightarrow> (string + (PipelineStep \<times> StepStatus) list) \<times> 's"
  sv_track_container :: "uuid \<Rightarrow> string \<Rightarrow> string \<Rightarrow> string \<Rightarrow> uuid \<Rightarrow> 's \<Rightarrow> (string + unit) \<times> 's"
  sv_remove_container :: "string \<Rightarrow> 's \<Rightarrow> (string + unit) \<times> 's"
  sv_track_secret :: "uuid \<Rightarrow> string \<Rightarrow> uuid \<Rightarrow> string \<Rightarrow> string \<Rightarrow> 's \<Rightarrow> (string + unit) \<times> 's"
  sv_remove_secret :: "uuid \<Rightarrow> uuid \<Rightarrow> 's \<Rightarrow> (string + unit) \<times> 's"
  sv_now :: "'s \<Rightarrow> millis"
  sv_iso :: "'s \<Rightarrow> string"
  sv_parse_config :: "string \<Rightarrow> DevcontainerConfig option"

text \<open>The pipeline object's two fields, with the world the services act on.\<close>

record 's pipeline =
  pl_rollbacks :: "rollback list"
  pl_results :: "StepResult list"
  pl_world :: 's

subsection \<open>Asynchronous calls that may throw\<close>

type_synonym ('s, 'a) io = "'s pipeline \<Rightarrow> (string + 'a) \<times> 's pipeline"

definition return_io :: "'a \<Rightarrow> ('s, 'a) io" where
  "return_io x p = (Inr x, p)"

definition throw_io :: "string \<Rightarrow> ('s, 'a) io" where
  "throw_io e p = (Inl e, p)"

definition and_then :: "('s, 'a) io \<Rightarrow> ('a \<Rightarrow> ('s, 'b) io) \<Rightarrow> ('s, 'b) io" where
  "and_then m f p = (case m p of (Inl e, q) \<Rightarrow> (Inl e, q) | (Inr x, q) \<Rightarrow> f x q)"

text \<open>A call of a service, and registering a rollback.\<close>

definition call :: "('s \<Rightarrow> (string + 'a) \<times> 's) \<Rightarrow> ('s, 'a) io" where
  "call f p = (case f (pl_world p) of (r, w) \<Rightarrow> (r, p\<lparr>pl_world := w\<rparr>))"

definition register :: "rollback \<Rightarrow> ('s, unit) io" where
  "register rb p = (Inr (), p\<lparr>pl_rollbacks := pl_rollbacks p @ [rb]\<rparr>)"

definition read_io :: "('s pipeline \<Rightarrow> 'a) \<Rightarrow> ('s, 'a) io" where
  "read_io f p = (Inr (f p), p)"

definition when_io :: "bool \<Rightarrow> ('s, unit) io \<Rightarrow> ('s, unit) io" where
  "when_io b m = (if b then m else return_io ())"

definition string_data :: "StepResult list \<Rightarrow> PipelineStep \<Rightarrow> string \<Rightarrow> string option" where
  "string_data results step key =
     (case find (\<lambda>r. sr_step r = step) results of
        None \<Rightarrow> None
      | Some r \<Rightarrow>
          (case sr_data r of
             None \<Rightarrow> None
           | Some d \<Rightarrow> (case map_of d key of Some (JStr s) \<Rightarrow> Some s | _ \<Rightarrow> None)))"

definition orElse :: "'a option \<Rightarrow> 'a \<Rightarrow> 'a" where
  "orElse x d = (case x of None \<Rightarrow> d | Some v \<Rightarrow> v)"

definition repo_path :: "ProvisioningContext \<Rightarrow> string" where
  "repo_path ctx = ''~/claw/repos/'' @ pc_org ctx @ ''/'' @ pc_repo ctx"

subsection \<open>The steps\<close>

definition stepDiskCheck :: "'s services \<Rightarrow> rat \<Rightarrow> ('s, step_data) io" where
  "stepDiskCheck sv timeoutMs =
     and_then (call (sv_run sv ''df -B1 --output=avail / | tail -1'' timeoutMs)) (\<lambda>output.
       case js_parseInt (js_trim output) of
         None \<Rightarrow> throw_io (''Failed to parse disk space: '' @ dquote @ js_trim output @ dquote)
       | Some availableBytes \<Rightarrow>
           if availableBytes < MIN_DISK_BYTES
           then throw_io (''Insufficient disk space: '' @ show_int availableBytes
             @ '' bytes available, '' @ show_int MIN_DISK_BYTES @ '' bytes required'')
           else return_io [(''availableBytes'', JNum (of_int availableBytes))])"

definition stepSshConnect :: "'s services \<Rightarrow> ('s, step_data) io" where
  "stepSshConnect sv =
     and_then (call (sv_connect sv)) (\<lambda>_.
     and_then (register RbDisconnect) (\<lambda>_. return_io [(''connected'', JBool True)]))"

definition stepRepoCheck :: "'s services \<Rightarrow> ProvisioningContext \<Rightarrow> rat \<Rightarrow> ('s, step_data) io" where
  "stepRepoCheck sv ctx timeoutMs =
     (let repoPath = repo_path ctx;
          expandedPath = ''/home/user'' @ tl repoPath;
          cloneDepth = orElse (pc_clone_depth ctx) 1 in
      case validatePath expandedPath ''/home/user/claw/repos'' of
        Inl e \<Rightarrow> throw_io e
      | Inr _ \<Rightarrow>
          and_then (call (sv_run sv (''test -d '' @ repoPath @ ''/.git && echo exists || echo missing'')
            timeoutMs)) (\<lambda>out.
          let freshClone = (js_trim out \<noteq> ''exists'') in
          and_then (call (sv_run sv
            (if freshClone
             then ''mkdir -p ~/claw/repos/'' @ pc_org ctx @ '' && '' @ ''git clone --depth ''
               @ show_int cloneDepth @ '' https://github.com/'' @ pc_org ctx @ ''/'' @ pc_repo ctx
               @ ''.git '' @ repoPath
             else ''cd '' @ repoPath @ '' && git fetch origin'') timeoutMs)) (\<lambda>_.
          and_then (when_io freshClone (register (RbRemoveRepo repoPath))) (\<lambda>_.
          return_io [(''repoPath'', JStr repoPath), (''freshClone'', JBool freshClone)]))))"

definition stepEnvSync :: "'s services \<Rightarrow> ProvisioningContext \<Rightarrow> rat \<Rightarrow> ('s, step_data) io" where
  "stepEnvSync sv ctx timeoutMs =
     (let envPath = repo_path ctx @ ''/.env'';
          vaultItem = orElse (pc_vault_item ctx)
            (''.env ('' @ pc_org ctx @ ''/'' @ pc_repo ctx @ '') [User]'') in
      and_then (call (sv_run sv (''op read '' @ dquote @ ''op://Development Environments/''
        @ vaultItem @ dquote) timeoutMs)) (\<lambda>envContent.
      case parseEnvFile envContent of
        Inl e \<Rightarrow> throw_io e
      | Inr envVars \<Rightarrow>
          and_then (call (sv_run sv (write_command envPath envVars) timeoutMs)) (\<lambda>_.
          and_then (read_io (\<lambda>p. sv_iso sv (pl_world p))) (\<lambda>version.
          and_then (call (sv_track_secret sv (pc_run ctx) (pc_namespace ctx) (pc_connection ctx)
            envPath version)) (\<lambda>_.
          and_then (register (RbRemoveEnv envPath)) (\<lambda>_.
          return_io [(''envPath'', JStr envPath), (''varCount'', JNum (of_nat (length envVars))),
            (''version'', JStr version)]))))))"

definition effective_timeout :: "ProvisioningContext \<Rightarrow> rat \<Rightarrow> rat" where
  "effective_timeout ctx timeoutMs =
     (let absTimeoutMin = orElse (pc_abs_timeout ctx) DEVCONTAINER_ABSOLUTE_TIMEOUT_MINUTES
      in min timeoutMs (absTimeoutMin * 60 * 1000))"

definition stepDevcontainerUp :: "'s services \<Rightarrow> ProvisioningContext \<Rightarrow> rat \<Rightarrow> ('s, step_data) io" where
  "stepDevcontainerUp sv ctx timeoutMs =
     (let repoPath = repo_path ctx in
      and_then (call (sv_run sv (''cat '' @ repoPath @ ''/.devcontainer/devcontainer.json'') 10000)) (\<lambda>configRaw.
      case sv_parse_config sv configRaw of
        None \<Rightarrow> throw_io ''Failed to parse devcontainer.json''
      | Some config \<Rightarrow>
          (let configErrors = validateDevcontainerConfig config repoPath in
           if configErrors \<noteq> []
           then throw_io (''Devcontainer config validation failed: '' @ js_join ''; '' configErrors)
           else
             and_then (call (sv_run sv (''devcontainer up --workspace-folder '' @ repoPath)
               (effective_timeout ctx timeoutMs))) (\<lambda>output.
             case find_container_id output of
               None \<Rightarrow> throw_io (''Failed to parse container ID from devcontainer up output. ''
                 @ ''Cannot safely track or manage the container.'')
             | Some containerId \<Rightarrow>
                 (let containerName = orElse (dc_name config) (pc_org ctx @ ''-'' @ pc_repo ctx) in
                  and_then (call (sv_track_container sv (pc_run ctx) (pc_namespace ctx) containerId
                    containerName (pc_connection ctx))) (\<lambda>_.
                  and_then (register (RbRemoveContainer containerId)) (\<lambda>_.
                  return_io [(''containerId'', JStr containerId),
                    (''containerName'', JStr containerName)])))))))"

definition docker_exec :: "string \<Rightarrow> string \<Rightarrow> string" where
  "docker_exec user containerId = ''docker exec -u '' @ user @ '' '' @ containerId @ '' ''"

definition container_of :: "StepResult list \<Rightarrow> string" where
  "container_of results = orElse (string_data results devcontainer_up ''containerId'') ''unknown''"

definition user_of :: "StepResult list \<Rightarrow> string" where
  "user_of results = orElse (string_data results container_exec ''user'') ''root''"

definition stepContainerExec :: "'s services \<Rightarrow> ProvisioningContext \<Rightarrow> rat \<Rightarrow> ('s, step_data) io" where
  "stepContainerExec sv ctx timeoutMs =
     and_then (call (sv_run sv (''cat '' @ repo_path ctx @ ''/.devcontainer/devcontainer.json'') 10000)) (\<lambda>configRaw.
     case sv_parse_config sv configRaw of
       None \<Rightarrow> throw_io ''Failed to parse devcontainer.json for container_exec''
     | Some config \<Rightarrow>
         (let user = orElse (dc_remote_user config) (orElse (dc_container_user config) ''root'') in
          and_then (read_io (\<lambda>p. container_of (pl_results p))) (\<lambda>containerId.
          and_then (call (sv_run sv (''docker inspect --format '' @ squote @ ''{{.State.Running}}''
            @ squote @ '' '' @ containerId) timeoutMs)) (\<lambda>statusOutput.
          if js_trim statusOutput \<noteq> ''true''
          then throw_io (''Container '' @ containerId @ '' is not running'')
          else
            and_then (call (sv_run sv (docker_exec user containerId @ ''test -d /workspaces/''
              @ pc_repo ctx) timeoutMs)) (\<lambda>_.
            and_then (register RbExitExec) (\<lambda>_.
            return_io [(''containerId'', JStr containerId), (''user'', JStr user)]))))))"

definition stepAgentVerify :: "'s services \<Rightarrow> ProvisioningContext \<Rightarrow> rat \<Rightarrow> ('s, step_data) io" where
  "stepAgentVerify sv ctx timeoutMs =
     and_then (read_io (\<lambda>p. (container_of (pl_results p), user_of (pl_results p)))) (\<lambda>(containerId, user).
     and_then (call (sv_run sv (docker_exec user containerId @ ''claude --version'') timeoutMs)) (\<lambda>versionOutput.
     case find_version versionOutput of
       None \<Rightarrow> throw_io (''Could not determine agent CLI version from: '' @ dquote
         @ js_trim versionOutput @ dquote)
     | Some version \<Rightarrow>
         (let minVersion = orElse (pc_agent_min ctx) ''0.0.1'' in
          if compareVersions version minVersion < 0
          then throw_io (''Agent CLI version '' @ version @ '' is below minimum '' @ minVersion)
          else
            and_then (call (sv_run sv (docker_exec user containerId @ ''claude auth status'') timeoutMs)) (\<lambda>authOutput.
            if \<not> js_includes (js_toLowerCase authOutput) ''authenticated''
              \<and> \<not> js_includes (js_toLowerCase authOutput) ''logged in''
            then throw_io ''Agent CLI is not authenticated''
            else return_io [(''version'', JStr version), (''authenticated'', JBool True)]))))"

definition worktree_path :: "ProvisioningContext \<Rightarrow> string" where
  "worktree_path ctx = ''/tmp/worktree-issue-'' @ show_int (pc_issue ctx) @ ''-'' @ pc_slug ctx"

definition in_workspace :: "string \<Rightarrow> string \<Rightarrow> string \<Rightarrow> string \<Rightarrow> string" where
  "in_workspace user containerId repo command =
     docker_exec user containerId @ ''bash -c '' @ dquote @ ''cd /workspaces/'' @ repo @ '' && ''
       @ command @ dquote"

definition stepWorktreeSetup :: "'s services \<Rightarrow> ProvisioningContext \<Rightarrow> rat \<Rightarrow> ('s, step_data) io" where
  "stepWorktreeSetup sv ctx timeoutMs =
     and_then (read_io (\<lambda>p. (container_of (pl_results p), user_of (pl_results p)))) (\<lambda>(containerId, user).
     let worktreePath = worktree_path ctx;
         branchName = ''issue/'' @ show_int (pc_issue ctx) @ ''-'' @ pc_slug ctx in
     and_then (call (sv_run sv (in_workspace user containerId (pc_repo ctx) ''git fetch origin'')
       timeoutMs)) (\<lambda>_.
     and_then (call (sv_run sv (in_workspace user containerId (pc_repo ctx)
       (''git worktree add '' @ worktreePath @ '' -b '' @ branchName @ '' origin/main'')) timeoutMs)) (\<lambda>_.
     and_then (register (RbRemoveWorktree user containerId worktreePath)) (\<lambda>_.
     return_io [(''worktreePath'', JStr worktreePath), (''branchName'', JStr branchName)]))))"

fun runStepLogic ::
  "'s services \<Rightarrow> PipelineStep \<Rightarrow> ProvisioningContext \<Rightarrow> rat \<Rightarrow> ('s, step_data) io" where
  "runStepLogic sv disk_check ctx timeoutMs = stepDiskCheck sv timeoutMs"
| "runStepLogic sv ssh_connect ctx timeoutMs = stepSshConnect sv"
| "runStepLogic sv repo_check ctx timeoutMs = stepRepoCheck sv ctx timeoutMs"
| "runStepLogic sv env_sync ctx timeoutMs = stepEnvSync sv ctx timeoutMs"
| "runStepLogic sv devcontainer_up ctx timeoutMs = stepDevcontainerUp sv ctx timeoutMs"
| "runStepLogic sv container_exec ctx timeoutMs = stepContainerExec sv ctx timeoutMs"
| "runStepLogic sv agent_verify ctx timeoutMs = stepAgentVerify sv ctx timeoutMs"
| "runStepLogic sv worktree_setup ctx timeoutMs = stepWorktreeSetup sv ctx timeoutMs"

subsection \<open>One step, rollback, and the pipeline\<close>

text \<open>The body of the \<open>try\<close>: the step and the record of its completion.\<close>

definition try_step ::
  "'s services \<Rightarrow> PipelineStep \<Rightarrow> ProvisioningContext \<Rightarrow> ('s, step_data) io" where
  "try_step sv step ctx =
     and_then (runStepLogic sv step ctx (STEP_TIMEOUTS step * 1000)) (\<lambda>data.
     and_then (call (sv_record sv (pc_run ctx) step StepCompleted None (Some data))) (\<lambda>_.
     return_io data))"

definition executeStep ::
  "'s services \<Rightarrow> PipelineStep \<Rightarrow> ProvisioningContext \<Rightarrow> ('s, StepResult) io" where
  "executeStep sv step ctx =
     and_then (read_io (\<lambda>p. sv_now sv (pl_world p))) (\<lambda>startedAt.
     and_then (call (sv_record sv (pc_run ctx) step StepRunning None None)) (\<lambda>_.
     \<lambda>p. case try_step sv step ctx p of
         (Inr data, q) \<Rightarrow>
           (Inr \<lparr>sr_step = step, sr_status = StepCompleted, sr_started = startedAt,
              sr_completed = Some (sv_now sv (pl_world q)), sr_error = None, sr_data = Some data\<rparr>, q)
       | (Inl err, q) \<Rightarrow>
           and_then (call (sv_record sv (pc_run ctx) step StepFailed (Some err) None)) (\<lambda>_ r.
             (Inr \<lparr>sr_step = step, sr_status = StepFailed, sr_started = startedAt,
                sr_completed = Some (sv_now sv (pl_world r)), sr_error = Some err, sr_data = None\<rparr>, r)) q))"

fun rb_step :: "rollback \<Rightarrow> PipelineStep" where
  "rb_step RbDisconnect = ssh_connect"
| "rb_step (RbRemoveRepo _) = repo_check"
| "rb_step (RbRemoveEnv _) = env_sync"
| "rb_step (RbRemoveContainer _) = devcontainer_up"
| "rb_step RbExitExec = container_exec"
| "rb_step (RbRemoveWorktree _ _ _) = worktree_setup"

fun run_rollback :: "'s services \<Rightarrow> ProvisioningContext \<Rightarrow> rollback \<Rightarrow> ('s, unit) io" where
  "run_rollback sv ctx RbDisconnect = call (sv_disconnect sv)"
| "run_rollback sv ctx (RbRemoveRepo repoPath) =
     and_then (call (sv_run sv (''realpath '' @ repoPath) 5000)) (\<lambda>canonical.
     let canonicalTrimmed = js_trim canonical; parentDir = ''/home/user/claw/repos'' in
     if \<not> js_startsWith canonicalTrimmed (parentDir @ ''/'')
     then throw_io (''Rollback aborted: canonical path '' @ dquote @ canonicalTrimmed @ dquote @ '' ''
       @ ''is outside expected parent '' @ dquote @ parentDir @ dquote)
     else and_then (call (sv_run sv (''rm -rf '' @ canonicalTrimmed) 30000)) (\<lambda>_. return_io ()))"
| "run_rollback sv ctx (RbRemoveEnv envPath) =
     and_then (call (sv_run sv (''rm -f '' @ envPath) 5000)) (\<lambda>_.
     call (sv_remove_secret sv (pc_run ctx) (pc_connection ctx)))"
| "run_rollback sv ctx (RbRemoveContainer containerId) =
     and_then (call (sv_run sv (''docker rm -f '' @ containerId) 30000)) (\<lambda>_.
     call (sv_remove_container sv containerId))"
| "run_rollback sv ctx RbExitExec = return_io ()"
| "run_rollback sv ctx (RbRemoveWorktree user containerId worktreePath) =
     and_then (call (sv_run sv (in_workspace user containerId (pc_repo ctx)
       (''git worktree remove '' @ worktreePath @ '' --force'')) 30000)) (\<lambda>_. return_io ())"

type_synonym rollback_result = "PipelineStep \<times> bool \<times> string option"

fun rollback_loop ::
  "'s services \<Rightarrow> ProvisioningContext \<Rightarrow> rollback list \<Rightarrow> 's pipeline \<Rightarrow>
   rollback_result list \<times> 's pipeline" where
  "rollback_loop sv ctx [] p = ([], p)"
| "rollback_loop sv ctx (rb # rbs) p =
     (let (r, q) = run_rollback sv ctx rb p;
          result = (case r of Inr _ \<Rightarrow> (rb_step rb, True, None) | Inl err \<Rightarrow> (rb_step rb, False, Some err));
          (results, q') = rollback_loop sv ctx rbs q
      in (result # results, q'))"

definition performRollback ::
  "'s services \<Rightarrow> ProvisioningContext \<Rightarrow> 's pipeline \<Rightarrow> rollback_result list \<times> 's pipeline" where
  "performRollback sv ctx p = rollback_loop sv ctx (rev (pl_rollbacks p)) p"

fun run_steps ::
  "'s services \<Rightarrow> ProvisioningContext \<Rightarrow> PipelineStep list \<Rightarrow> ('s, PipelineResult) io" where
  "run_steps sv ctx [] =
     read_io (\<lambda>p. \<lparr>pr_success = True, pr_steps = pl_results p, pr_rollback = None, pr_error = None,
       pr_cancelled = False\<rparr>)"
| "run_steps sv ctx (stepName # rest) =
     and_then (call (sv_cancelled sv (pc_run ctx))) (\<lambda>cancelled.
     if cancelled
     then (\<lambda>p. let (_, q) = performRollback sv ctx p in
        (Inr \<lparr>pr_success = False, pr_steps = pl_results q, pr_rollback = None,
           pr_error = Some ''Pipeline cancelled externally'', pr_cancelled = True\<rparr>, q))
     else
       and_then (executeStep sv stepName ctx) (\<lambda>result p.
         let p = p\<lparr>pl_results := pl_results p @ [result]\<rparr> in
         if sr_status result = StepFailed
         then (let (rollbackResults, q) = performRollback sv ctx p in
           (Inr \<lparr>pr_success = False, pr_steps = pl_results q, pr_rollback = Some rollbackResults,
              pr_error = sr_error result, pr_cancelled = False\<rparr>, q))
         else run_steps sv ctx rest p))"

definition reset_pipeline :: "'s pipeline \<Rightarrow> 's pipeline" where
  "reset_pipeline p = p\<lparr>pl_rollbacks := [], pl_results := []\<rparr>"

definition execute :: "'s services \<Rightarrow> ProvisioningContext \<Rightarrow> ('s, PipelineResult) io" where
  "execute sv ctx p =
     (case validateContextInputs ctx of
        Inl e \<Rightarrow> (Inl e, p)
      | Inr _ \<Rightarrow> run_steps sv ctx PIPELINE_STEPS (reset_pipeline p))"

definition completed_step :: "millis \<Rightarrow> PipelineStep \<Rightarrow> StepResult" where
  "completed_step now step =
     \<lparr>sr_step = step, sr_status = StepCompleted, sr_started = now, sr_completed = Some now,
      sr_error = None, sr_data = None\<rparr>"

definition resume :: "'s services \<Rightarrow> ProvisioningContext \<Rightarrow> ('s, PipelineResult) io" where
  "resume sv ctx p =
     (case validateContextInputs ctx of
        Inl e \<Rightarrow> (Inl e, p)
      | Inr _ \<Rightarrow>
          and_then (call (sv_statuses sv (pc_run ctx))) (\<lambda>statuses q.
            let statusMap = map_of (rev statuses);
                done = takeWhile (\<lambda>s. statusMap s = Some StepCompleted) PIPELINE_STEPS
            in run_steps sv ctx (drop (length done) PIPELINE_STEPS)
                 (q\<lparr>pl_results := map (completed_step (sv_now sv (pl_world q))) done\<rparr>))
            (reset_pipeline p))"

subsection \<open>What a step leaves behind\<close>

text \<open>The completed steps that must be rolled back: all but the two that only look, and the
  repository only when it was cloned.\<close>

definition acquires :: "PipelineStep \<Rightarrow> step_data \<Rightarrow> bool" where
  "acquires step data =
     (case step of disk_check \<Rightarrow> False | agent_verify \<Rightarrow> False
      | repo_check \<Rightarrow> map_of data ''freshClone'' = Some (JBool True) | _ \<Rightarrow> True)"

lemmas io_defs = return_io_def throw_io_def and_then_def call_def register_def read_io_def when_io_def

text \<open>The outcome of a step's logic: results untouched; one action if it acquired something.\<close>

definition step_frame :: "PipelineStep \<Rightarrow> 's pipeline \<Rightarrow> (string + step_data) \<times> 's pipeline \<Rightarrow> bool" where
  "step_frame step p out \<longleftrightarrow>
     pl_results (snd out) = pl_results p \<and>
     (case fst out of
        Inl _ \<Rightarrow> pl_rollbacks (snd out) = pl_rollbacks p
      | Inr d \<Rightarrow> \<exists>rbs. pl_rollbacks (snd out) = pl_rollbacks p @ rbs \<and>
          map rb_step rbs = (if acquires step d then [step] else []))"

lemma disk_check_frame: "step_frame disk_check p (stepDiskCheck sv t p)"
  by (auto simp: step_frame_def stepDiskCheck_def io_defs acquires_def
      split: prod.splits sum.splits option.splits)

lemma ssh_connect_frame: "step_frame ssh_connect p (stepSshConnect sv p)"
  by (auto simp: step_frame_def stepSshConnect_def io_defs acquires_def
      split: prod.splits sum.splits)

lemma repo_check_frame: "step_frame repo_check p (stepRepoCheck sv ctx t p)"
  by (auto simp: step_frame_def stepRepoCheck_def io_defs acquires_def Let_def
      split: prod.splits sum.splits)

lemma env_sync_frame: "step_frame env_sync p (stepEnvSync sv ctx t p)"
  by (auto simp: step_frame_def stepEnvSync_def io_defs acquires_def Let_def
      split: prod.splits sum.splits)

lemma devcontainer_up_frame: "step_frame devcontainer_up p (stepDevcontainerUp sv ctx t p)"
  by (auto simp: step_frame_def stepDevcontainerUp_def io_defs acquires_def Let_def
      split: prod.splits sum.splits option.splits)

lemma container_exec_frame: "step_frame container_exec p (stepContainerExec sv ctx t p)"
  by (auto simp: step_frame_def stepContainerExec_def io_defs acquires_def Let_def
      split: prod.splits sum.splits option.splits)

lemma agent_verify_frame: "step_frame agent_verify p (stepAgentVerify sv ctx t p)"
  by (auto simp: step_frame_def stepAgentVerify_def io_defs acquires_def Let_def
      split: prod.splits sum.splits option.splits)

lemma worktree_setup_frame: "step_frame worktree_setup p (stepWorktreeSetup sv ctx t p)"
  by (auto simp: step_frame_def stepWorktreeSetup_def io_defs acquires_def Let_def
      split: prod.splits sum.splits)

lemma runStepLogic_frame: "step_frame step p (runStepLogic sv step ctx t p)"
  by (cases step) (simp_all add: disk_check_frame ssh_connect_frame repo_check_frame env_sync_frame
      devcontainer_up_frame container_exec_frame agent_verify_frame worktree_setup_frame)

text \<open>A whole step: its result, and the actions it adds. If only the record of its completion
  failed, the step counts as failed though its action is registered.\<close>

definition step_acquired :: "StepResult \<Rightarrow> bool" where
  "step_acquired r = (case sr_data r of None \<Rightarrow> False | Some d \<Rightarrow> acquires (sr_step r) d)"

lemma call_frame:
  assumes "call f p = (r, q)"
  shows "pl_results q = pl_results p" and "pl_rollbacks q = pl_rollbacks p"
  using assms by (auto simp: call_def split: prod.splits)

lemma and_then_InrE:
  assumes "and_then m f p = (Inr x, q)"
  obtains y p' where "m p = (Inr y, p')" and "f y p' = (Inr x, q)"
  using assms by (auto simp: and_then_def split: prod.splits sum.splits)

lemma try_step_frame:
  assumes "try_step sv step ctx p = (r, q)"
  shows "pl_results q = pl_results p"
    and "r = Inr d \<Longrightarrow> map rb_step (pl_rollbacks q) =
      map rb_step (pl_rollbacks p) @ (if acquires step d then [step] else [])"
    and "map rb_step (pl_rollbacks q) = map rb_step (pl_rollbacks p) \<or>
      map rb_step (pl_rollbacks q) = map rb_step (pl_rollbacks p) @ [step]"
proof -
  obtain o1 p1 where logic: "runStepLogic sv step ctx (STEP_TIMEOUTS step * 1000) p = (o1, p1)"
    by fastforce
  note frame = runStepLogic_frame [of step p sv ctx "STEP_TIMEOUTS step * 1000", unfolded logic step_frame_def]
  have same: "pl_results q = pl_results p1" "pl_rollbacks q = pl_rollbacks p1"
    and inv: "r = Inr d \<Longrightarrow> o1 = Inr d" for d
    using assms
    by (auto simp: try_step_def and_then_def logic return_io_def call_def split: sum.splits prod.splits)
  show "pl_results q = pl_results p" using frame same by simp
  show "map rb_step (pl_rollbacks q) =
      map rb_step (pl_rollbacks p) @ (if acquires step d then [step] else [])" if "r = Inr d"
    using frame same inv [OF that] by auto
  show "map rb_step (pl_rollbacks q) = map rb_step (pl_rollbacks p) \<or>
      map rb_step (pl_rollbacks q) = map rb_step (pl_rollbacks p) @ [step]"
    using frame same by (auto split: sum.splits if_splits)
qed

lemma executeStep_result:
  assumes "executeStep sv step ctx p = (Inr r, q)"
  shows "pl_results q = pl_results p \<and> sr_step r = step \<and>
    (if sr_status r = StepCompleted
     then sr_error r = None \<and> sr_data r \<noteq> None \<and>
       map rb_step (pl_rollbacks q) = map rb_step (pl_rollbacks p) @ (if step_acquired r then [step] else [])
     else sr_status r = StepFailed \<and> sr_error r \<noteq> None \<and> sr_data r = None \<and>
       map rb_step (pl_rollbacks q) \<in> {map rb_step (pl_rollbacks p), map rb_step (pl_rollbacks p) @ [step]})"
proof -
  from assms obtain u p1 started where
    run: "call (sv_record sv (pc_run ctx) step StepRunning None None) p = (Inr u, p1)" and
    rest: "(case try_step sv step ctx p1 of
         (Inr data, q) \<Rightarrow>
           (Inr \<lparr>sr_step = step, sr_status = StepCompleted, sr_started = started,
              sr_completed = Some (sv_now sv (pl_world q)), sr_error = None, sr_data = Some data\<rparr>, q)
       | (Inl err, q) \<Rightarrow>
           and_then (call (sv_record sv (pc_run ctx) step StepFailed (Some err) None)) (\<lambda>_ r.
             (Inr \<lparr>sr_step = step, sr_status = StepFailed, sr_started = started,
                sr_completed = Some (sv_now sv (pl_world r)), sr_error = Some err, sr_data = None\<rparr>, r)) q)
      = (Inr r, q)"
    unfolding executeStep_def by (auto elim!: and_then_InrE simp: read_io_def)
  obtain t p2 where step: "try_step sv step ctx p1 = (t, p2)" by fastforce
  note frame = try_step_frame [OF step] and first = call_frame [OF run]
  show ?thesis
  proof (cases t)
    case (Inr d)
    with rest step have "r = \<lparr>sr_step = step, sr_status = StepCompleted, sr_started = started,
        sr_completed = Some (sv_now sv (pl_world p2)), sr_error = None, sr_data = Some d\<rparr>" "q = p2"
      by auto
    then show ?thesis using frame(1) frame(2) [OF Inr] first by (simp add: step_acquired_def)
  next
    case (Inl err)
    with rest step obtain v p3 where
      failed: "call (sv_record sv (pc_run ctx) step StepFailed (Some err) None) p2 = (Inr v, p3)"
      and r: "r = \<lparr>sr_step = step, sr_status = StepFailed, sr_started = started,
        sr_completed = Some (sv_now sv (pl_world p3)), sr_error = Some err, sr_data = None\<rparr>" "q = p3"
      by (auto elim!: and_then_InrE)
    show ?thesis using frame(1,3) call_frame [OF failed] first by (simp add: r)
  qed
qed

subsection \<open>Rollback\<close>

lemma run_rollback_frame:
  "pl_results (snd (run_rollback sv ctx rb p)) = pl_results p \<and>
   pl_rollbacks (snd (run_rollback sv ctx rb p)) = pl_rollbacks p"
  by (cases rb) (auto simp: io_defs Let_def split: prod.splits sum.splits)

lemma rollback_loop_frame:
  assumes "rollback_loop sv ctx rbs p = (results, q)"
  shows "map fst results = map rb_step rbs \<and> pl_results q = pl_results p \<and>
    pl_rollbacks q = pl_rollbacks p \<and>
    list_all (\<lambda>(_, ok, err). ok = (err = None)) results"
  using assms
proof (induction rbs arbitrary: p results)
  case (Cons rb rbs)
  obtain r p1 where run: "run_rollback sv ctx rb p = (r, p1)" by fastforce
  obtain rest p2 where rest: "rollback_loop sv ctx rbs p1 = (rest, p2)" by fastforce
  from Cons.prems run rest have q: "q = p2" and
    results: "results = (case r of Inr _ \<Rightarrow> (rb_step rb, True, None) | Inl err \<Rightarrow> (rb_step rb, False, Some err)) # rest"
    by simp_all
  show ?case
    using Cons.IH [OF rest [folded q]] run_rollback_frame [of sv ctx rb p] q results
    by (cases r) (simp_all add: run)
qed simp

lemma performRollback_frame:
  assumes "performRollback sv ctx p = (results, q)"
  shows "map fst results = rev (map rb_step (pl_rollbacks p)) \<and> pl_results q = pl_results p \<and>
    pl_rollbacks q = pl_rollbacks p \<and> list_all (\<lambda>(_, ok, err). ok = (err = None)) results"
  using rollback_loop_frame [OF assms [unfolded performRollback_def]] by (simp add: rev_map)

subsection \<open>The outcome of a pipeline\<close>

definition all_completed :: "StepResult list \<Rightarrow> bool" where
  "all_completed rs = list_all (\<lambda>r. sr_status r = StepCompleted) rs"

text \<open>The steps of the registered actions, for results in order.\<close>

definition acquired_steps :: "StepResult list \<Rightarrow> PipelineStep list" where
  "acquired_steps rs = map sr_step (filter step_acquired rs)"

text \<open>The three ways a pipeline over some steps ends.\<close>

definition pipeline_outcome :: "PipelineStep list \<Rightarrow> PipelineResult \<Rightarrow> 's pipeline \<Rightarrow> bool" where
  "pipeline_outcome steps res q \<longleftrightarrow>
     pr_steps res = pl_results q \<and>
     map sr_step (pl_results q) = take (length (pl_results q)) steps \<and>
     (if pr_success res
      then length (pl_results q) = length steps \<and> all_completed (pl_results q) \<and>
        \<not> pr_cancelled res \<and> pr_error res = None \<and> pr_rollback res = None \<and>
        map rb_step (pl_rollbacks q) = acquired_steps (pl_results q)
      else if pr_cancelled res
      then length (pl_results q) < length steps \<and> all_completed (pl_results q) \<and>
        pr_rollback res = None \<and> map rb_step (pl_rollbacks q) = acquired_steps (pl_results q)
      else pl_results q \<noteq> [] \<and> all_completed (butlast (pl_results q)) \<and>
        sr_status (last (pl_results q)) = StepFailed \<and> pr_error res \<noteq> None \<and>
        pr_error res = sr_error (last (pl_results q)) \<and>
        map_option (map fst) (pr_rollback res) = Some (rev (map rb_step (pl_rollbacks q))) \<and>
        map rb_step (pl_rollbacks q) \<in>
          {acquired_steps (butlast (pl_results q)),
           acquired_steps (butlast (pl_results q)) @ [sr_step (last (pl_results q))]})"

lemma acquired_steps_snoc:
  "acquired_steps (rs @ [r]) = acquired_steps rs @ (if step_acquired r then [sr_step r] else [])"
  by (simp add: acquired_steps_def)

lemma run_steps_outcome:
  assumes "run_steps sv ctx todo p = (Inr res, q)"
    and "all_completed (pl_results p)" and "map sr_step (pl_results p) = did"
    and "map rb_step (pl_rollbacks p) = acquired_steps (pl_results p)"
  shows "pipeline_outcome (did @ todo) res q"
  using assms
proof (induction todo arbitrary: p did)
  case Nil
  then have q: "q = p" "res = \<lparr>pr_success = True, pr_steps = pl_results p, pr_rollback = None, pr_error = None,
       pr_cancelled = False\<rparr>" by (auto simp: read_io_def)
  have "length did = length (pl_results p)" using Nil.prems(3) by auto
  with q Nil.prems show ?case by (simp add: pipeline_outcome_def)
next
  case (Cons step todo)
  obtain cancelled p1 where ask: "call (sv_cancelled sv (pc_run ctx)) p = (Inr cancelled, p1)"
    and rest: "(if cancelled
     then (\<lambda>p. let (_, q) = performRollback sv ctx p in
        (Inr \<lparr>pr_success = False, pr_steps = pl_results q, pr_rollback = None,
           pr_error = Some ''Pipeline cancelled externally'', pr_cancelled = True\<rparr>, q))
     else
       and_then (executeStep sv step ctx) (\<lambda>result p.
         let p = p\<lparr>pl_results := pl_results p @ [result]\<rparr> in
         if sr_status result = StepFailed
         then (let (rollbackResults, q) = performRollback sv ctx p in
           (Inr \<lparr>pr_success = False, pr_steps = pl_results q, pr_rollback = Some rollbackResults,
              pr_error = sr_error result, pr_cancelled = False\<rparr>, q))
         else run_steps sv ctx todo p)) p1 = (Inr res, q)"
    using Cons.prems(1) by (auto elim: and_then_InrE)
  note p1 = call_frame [OF ask]
  have len: "length did = length (pl_results p)" using Cons.prems(3) by auto
  show ?case
  proof (cases cancelled)
    case True
    obtain rs p2 where rb: "performRollback sv ctx p1 = (rs, p2)" by fastforce
    from rest True rb have "q = p2" and "res = \<lparr>pr_success = False, pr_steps = pl_results p2, pr_rollback = None,
           pr_error = Some ''Pipeline cancelled externally'', pr_cancelled = True\<rparr>" by auto
    with performRollback_frame [OF rb] p1 Cons.prems len show ?thesis
      by (simp add: pipeline_outcome_def)
  next
    case False
    with rest obtain r p2 where step: "executeStep sv step ctx p1 = (Inr r, p2)"
      and go: "(let p = p2\<lparr>pl_results := pl_results p2 @ [r]\<rparr> in
         if sr_status r = StepFailed
         then (let (rollbackResults, q) = performRollback sv ctx p in
           (Inr \<lparr>pr_success = False, pr_steps = pl_results q, pr_rollback = Some rollbackResults,
              pr_error = sr_error r, pr_cancelled = False\<rparr>, q))
         else run_steps sv ctx todo p) = (Inr res, q)"
      by (auto elim: and_then_InrE)
    note r = executeStep_result [OF step]
    define p3 where "p3 = p2\<lparr>pl_results := pl_results p2 @ [r]\<rparr>"
    have p3: "pl_results p3 = pl_results p @ [r]" "pl_rollbacks p3 = pl_rollbacks p2"
      using r p1 by (simp_all add: p3_def)
    show ?thesis
    proof (cases "sr_status r = StepFailed")
      case True
      obtain rs p4 where rb: "performRollback sv ctx p3 = (rs, p4)" by fastforce
      from go True rb have "q = p4" and "res = \<lparr>pr_success = False, pr_steps = pl_results p4,
          pr_rollback = Some rs, pr_error = sr_error r, pr_cancelled = False\<rparr>"
        by (auto simp: p3_def Let_def)
      with performRollback_frame [OF rb] p1 p3 r True Cons.prems len show ?thesis
        by (simp add: pipeline_outcome_def)
    next
      case False
      with go have run: "run_steps sv ctx todo p3 = (Inr res, q)" by (simp add: p3_def Let_def)
      have completed: "sr_status r = StepCompleted" using r False by (simp split: if_splits)
      have "all_completed (pl_results p3)" using Cons.prems(2) completed by (simp add: p3 all_completed_def)
      moreover have "map sr_step (pl_results p3) = did @ [step]" using Cons.prems(3) r by (simp add: p3)
      moreover have "map rb_step (pl_rollbacks p3) = acquired_steps (pl_results p3)"
        using Cons.prems(4) r completed p1 by (simp add: p3 acquired_steps_snoc)
      ultimately have "pipeline_outcome ((did @ [step]) @ todo) res q" by (rule Cons.IH [OF run])
      then show ?thesis by simp
    qed
  qed
qed

text \<open>Services whose bookkeeping never throws: then a pipeline always returns.\<close>

definition reliable :: "'s services \<Rightarrow> bool" where
  "reliable sv \<longleftrightarrow> (\<forall>i w. \<not> isl (fst (sv_cancelled sv i w))) \<and>
     (\<forall>i step status e d w. \<not> isl (fst (sv_record sv i step status e d w)))"

lemma executeStep_returns:
  assumes "reliable sv"
  shows "\<exists>r q. executeStep sv step ctx p = (Inr r, q)"
proof -
  have rec: "\<exists>u q'. call (sv_record sv i s st e d) q = (Inr u, q')" for i s st e d q
  proof -
    have "\<not> isl (fst (sv_record sv i s st e d (pl_world q)))" using assms by (simp add: reliable_def)
    then show ?thesis by (cases "sv_record sv i s st e d (pl_world q)"; cases "fst (sv_record sv i s st e d (pl_world q))")
        (auto simp: call_def)
  qed
  obtain u p1 where run: "call (sv_record sv (pc_run ctx) step StepRunning None None) p = (Inr u, p1)"
    using rec by blast
  obtain t p2 where step: "try_step sv step ctx p1 = (t, p2)" by fastforce
  show ?thesis
  proof (cases t)
    case (Inr d)
    with run step show ?thesis by (simp add: executeStep_def and_then_def read_io_def)
  next
    case (Inl e)
    obtain v p3 where "call (sv_record sv (pc_run ctx) step StepFailed (Some e) None) p2 = (Inr v, p3)"
      using rec by blast
    with run step Inl show ?thesis by (simp add: executeStep_def and_then_def read_io_def)
  qed
qed

lemma run_steps_returns:
  assumes "reliable sv"
  shows "\<exists>res q. run_steps sv ctx todo p = (Inr res, q)"
proof (induction todo arbitrary: p)
  case Nil
  then show ?case by (simp add: read_io_def)
next
  case (Cons step todo)
  have "\<not> isl (fst (sv_cancelled sv (pc_run ctx) (pl_world p)))" using assms by (simp add: reliable_def)
  then obtain c p1 where ask: "call (sv_cancelled sv (pc_run ctx)) p = (Inr c, p1)"
    by (cases "sv_cancelled sv (pc_run ctx) (pl_world p)"; cases "fst (sv_cancelled sv (pc_run ctx) (pl_world p))")
      (auto simp: call_def)
  obtain r p2 where step: "executeStep sv step ctx p1 = (Inr r, p2)"
    using executeStep_returns [OF assms] by blast
  show ?case
    using Cons.IH [of "p2\<lparr>pl_results := pl_results p2 @ [r]\<rparr>"]
    by (cases c; cases "sr_status r = StepFailed")
      (auto simp: and_then_def ask step Let_def split: prod.splits)
qed

subsection \<open>A step whose logic throws\<close>

lemma executeStep_logic_fails:
  assumes "reliable sv"
    and "\<And>p' t. pl_results p' = pl_results p \<Longrightarrow> isl (fst (runStepLogic sv step ctx t p'))"
  shows "\<exists>r q. executeStep sv step ctx p = (Inr r, q) \<and> sr_status r = StepFailed \<and>
    sr_error r \<noteq> None \<and> pl_rollbacks q = pl_rollbacks p"
proof -
  obtain r q where exec: "executeStep sv step ctx p = (Inr r, q)"
    using executeStep_returns [OF assms(1)] by blast
  then obtain u p1 started where
    run: "call (sv_record sv (pc_run ctx) step StepRunning None None) p = (Inr u, p1)" and
    rest: "(case try_step sv step ctx p1 of
         (Inr data, q) \<Rightarrow>
           (Inr \<lparr>sr_step = step, sr_status = StepCompleted, sr_started = started,
              sr_completed = Some (sv_now sv (pl_world q)), sr_error = None, sr_data = Some data\<rparr>, q)
       | (Inl err, q) \<Rightarrow>
           and_then (call (sv_record sv (pc_run ctx) step StepFailed (Some err) None)) (\<lambda>_ r.
             (Inr \<lparr>sr_step = step, sr_status = StepFailed, sr_started = started,
                sr_completed = Some (sv_now sv (pl_world r)), sr_error = Some err, sr_data = None\<rparr>, r)) q)
      = (Inr r, q)"
    unfolding executeStep_def by (auto elim!: and_then_InrE simp: read_io_def)
  obtain err p2 where logic: "runStepLogic sv step ctx (STEP_TIMEOUTS step * 1000) p1 = (Inl err, p2)"
    using assms(2) [OF call_frame(1) [OF run], of "STEP_TIMEOUTS step * 1000"]
    by (metis isl_def prod.collapse)
  then have "try_step sv step ctx p1 = (Inl err, p2)" by (simp add: try_step_def and_then_def)
  with rest obtain v p3 where
    failed: "call (sv_record sv (pc_run ctx) step StepFailed (Some err) None) p2 = (Inr v, p3)"
    and r: "r = \<lparr>sr_step = step, sr_status = StepFailed, sr_started = started,
        sr_completed = Some (sv_now sv (pl_world p3)), sr_error = Some err, sr_data = None\<rparr>" "q = p3"
    by (auto elim!: and_then_InrE)
  have "pl_rollbacks p2 = pl_rollbacks p1"
    using runStepLogic_frame [of step p1 sv ctx "STEP_TIMEOUTS step * 1000"]
    by (simp add: step_frame_def logic)
  then show ?thesis
    using exec call_frame [OF failed] call_frame [OF run] by (simp add: r)
qed

text \<open>What \<open>docker inspect\<close> is asked when the container's id is not known.\<close>

definition inspect_unknown :: string where
  "inspect_unknown = ''docker inspect --format '' @ squote @ ''{{.State.Running}}'' @ squote @ '' unknown''"

lemma container_exec_unknown:
  assumes "container_of (pl_results p) = ''unknown''"
    and "\<And>t w. isl (fst (sv_run sv inspect_unknown t w))"
  shows "isl (fst (stepContainerExec sv ctx t p))"
  using assms(2) [unfolded inspect_unknown_def]
  by (auto simp: stepContainerExec_def io_defs Let_def assms(1) split: prod.splits sum.splits option.splits)
    (metis fst_conv sum.disc(2))

subsection \<open>Properties\<close>


definition demo_services :: "string list services" where
  "demo_services = \<lparr>
     sv_run = (\<lambda>c t w. (if c = inspect_unknown then Inl ''No such object: unknown'' else Inr ''ok'', c # w)),
     sv_connect = (\<lambda>w. (Inr (), w)), sv_disconnect = (\<lambda>w. (Inr (), w)),
     sv_cancelled = (\<lambda>i w. (Inr False, w)), sv_record = (\<lambda>i step status e d w. (Inr (), w)),
     sv_statuses = (\<lambda>i w. (Inr (map (\<lambda>s. (s, StepCompleted)) (take 5 PIPELINE_STEPS)), w)),
     sv_track_container = (\<lambda>i ns c n k w. (Inr (), w)), sv_remove_container = (\<lambda>c w. (Inr (), w)),
     sv_track_secret = (\<lambda>i ns k path v w. (Inr (), w)), sv_remove_secret = (\<lambda>i k w. (Inr (), w)),
     sv_now = (\<lambda>w. 0), sv_iso = (\<lambda>w. ''2026-01-01T00:00:00.000Z''), sv_parse_config = (\<lambda>s. None)\<rparr>"

definition demo_context :: ProvisioningContext where
  "demo_context = \<lparr>pc_run = ''run-1'', pc_namespace = ''acme'', pc_org = ''acme'', pc_repo = ''shop'',
     pc_connection = ''host-1'', pc_issue = 7, pc_slug = ''fix-it'', pc_clone_depth = None,
     pc_abs_timeout = None, pc_agent_min = None, pc_vault_item = None\<rparr>"

definition demo_pipeline :: "string list pipeline" where
  "demo_pipeline = \<lparr>pl_rollbacks = [], pl_results = [], pl_world = []\<rparr>"

lemma demo_valid: "validateContextInputs demo_context = Inr ()"
  by (simp add: validateContextInputs_iff demo_context_def shell_safe_def shell_safe_char_def
      ascii_letter_def ascii_lower_def ascii_upper_def)

lemma demo_reliable: "reliable demo_services"
  by (simp add: reliable_def demo_services_def)


text \<open>
  Resuming after a crash loses the container and the right to clean up: when the recorded
  statuses say that everything up to \<open>devcontainer_up\<close> is done, the next step looks for a
  container named \<open>unknown\<close>, so wherever no such container exists the resumed pipeline fails
  there, and since the actions of the earlier steps were never registered again it rolls nothing
  back.
\<close>

theorem resume_loses_container:
  assumes "validateContextInputs ctx = Inr ()" and "reliable sv"
    and "fst (sv_statuses sv (pc_run ctx) (pl_world p)) =
      Inr (map (\<lambda>s. (s, StepCompleted)) (take 5 PIPELINE_STEPS))"
    and "\<And>w. fst (sv_cancelled sv (pc_run ctx) w) = Inr False"
    and "\<And>t w. isl (fst (sv_run sv inspect_unknown t w))"
  shows "\<exists>res q. resume sv ctx p = (Inr res, q) \<and> \<not> pr_success res \<and> \<not> pr_cancelled res \<and>
    map sr_step (pr_steps res) = take 6 PIPELINE_STEPS \<and>
    sr_status (last (pr_steps res)) = StepFailed \<and> pr_rollback res = Some []"
proof -
  obtain w where statuses: "sv_statuses sv (pc_run ctx) (pl_world p) =
      (Inr (map (\<lambda>s. (s, StepCompleted)) (take 5 PIPELINE_STEPS)), w)"
    using assms(3) by (metis prod.collapse)
  let ?done = "map (completed_step (sv_now sv w)) (take 5 PIPELINE_STEPS)"
  let ?p = "reset_pipeline p\<lparr>pl_world := w, pl_results := ?done\<rparr>"
  have start: "resume sv ctx p = run_steps sv ctx [container_exec, agent_verify, worktree_setup] ?p"
    by (simp add: resume_def assms(1) and_then_def call_def reset_pipeline_def statuses PIPELINE_STEPS_def
        Let_def)
  obtain p1 where ask: "call (sv_cancelled sv (pc_run ctx)) ?p = (Inr False, p1)"
    using assms(4) [of w]
    by (cases "sv_cancelled sv (pc_run ctx) w") (simp add: call_def reset_pipeline_def)
  note p1 = call_frame [OF ask]
  have "container_of ?done = ''unknown''"
    by (simp add: container_of_def string_data_def PIPELINE_STEPS_def completed_step_def orElse_def)
  then obtain r p2 where step: "executeStep sv container_exec ctx p1 = (Inr r, p2)"
    and failed: "sr_status r = StepFailed" "sr_error r \<noteq> None" "pl_rollbacks p2 = pl_rollbacks p1"
    using executeStep_logic_fails [OF assms(2), where p = p1 and step = container_exec and ctx = ctx]
      container_exec_unknown [OF _ assms(5)] p1(1)
    by auto
  note r = executeStep_result [OF step]
  have "performRollback sv ctx (p2\<lparr>pl_results := pl_results p2 @ [r]\<rparr>) =
      ([], p2\<lparr>pl_results := pl_results p2 @ [r]\<rparr>)"
    using failed(3) p1 by (simp add: performRollback_def reset_pipeline_def)
  then have "resume sv ctx p = (Inr \<lparr>pr_success = False, pr_steps = pl_results p2 @ [r],
      pr_rollback = Some [], pr_error = sr_error r, pr_cancelled = False\<rparr>,
      p2\<lparr>pl_results := pl_results p2 @ [r]\<rparr>)"
    using ask step failed(1) by (simp add: start and_then_def Let_def)
  moreover have "map sr_step (pl_results p2 @ [r]) = take 6 PIPELINE_STEPS"
    using r p1 by (simp add: PIPELINE_STEPS_def completed_step_def)
  ultimately show ?thesis using failed(1) by simp
qed

theorem resume_loses_container_witness:
  "\<exists>res q. resume demo_services demo_context demo_pipeline = (Inr res, q) \<and> \<not> pr_success res \<and>
    \<not> pr_cancelled res \<and> map sr_step (pr_steps res) = take 6 PIPELINE_STEPS \<and>
    sr_status (last (pr_steps res)) = StepFailed \<and> pr_rollback res = Some []"
  by (rule resume_loses_container [OF demo_valid demo_reliable])
    (simp_all add: demo_services_def)

end
