(* ===== verification/SpamFilter.thy ===== *)
theory SpamFilter
  imports EnvFile
begin

text \<open>
  \<^verbatim>\<open>src/packages/openclaw-plugin/src/utils/spam-filter.ts\<close>: the normal form of a sender and
  the classification of an inbound message. A reason is a constructor with the parts its text is
  made of; a result's copies of the message's channel and sender are left out. \<open>Number.parseFloat\<close> is read without rounding.
\<close>

datatype MessageChannel = Email | Sms

record InboundMessage =
  im_channel :: MessageChannel
  im_sender :: string
  im_recipient :: string
  im_body :: string
  im_headers :: "(string \<times> string) list option"

record SpamFilterConfig =
  sf_allowlist :: "string list"
  sf_blocklist :: "string list"
  sf_threshold :: rat
  sf_mailers :: "string list"
  sf_sms_patterns :: "string list"

definition DEFAULT_SPAM_FILTER_CONFIG :: SpamFilterConfig where
  "DEFAULT_SPAM_FILTER_CONFIG = \<lparr>sf_allowlist = [], sf_blocklist = [], sf_threshold = 5,
     sf_mailers = [''mailchimp'', ''sendgrid'', ''constantcontact'', ''mailgun'',
       ''campaign monitor'', ''hubspot'', ''marketo'', ''pardot'', ''sendinblue'', ''brevo''],
     sf_sms_patterns = [''you have won'', ''you have been selected'', ''click here'', ''free gift'',
       ''act now'', ''limited time'', ''congratulations'', ''claim your'', ''verify now'',
       ''your account has been'']\<rparr>"

definition BULK_PRECEDENCE_VALUES :: "string list" where
  "BULK_PRECEDENCE_VALUES = [''bulk'', ''list'', ''junk'']"

definition SMS_OPT_OUT_KEYWORDS :: "string list" where
  "SMS_OPT_OUT_KEYWORDS =
     [''stop'', ''unsubscribe'', ''opt-out'', ''opt out'', ''cancel'', ''quit'', ''end'']"

definition SHORT_CODE_MAX_LENGTH :: nat where "SHORT_CODE_MAX_LENGTH = 6"

subsection \<open>Senders\<close>

definition normalizeEmail :: "string \<Rightarrow> string" where
  "normalizeEmail email =
     (let lower = js_trim (js_toLowerCase email) in
      if CHR ''@'' \<notin> set lower then lower
      else
        (let localPart = takeWhile (\<lambda>c. c \<noteq> CHR ''@'') lower;
             domain = dropWhile (\<lambda>c. c \<noteq> CHR ''@'') lower
         in if CHR ''+'' \<in> set localPart
            then takeWhile (\<lambda>c. c \<noteq> CHR ''+'') localPart @ domain else lower))"

definition normalizePhone :: "string \<Rightarrow> string" where
  "normalizePhone phone =
     (let hasPlus = js_startsWith phone ''+''; digits = filter decimal_digit phone in
      if length digits = 0 then js_toLowerCase phone
      else if length digits = 10 then ''+1'' @ digits
      else if length digits = 11 \<and> js_startsWith digits ''1'' then ''+'' @ digits
      else if hasPlus then ''+'' @ digits else digits)"

definition normalizeSender :: "string \<Rightarrow> MessageChannel \<Rightarrow> string" where
  "normalizeSender sender channel =
     (case channel of Email \<Rightarrow> normalizeEmail sender | Sms \<Rightarrow> normalizePhone sender)"

subsection \<open>Classification\<close>

datatype spam_reason =
    AllowlistedSender
  | BlocklistedSender
  | BulkPrecedence
  | ListUnsubscribe
  | HighSpamScore
  | BulkMailer string
  | ShortCode
  | OptOutKeyword string
  | SpamPattern string

record SpamFilterResult =
  sr_spam :: bool
  sr_reason :: "spam_reason option"

datatype js_float = Finite rat | PlusInfinity | MinusInfinity

text \<open>\<open>Number.parseFloat\<close>: the longest prefix that is a decimal literal, \<open>None\<close> for \<open>NaN\<close>.\<close>

definition js_parseFloat :: "string \<Rightarrow> js_float option" where
  "js_parseFloat s =
     (let t = dropWhile js_space s;
          (neg, u) = (case t of [] \<Rightarrow> (False, [])
            | c # cs \<Rightarrow> if c = CHR ''-'' then (True, cs) else if c = CHR ''+'' then (False, cs) else (False, t)) in
      if js_startsWith u ''Infinity'' then Some (if neg then MinusInfinity else PlusInfinity)
      else
        (let whole = takeWhile decimal_digit u; r = dropWhile decimal_digit u;
             frac = (case r of c # cs \<Rightarrow> if c = CHR ''.'' then takeWhile decimal_digit cs else [] | [] \<Rightarrow> []);
             r' = (case r of c # cs \<Rightarrow> if c = CHR ''.'' then dropWhile decimal_digit cs else r | [] \<Rightarrow> []);
             (eneg, e) = (case r' of c # cs \<Rightarrow>
                 if c = CHR ''e'' \<or> c = CHR ''E''
                 then (case cs of [] \<Rightarrow> (False, [])
                   | d # ds \<Rightarrow> if d = CHR ''-'' then (True, takeWhile decimal_digit ds)
                       else if d = CHR ''+'' then (False, takeWhile decimal_digit ds)
                       else (False, takeWhile decimal_digit cs))
                 else (False, [])
               | [] \<Rightarrow> (False, []));
             mantissa = of_nat (digits_value (whole @ frac)) / 10 ^ length frac :: rat;
             value = (if eneg then mantissa / 10 ^ digits_value e else mantissa * 10 ^ digits_value e)
         in if whole = [] \<and> frac = [] then None
            else Some (Finite (if neg then - value else value))))"

definition score_at_least :: "js_float \<Rightarrow> rat \<Rightarrow> bool" where
  "score_at_least score threshold =
     (case score of Finite q \<Rightarrow> threshold \<le> q | PlusInfinity \<Rightarrow> True | MinusInfinity \<Rightarrow> False)"

definition normalizeHeaders :: "(string \<times> string) list option \<Rightarrow> (string \<times> string) list" where
  "normalizeHeaders headers =
     (case headers of None \<Rightarrow> []
      | Some hs \<Rightarrow> fold (\<lambda>(key, v). AList.update (js_toLowerCase key) v) hs [])"

text \<open>A header that is present and not empty.\<close>

definition header_value :: "(string \<times> string) list \<Rightarrow> string \<Rightarrow> string option" where
  "header_value headers key =
     (case map_of headers key of Some v \<Rightarrow> if v = [] then None else Some v | None \<Rightarrow> None)"

definition checkEmailSpam :: "InboundMessage \<Rightarrow> SpamFilterConfig \<Rightarrow> SpamFilterResult" where
  "checkEmailSpam message config =
     (let headers = normalizeHeaders (im_headers message);
          spam = (\<lambda>reason. \<lparr>sr_spam = True, sr_reason = Some reason\<rparr>) in
      if (case header_value headers ''precedence'' of None \<Rightarrow> False
          | Some precedence \<Rightarrow> List.member BULK_PRECEDENCE_VALUES (js_toLowerCase precedence))
      then spam BulkPrecedence
      else if header_value headers ''list-unsubscribe'' \<noteq> None then spam ListUnsubscribe
      else if (case header_value headers ''x-spam-score'' of None \<Rightarrow> False
          | Some spamScore \<Rightarrow>
              (case js_parseFloat spamScore of None \<Rightarrow> False
               | Some score \<Rightarrow> score_at_least score (sf_threshold config)))
      then spam HighSpamScore
      else
        (case header_value headers ''x-mailer'' of
           None \<Rightarrow> \<lparr>sr_spam = False, sr_reason = None\<rparr>
         | Some xMailer \<Rightarrow>
             (case find (\<lambda>pattern. js_includes (js_toLowerCase xMailer) (js_toLowerCase pattern))
                 (sf_mailers config) of
                Some pattern \<Rightarrow> spam (BulkMailer pattern)
              | None \<Rightarrow> \<lparr>sr_spam = False, sr_reason = None\<rparr>)))"

definition checkSmsSpam :: "InboundMessage \<Rightarrow> SpamFilterConfig \<Rightarrow> SpamFilterResult" where
  "checkSmsSpam message config =
     (let senderDigits = filter decimal_digit (im_sender message);
          bodyLower = js_toLowerCase (im_body message);
          spam = (\<lambda>reason. \<lparr>sr_spam = True, sr_reason = Some reason\<rparr>) in
      if 0 < length senderDigits \<and> length senderDigits \<le> SHORT_CODE_MAX_LENGTH then spam ShortCode
      else
        (case find (js_includes bodyLower) SMS_OPT_OUT_KEYWORDS of
           Some keyword \<Rightarrow> spam (OptOutKeyword keyword)
         | None \<Rightarrow>
             (case find (\<lambda>pattern. js_includes bodyLower (js_toLowerCase pattern))
                 (sf_sms_patterns config) of
                Some pattern \<Rightarrow> spam (SpamPattern pattern)
              | None \<Rightarrow> \<lparr>sr_spam = False, sr_reason = None\<rparr>)))"

definition isSpam :: "InboundMessage \<Rightarrow> SpamFilterConfig \<Rightarrow> SpamFilterResult" where
  "isSpam message config =
     (let normalizedSender = normalizeSender (im_sender message) (im_channel message) in
      if list_ex (\<lambda>a. normalizeSender a (im_channel message) = normalizedSender) (sf_allowlist config)
      then \<lparr>sr_spam = False, sr_reason = Some AllowlistedSender\<rparr>
      else if list_ex (\<lambda>b. normalizeSender b (im_channel message) = normalizedSender) (sf_blocklist config)
      then \<lparr>sr_spam = True, sr_reason = Some BlocklistedSender\<rparr>
      else (case im_channel message of
          Email \<Rightarrow> checkEmailSpam message config
        | Sms \<Rightarrow> checkSmsSpam message config))"

subsection \<open>Normal forms\<close>

lemma lower_char_idem: "js_lower_char (js_lower_char c) = js_lower_char c"
proof (cases "let n = of_char c :: nat in (65 \<le> n \<and> n \<le> 90) \<or> (192 \<le> n \<and> n \<le> 222 \<and> n \<noteq> 215)")
  case True
  then have "of_char (char_of (of_char c + 32 :: nat) :: char) = (of_char c + 32 :: nat)"
    by (auto simp: Let_def of_char_of)
  with True show ?thesis by (auto simp: js_lower_char_def Let_def)
next
  case False
  then have "js_lower_char c = c" by (simp only: js_lower_char_def Let_def if_False)
  then show ?thesis by simp
qed

lemma toLowerCase_idem: "js_toLowerCase (js_toLowerCase s) = js_toLowerCase s"
  by (simp add: js_toLowerCase_def lower_char_idem)

lemma lower_char_code:
  "of_char (js_lower_char c) =
    (let n = of_char c :: nat in
     if (65 \<le> n \<and> n \<le> 90) \<or> (192 \<le> n \<and> n \<le> 222 \<and> n \<noteq> 215) then n + 32 else n)"
  by (auto simp: js_lower_char_def Let_def of_char_of)

text \<open>Characters that are not letters are untouched, and none becomes one of them.\<close>

lemma lower_char_symbol:
  assumes "of_char d < (65 :: nat)"
  shows "js_lower_char c = d \<longleftrightarrow> c = d"
proof
  assume "js_lower_char c = d"
  then have "of_char (js_lower_char c) = (of_char d :: nat)" by simp
  with assms have "of_char c = (of_char d :: nat)"
    by (auto simp: lower_char_code Let_def split: if_splits)
  then show "c = d" by (metis char_of_char)
next
  assume "c = d"
  with assms show "js_lower_char c = d" by (simp add: js_lower_char_def Let_def)
qed

lemma lower_char_digit: "decimal_digit (js_lower_char c) = decimal_digit c"
  by (auto simp: decimal_digit_def lower_char_code Let_def)

lemma lower_char_space: "js_space (js_lower_char c) = js_space c"
  by (auto simp: js_space_def lower_char_code Let_def)

lemma trim_lower: "js_trim (js_toLowerCase s) = js_toLowerCase (js_trim s)"
proof -
  have drop: "dropWhile js_space (map js_lower_char t) = map js_lower_char (dropWhile js_space t)" for t
    by (simp add: dropWhile_map comp_def lower_char_space)
  show ?thesis unfolding js_trim_def js_toLowerCase_def drop rev_map drop ..
qed

lemma filter_digit_lower: "filter decimal_digit (js_toLowerCase s) = map js_lower_char (filter decimal_digit s)"
  by (simp add: js_toLowerCase_def filter_map comp_def lower_char_digit)

lemma filter_digit_id: "list_all decimal_digit d \<Longrightarrow> filter decimal_digit d = d"
  by (simp add: list_all_iff)

lemma digits_all: "list_all decimal_digit (filter decimal_digit s)"
  by (simp add: list_all_iff)

lemma not_digit_plus [simp]: "\<not> decimal_digit (CHR ''+'')"
  by (simp add: decimal_digit_def)

lemma digit_one [simp]: "decimal_digit (CHR ''1'')"
  by (simp add: decimal_digit_def)

lemma starts_plus_digit: "list_all decimal_digit d \<Longrightarrow> \<not> js_startsWith d ''+''"
  by (cases d) (auto simp: js_startsWith_def)

lemma normalizePhone_idem: "normalizePhone (normalizePhone p) = normalizePhone p"
proof -
  let ?d = "filter decimal_digit p"
  have d: "filter decimal_digit ?d = ?d" "\<not> js_startsWith ?d ''+''"
    using filter_digit_id [OF digits_all] starts_plus_digit [OF digits_all] by simp_all
  have plus: "js_startsWith (CHR ''+'' # x) ''+''" and one: "js_startsWith (CHR ''1'' # x) ''1''" for x
    by (simp_all add: js_startsWith_def)
  show ?thesis
    by (cases "length ?d = 0")
      (auto simp: normalizePhone_def Let_def d plus one filter_digit_lower toLowerCase_idem
        simp del: filter_filter length_0_conv)
qed

text \<open>A trimmed string neither starts nor ends with a space, so trimming it again does nothing.\<close>

definition trimmed :: "string \<Rightarrow> bool" where
  "trimmed s \<longleftrightarrow> s = [] \<or> (\<not> js_space (hd s) \<and> \<not> js_space (last s))"

lemma trimmed_trim: "trimmed s \<Longrightarrow> js_trim s = s"
proof (cases s rule: rev_cases)
  case (snoc t c)
  assume "trimmed s"
  then have "\<not> js_space (hd s)" "\<not> js_space c" by (auto simp: trimmed_def snoc)
  moreover have "dropWhile js_space x = x" if "x \<noteq> []" "\<not> js_space (hd x)" for x
    using that by (cases x) simp_all
  ultimately have "dropWhile js_space s = s" "dropWhile js_space (rev s) = rev s"
    by (simp_all add: snoc)
  then show ?thesis by (simp add: js_trim_def)
qed (simp add: js_trim_def)

lemma dropWhile_start: "dropWhile P xs = [] \<or> \<not> P (hd (dropWhile P xs))"
  by (induction xs) auto

lemma js_trim_trimmed: "trimmed (js_trim s)"
proof (cases "js_trim s = []")
  case False
  let ?t = "dropWhile js_space s"
  have last: "\<not> js_space (hd (dropWhile js_space (rev ?t)))"
    using dropWhile_start [of js_space "rev ?t"] False by (auto simp: js_trim_def)
  obtain c cs where c: "js_trim s = c # cs" using False by (cases "js_trim s") auto
  have "prefix (js_trim s) ?t"
    using suffix_dropWhile [of js_space "rev ?t"] by (simp add: js_trim_def suffix_to_prefix)
  then obtain zs where "?t = c # cs @ zs" by (auto simp: c prefix_def)
  then have "\<not> js_space (hd (js_trim s))"
    using dropWhile_start [of js_space s] by (simp add: c)
  with last False show ?thesis by (simp add: trimmed_def js_trim_def last_rev)
qed (simp add: trimmed_def)

definition strip_alias :: "string \<Rightarrow> string" where
  "strip_alias lower =
     (if CHR ''@'' \<in> set lower
      then takeWhile (\<lambda>c. c \<noteq> CHR ''+'') (takeWhile (\<lambda>c. c \<noteq> CHR ''@'') lower)
        @ dropWhile (\<lambda>c. c \<noteq> CHR ''@'') lower
      else lower)"

lemma takeWhile_absent: "c \<notin> set s \<Longrightarrow> takeWhile (\<lambda>x. x \<noteq> c) s = s"
  by (auto simp: takeWhile_eq_all_conv)

lemma normalizeEmail_strip: "normalizeEmail e = strip_alias (js_trim (js_toLowerCase e))"
proof -
  let ?t = "js_trim (js_toLowerCase e)"
  let ?l = "takeWhile (\<lambda>c. c \<noteq> CHR ''@'') ?t"
  show ?thesis
  proof (cases "CHR ''+'' \<in> set ?l")
    case True
    then show ?thesis by (simp add: normalizeEmail_def strip_alias_def Let_def)
  next
    case False
    then have eq: "takeWhile (\<lambda>c. c \<noteq> CHR ''+'') ?l = ?l" by (rule takeWhile_absent)
    show ?thesis
      unfolding normalizeEmail_def strip_alias_def Let_def eq takeWhile_dropWhile_id
      by (simp only: False if_False if_cancel)
  qed
qed

lemma takeWhile_neq_append: "c \<notin> set xs \<Longrightarrow> takeWhile (\<lambda>x. x \<noteq> c) (xs @ c # ys) = xs"
  by (subst takeWhile_append2) auto

lemma dropWhile_neq_append: "c \<notin> set xs \<Longrightarrow> dropWhile (\<lambda>x. x \<noteq> c) (xs @ c # ys) = c # ys"
  by (subst dropWhile_append2) auto

lemma strip_alias_split:
  assumes "CHR ''@'' \<notin> set l"
  shows "strip_alias (l @ ''@'' @ d) = takeWhile (\<lambda>c. c \<noteq> CHR ''+'') l @ ''@'' @ d"
  using takeWhile_neq_append [OF assms, of d] dropWhile_neq_append [OF assms, of d] by (simp add: strip_alias_def)

lemma split_at_sign:
  assumes "CHR ''@'' \<in> set s"
  obtains l d where "s = l @ ''@'' @ d" and "CHR ''@'' \<notin> set l"
  using split_list_first [OF assms] by auto

lemma strip_alias_idem: "strip_alias (strip_alias s) = strip_alias s"
proof (cases "CHR ''@'' \<in> set s")
  case True
  then obtain l d where s: "s = l @ ''@'' @ d" and l: "CHR ''@'' \<notin> set l" by (rule split_at_sign)
  have "CHR ''@'' \<notin> set (takeWhile (\<lambda>c. c \<noteq> CHR ''+'') l)" using l by (auto dest: set_takeWhileD)
  from strip_alias_split [OF this, of d] strip_alias_split [OF l, of d] show ?thesis
    by (simp only: s takeWhile_idem)
qed (simp add: strip_alias_def)

lemma strip_alias_trimmed:
  assumes "trimmed s"
  shows "trimmed (strip_alias s)"
proof (cases "CHR ''@'' \<in> set s")
  case True
  then obtain l d where s: "s = l @ ''@'' @ d" and l: "CHR ''@'' \<notin> set l" by (rule split_at_sign)
  have "\<not> js_space (CHR ''@'')" by (simp add: js_space_def)
  then show ?thesis
    using assms unfolding s strip_alias_split [OF l]
    by (cases l) (auto simp: trimmed_def split: if_splits)
qed (use assms in \<open>simp add: strip_alias_def\<close>)

lemma strip_alias_lower:
  assumes "js_toLowerCase s = s"
  shows "js_toLowerCase (strip_alias s) = strip_alias s"
proof -
  have "\<forall>c \<in> set s. js_lower_char c = c"
    using assms map_eq_conv [of js_lower_char s "\<lambda>c. c"] by (simp add: js_toLowerCase_def)
  then have "\<forall>c \<in> set (strip_alias s). js_lower_char c = c"
    by (auto simp: strip_alias_def dest: set_takeWhileD set_dropWhileD)
  then show ?thesis by (simp add: js_toLowerCase_def map_idI)
qed

lemma normalizeEmail_idem: "normalizeEmail (normalizeEmail e) = normalizeEmail e"
proof -
  let ?t = "js_trim (js_toLowerCase e)"
  have "js_toLowerCase ?t = ?t" by (simp add: trim_lower toLowerCase_idem)
  from strip_alias_lower [OF this] trimmed_trim [OF strip_alias_trimmed [OF js_trim_trimmed]]
  show ?thesis by (simp add: normalizeEmail_strip strip_alias_idem)
qed

lemma strip_alias_tag:
  assumes "CHR ''@'' \<notin> set l" and "CHR ''+'' \<notin> set l" and "CHR ''@'' \<notin> set t"
  shows "strip_alias (l @ ''+'' @ t @ ''@'' @ d) = strip_alias (l @ ''@'' @ d)"
proof -
  have at: "CHR ''@'' \<notin> set (l @ CHR ''+'' # t)" using assms by simp
  have "strip_alias ((l @ CHR ''+'' # t) @ ''@'' @ d) =
      takeWhile (\<lambda>c. c \<noteq> CHR ''+'') (l @ CHR ''+'' # t) @ ''@'' @ d"
    by (rule strip_alias_split [OF at])
  then show ?thesis
    using strip_alias_split [OF assms(1), of d] takeWhile_neq_append [OF assms(2), of t]
      takeWhile_absent [OF assms(2)] by simp
qed

lemma lower_append: "js_toLowerCase (s @ t) = js_toLowerCase s @ js_toLowerCase t"
  by (simp add: js_toLowerCase_def)

lemma lower_sign: "js_toLowerCase [CHR ''@''] = ''@''" "js_toLowerCase [CHR ''+''] = ''+''"
  by (simp_all add: js_toLowerCase_def js_lower_char_def)

lemma lower_absent: "of_char d < (65 :: nat) \<Longrightarrow> d \<notin> set s \<Longrightarrow> d \<notin> set (js_toLowerCase s)"
  by (auto simp: js_toLowerCase_def) (metis lower_char_symbol)

text \<open>Trimming an address splits at the sign: only the front loses spaces before it.\<close>

lemma trim_at_sign:
  assumes "\<not> js_space c"
  shows "js_trim (l @ c # d) = dropWhile js_space l @ c # rev (dropWhile js_space (rev d))"
proof -
  have front: "dropWhile js_space (l @ c # d) = dropWhile js_space l @ c # d"
    using assms by (induction l) simp_all
  have rear: "dropWhile js_space (rev d @ c # x) = dropWhile js_space (rev d) @ c # x" for x
    using assms by (induction "rev d" arbitrary: d) (simp_all add: dropWhile_append)
  show ?thesis by (simp add: js_trim_def front rear)
qed

lemma normalizeEmail_tag:
  assumes "CHR ''@'' \<notin> set l" and "CHR ''+'' \<notin> set l" and "CHR ''@'' \<notin> set t"
  shows "normalizeEmail (l @ ''+'' @ t @ ''@'' @ d) = normalizeEmail (l @ ''@'' @ d)"
proof -
  let ?l = "js_toLowerCase l" and ?t = "js_toLowerCase t" and ?d = "js_toLowerCase d"
  let ?dl = "dropWhile js_space ?l" and ?dd = "rev (dropWhile js_space (rev ?d))"
  have signs: "\<not> js_space (CHR ''@'')" "\<not> js_space (CHR ''+'')" by (simp_all add: js_space_def)
  have low: "CHR ''@'' \<notin> set ?l" "CHR ''+'' \<notin> set ?l" "CHR ''@'' \<notin> set ?t"
    using lower_absent assms by simp_all
  have at: "rev (dropWhile js_space (rev (?t @ CHR ''@'' # ?d))) = ?t @ CHR ''@'' # ?dd"
    using signs(1) by (induction "rev ?d" arbitrary: d) (simp_all add: dropWhile_append)
  have "js_trim (js_toLowerCase (l @ ''+'' @ t @ ''@'' @ d)) = ?dl @ ''+'' @ ?t @ ''@'' @ ?dd"
    using trim_at_sign [OF signs(2), of ?l "?t @ CHR ''@'' # ?d"] at
    by (simp add: lower_append js_toLowerCase_def js_lower_char_def)
  moreover have "js_trim (js_toLowerCase (l @ ''@'' @ d)) = ?dl @ ''@'' @ ?dd"
    using trim_at_sign [OF signs(1), of ?l ?d]
    by (simp add: lower_append js_toLowerCase_def js_lower_char_def)
  moreover have "CHR ''@'' \<notin> set ?dl" "CHR ''+'' \<notin> set ?dl"
    using low by (auto dest: set_dropWhileD)
  ultimately show ?thesis using low strip_alias_tag [of ?dl ?t ?dd] by (simp add: normalizeEmail_strip)
qed

lemma isSpam_email_cong:
  assumes "normalizeEmail a = normalizeEmail b"
  shows "isSpam (m\<lparr>im_channel := Email, im_sender := a\<rparr>) cfg =
    isSpam (m\<lparr>im_channel := Email, im_sender := b\<rparr>) cfg"
  using assms by (simp add: isSpam_def normalizeSender_def checkEmailSpam_def Let_def)

lemma normalizePhone_us:
  assumes "length (filter decimal_digit p) = 10"
  shows "normalizePhone p = ''+1'' @ filter decimal_digit p"
    and "filter decimal_digit q = CHR ''1'' # filter decimal_digit p \<Longrightarrow> normalizePhone q = normalizePhone p"
  using assms by (auto simp: normalizePhone_def Let_def js_startsWith_def)

subsection \<open>Properties\<close>

text \<open>
  A sender cannot be varied past the lists: the normal form is stable, an address with an
  alias tag and in any letter case has the normal form of the plain one, so the verdict on an email
  is the same for both; and a ten-digit number has one normal form however it is punctuated, with
  or without its country code.
\<close>

theorem normalizeSender_spec:
  assumes "CHR ''@'' \<notin> set l" and "CHR ''+'' \<notin> set l" and "CHR ''@'' \<notin> set tag"
    and "length (filter decimal_digit p) = 10"
    and "filter decimal_digit q = CHR ''1'' # filter decimal_digit p"
  shows "normalizeSender (normalizeSender s ch) ch = normalizeSender s ch \<and>
    normalizeSender (js_toLowerCase s) Email = normalizeSender s Email \<and>
    isSpam (m\<lparr>im_channel := Email, im_sender := l @ ''+'' @ tag @ ''@'' @ d\<rparr>) cfg =
      isSpam (m\<lparr>im_channel := Email, im_sender := l @ ''@'' @ d\<rparr>) cfg \<and>
    normalizeSender p Sms = ''+1'' @ filter decimal_digit p \<and>
    normalizeSender q Sms = normalizeSender p Sms"
proof -
  have "normalizeSender (normalizeSender s ch) ch = normalizeSender s ch"
    by (cases ch) (simp_all add: normalizeSender_def normalizeEmail_idem normalizePhone_idem)
  moreover have "normalizeSender (js_toLowerCase s) Email = normalizeSender s Email"
    by (simp add: normalizeSender_def normalizeEmail_strip toLowerCase_idem)
  ultimately show ?thesis
    using isSpam_email_cong [OF normalizeEmail_tag [OF assms(1-3)]] normalizePhone_us [OF assms(4)]
      assms(5) by (simp add: normalizeSender_def)
qed

theorem normalizeSender_spec_witness:
  "isSpam \<lparr>im_channel = Email, im_sender = ''ann+x@a.io'', im_recipient = ''b'', im_body = [],
     im_headers = None\<rparr> DEFAULT_SPAM_FILTER_CONFIG =
   isSpam \<lparr>im_channel = Email, im_sender = ''ann@a.io'', im_recipient = ''b'', im_body = [],
     im_headers = None\<rparr> DEFAULT_SPAM_FILTER_CONFIG"
  using normalizeSender_spec [where l = "''ann''" and tag = "''x''" and d = "''a.io''"
      and p = "''(555) 123-4567''" and q = "''+1 555 123 4567''" and s = "[]" and ch = Sms and cfg = DEFAULT_SPAM_FILTER_CONFIG
      and m = "\<lparr>im_channel = Email, im_sender = [], im_recipient = ''b'', im_body = [],
        im_headers = None\<rparr>"]
  by (simp add: decimal_digit_def)

end
