(* ===== verification/Windows.thy ===== *)
theory Windows
  imports Prelude
begin

text \<open>
  Times in a window: what the limiters of the program promise is a bound on the number of events in
  every window of some length.
\<close>

text \<open>At most \<open>L\<close> of the times lie in any window of length \<open>W\<close>.\<close>

definition window_bounded :: "int \<Rightarrow> int \<Rightarrow> millis list \<Rightarrow> bool" where
  "window_bounded W L ts \<longleftrightarrow> (\<forall>T. int (length (filter (\<lambda>t. T - W < t \<and> t \<le> T) ts)) \<le> L)"

lemma window_bounded_snoc:
  assumes "window_bounded W L ts" and "\<forall>t \<in> set ts. t \<le> now"
    and "int (length (filter (\<lambda>t. now - W < t) ts)) < L"
  shows "window_bounded W L (ts @ [now])"
  unfolding window_bounded_def
proof
  fix T
  show "int (length (filter (\<lambda>t. T - W < t \<and> t \<le> T) (ts @ [now]))) \<le> L"
  proof (cases "T - W < now \<and> now \<le> T")
    case True
    have "length (filter (\<lambda>t. T - W < t \<and> t \<le> T) ts) \<le> length (filter (\<lambda>t. now - W < t) ts)"
      using True by (induction ts) auto
    with assms(3) True show ?thesis by simp
  next
    case False
    then have "filter (\<lambda>t. T - W < t \<and> t \<le> T) (ts @ [now]) = filter (\<lambda>t. T - W < t \<and> t \<le> T) ts"
      by auto
    with assms(1) show ?thesis by (simp add: window_bounded_def)
  qed
qed

lemma filter_later:
  assumes "filter (\<lambda>t. a < t) xs = filter (\<lambda>t. a < t) ys" and "a \<le> (b :: int)"
  shows "filter (\<lambda>t. b < t) xs = filter (\<lambda>t. b < t) ys"
proof -
  have "filter (\<lambda>t. b < t) zs = filter (\<lambda>t. b < t) (filter (\<lambda>t. a < t) zs)" for zs
    using assms(2) by (induction zs) auto
  with assms(1) show ?thesis by metis
qed

end
