(* ===== verification/InboundLimiter.thy ===== *)
theory InboundLimiter
  imports SpamFilter Windows
begin

text \<open>
  \<^verbatim>\<open>src/packages/openclaw-plugin/src/utils/rate-limiter.ts\<close>: the sliding-window limiter for
  inbound messages, per sender and per recipient. A \<open>Map\<close> is an association list in insertion
  order; the closure's variables are the record \<open>limiter\<close>. Times are arguments. The \<open>NaN\<close> the
  code computes for the time to retry after when a limit is not positive is \<open>None\<close>.
\<close>

datatype SenderTrust = Trusted | Known | UnknownSender | Blocked

record RateLimiterConfig =
  rc_trusted :: int
  rc_known :: int
  rc_unknown :: int
  rc_recipient :: int
  rc_window :: int
  rc_max_entries :: "nat option"

definition DEFAULT_RATE_LIMITER_CONFIG :: RateLimiterConfig where
  "DEFAULT_RATE_LIMITER_CONFIG = \<lparr>rc_trusted = 100, rc_known = 50, rc_unknown = 5,
     rc_recipient = 200, rc_window = 3600000, rc_max_entries = Some 10000\<rparr>"

datatype limit_reason = SenderBlocked | SenderLimit nat int | RecipientLimit nat int

record RateLimitResult =
  rl_allowed :: bool
  rl_reason :: "limit_reason option"
  rl_remaining :: int
  rl_limit :: int
  rl_retry_after :: "int option"

definition CLEANUP_INTERVAL_CHECKS :: nat where "CLEANUP_INTERVAL_CHECKS = 100"

type_synonym windows = "(string \<times> millis list) list"

record limiter =
  lm_senders :: windows
  lm_recipients :: windows
  lm_checks :: nat

definition createRateLimiter :: limiter where
  "createRateLimiter = \<lparr>lm_senders = [], lm_recipients = [], lm_checks = 0\<rparr>"

fun getLimitForTrust :: "RateLimiterConfig \<Rightarrow> SenderTrust \<Rightarrow> int" where
  "getLimitForTrust cfg Trusted = rc_trusted cfg"
| "getLimitForTrust cfg Known = rc_known cfg"
| "getLimitForTrust cfg UnknownSender = rc_unknown cfg"
| "getLimitForTrust cfg Blocked = 0"

definition pruneWindow :: "RateLimiterConfig \<Rightarrow> millis list \<Rightarrow> millis \<Rightarrow> millis list" where
  "pruneWindow cfg timestamps now = (let cutoff = now - rc_window cfg in filter (\<lambda>ts. cutoff < ts) timestamps)"

definition cleanup_windows :: "RateLimiterConfig \<Rightarrow> millis \<Rightarrow> windows \<Rightarrow> windows" where
  "cleanup_windows cfg now m =
     filter (\<lambda>e. snd e \<noteq> []) (map (\<lambda>(key, ts). (key, pruneWindow cfg ts now)) m)"

definition cleanup :: "RateLimiterConfig \<Rightarrow> millis \<Rightarrow> limiter \<Rightarrow> limiter" where
  "cleanup cfg now st =
     st\<lparr>lm_senders := cleanup_windows cfg now (lm_senders st),
        lm_recipients := cleanup_windows cfg now (lm_recipients st)\<rparr>"

definition evictIfOverCapacity :: "RateLimiterConfig \<Rightarrow> limiter \<Rightarrow> limiter" where
  "evictIfOverCapacity cfg st =
     (let maxEntries = (case rc_max_entries cfg of Some n \<Rightarrow> n | None \<Rightarrow> 10000);
          m = lm_senders st in
      if length m \<le> maxEntries then st
      else
        (let entries = sort_key snd (map (\<lambda>(key, ts). (key, if ts = [] then 0 else last ts)) m);
             toEvict = length m - maxEntries;
             gone = map fst (take toEvict entries)
         in st\<lparr>lm_senders := filter (\<lambda>e. \<not> List.member gone (fst e)) m\<rparr>))"

definition window_of :: "windows \<Rightarrow> string \<Rightarrow> millis list" where
  "window_of m key = (case map_of m key of None \<Rightarrow> [] | Some ts \<Rightarrow> ts)"

text \<open>A call of \<open>check\<close>: its time and arguments, with the keys it is counted under.\<close>

record limiter_call =
  lc_now :: millis
  lc_sender :: string
  lc_recipient :: string
  lc_trust :: SenderTrust
  lc_channel :: "MessageChannel option"

definition channel_for :: "MessageChannel option \<Rightarrow> string \<Rightarrow> MessageChannel" where
  "channel_for channel address =
     (case channel of Some ch \<Rightarrow> ch
      | None \<Rightarrow> if List.member address (CHR ''@'') then Email else Sms)"

definition sender_key :: "limiter_call \<Rightarrow> string" where
  "sender_key c = normalizeSender (lc_sender c) (channel_for (lc_channel c) (lc_sender c))"

definition recipient_key :: "limiter_call \<Rightarrow> string" where
  "recipient_key c = normalizeSender (lc_recipient c) (channel_for (lc_channel c) (lc_recipient c))"

definition before_check :: "RateLimiterConfig \<Rightarrow> millis \<Rightarrow> limiter \<Rightarrow> limiter" where
  "before_check cfg now st =
     (let st = st\<lparr>lm_checks := lm_checks st + 1\<rparr> in
      if lm_checks st mod CLEANUP_INTERVAL_CHECKS = 0 then evictIfOverCapacity cfg (cleanup cfg now st)
      else st)"

definition denied :: "limit_reason \<Rightarrow> int \<Rightarrow> int option \<Rightarrow> RateLimitResult" where
  "denied reason limit retryAfter = \<lparr>rl_allowed = False, rl_reason = Some reason, rl_remaining = 0,
     rl_limit = limit, rl_retry_after = retryAfter\<rparr>"

definition check :: "RateLimiterConfig \<Rightarrow> limiter_call \<Rightarrow> limiter \<Rightarrow> RateLimitResult \<times> limiter" where
  "check cfg c st0 =
     (let now = lc_now c;
          st = before_check cfg now st0;
          limit = getLimitForTrust cfg (lc_trust c) in
      if lc_trust c = Blocked then (denied SenderBlocked 0 None, st)
      else
        (let senderTimestamps = pruneWindow cfg (window_of (lm_senders st) (sender_key c)) now in
         if limit \<le> int (length senderTimestamps)
         then (denied (SenderLimit (length senderTimestamps) limit) limit
                 (case senderTimestamps of [] \<Rightarrow> None
                  | oldestTs # _ \<Rightarrow> Some (max 0 (oldestTs + rc_window cfg - now))), st)
         else
           (let recipientTimestamps = pruneWindow cfg (window_of (lm_recipients st) (recipient_key c)) now in
            if rc_recipient cfg \<le> int (length recipientTimestamps)
            then (denied (RecipientLimit (length recipientTimestamps) (rc_recipient cfg)) (rc_recipient cfg)
                    (case recipientTimestamps of [] \<Rightarrow> None
                     | oldestTs # _ \<Rightarrow> Some (max 0 (oldestTs + rc_window cfg - now))), st)
            else
              (\<lparr>rl_allowed = True, rl_reason = None,
                 rl_remaining = limit - int (length senderTimestamps + 1), rl_limit = limit,
                 rl_retry_after = None\<rparr>,
               st\<lparr>lm_senders := AList.update (sender_key c) (senderTimestamps @ [now]) (lm_senders st),
                  lm_recipients := AList.update (recipient_key c) (recipientTimestamps @ [now])
                    (lm_recipients st)\<rparr>))))"

definition getStats :: "limiter \<Rightarrow> nat \<times> nat" where
  "getStats st = (length (lm_senders st), length (lm_recipients st))"

subsection \<open>Windows of times\<close>

lemma window_of_update:
  "window_of (AList.update k ts m) j = (if j = k then ts else window_of m j)"
  by (simp add: window_of_def update_conv')

lemma window_of_cleanup:
  assumes "distinct (map fst m)"
  shows "window_of (cleanup_windows cfg now m) k = pruneWindow cfg (window_of m k) now"
  using assms
proof (induction m)
  case Nil
  then show ?case by (simp add: cleanup_windows_def window_of_def pruneWindow_def)
next
  case (Cons e m)
  obtain j ts where e: "e = (j, ts)" by (cases e)
  have rest: "window_of (cleanup_windows cfg now m) k = pruneWindow cfg (window_of m k) now"
    using Cons by simp
  have fresh: "window_of m j = []"
    using Cons.prems by (auto simp: e window_of_def dest: map_of_SomeD split: option.splits)
      (metis fst_conv image_eqI map_of_SomeD)
  show ?case
  proof (cases "pruneWindow cfg ts now = []")
    case True
    then have "cleanup_windows cfg now (e # m) = cleanup_windows cfg now m"
      by (simp add: e cleanup_windows_def)
    then show ?thesis
      using True rest fresh by (cases "k = j") (simp_all add: e window_of_def pruneWindow_def)
  next
    case False
    then have "cleanup_windows cfg now (e # m) = (j, pruneWindow cfg ts now) # cleanup_windows cfg now m"
      by (simp add: e cleanup_windows_def)
    then show ?thesis using rest by (simp add: e window_of_def)
  qed
qed

lemma cleanup_keys:
  "set (map fst (cleanup_windows cfg now m)) \<subseteq> set (map fst m)"
  "distinct (map fst m) \<Longrightarrow> distinct (map fst (cleanup_windows cfg now m))"
proof -
  have keys: "map fst (map (\<lambda>(key, ts). (key, pruneWindow cfg ts now)) m) = map fst m"
    by (induction m) auto
  show "set (map fst (cleanup_windows cfg now m)) \<subseteq> set (map fst m)"
    by (force simp: cleanup_windows_def)
  show "distinct (map fst (cleanup_windows cfg now m))" if "distinct (map fst m)"
    using that distinct_map_filter [of fst "map (\<lambda>(key, ts). (key, pruneWindow cfg ts now)) m"]
    unfolding cleanup_windows_def keys by simp
qed

subsection \<open>The windows track what was allowed\<close>

fun allowed_calls :: "RateLimiterConfig \<Rightarrow> limiter \<Rightarrow> limiter_call list \<Rightarrow> limiter_call list" where
  "allowed_calls cfg st [] = []"
| "allowed_calls cfg st (c # cs) =
     (case check cfg c st of (r, st') \<Rightarrow>
        (if rl_allowed r then [c] else []) @ allowed_calls cfg st' cs)"

definition times_of :: "(limiter_call \<Rightarrow> string) \<Rightarrow> string \<Rightarrow> limiter_call list \<Rightarrow> millis list" where
  "times_of key k H = map lc_now (filter (\<lambda>c. key c = k) H)"

text \<open>Within the window that ends now, a map holds exactly the times allowed under each key.\<close>

definition tracks ::
  "int \<Rightarrow> millis \<Rightarrow> windows \<Rightarrow> (limiter_call \<Rightarrow> string) \<Rightarrow> limiter_call list \<Rightarrow> bool" where
  "tracks W now m key H \<longleftrightarrow> distinct (map fst m) \<and>
     (\<forall>k. filter (\<lambda>t. now - W < t) (window_of m k) = filter (\<lambda>t. now - W < t) (times_of key k H))"

lemma tracks_later: "tracks W now m key H \<Longrightarrow> now \<le> now' \<Longrightarrow> tracks W now' m key H"
  unfolding tracks_def by (meson filter_later diff_right_mono)

lemma tracks_cleanup:
  "tracks (rc_window cfg) now m key H \<Longrightarrow>
    tracks (rc_window cfg) now (cleanup_windows cfg now m) key H"
  by (simp add: tracks_def cleanup_keys window_of_cleanup pruneWindow_def Let_def)

lemma tracks_length:
  "tracks (rc_window cfg) now m key H \<Longrightarrow>
    pruneWindow cfg (window_of m k) now = filter (\<lambda>t. now - rc_window cfg < t) (times_of key k H)"
  by (simp add: tracks_def pruneWindow_def Let_def)

lemma tracks_allow:
  assumes "tracks (rc_window cfg) now m key H" and "lc_now c = now"
  shows "tracks (rc_window cfg) now
    (AList.update (key c) (pruneWindow cfg (window_of m (key c)) now @ [now]) m) key (H @ [c])"
proof -
  have "filter (\<lambda>t. now - rc_window cfg < t) (window_of (AList.update (key c)
      (pruneWindow cfg (window_of m (key c)) now @ [now]) m) k) =
      filter (\<lambda>t. now - rc_window cfg < t) (times_of key k (H @ [c]))" for k
    using assms by (simp add: window_of_update times_of_def tracks_def pruneWindow_def Let_def)
  moreover have "distinct (map fst (AList.update (key c)
      (pruneWindow cfg (window_of m (key c)) now @ [now]) m))"
    using assms(1) by (simp add: tracks_def distinct_update)
  ultimately show ?thesis by (simp add: tracks_def)
qed

text \<open>What a check does to one of the two maps.\<close>

definition stepped ::
  "RateLimiterConfig \<Rightarrow> (limiter_call \<Rightarrow> string) \<Rightarrow> int \<Rightarrow> limiter_call \<Rightarrow> bool \<Rightarrow> windows \<Rightarrow> windows \<Rightarrow> bool" where
  "stepped cfg key limit c allowed m m' \<longleftrightarrow>
     (if allowed
      then int (length (pruneWindow cfg (window_of m (key c)) (lc_now c))) < limit \<and>
        m' = AList.update (key c) (pruneWindow cfg (window_of m (key c)) (lc_now c) @ [lc_now c]) m
      else m' = m)"

lemma check_steps:
  assumes "check cfg c st = (r, st')"
  shows "stepped cfg recipient_key (rc_recipient cfg) c (rl_allowed r)
      (lm_recipients (before_check cfg (lc_now c) st)) (lm_recipients st')"
    and "stepped cfg sender_key (getLimitForTrust cfg (lc_trust c)) c (rl_allowed r)
      (lm_senders (before_check cfg (lc_now c) st)) (lm_senders st')"
    and "rl_allowed r \<Longrightarrow> lc_trust c \<noteq> Blocked"
  using assms by (auto simp: check_def stepped_def denied_def Let_def split: if_splits)

lemma before_check_recipients:
  "lm_recipients (before_check cfg now st) \<in>
    {lm_recipients st, cleanup_windows cfg now (lm_recipients st)}"
  by (simp add: before_check_def evictIfOverCapacity_def cleanup_def Let_def)

definition evict_size :: "RateLimiterConfig \<Rightarrow> nat" where
  "evict_size cfg = (case rc_max_entries cfg of Some n \<Rightarrow> n | None \<Rightarrow> 10000)"

lemma before_check_senders:
  assumes "length (lm_senders st) \<le> evict_size cfg"
  shows "lm_senders (before_check cfg now st) \<in>
    {lm_senders st, cleanup_windows cfg now (lm_senders st)}"
proof -
  have "length (cleanup_windows cfg now (lm_senders st)) \<le> length (lm_senders st)"
    using length_filter_le [of _ "map (\<lambda>(key, ts). (key, pruneWindow cfg ts now)) (lm_senders st)"]
    by (simp add: cleanup_windows_def)
  with assms show ?thesis
    by (auto simp: before_check_def evictIfOverCapacity_def cleanup_def evict_size_def Let_def)
qed

lemma step_tracks:
  assumes "tracks (rc_window cfg) t0 m0 key H" and "t0 \<le> lc_now c"
    and "m \<in> {m0, cleanup_windows cfg (lc_now c) m0}" and "stepped cfg key L c ok m m'"
    and "\<forall>h \<in> set H. lc_now h \<le> t0" and "\<forall>k. window_bounded (rc_window cfg) (B k) (times_of key k H)"
    and "ok \<Longrightarrow> L \<le> B (key c)"
  shows "tracks (rc_window cfg) (lc_now c) m' key (H @ (if ok then [c] else [])) \<and>
    (\<forall>k. window_bounded (rc_window cfg) (B k) (times_of key k (H @ (if ok then [c] else []))))"
proof -
  have m: "tracks (rc_window cfg) (lc_now c) m key H"
    using tracks_later [OF assms(1,2)] tracks_cleanup assms(3) by blast
  show ?thesis
  proof (cases ok)
    case False
    with m assms(4,6) show ?thesis by (simp add: stepped_def)
  next
    case True
    have "int (length (filter (\<lambda>t. lc_now c - rc_window cfg < t) (times_of key (key c) H))) < B (key c)"
      using True assms(4,7) tracks_length [OF m, of "key c"] by (simp add: stepped_def)
    then have "window_bounded (rc_window cfg) (B (key c)) (times_of key (key c) H @ [lc_now c])"
      using assms(2,5,6) by (intro window_bounded_snoc) (auto simp: times_of_def)
    moreover have "times_of key k (H @ [c]) =
        (if k = key c then times_of key k H @ [lc_now c] else times_of key k H)" for k
      by (simp add: times_of_def)
    ultimately show ?thesis
      using True assms(4,6) tracks_allow [OF m refl] by (simp add: stepped_def)
  qed
qed

lemma recipients_run:
  assumes "tracks (rc_window cfg) t0 (lm_recipients st) recipient_key H"
    and "\<forall>h \<in> set H. lc_now h \<le> t0" and "sorted (t0 # map lc_now calls)"
    and "\<forall>k. window_bounded (rc_window cfg) (rc_recipient cfg) (times_of recipient_key k H)"
  shows "window_bounded (rc_window cfg) (rc_recipient cfg)
    (times_of recipient_key k (H @ allowed_calls cfg st calls))"
  using assms
proof (induction calls arbitrary: st H t0)
  case (Cons c calls)
  obtain r st' where chk: "check cfg c st = (r, st')" by fastforce
  have t: "t0 \<le> lc_now c" using Cons.prems(3) by simp
  let ?H = "H @ (if rl_allowed r then [c] else [])"
  have "tracks (rc_window cfg) (lc_now c) (lm_recipients st') recipient_key ?H \<and>
      (\<forall>k. window_bounded (rc_window cfg) (rc_recipient cfg) (times_of recipient_key k ?H))"
    by (rule step_tracks [OF Cons.prems(1) t before_check_recipients check_steps(1) [OF chk]
          Cons.prems(2,4)]) simp
  moreover have "\<forall>h \<in> set ?H. lc_now h \<le> lc_now c" using Cons.prems(2) t by force
  moreover have "sorted (lc_now c # map lc_now calls)" using Cons.prems(3) by simp
  ultimately have "window_bounded (rc_window cfg) (rc_recipient cfg)
      (times_of recipient_key k (?H @ allowed_calls cfg st' calls))"
    using Cons.IH by blast
  then show ?case by (simp add: chk)
qed simp

lemma senders_run:
  assumes "tracks (rc_window cfg) t0 (lm_senders st) sender_key H"
    and "\<forall>h \<in> set H. lc_now h \<le> t0" and "sorted (t0 # map lc_now calls)"
    and "\<forall>k. window_bounded (rc_window cfg) (B k) (times_of sender_key k H)"
    and "fst ` set (lm_senders st) \<union> sender_key ` set calls \<subseteq> K" and "finite K" and "card K \<le> evict_size cfg"
    and "\<forall>c \<in> set calls. getLimitForTrust cfg (lc_trust c) \<le> B (sender_key c)"
  shows "window_bounded (rc_window cfg) (B k) (times_of sender_key k (H @ allowed_calls cfg st calls))"
  using assms
proof (induction calls arbitrary: st H t0)
  case (Cons c calls)
  obtain r st' where chk: "check cfg c st = (r, st')" by fastforce
  have t: "t0 \<le> lc_now c" using Cons.prems(3) by simp
  let ?H = "H @ (if rl_allowed r then [c] else [])" and ?m = "lm_senders (before_check cfg (lc_now c) st)"
  have "length (lm_senders st) = card (fst ` set (lm_senders st))"
    using Cons.prems(1) by (metis tracks_def distinct_card length_map list.set_map)
  also have "\<dots> \<le> card K" using Cons.prems(5,6) by (intro card_mono) auto
  finally have size: "length (lm_senders st) \<le> evict_size cfg" using Cons.prems(7) by simp
  have "tracks (rc_window cfg) (lc_now c) (lm_senders st') sender_key ?H \<and>
      (\<forall>k. window_bounded (rc_window cfg) (B k) (times_of sender_key k ?H))"
    by (rule step_tracks [OF Cons.prems(1) t before_check_senders [OF size] check_steps(2) [OF chk]
          Cons.prems(2,4)]) (use Cons.prems(8) in simp)
  moreover have "\<forall>h \<in> set ?H. lc_now h \<le> lc_now c" using Cons.prems(2) t by force
  moreover have "sorted (lc_now c # map lc_now calls)" using Cons.prems(3) by simp
  moreover have "fst ` set (lm_senders st') \<subseteq> K"
  proof -
    have "set (map fst ?m) \<subseteq> set (map fst (lm_senders st))"
      using before_check_senders [OF size, of "lc_now c"] cleanup_keys(1) [of cfg "lc_now c" "lm_senders st"]
      by (metis insertE singletonD order_refl)
    then have sub: "fst ` set ?m \<subseteq> fst ` set (lm_senders st)" by simp
    have "lm_senders st' = ?m \<or> (\<exists>ts. lm_senders st' = AList.update (sender_key c) ts ?m)"
      using check_steps(2) [OF chk] by (auto simp: stepped_def split: if_splits)
    then have "fst ` set (lm_senders st') \<subseteq> insert (sender_key c) (fst ` set ?m)"
      by (elim disjE exE) (simp_all add: dom_update subset_insertI)
    moreover have "sender_key c \<in> K" and "fst ` set (lm_senders st) \<subseteq> K"
      using Cons.prems(5) by simp_all
    ultimately show ?thesis by (meson sub insert_subset order_trans)
  qed
  ultimately have "window_bounded (rc_window cfg) (B k)
      (times_of sender_key k (?H @ allowed_calls cfg st' calls))"
    using Cons.prems(5-8) by (intro Cons.IH) auto
  then show ?case by (simp add: chk)
qed simp

lemma new_limiter_tracks: "tracks W now [] key []"
  by (simp add: tracks_def window_of_def times_of_def)

lemma no_times_bounded: "0 \<le> b \<Longrightarrow> window_bounded W b (times_of key k [])"
  by (simp add: window_bounded_def times_of_def)

lemma new_limiter_recipients:
  assumes "sorted (map lc_now calls)" and "0 \<le> rc_recipient cfg"
  shows "window_bounded (rc_window cfg) (rc_recipient cfg)
    (times_of recipient_key k (allowed_calls cfg createRateLimiter calls))"
proof (cases calls)
  case Nil
  then show ?thesis using no_times_bounded [OF assms(2)] by simp
next
  case (Cons c cs)
  have sorted: "sorted (lc_now c # map lc_now calls)" using assms(1) by (simp add: Cons)
  show ?thesis
    using recipients_run [OF _ _ sorted, of cfg createRateLimiter "[]" k] assms(2)
    by (simp add: new_limiter_tracks no_times_bounded createRateLimiter_def)
qed

subsection \<open>Properties\<close>

text \<open>
  C16. The limiter keeps its promise over every window, not only between resets: whatever messages
  arrive, in the order of their times, no more than the recipient limit are allowed to one recipient
  in any window of the configured length; and while the senders fit the capacity, so that none is
  evicted, no more are allowed from one sender than the largest limit of the trust levels it was
  presented with. A blocked sender is never let through.
\<close>

theorem limiter_bounds:
  assumes "sorted (map lc_now calls)" and "0 \<le> rc_recipient cfg" and "0 \<le> L"
    and "card (sender_key ` set calls) \<le> evict_size cfg"
    and "list_all (\<lambda>c. getLimitForTrust cfg (lc_trust c) \<le> L) (filter (\<lambda>c. sender_key c = k) calls)"
  shows "window_bounded (rc_window cfg) (rc_recipient cfg)
      (times_of recipient_key j (allowed_calls cfg createRateLimiter calls)) \<and>
    window_bounded (rc_window cfg) L
      (times_of sender_key k (allowed_calls cfg createRateLimiter calls)) \<and>
    list_all (\<lambda>c. lc_trust c \<noteq> Blocked) (allowed_calls cfg createRateLimiter calls)"
proof (cases calls)
  case Nil
  then show ?thesis using assms(2,3) by (simp add: times_of_def window_bounded_def)
next
  case (Cons c cs)
  let ?t = "lc_now c" and ?B = "\<lambda>i. if i = k then L
    else max 0 (Max (insert 0 ((\<lambda>c. getLimitForTrust cfg (lc_trust c)) ` set calls)))"
  have sorted: "sorted (?t # map lc_now calls)" using assms(1) by (simp add: Cons)
  have "window_bounded (rc_window cfg) (rc_recipient cfg)
      (times_of recipient_key j (allowed_calls cfg createRateLimiter calls))"
    by (rule new_limiter_recipients [OF assms(1,2)])
  moreover have "window_bounded (rc_window cfg) (?B k)
      (times_of sender_key k ([] @ allowed_calls cfg createRateLimiter calls))"
  proof (rule senders_run [where B = ?B and K = "sender_key ` set calls", OF _ _ sorted])
    show "\<forall>c \<in> set calls. getLimitForTrust cfg (lc_trust c) \<le> ?B (sender_key c)"
      using assms(5) by (auto simp: list_all_iff le_max_iff_disj intro!: Max_ge)
  qed (use assms(3,4) in \<open>simp_all add: createRateLimiter_def new_limiter_tracks no_times_bounded\<close>)
  moreover have "list_all (\<lambda>c. lc_trust c \<noteq> Blocked) (allowed_calls cfg st cs')" for st cs'
    by (induction cs' arbitrary: st) (auto dest: check_steps(3) split: prod.splits)
  ultimately show ?thesis by simp
qed

definition example_call :: "millis \<Rightarrow> limiter_call" where
  "example_call t = \<lparr>lc_now = t, lc_sender = ''a@b.c'', lc_recipient = ''d@e.f'', lc_trust = UnknownSender,
     lc_channel = Some Email\<rparr>"

theorem limiter_bounds_witness:
  "window_bounded 3600000 5 (times_of sender_key ''a@b.c''
     (allowed_calls DEFAULT_RATE_LIMITER_CONFIG createRateLimiter (map example_call [1, 2, 3, 4, 5, 6])))"
proof -
  have "sender_key ` set (map example_call [1, 2, 3, 4, 5, 6]) = {sender_key (example_call 1)}"
    by (auto simp: sender_key_def example_call_def)
  then have "card (sender_key ` set (map example_call [1, 2, 3, 4, 5, 6])) \<le> evict_size DEFAULT_RATE_LIMITER_CONFIG"
    by (simp add: evict_size_def DEFAULT_RATE_LIMITER_CONFIG_def)
  from limiter_bounds [OF _ _ _ this, where L = 5 and k = "''a@b.c''" and j = "[]"]
  show ?thesis by (simp add: DEFAULT_RATE_LIMITER_CONFIG_def example_call_def list_all_iff)
qed

end
