(* ===== verification/InboundGate.thy ===== *)
theory InboundGate
  imports InboundLimiter
begin

text \<open>
  \<^verbatim>\<open>token-budget.ts\<close> and \<^verbatim>\<open>inbound-gate.ts\<close> of
  \<^verbatim>\<open>src/packages/openclaw-plugin/src/utils\<close>: the daily and monthly token budget, and the gate
  that puts the spam filter, the limiter, the budget and the deferral of unknown senders in order.
  \<open>toISO\<close> stands for \<open>toISOString\<close> of a time.
\<close>

subsection \<open>The token budget\<close>

record TokenBudgetConfig =
  tb_enabled :: bool
  tb_daily :: "int option"
  tb_monthly :: "int option"

definition DEFAULT_TOKEN_BUDGET_CONFIG :: TokenBudgetConfig where
  "DEFAULT_TOKEN_BUDGET_CONFIG = \<lparr>tb_enabled = False, tb_daily = None, tb_monthly = None\<rparr>"

datatype budget_reason = DailyExceeded int int int | MonthlyExceeded int int int

record TokenBudgetResult =
  tr_allowed :: bool
  tr_reason :: "budget_reason option"
  tr_daily :: "int option"
  tr_monthly :: "int option"

record token_budget =
  bu_daily :: int
  bu_monthly :: int
  bu_day :: string
  bu_month :: string

definition getCurrentDay :: "string \<Rightarrow> string" where "getCurrentDay isoNow = take 10 isoNow"
definition getCurrentMonth :: "string \<Rightarrow> string" where "getCurrentMonth isoNow = take 7 isoNow"

definition createTokenBudget :: "string \<Rightarrow> token_budget" where
  "createTokenBudget isoNow = \<lparr>bu_daily = 0, bu_monthly = 0, bu_day = getCurrentDay isoNow,
     bu_month = getCurrentMonth isoNow\<rparr>"

definition maybeReset :: "string \<Rightarrow> token_budget \<Rightarrow> token_budget" where
  "maybeReset isoNow b =
     (let today = getCurrentDay isoNow; thisMonth = getCurrentMonth isoNow;
          b = (if today \<noteq> bu_day b then b\<lparr>bu_daily := 0, bu_day := today\<rparr> else b)
      in if thisMonth \<noteq> bu_month b then b\<lparr>bu_monthly := 0, bu_month := thisMonth\<rparr> else b)"

text \<open>The two limit tests, which \<open>check\<close> and \<open>tryConsume\<close> both spell out: the refusal, if any.\<close>

definition budget_refusal :: "TokenBudgetConfig \<Rightarrow> int \<Rightarrow> token_budget \<Rightarrow> TokenBudgetResult option" where
  "budget_refusal cfg tokens b =
     (case (case tb_daily cfg of None \<Rightarrow> None
        | Some limit \<Rightarrow> if limit < bu_daily b + tokens then Some limit else None) of
        Some limit \<Rightarrow> Some \<lparr>tr_allowed = False, tr_reason = Some (DailyExceeded (bu_daily b) limit tokens),
          tr_daily = Some (max 0 (limit - bu_daily b)),
          tr_monthly = map_option (\<lambda>l. max 0 (l - bu_monthly b)) (tb_monthly cfg)\<rparr>
      | None \<Rightarrow>
          (case tb_monthly cfg of None \<Rightarrow> None
           | Some limit \<Rightarrow>
               if limit < bu_monthly b + tokens
               then Some \<lparr>tr_allowed = False, tr_reason = Some (MonthlyExceeded (bu_monthly b) limit tokens),
                 tr_daily = map_option (\<lambda>l. max 0 (l - bu_daily b)) (tb_daily cfg),
                 tr_monthly = Some (max 0 (limit - bu_monthly b))\<rparr>
               else None))"

definition budget_allowed :: "TokenBudgetConfig \<Rightarrow> token_budget \<Rightarrow> TokenBudgetResult" where
  "budget_allowed cfg b = \<lparr>tr_allowed = True, tr_reason = None,
     tr_daily = map_option (\<lambda>l. l - bu_daily b) (tb_daily cfg),
     tr_monthly = map_option (\<lambda>l. l - bu_monthly b) (tb_monthly cfg)\<rparr>"

definition budget_disabled :: TokenBudgetResult where
  "budget_disabled = \<lparr>tr_allowed = True, tr_reason = None, tr_daily = None, tr_monthly = None\<rparr>"

definition check_budget ::
  "TokenBudgetConfig \<Rightarrow> string \<Rightarrow> int \<Rightarrow> token_budget \<Rightarrow> TokenBudgetResult \<times> token_budget" where
  "check_budget cfg isoNow tokens b =
     (if \<not> tb_enabled cfg then (budget_disabled, b)
      else (let b = maybeReset isoNow b in
        case budget_refusal cfg tokens b of Some r \<Rightarrow> (r, b) | None \<Rightarrow> (budget_allowed cfg b, b)))"

definition record_tokens :: "string \<Rightarrow> int \<Rightarrow> token_budget \<Rightarrow> token_budget" where
  "record_tokens isoNow tokens b =
     (let b = maybeReset isoNow b
      in b\<lparr>bu_daily := bu_daily b + tokens, bu_monthly := bu_monthly b + tokens\<rparr>)"

definition tryConsume ::
  "TokenBudgetConfig \<Rightarrow> string \<Rightarrow> int \<Rightarrow> token_budget \<Rightarrow> TokenBudgetResult \<times> token_budget" where
  "tryConsume cfg isoNow tokens b =
     (if \<not> tb_enabled cfg then (budget_disabled, b)
      else (let b = maybeReset isoNow b in
        case budget_refusal cfg tokens b of
          Some r \<Rightarrow> (r, b)
        | None \<Rightarrow>
            (let b = b\<lparr>bu_daily := bu_daily b + tokens, bu_monthly := bu_monthly b + tokens\<rparr>
             in (budget_allowed cfg b, b))))"

definition budget_stats :: "TokenBudgetConfig \<Rightarrow> string \<Rightarrow> token_budget \<Rightarrow>
    (int \<times> int \<times> int option \<times> int option) \<times> token_budget" where
  "budget_stats cfg isoNow b =
     (let b = maybeReset isoNow b in ((bu_daily b, bu_monthly b, tb_daily cfg, tb_monthly cfg), b))"

subsection \<open>The gate\<close>

datatype GateAction = GateAllow | GateReject | GateRateLimited | GateBudgetExceeded | GateDefer

record InboundGateDecision =
  gd_action :: GateAction
  gd_skip_embedding :: bool

record InboundGateConfig =
  gc_spam :: SpamFilterConfig
  gc_limiter :: RateLimiterConfig
  gc_budget :: TokenBudgetConfig
  gc_defer_unknown :: bool

record gate =
  gt_limiter :: limiter
  gt_budget :: token_budget
  gt_evaluated :: nat
  gt_allowed :: nat
  gt_rejected :: nat
  gt_rate_limited :: nat
  gt_budget_exceeded :: nat
  gt_deferred :: nat

definition createInboundGate :: "string \<Rightarrow> gate" where
  "createInboundGate isoNow =
     \<lparr>gt_limiter = createRateLimiter, gt_budget = createTokenBudget isoNow, gt_evaluated = 0,
      gt_allowed = 0, gt_rejected = 0, gt_rate_limited = 0, gt_budget_exceeded = 0, gt_deferred = 0\<rparr>"

record inbound =
  in_now :: millis
  in_message :: InboundMessage
  in_trust :: SenderTrust
  in_tokens :: int

definition limiter_call_of :: "inbound \<Rightarrow> limiter_call" where
  "limiter_call_of i = \<lparr>lc_now = in_now i, lc_sender = im_sender (in_message i),
     lc_recipient = im_recipient (in_message i), lc_trust = in_trust i,
     lc_channel = Some (im_channel (in_message i))\<rparr>"

definition skip :: "GateAction \<Rightarrow> InboundGateDecision" where
  "skip action = \<lparr>gd_action = action, gd_skip_embedding = True\<rparr>"

definition evaluate ::
  "(millis \<Rightarrow> string) \<Rightarrow> InboundGateConfig \<Rightarrow> inbound \<Rightarrow> gate \<Rightarrow> InboundGateDecision \<times> gate" where
  "evaluate toISO cfg i g0 =
     (let g = g0\<lparr>gt_evaluated := gt_evaluated g0 + 1\<rparr> in
      if sr_spam (isSpam (in_message i) (gc_spam cfg))
      then (skip GateReject, g\<lparr>gt_rejected := gt_rejected g + 1\<rparr>)
      else
        (case check (gc_limiter cfg) (limiter_call_of i) (gt_limiter g) of (rateResult, lmt) \<Rightarrow>
          (let g = g\<lparr>gt_limiter := lmt\<rparr> in
           if \<not> rl_allowed rateResult
           then (skip GateRateLimited, g\<lparr>gt_rate_limited := gt_rate_limited g + 1\<rparr>)
           else
             (case (if 0 < in_tokens i
                    then tryConsume (gc_budget cfg) (toISO (in_now i)) (in_tokens i) (gt_budget g)
                    else (budget_disabled, gt_budget g)) of (budgetResult, bud) \<Rightarrow>
               (let g = g\<lparr>gt_budget := bud\<rparr> in
                if \<not> tr_allowed budgetResult
                then (skip GateBudgetExceeded, g\<lparr>gt_budget_exceeded := gt_budget_exceeded g + 1\<rparr>)
                else if gc_defer_unknown cfg \<and> in_trust i = UnknownSender
                then (skip GateDefer, g\<lparr>gt_deferred := gt_deferred g + 1\<rparr>)
                else (\<lparr>gd_action = GateAllow, gd_skip_embedding = False\<rparr>,
                  g\<lparr>gt_allowed := gt_allowed g + 1\<rparr>))))))"

fun gate_run :: "(millis \<Rightarrow> string) \<Rightarrow> InboundGateConfig \<Rightarrow> inbound list \<Rightarrow> gate \<Rightarrow> GateAction list \<times> gate" where
  "gate_run toISO cfg [] g = ([], g)"
| "gate_run toISO cfg (i # is) g =
     (let (d, g') = evaluate toISO cfg i g; (ds, g'') = gate_run toISO cfg is g' in (gd_action d # ds, g''))"

subsection \<open>The outcomes of an evaluation\<close>

text \<open>The messages of a run that took a given kind of action.\<close>

definition taken :: "(GateAction \<Rightarrow> bool) \<Rightarrow> inbound list \<Rightarrow> GateAction list \<Rightarrow> inbound list" where
  "taken P is as = map fst (filter (\<lambda>e. P (snd e)) (zip is as))"

lemma taken_simps [simp]:
  "taken P [] as = []"
  "taken P (i # is) (a # as) = (if P a then [i] else []) @ taken P is as"
  by (simp_all add: taken_def)

text \<open>Past the spam filter and the limiter; past the budget too.\<close>

definition passed :: "GateAction \<Rightarrow> bool" where
  "passed a = (a \<noteq> GateReject \<and> a \<noteq> GateRateLimited)"

definition accepted :: "GateAction \<Rightarrow> bool" where
  "accepted a = (a = GateAllow \<or> a = GateDefer)"

lemma evaluate_limiter:
  assumes "evaluate toISO cfg i g = (d, g')"
  shows "if sr_spam (isSpam (in_message i) (gc_spam cfg))
    then gd_action d = GateReject \<and> gt_limiter g' = gt_limiter g
    else gt_limiter g' = snd (check (gc_limiter cfg) (limiter_call_of i) (gt_limiter g)) \<and>
      passed (gd_action d) = rl_allowed (fst (check (gc_limiter cfg) (limiter_call_of i) (gt_limiter g)))"
  using assms
  by (auto simp: evaluate_def Let_def skip_def passed_def split: if_splits prod.splits)

text \<open>The budget after an evaluation: untouched, reset and refused, or charged within the limit.\<close>

lemma evaluate_budget:
  assumes "evaluate toISO cfg i g = (d, g')" and "tb_enabled (gc_budget cfg)"
    and "tb_daily (gc_budget cfg) = Some D"
  shows "(gt_budget g' = gt_budget g \<and> \<not> (accepted (gd_action d) \<and> 0 < in_tokens i)) \<or>
    (gt_budget g' = maybeReset (toISO (in_now i)) (gt_budget g) \<and> \<not> accepted (gd_action d)) \<or>
    (accepted (gd_action d) \<and> 0 < in_tokens i \<and>
     bu_day (gt_budget g') = getCurrentDay (toISO (in_now i)) \<and>
     bu_daily (gt_budget g') = in_tokens i + (if bu_day (gt_budget g) = getCurrentDay (toISO (in_now i))
       then bu_daily (gt_budget g) else 0) \<and>
     bu_daily (gt_budget g') \<le> D)"
proof -
  let ?b = "maybeReset (toISO (in_now i)) (gt_budget g)"
  have reset: "bu_day ?b = getCurrentDay (toISO (in_now i))"
    "bu_daily ?b = (if bu_day (gt_budget g) = getCurrentDay (toISO (in_now i)) then bu_daily (gt_budget g) else 0)"
    by (simp_all add: maybeReset_def Let_def)
  have room: "bu_daily ?b + in_tokens i \<le> D" if "budget_refusal (gc_budget cfg) (in_tokens i) ?b = None"
    using that assms(3) by (auto simp: budget_refusal_def split: if_splits)
  have refused: "\<not> tr_allowed r" if "budget_refusal (gc_budget cfg) (in_tokens i) ?b = Some r" for r
    using that assms(3) by (auto simp: budget_refusal_def split: if_splits option.splits)
  show ?thesis
    using assms(1,2) reset room refused
    by (auto simp: evaluate_def Let_def skip_def accepted_def tryConsume_def budget_allowed_def
        budget_disabled_def split: if_splits prod.splits option.splits)
qed

lemma evaluate_counts:
  assumes "evaluate toISO cfg i g = (d, g')"
  shows "gt_evaluated g' = gt_evaluated g + 1 \<and>
    gt_allowed g' = gt_allowed g + of_bool (gd_action d = GateAllow) \<and>
    gt_rejected g' = gt_rejected g + of_bool (gd_action d = GateReject) \<and>
    gt_rate_limited g' = gt_rate_limited g + of_bool (gd_action d = GateRateLimited) \<and>
    gt_budget_exceeded g' = gt_budget_exceeded g + of_bool (gd_action d = GateBudgetExceeded) \<and>
    gt_deferred g' = gt_deferred g + of_bool (gd_action d = GateDefer)"
  using assms by (auto simp: evaluate_def Let_def skip_def split: if_splits prod.splits)

lemma gate_run_counts:
  assumes "gate_run toISO cfg is g = (as, g')"
  shows "length as = length is \<and> gt_evaluated g' = gt_evaluated g + length is \<and>
    gt_allowed g' = gt_allowed g + length (filter ((=) GateAllow) as) \<and>
    gt_rejected g' = gt_rejected g + length (filter ((=) GateReject) as) \<and>
    gt_rate_limited g' = gt_rate_limited g + length (filter ((=) GateRateLimited) as) \<and>
    gt_budget_exceeded g' = gt_budget_exceeded g + length (filter ((=) GateBudgetExceeded) as) \<and>
    gt_deferred g' = gt_deferred g + length (filter ((=) GateDefer) as)"
  using assms
proof (induction "is" arbitrary: g as)
  case (Cons i "is")
  obtain d g1 where e: "evaluate toISO cfg i g = (d, g1)" by fastforce
  obtain ds g2 where r: "gate_run toISO cfg is g1 = (ds, g2)" by fastforce
  from Cons.prems e r have as: "as = gd_action d # ds" "g' = g2" by simp_all
  then show ?case
    using Cons.IH [OF r [folded as(2)]] evaluate_counts [OF e] by (cases "gd_action d") simp_all
qed simp

text \<open>The messages past the limiter are what its own run allows of those that are not spam.\<close>

lemma gate_run_passed:
  assumes "gate_run toISO cfg is g = (as, g')"
  shows "map limiter_call_of (taken passed is as) =
    allowed_calls (gc_limiter cfg) (gt_limiter g)
      (map limiter_call_of (filter (\<lambda>i. \<not> sr_spam (isSpam (in_message i) (gc_spam cfg))) is))"
  using assms
proof (induction "is" arbitrary: g as)
  case (Cons i "is")
  obtain d g1 where e: "evaluate toISO cfg i g = (d, g1)" by fastforce
  obtain ds g2 where r: "gate_run toISO cfg is g1 = (ds, g2)" by fastforce
  from Cons.prems e r have as: "as = gd_action d # ds" "g' = g2" by simp_all
  note IH = Cons.IH [OF r [folded as(2)]]
  show ?case
  proof (cases "sr_spam (isSpam (in_message i) (gc_spam cfg))")
    case True
    with evaluate_limiter [OF e] IH show ?thesis by (simp add: as passed_def)
  next
    case False
    with evaluate_limiter [OF e] IH show ?thesis
      by (auto simp: as split: prod.splits)
  qed
qed simp

subsection \<open>Days\<close>

text \<open>Equal elements stand next to each other: a clock that never returns to an earlier day.\<close>

fun grouped :: "'a list \<Rightarrow> bool" where
  "grouped [] = True"
| "grouped (x # xs) = (grouped xs \<and> (x \<notin> set xs \<or> hd xs = x))"

lemma grouped_skip: "grouped (x # y # zs) \<Longrightarrow> grouped (x # zs)"
  by (cases zs) auto

lemma grouped_tl: "grouped (x # xs) \<Longrightarrow> grouped xs"
  by simp

definition day_of :: "(millis \<Rightarrow> string) \<Rightarrow> inbound \<Rightarrow> string" where
  "day_of toISO i = getCurrentDay (toISO (in_now i))"

text \<open>The tokens charged on a day.\<close>

definition charged :: "(millis \<Rightarrow> string) \<Rightarrow> string \<Rightarrow> inbound list \<Rightarrow> GateAction list \<Rightarrow> int" where
  "charged toISO day is as =
     sum_list (map in_tokens (filter (\<lambda>i. day_of toISO i = day \<and> 0 < in_tokens i) (taken accepted is as)))"

lemma charged_none: "day \<notin> day_of toISO ` set is \<Longrightarrow> charged toISO day is as = 0"
proof -
  assume d: "day \<notin> day_of toISO ` set is"
  have "set (taken accepted is as) \<subseteq> set is" by (auto simp: taken_def dest: set_zip_leftD)
  with d have "filter (\<lambda>i. day_of toISO i = day \<and> 0 < in_tokens i) (taken accepted is as) = []"
    by (auto simp: filter_empty_conv)
  then show ?thesis by (simp add: charged_def)
qed

lemma gate_run_budget:
  assumes "gate_run toISO cfg is g = (as, g')" and "tb_enabled (gc_budget cfg)"
    and "tb_daily (gc_budget cfg) = Some D" and "0 \<le> bu_daily (gt_budget g)"
    and "bu_daily (gt_budget g) \<le> D" and "grouped (bu_day (gt_budget g) # map (day_of toISO) is)"
  shows "(if day = bu_day (gt_budget g) then bu_daily (gt_budget g) else 0) + charged toISO day is as \<le> D"
  using assms
proof (induction "is" arbitrary: g as)
  case Nil
  then show ?case by (simp add: charged_def)
next
  case (Cons i "is")
  obtain d g1 where e: "evaluate toISO cfg i g = (d, g1)" by fastforce
  obtain ds g2 where r: "gate_run toISO cfg is g1 = (ds, g2)" by fastforce
  from Cons.prems(1) e r have as: "as = gd_action d # ds" "g' = g2" by simp_all
  let ?b = "gt_budget g" and ?b1 = "gt_budget g1" and ?today = "day_of toISO i"
  note IH = Cons.IH [OF r [folded as(2)] Cons.prems(2,3)]
  have tail: "grouped (?today # map (day_of toISO) is)" "grouped (bu_day ?b # map (day_of toISO) is)"
    using Cons.prems(6) grouped_skip [of "bu_day ?b" ?today] by (simp_all del: grouped.simps add: grouped_tl)
  have head: "charged toISO day (i # is) as =
      (if accepted (gd_action d) \<and> 0 < in_tokens i \<and> ?today = day then in_tokens i else 0)
      + charged toISO day is ds"
    by (auto simp: as charged_def)
  have away: "bu_day ?b \<notin> day_of toISO ` set is" if "?today \<noteq> bu_day ?b"
    using Cons.prems(6) that by auto
  have rest: "(if day = bu_day ?b1 then bu_daily ?b1 else 0) + charged toISO day is ds \<le> D"
    if "bu_day ?b1 = ?today" "0 \<le> bu_daily ?b1" "bu_daily ?b1 \<le> D"
    by (rule IH) (simp_all only: that tail)
  have gone: "charged toISO (bu_day ?b) is ds = 0" if "?today \<noteq> bu_day ?b"
    by (rule charged_none [OF away [OF that]])
  from evaluate_budget [OF e Cons.prems(2,3)] show ?case
  proof (elim disjE conjE)
    assume b1: "?b1 = ?b" and "\<not> (accepted (gd_action d) \<and> 0 < in_tokens i)"
    moreover have "(if day = bu_day ?b1 then bu_daily ?b1 else 0) + charged toISO day is ds \<le> D"
      by (rule IH) (simp_all only: b1 Cons.prems(4,5) tail)
    ultimately show ?thesis using head by (auto split: if_splits)
  next
    assume b1: "?b1 = maybeReset (toISO (in_now i)) ?b" and no: "\<not> accepted (gd_action d)"
    have "bu_day ?b1 = ?today" "bu_daily ?b1 = (if bu_day ?b = ?today then bu_daily ?b else 0)"
      by (simp_all add: b1 maybeReset_def Let_def day_of_def)
    with rest Cons.prems(4,5) head no gone show ?thesis
      by (cases "day = bu_day ?b"; cases "bu_day ?b = ?today") (simp_all split: if_splits)
  next
    assume yes: "accepted (gd_action d)" "0 < in_tokens i" "bu_daily ?b1 \<le> D"
      and "bu_day ?b1 = getCurrentDay (toISO (in_now i))"
      "bu_daily ?b1 = in_tokens i + (if bu_day ?b = getCurrentDay (toISO (in_now i)) then bu_daily ?b else 0)"
    then have "bu_day ?b1 = ?today" "bu_daily ?b1 = in_tokens i + (if bu_day ?b = ?today then bu_daily ?b else 0)"
      by (simp_all add: day_of_def)
    with rest yes Cons.prems(4,5) head gone show ?thesis
      by (cases "day = bu_day ?b"; cases "bu_day ?b = ?today") (simp_all split: if_splits)
  qed
qed

subsection \<open>Properties\<close>

text \<open>The messages of a run past the limiter that are addressed to one recipient.\<close>

definition passed_to :: "InboundGateConfig \<Rightarrow> string \<Rightarrow> inbound list \<Rightarrow> GateAction list \<Rightarrow> millis list" where
  "passed_to cfg to is as = times_of recipient_key to (map limiter_call_of (taken passed is as))"

lemma sorted_times_filter:
  assumes "sorted (map in_now is)"
  shows "sorted (map lc_now (map limiter_call_of (filter P is)))"
proof -
  have "lc_now \<circ> limiter_call_of = in_now" by (simp add: fun_eq_iff limiter_call_of_def)
  then show ?thesis using assms by (simp add: sorted_filter)
qed

text \<open>
  C15. The gate holds both its caps over a whole run, whatever messages arrive in the order of their
  times: its six counters account for every message once; no more than the recipient limit get past
  the limiter to one recipient in any window; and on no day are more tokens charged, by the messages
  allowed or deferred, than the daily budget, provided the clock does not return to an earlier day.
\<close>

theorem gate_spec:
  assumes "gate_run toISO cfg is (createInboundGate iso0) = (as, g')"
    and "sorted (map in_now is)" and "0 \<le> rc_recipient (gc_limiter cfg)"
    and "tb_enabled (gc_budget cfg)" and "tb_daily (gc_budget cfg) = Some D" and "0 \<le> D"
    and "grouped (getCurrentDay iso0 # map (day_of toISO) is)"
  shows "gt_evaluated g' = length is \<and>
    gt_evaluated g' = gt_allowed g' + gt_rejected g' + gt_rate_limited g' + gt_budget_exceeded g' + gt_deferred g' \<and>
    window_bounded (rc_window (gc_limiter cfg)) (rc_recipient (gc_limiter cfg)) (passed_to cfg to is as) \<and>
    charged toISO day is as \<le> D"
proof -
  let ?g = "createInboundGate iso0"
  have fresh: "gt_limiter ?g = createRateLimiter" "bu_daily (gt_budget ?g) = 0"
    "bu_day (gt_budget ?g) = getCurrentDay iso0"
    by (simp_all add: createInboundGate_def createTokenBudget_def)
  have "length (filter ((=) GateAllow) as) + length (filter ((=) GateReject) as) +
      length (filter ((=) GateRateLimited) as) + length (filter ((=) GateBudgetExceeded) as) +
      length (filter ((=) GateDefer) as) = length as" for as
  proof (induction as)
    case (Cons a as)
    then show ?case by (cases a) simp_all
  qed simp
  with gate_run_counts [OF assms(1)]
  have "gt_evaluated g' = length is \<and>
    gt_evaluated g' = gt_allowed g' + gt_rejected g' + gt_rate_limited g' + gt_budget_exceeded g' + gt_deferred g'"
    by (simp add: createInboundGate_def)
  moreover have "window_bounded (rc_window (gc_limiter cfg)) (rc_recipient (gc_limiter cfg)) (passed_to cfg to is as)"
    unfolding passed_to_def gate_run_passed [OF assms(1)] fresh
    by (rule new_limiter_recipients [OF sorted_times_filter [OF assms(2)] assms(3)])
  moreover have "charged toISO day is as \<le> D"
    using gate_run_budget [OF assms(1,4,5), of day] assms(6,7) by (simp add: fresh split: if_splits)
  ultimately show ?thesis by blast
qed

definition example_gate_config :: InboundGateConfig where
  "example_gate_config = \<lparr>gc_spam = DEFAULT_SPAM_FILTER_CONFIG, gc_limiter = DEFAULT_RATE_LIMITER_CONFIG,
     gc_budget = \<lparr>tb_enabled = True, tb_daily = Some 100, tb_monthly = None\<rparr>, gc_defer_unknown = False\<rparr>"

definition example_inbound :: "millis \<Rightarrow> inbound" where
  "example_inbound t = \<lparr>in_now = t, in_message = \<lparr>im_channel = Sms, im_sender = ''+15550001111'',
     im_recipient = ''+15550002222'', im_body = ''hi'', im_headers = None\<rparr>, in_trust = Known, in_tokens = 60\<rparr>"

theorem gate_spec_witness:
  "charged (\<lambda>_. ''2026-02-01T00:00'') ''2026-02-01'' (map example_inbound [1, 2])
     (fst (gate_run (\<lambda>_. ''2026-02-01T00:00'') example_gate_config (map example_inbound [1, 2])
       (createInboundGate ''2026-02-01T00:00''))) \<le> 100"
  by (rule gate_spec [THEN conjunct2, THEN conjunct2, THEN conjunct2, OF prod.collapse [symmetric]])
    (simp_all add: example_gate_config_def example_inbound_def DEFAULT_RATE_LIMITER_CONFIG_def
      day_of_def getCurrentDay_def)

end
