(* ===== verification/RefreshTokens.thy ===== *)
theory RefreshTokens
  imports Prelude
begin

text \<open>
  Refresh tokens: \<^verbatim>\<open>src/api/auth/refresh-tokens.ts\<close>, the table of
  \<^verbatim>\<open>migrations/082\<close> and the endpoints \<^verbatim>\<open>/auth/refresh\<close> and
  \<^verbatim>\<open>/auth/revoke\<close> of \<^verbatim>\<open>src/api/server.ts\<close>. SHA-256, the random bytes, the
  generated ids and the signing of access tokens are parameters; the audit log, whose writer never
  fails, is left out. \<open>consumeRefreshToken\<close> is one transaction; the endpoints run it and their
  other statements one after the other, so requests interleave between them (\<open>auth_step\<close>).
\<close>

subsection \<open>The table and its operations\<close>

record refresh_row =
  rt_id :: uuid
  rt_hash :: string
  rt_email :: string
  rt_family :: uuid
  rt_expires :: millis
  rt_revoked :: "millis option"
  rt_replaced :: "uuid option"
  rt_grace :: "millis option"

definition TOKEN_LIFETIME_MS :: millis where "TOKEN_LIFETIME_MS = 7 * 24 * 60 * 60 * 1000"
definition GRACE_WINDOW_SECONDS :: int where "GRACE_WINDOW_SECONDS = 10"

datatype token_error = UniqueViolation | UnknownToken | TokenRevoked | TokenExpired | TokenReuse

record created_token =
  ct_token :: string
  ct_id :: uuid
  ct_family :: uuid

text \<open>What the caller supplies to a creation from its sources of randomness: the token, the row's
  id and the family id that \<open>COALESCE\<close> falls back to.\<close>

record fresh_values =
  fv_token :: string
  fv_id :: uuid
  fv_family :: uuid

definition createRefreshToken ::
  "(string \<Rightarrow> string) \<Rightarrow> clock \<Rightarrow> fresh_values \<Rightarrow> string \<Rightarrow> uuid option \<Rightarrow> refresh_row list \<Rightarrow>
     (token_error + created_token) \<times> refresh_row list" where
  "createRefreshToken sha clk fv email familyId t =
     (let token = fv_token fv;
          tokenHash = sha token;
          expires_at = js_now clk + TOKEN_LIFETIME_MS;
          family = (case familyId of Some f \<Rightarrow> f | None \<Rightarrow> fv_family fv) in
      if sql_exists (\<lambda>r. rt_hash r = tokenHash \<or> rt_id r = fv_id fv) t then (Inl UniqueViolation, t)
      else (Inr \<lparr>ct_token = token, ct_id = fv_id fv, ct_family = family\<rparr>,
        t @ [\<lparr>rt_id = fv_id fv, rt_hash = tokenHash, rt_email = email, rt_family = family,
          rt_expires = expires_at, rt_revoked = None, rt_replaced = None, rt_grace = None\<rparr>]))"

record consumed_token =
  co_email :: string
  co_family :: uuid
  co_token :: uuid

definition consumed_of :: "refresh_row \<Rightarrow> consumed_token" where
  "consumed_of row = \<lparr>co_email = rt_email row, co_family = rt_family row, co_token = rt_id row\<rparr>"

definition revokeTokenFamily :: "clock \<Rightarrow> uuid \<Rightarrow> refresh_row list \<Rightarrow> refresh_row list" where
  "revokeTokenFamily clk familyId =
     sql_update (\<lambda>r. rt_family r = familyId \<and> rt_revoked r = None) (\<lambda>r. r\<lparr>rt_revoked := Some (db_now clk)\<rparr>)"

definition consumeRefreshToken ::
  "(string \<Rightarrow> string) \<Rightarrow> clock \<Rightarrow> string \<Rightarrow> refresh_row list \<Rightarrow>
     (token_error + consumed_token) \<times> refresh_row list" where
  "consumeRefreshToken sha clk token t =
     (case by_key rt_hash (sha token) t of
        None \<Rightarrow> (Inl UnknownToken, t)
      | Some row \<Rightarrow>
          if rt_revoked row \<noteq> None then (Inl TokenRevoked, t)
          else if rt_expires row < js_now clk then (Inl TokenExpired, t)
          else if rt_grace row \<noteq> None \<or> rt_replaced row \<noteq> None
          then (if (case rt_grace row of Some graceExpiry \<Rightarrow> js_now clk < graceExpiry | None \<Rightarrow> False)
                then (Inr (consumed_of row), t)
                else (Inl TokenReuse, revokeTokenFamily clk (rt_family row) t))
          else (Inr (consumed_of row),
            sql_update (\<lambda>r. rt_id r = rt_id row)
              (\<lambda>r. r\<lparr>rt_grace := Some (db_now clk + GRACE_WINDOW_SECONDS * 1000)\<rparr>) t))"

text \<open>The statement of \<^verbatim>\<open>/auth/refresh\<close> that links the old token to the new one.\<close>

definition link_tokens :: "uuid \<Rightarrow> uuid \<Rightarrow> refresh_row list \<Rightarrow> refresh_row list" where
  "link_tokens newId oldId = sql_update (\<lambda>r. rt_id r = oldId) (\<lambda>r. r\<lparr>rt_replaced := Some newId\<rparr>)"

subsection \<open>The endpoints\<close>

datatype cookie_action = KeepCookie | SetRefreshCookie string | ClearRefreshCookie
datatype auth_body = AccessToken string | AuthError string | AuthOk | AuthOkUrl string

record auth_reply =
  ar_status :: nat
  ar_body :: auth_body
  ar_cookie :: cookie_action

definition invalid_refresh :: auth_reply where
  "invalid_refresh = \<lparr>ar_status = 401, ar_body = AuthError ''invalid refresh token'', ar_cookie = ClearRefreshCookie\<rparr>"

definition post_refresh ::
  "(string \<Rightarrow> string) \<Rightarrow> (string \<Rightarrow> string option) \<Rightarrow> clock \<Rightarrow> fresh_values \<Rightarrow> string option \<Rightarrow>
     refresh_row list \<Rightarrow> auth_reply \<times> refresh_row list" where
  "post_refresh sha sign clk fv cookie t =
     (case (case cookie of Some c \<Rightarrow> if c = [] then None else Some c | None \<Rightarrow> None) of
        None \<Rightarrow> (\<lparr>ar_status = 401, ar_body = AuthError ''no refresh token'', ar_cookie = KeepCookie\<rparr>, t)
      | Some refresh_token \<Rightarrow>
          (case consumeRefreshToken sha clk refresh_token t of
             (Inl _, t) \<Rightarrow> (invalid_refresh, t)
           | (Inr c, t) \<Rightarrow>
               (case sign (co_email c) of
                  None \<Rightarrow> (invalid_refresh, t)
                | Some access_token \<Rightarrow>
                    (case createRefreshToken sha clk fv (co_email c) (Some (co_family c)) t of
                       (Inl _, t) \<Rightarrow> (invalid_refresh, t)
                     | (Inr new, t) \<Rightarrow>
                         (\<lparr>ar_status = 200, ar_body = AccessToken access_token,
                            ar_cookie = SetRefreshCookie (ct_token new)\<rparr>,
                          link_tokens (ct_id new) (co_token c) t)))))"

definition post_revoke ::
  "(string \<Rightarrow> string) \<Rightarrow> clock \<Rightarrow> string option \<Rightarrow> refresh_row list \<Rightarrow> auth_reply \<times> refresh_row list" where
  "post_revoke sha clk cookie t =
     (\<lparr>ar_status = 200, ar_body = AuthOk, ar_cookie = ClearRefreshCookie\<rparr>,
      case cookie of
        None \<Rightarrow> t
      | Some refresh_token \<Rightarrow>
          if refresh_token = [] then t
          else (case consumeRefreshToken sha clk refresh_token t of
              (Inl _, t) \<Rightarrow> t
            | (Inr c, t) \<Rightarrow> revokeTokenFamily clk (co_family c) t))"

subsection \<open>Requests between their statements\<close>

datatype request_pc =
    NoRequest
  | Refreshing consumed_token
  | Minted consumed_token uuid
  | LoggingOut consumed_token

record auth_state =
  as_tokens :: "refresh_row list"
  as_pc :: "nat \<Rightarrow> request_pc"

text \<open>
  A login starts a family under a generated id that no row has; the other steps are the statements
  of the two endpoints, in the order each request runs them. A request can stop anywhere.
\<close>

inductive auth_step :: "(string \<Rightarrow> string) \<Rightarrow> auth_state \<Rightarrow> auth_state \<Rightarrow> bool" for sha where
  login: "createRefreshToken sha clk fv email None (as_tokens s) = (Inr new, t) \<Longrightarrow>
    fv_family fv \<notin> rt_family ` set (as_tokens s) \<Longrightarrow>
    auth_step sha s (s\<lparr>as_tokens := t\<rparr>)"
| refuse: "consumeRefreshToken sha clk token (as_tokens s) = (Inl e, t) \<Longrightarrow>
    auth_step sha s (s\<lparr>as_tokens := t\<rparr>)"
| refresh_consume: "as_pc s w = NoRequest \<Longrightarrow>
    consumeRefreshToken sha clk token (as_tokens s) = (Inr c, t) \<Longrightarrow>
    auth_step sha s \<lparr>as_tokens = t, as_pc = (as_pc s)(w := Refreshing c)\<rparr>"
| refresh_create: "as_pc s w = Refreshing c \<Longrightarrow>
    createRefreshToken sha clk fv (co_email c) (Some (co_family c)) (as_tokens s) = (Inr new, t) \<Longrightarrow>
    auth_step sha s \<lparr>as_tokens = t, as_pc = (as_pc s)(w := Minted c (ct_id new))\<rparr>"
| refresh_link: "as_pc s w = Minted c i \<Longrightarrow>
    auth_step sha s \<lparr>as_tokens = link_tokens i (co_token c) (as_tokens s), as_pc = (as_pc s)(w := NoRequest)\<rparr>"
| logout_consume: "as_pc s w = NoRequest \<Longrightarrow>
    consumeRefreshToken sha clk token (as_tokens s) = (Inr c, t) \<Longrightarrow>
    auth_step sha s \<lparr>as_tokens = t, as_pc = (as_pc s)(w := LoggingOut c)\<rparr>"
| logout_revoke: "as_pc s w = LoggingOut c \<Longrightarrow>
    auth_step sha s \<lparr>as_tokens = revokeTokenFamily clk (co_family c) (as_tokens s),
      as_pc = (as_pc s)(w := NoRequest)\<rparr>"
| stop: "auth_step sha s (s\<lparr>as_pc := (as_pc s)(w := NoRequest)\<rparr>)"

definition no_sessions :: auth_state where
  "no_sessions = \<lparr>as_tokens = [], as_pc = (\<lambda>_. NoRequest)\<rparr>"

definition auth_reachable :: "(string \<Rightarrow> string) \<Rightarrow> auth_state \<Rightarrow> bool" where
  "auth_reachable sha = (auth_step sha)\<^sup>*\<^sup>* no_sessions"

subsection \<open>Rows only age\<close>

text \<open>What no statement takes back: who a token belongs to, when it expires, that it is revoked and
  when its grace window ends.\<close>

definition row_ages :: "refresh_row \<Rightarrow> refresh_row \<Rightarrow> bool" where
  "row_ages r r' \<longleftrightarrow> rt_id r' = rt_id r \<and> rt_hash r' = rt_hash r \<and> rt_email r' = rt_email r \<and>
     rt_family r' = rt_family r \<and> rt_expires r' = rt_expires r \<and>
     (rt_revoked r \<noteq> None \<longrightarrow> rt_revoked r' \<noteq> None) \<and>
     (\<forall>g. rt_grace r = Some g \<longrightarrow> rt_grace r' = Some g)"

lemma row_ages_refl [simp, intro]: "row_ages r r"
  by (simp add: row_ages_def)

lemma row_ages_trans: "row_ages r r' \<Longrightarrow> row_ages r' r'' \<Longrightarrow> row_ages r r''"
  by (auto simp: row_ages_def)

definition table_ages :: "refresh_row list \<Rightarrow> refresh_row list \<Rightarrow> bool" where
  "table_ages t t' \<longleftrightarrow> list_all2 row_ages t (take (length t) t')"

lemma table_ages_refl [simp, intro]: "table_ages t t"
  by (simp add: table_ages_def list_all2_refl)

lemma table_ages_trans:
  assumes "table_ages t t'" and "table_ages t' t''"
  shows "table_ages t t''"
proof -
  have len: "length t \<le> length t'" "length t' \<le> length t''"
    using assms by (auto simp: table_ages_def dest!: list_all2_lengthD)
  have "list_all2 row_ages (take (length t) t') (take (length t) (take (length t') t''))"
    by (rule list_all2_takeI [OF assms(2) [unfolded table_ages_def]])
  then have "list_all2 row_ages (take (length t) t') (take (length t) t'')"
    using len by (simp add: min_def)
  from list_all2_trans [OF row_ages_trans assms(1) [unfolded table_ages_def] this]
  show ?thesis by (simp add: table_ages_def)
qed

lemma table_ages_update:
  "(\<And>r. r \<in> set t \<Longrightarrow> P r \<Longrightarrow> row_ages r (f r)) \<Longrightarrow> table_ages t (sql_update P f t)"
  by (auto simp: table_ages_def sql_update_def list_all2_conv_all_nth)

lemma table_ages_append [simp, intro]: "table_ages t (t @ new)"
  by (simp add: table_ages_def list_all2_refl)

lemma table_agesD:
  assumes "table_ages t t'" and "r \<in> set t"
  obtains r' where "r' \<in> set t'" and "row_ages r r'"
proof -
  from assms obtain i where "i < length t" "t ! i = r" by (auto simp: in_set_conv_nth)
  with assms(1) have "row_ages r (take (length t) t' ! i)" "i < length (take (length t) t')"
    by (auto simp: table_ages_def list_all2_conv_all_nth)
  then show thesis using that by (meson nth_mem in_set_takeD)
qed

lemma revoke_ages [simp, intro]: "table_ages t (revokeTokenFamily clk f t)"
  unfolding revokeTokenFamily_def by (rule table_ages_update) (simp add: row_ages_def)

lemma link_ages [simp, intro]: "table_ages t (link_tokens new old t)"
  unfolding link_tokens_def by (rule table_ages_update) (simp add: row_ages_def)

lemma statement_lengths [simp]:
  "length (revokeTokenFamily clk f t) = length t" "length (link_tokens new old t) = length t"
  by (simp_all add: revokeTokenFamily_def link_tokens_def)

lemma create_ages: "createRefreshToken sha clk fv email f t = (res, t') \<Longrightarrow> table_ages t t'"
  by (auto simp: createRefreshToken_def Let_def split: if_splits)

subsection \<open>The outcomes of consuming\<close>

text \<open>A row that a token may still be exchanged for: not used yet, or used within the grace window.\<close>

definition acceptable :: "clock \<Rightarrow> refresh_row \<Rightarrow> bool" where
  "acceptable clk r \<longleftrightarrow> rt_revoked r = None \<and> js_now clk \<le> rt_expires r \<and>
     (case rt_grace r of Some g \<Rightarrow> js_now clk < g | None \<Rightarrow> rt_replaced r = None)"

lemma consume_accepted [outcome_iff]:
  "(\<exists>t'. consumeRefreshToken sha clk token t = (Inr c, t')) \<longleftrightarrow>
    (\<exists>r. by_key rt_hash (sha token) t = Some r \<and> acceptable clk r \<and> c = consumed_of r)"
  by (auto simp: consumeRefreshToken_def acceptable_def not_less split: option.splits)

lemma consume_reuse [outcome_iff]:
  "consumeRefreshToken sha clk token t = (Inl TokenReuse, t') \<longleftrightarrow>
    (\<exists>r. by_key rt_hash (sha token) t = Some r \<and> rt_revoked r = None \<and> js_now clk \<le> rt_expires r \<and>
      (rt_grace r \<noteq> None \<or> rt_replaced r \<noteq> None) \<and> \<not> acceptable clk r \<and>
      t' = revokeTokenFamily clk (rt_family r) t)"
  by (auto simp: consumeRefreshToken_def acceptable_def not_less split: option.splits)

lemma consume_keeps_count: "consumeRefreshToken sha clk token t = (res, t') \<Longrightarrow> length t' = length t"
  by (auto simp: consumeRefreshToken_def revokeTokenFamily_def split: option.splits if_splits)

lemma consume_ages:
  assumes "distinct (map rt_id t)" and "consumeRefreshToken sha clk token t = (res, t')"
  shows "table_ages t t'"
proof (cases "by_key rt_hash (sha token) t")
  case None
  then show ?thesis using assms(2) by (simp add: consumeRefreshToken_def)
next
  case (Some row)
  let ?open = "\<lambda>r. r\<lparr>rt_grace := Some (db_now clk + GRACE_WINDOW_SECONDS * 1000)\<rparr>"
  have "table_ages t (sql_update (\<lambda>r. rt_id r = rt_id row) ?open t)" if "rt_grace row = None"
  proof (rule table_ages_update)
    fix r assume "r \<in> set t" "rt_id r = rt_id row"
    then have "r = row" using assms(1) by_key_SomeD [OF Some] by (meson distinct_map inj_onD)
    then show "row_ages r (?open r)" using that by (simp add: row_ages_def)
  qed
  moreover have "t' = t \<or> t' = revokeTokenFamily clk (rt_family row) t \<or>
      (rt_grace row = None \<and> t' = sql_update (\<lambda>r. rt_id r = rt_id row) ?open t)"
    using assms(2) Some by (simp add: consumeRefreshToken_def split: if_splits option.splits)
  ultimately show ?thesis by (elim disjE conjE) simp_all
qed

text \<open>Consuming touches the rows of the token's own family only.\<close>

lemma consume_other_rows:
  assumes "distinct (map rt_id t)" and "consumeRefreshToken sha clk token t = (res, t')"
    and "by_key rt_hash (sha token) t = Some row" and "r \<in> set t" and "rt_family r \<noteq> rt_family row"
  shows "r \<in> set t'"
proof -
  have "rt_id r \<noteq> rt_id row"
    using assms(1,4,5) by_key_SomeD [OF assms(3)] by (metis distinct_map inj_onD)
  with assms show ?thesis
    by (auto simp: consumeRefreshToken_def revokeTokenFamily_def set_sql_update image_iff
        split: if_splits option.splits intro!: bexI [of _ r])
qed

subsection \<open>The invariant of the sessions\<close>

definition pc_token :: "request_pc \<Rightarrow> consumed_token option" where
  "pc_token pc = (case pc of NoRequest \<Rightarrow> None | Refreshing c \<Rightarrow> Some c | Minted c i \<Rightarrow> Some c
     | LoggingOut c \<Rightarrow> Some c)"

lemma pc_token_simps [simp]:
  "pc_token NoRequest = None" "pc_token (Refreshing c) = Some c" "pc_token (Minted c i) = Some c"
  "pc_token (LoggingOut c) = Some c"
  by (simp_all add: pc_token_def)

text \<open>A family belongs to one person.\<close>

definition families_owned :: "refresh_row list \<Rightarrow> bool" where
  "families_owned t \<longleftrightarrow>
     (\<forall>r \<in> set t. \<forall>r' \<in> set t. rt_family r = rt_family r' \<longrightarrow> rt_email r = rt_email r')"

lemma families_ownedD:
  "families_owned t \<Longrightarrow> r \<in> set t \<Longrightarrow> r' \<in> set t \<Longrightarrow> rt_family r = rt_family r' \<Longrightarrow>
    rt_email r = rt_email r'"
  unfolding families_owned_def by blast

text \<open>Ids and hashes are unique, and a request in flight carries what some row says.\<close>

definition sessions_ok :: "auth_state \<Rightarrow> bool" where
  "sessions_ok s \<longleftrightarrow> distinct (map rt_id (as_tokens s)) \<and> distinct (map rt_hash (as_tokens s)) \<and>
     families_owned (as_tokens s) \<and>
     (\<forall>w c. pc_token (as_pc s w) = Some c \<longrightarrow> c \<in> consumed_of ` set (as_tokens s))"

text \<open>A statement that adds no rows and ages the others keeps the invariant.\<close>

lemma aged_map:
  assumes "table_ages t t'" and "length t' = length t" and "\<And>r r'. row_ages r r' \<Longrightarrow> f r' = f r"
  shows "map f t' = map f t"
proof (rule nth_equalityI)
  show "length (map f t') = length (map f t)" using assms(2) by simp
  fix i assume "i < length (map f t')"
  with assms show "map f t' ! i = map f t ! i"
    by (auto simp: table_ages_def list_all2_conv_all_nth)
qed

lemma aged_consumed:
  assumes "table_ages t t'" and "length t' = length t"
  shows "map (\<lambda>r. (consumed_of r, rt_hash r)) t' = map (\<lambda>r. (consumed_of r, rt_hash r)) t"
  by (rule aged_map [OF assms]) (simp add: row_ages_def consumed_of_def)

definition owners_ok :: "(consumed_token \<times> string) list \<Rightarrow> bool" where
  "owners_ok cs \<longleftrightarrow> distinct (map (co_token \<circ> fst) cs) \<and> distinct (map snd cs) \<and>
     (\<forall>c \<in> fst ` set cs. \<forall>c' \<in> fst ` set cs. co_family c = co_family c' \<longrightarrow> co_email c = co_email c')"

lemma sessions_ok_alt:
  "sessions_ok s \<longleftrightarrow> owners_ok (map (\<lambda>r. (consumed_of r, rt_hash r)) (as_tokens s)) \<and>
     (\<forall>w c. pc_token (as_pc s w) = Some c \<longrightarrow> c \<in> consumed_of ` set (as_tokens s))"
  unfolding sessions_ok_def owners_ok_def families_owned_def by (simp add: consumed_of_def comp_def)

lemma sessions_ok_aged:
  assumes "sessions_ok s" and "table_ages (as_tokens s) t" and "length t = length (as_tokens s)"
    and "\<And>w c. pc_token (pc w) = Some c \<Longrightarrow> c \<in> consumed_of ` set (as_tokens s)"
  shows "sessions_ok \<lparr>as_tokens = t, as_pc = pc\<rparr>"
proof -
  note eq = aged_consumed [OF assms(2,3)]
  from arg_cong [OF eq, of "\<lambda>cs. fst ` set cs"] have "consumed_of ` set t = consumed_of ` set (as_tokens s)"
    by (simp add: image_image)
  with assms(1,4) show ?thesis by (simp add: sessions_ok_alt eq)
qed

lemma create_row:
  assumes "createRefreshToken sha clk fv email f t = (Inr new, t')"
  obtains r where "t' = t @ [r]" and "consumed_of r = \<lparr>co_email = email, co_family = ct_family new, co_token = ct_id new\<rparr>"
    and "rt_hash r = sha (ct_token new)" and "rt_expires r = js_now clk + TOKEN_LIFETIME_MS"
    and "rt_revoked r = None" and "rt_replaced r = None" and "rt_grace r = None"
    and "rt_hash r \<notin> rt_hash ` set t" and "rt_id r \<notin> rt_id ` set t"
proof -
  let ?family = "case f of Some f \<Rightarrow> f | None \<Rightarrow> fv_family fv"
  have fresh: "\<forall>r \<in> set t. rt_hash r \<noteq> sha (fv_token fv) \<and> rt_id r \<noteq> fv_id fv"
    and new: "new = \<lparr>ct_token = fv_token fv, ct_id = fv_id fv, ct_family = ?family\<rparr>"
    and t': "t' = t @ [\<lparr>rt_id = fv_id fv, rt_hash = sha (fv_token fv), rt_email = email, rt_family = ?family,
      rt_expires = js_now clk + TOKEN_LIFETIME_MS, rt_revoked = None, rt_replaced = None, rt_grace = None\<rparr>]"
    using assms by (simp_all add: createRefreshToken_def Let_def sql_exists_iff split: if_splits)
  show thesis by (rule that [OF t']) (use fresh in \<open>auto simp: new consumed_of_def\<close>)
qed

lemma create_family:
  "createRefreshToken sha clk fv email f t = (Inr new, t') \<Longrightarrow>
    ct_family new = (case f of Some f \<Rightarrow> f | None \<Rightarrow> fv_family fv)"
  by (auto simp: createRefreshToken_def Let_def split: if_splits)

lemma sessions_ok_created:
  assumes "sessions_ok s" and "createRefreshToken sha clk fv email f (as_tokens s) = (Inr new, t)"
    and "\<And>r. r \<in> set (as_tokens s) \<Longrightarrow> rt_family r = ct_family new \<Longrightarrow> rt_email r = email"
    and "\<And>w c. pc_token (pc w) = Some c \<Longrightarrow> c \<in> consumed_of ` set (as_tokens s)"
  shows "sessions_ok \<lparr>as_tokens = t, as_pc = pc\<rparr>"
proof -
  obtain n where t: "t = as_tokens s @ [n]" and n: "rt_email n = email" "rt_family n = ct_family new"
      "rt_id n \<notin> rt_id ` set (as_tokens s)" "rt_hash n \<notin> rt_hash ` set (as_tokens s)"
    by (rule create_row [OF assms(2)]) (simp add: consumed_of_def)
  have one: "rt_email r = rt_email r'" if "r \<in> set t" "r' \<in> set t" "rt_family r = rt_family r'" for r r'
  proof -
    have owned: "rt_email q = email" if "q \<in> set t" "rt_family q = ct_family new" for q
      using that assms(3) n(1) by (auto simp: t)
    show ?thesis
    proof (cases "rt_family r = ct_family new")
      case True
      then show ?thesis using owned that by simp
    next
      case False
      then have "r \<in> set (as_tokens s)" "r' \<in> set (as_tokens s)" using that n(2) by (auto simp: t)
      then show ?thesis using assms(1) that(3) unfolding sessions_ok_def by (blast dest: families_ownedD)
    qed
  qed
  have "c \<in> consumed_of ` set t" if "pc_token (pc w) = Some c" for w c
    using assms(4) [OF that] by (auto simp: t)
  moreover have "families_owned t" using one unfolding families_owned_def by blast
  ultimately show ?thesis using assms(1) n(3,4) by (simp add: sessions_ok_def t)
qed

lemma consume_origin:
  "consumeRefreshToken sha clk token t = (Inr c, t') \<Longrightarrow> c \<in> consumed_of ` set t"
  using consume_accepted [of sha clk token t c] by (auto dest: by_key_SomeD)

lemma auth_step_ages:
  assumes "auth_step sha s s'" and "sessions_ok s"
  shows "table_ages (as_tokens s) (as_tokens s')"
proof -
  have "distinct (map rt_id (as_tokens s))" using assms(2) by (simp add: sessions_ok_def)
  with assms(1) show ?thesis
    by (cases rule: auth_step.cases) (auto intro: create_ages consume_ages)
qed

lemma sessions_ok_step:
  assumes "auth_step sha s s'" and ok: "sessions_ok s"
  shows "sessions_ok s'"
proof -
  have ids: "distinct (map rt_id (as_tokens s))" using ok by (simp add: sessions_ok_def)
  have pcs: "pc_token (as_pc s w) = Some c \<Longrightarrow> c \<in> consumed_of ` set (as_tokens s)" for w c
    using ok by (simp add: sessions_ok_def)
  have owner: "rt_email r = co_email c"
    if "r \<in> set (as_tokens s)" "rt_family r = co_family c" "c \<in> consumed_of ` set (as_tokens s)" for r c
    using that ok unfolding sessions_ok_def by (auto simp: consumed_of_def dest: families_ownedD)
  have eta: "s\<lparr>as_tokens := t\<rparr> = \<lparr>as_tokens = t, as_pc = as_pc s\<rparr>"
    "s\<lparr>as_pc := pc\<rparr> = \<lparr>as_tokens = as_tokens s, as_pc = pc\<rparr>" for t pc
    by simp_all
  note consumed = consume_ages [OF ids] consume_keeps_count
  from assms(1) show ?thesis
  proof (cases rule: auth_step.cases)
    case (login clk fv email new t)
    from login(2) show ?thesis unfolding login(1) eta
    proof (rule sessions_ok_created [OF ok])
      fix r assume "r \<in> set (as_tokens s)" "rt_family r = ct_family new"
      then show "rt_email r = email" using login(3) create_family [OF login(2)] by (metis imageI option.simps(4))
    qed (rule pcs)
  next
    case (refuse clk token e t)
    from refuse(2) show ?thesis unfolding refuse(1) eta
      by (intro sessions_ok_aged [OF ok] consumed pcs)
  next
    case (refresh_consume w clk token c t)
    from refresh_consume(3) show ?thesis unfolding refresh_consume(1)
      by (intro sessions_ok_aged [OF ok] consumed) (auto intro: pcs dest: consume_origin split: if_splits)
  next
    case (refresh_create w c clk fv new t)
    from refresh_create(3) show ?thesis unfolding refresh_create(1)
    proof (rule sessions_ok_created [OF ok])
      fix r assume "r \<in> set (as_tokens s)" "rt_family r = ct_family new"
      moreover have "ct_family new = co_family c"
        using create_family [OF refresh_create(3)] by simp
      ultimately show "rt_email r = co_email c" using owner pcs [of w c] refresh_create(2) by simp
    next
      fix v d assume "pc_token (((as_pc s)(w := Minted c (ct_id new))) v) = Some d"
      then show "d \<in> consumed_of ` set (as_tokens s)"
        using pcs [of w c] pcs [of v d] refresh_create(2) by (auto split: if_splits)
    qed
  next
    case (refresh_link w c i)
    show ?thesis unfolding refresh_link(1)
      by (rule sessions_ok_aged [OF ok]) (auto intro: pcs split: if_splits)
  next
    case (logout_consume w clk token c t)
    from logout_consume(3) show ?thesis unfolding logout_consume(1)
      by (intro sessions_ok_aged [OF ok] consumed) (auto intro: pcs dest: consume_origin split: if_splits)
  next
    case (logout_revoke w c clk)
    show ?thesis unfolding logout_revoke(1)
      by (rule sessions_ok_aged [OF ok]) (auto intro: pcs split: if_splits)
  next
    case (stop w)
    show ?thesis unfolding stop eta
      by (rule sessions_ok_aged [OF ok]) (auto intro: pcs split: if_splits)
  qed
qed

lemma auth_steps_ok:
  assumes "(auth_step sha)\<^sup>*\<^sup>* s s'" and "sessions_ok s"
  shows "sessions_ok s' \<and> table_ages (as_tokens s) (as_tokens s')"
  using assms
proof (induction rule: rtranclp_induct)
  case (step y z)
  then show ?case
    using sessions_ok_step [OF step.hyps(2)] auth_step_ages [OF step.hyps(2)] table_ages_trans by blast
qed simp

lemma no_sessions_ok: "sessions_ok no_sessions"
  by (simp add: no_sessions_def sessions_ok_def families_owned_def)

lemma reachable_ok: "auth_reachable sha s \<Longrightarrow> sessions_ok s"
  by (simp add: auth_reachable_def auth_steps_ok [of sha no_sessions s] no_sessions_ok)

text \<open>The row of a hash in a later table.\<close>

lemma aged_lookup:
  assumes "(auth_step sha)\<^sup>*\<^sup>* s s'" and "sessions_ok s" and "r \<in> set (as_tokens s)"
  obtains r' where "by_key rt_hash (rt_hash r) (as_tokens s') = Some r'" and "row_ages r r'"
proof -
  from auth_steps_ok [OF assms(1,2)] have ok: "sessions_ok s'" "table_ages (as_tokens s) (as_tokens s')"
    by simp_all
  obtain r' where "r' \<in> set (as_tokens s')" "row_ages r r'" using table_agesD [OF ok(2) assms(3)] .
  with ok(1) show thesis
    by (intro that) (auto simp: by_key_Some_iff sessions_ok_def row_ages_def)
qed

subsection \<open>The endpoints are runs of the steps\<close>

lemma post_refresh_steps:
  assumes "as_pc s w = NoRequest"
  shows "\<exists>pc. (auth_step sha)\<^sup>*\<^sup>* s
    \<lparr>as_tokens = snd (post_refresh sha sign clk fv cookie (as_tokens s)), as_pc = (as_pc s)(w := pc)\<rparr>"
proof -
  let ?t = "snd (post_refresh sha sign clk fv cookie (as_tokens s))"
  have idle: "s = \<lparr>as_tokens = as_tokens s, as_pc = (as_pc s)(w := NoRequest)\<rparr>"
    using assms by (cases s) (simp add: fun_upd_idem)
  consider (none) "?t = as_tokens s"
    | (token) tok where "cookie = Some tok" "tok \<noteq> []"
  proof (cases "cookie = None \<or> cookie = Some []")
    case True
    then show ?thesis by (intro none) (auto simp: post_refresh_def)
  next
    case False
    then show ?thesis using token by (cases cookie) auto
  qed
  then show ?thesis
  proof cases
    case none
    then show ?thesis using idle by (metis rtranclp.rtrancl_refl)
  next
    case (token tok)
    obtain res t1 where consume: "consumeRefreshToken sha clk tok (as_tokens s) = (res, t1)" by fastforce
    show ?thesis
    proof (cases res)
      case (Inl e)
      with token consume have "?t = t1" by (simp add: post_refresh_def)
      moreover have "auth_step sha s \<lparr>as_tokens = t1, as_pc = (as_pc s)(w := NoRequest)\<rparr>"
        using auth_step.refuse [OF consume [unfolded Inl]] idle by (metis auth_state.update_convs(1))
      ultimately show ?thesis by auto
    next
      case (Inr c)
      let ?s1 = "\<lparr>as_tokens = t1, as_pc = (as_pc s)(w := Refreshing c)\<rparr>"
      have s1: "auth_step sha s ?s1" by (rule auth_step.refresh_consume [OF assms consume [unfolded Inr]])
      obtain new t2 where created:
        "createRefreshToken sha clk fv (co_email c) (Some (co_family c)) t1 = (new, t2)" by fastforce
      show ?thesis
      proof (cases "sign (co_email c)")
        case None
        with token consume Inr have "?t = t1" by (simp add: post_refresh_def)
        with s1 show ?thesis by auto
      next
        case (Some access)
        show ?thesis
        proof (cases new)
          case (Inl e)
          with created have "t2 = t1" by (auto simp: createRefreshToken_def Let_def split: if_splits)
          with token consume Inr Some created Inl have "?t = t1" by (simp add: post_refresh_def)
          with s1 show ?thesis by auto
        next
          case new: (Inr n)
          let ?s2 = "\<lparr>as_tokens = t2, as_pc = (as_pc s)(w := Minted c (ct_id n))\<rparr>"
          have s2: "auth_step sha ?s1 ?s2"
            using auth_step.refresh_create [of ?s1 w c sha clk fv n t2] created new by simp
          have "auth_step sha ?s2 \<lparr>as_tokens = link_tokens (ct_id n) (co_token c) t2, as_pc = (as_pc s)(w := NoRequest)\<rparr>"
            using auth_step.refresh_link [of ?s2 w c "ct_id n" sha] by simp
          moreover have "?t = link_tokens (ct_id n) (co_token c) t2"
            using token consume Inr Some created new by (simp add: post_refresh_def)
          ultimately show ?thesis using s1 s2 by (metis (no_types) rtranclp.simps)
        qed
      qed
    qed
  qed
qed

lemma post_revoke_steps:
  assumes "as_pc s w = NoRequest"
  shows "(auth_step sha)\<^sup>*\<^sup>* s (s\<lparr>as_tokens := snd (post_revoke sha clk cookie (as_tokens s))\<rparr>)"
proof -
  have idle: "s\<lparr>as_tokens := t\<rparr> = \<lparr>as_tokens = t, as_pc = (as_pc s)(w := NoRequest)\<rparr>" for t
    using assms by (cases s) (simp add: fun_upd_idem)
  show ?thesis
  proof (cases "cookie = None \<or> cookie = Some []")
    case True
    then have "s\<lparr>as_tokens := snd (post_revoke sha clk cookie (as_tokens s))\<rparr> = s"
      by (cases s) (auto simp: post_revoke_def)
    then show ?thesis by simp
  next
    case False
    then obtain tok where tok: "cookie = Some tok" "tok \<noteq> []" by auto
    obtain res t1 where consume: "consumeRefreshToken sha clk tok (as_tokens s) = (res, t1)" by fastforce
    show ?thesis
    proof (cases res)
      case (Inl e)
      with auth_step.refuse consume tok show ?thesis by (fastforce simp: post_revoke_def)
    next
      case (Inr c)
      let ?s1 = "\<lparr>as_tokens = t1, as_pc = (as_pc s)(w := LoggingOut c)\<rparr>"
      have s1: "auth_step sha s ?s1" by (rule auth_step.logout_consume [OF assms consume [unfolded Inr]])
      have s2: "auth_step sha ?s1 \<lparr>as_tokens = revokeTokenFamily clk (co_family c) t1, as_pc = (as_pc s)(w := NoRequest)\<rparr>"
        using auth_step.logout_revoke [of ?s1 w c sha clk] by simp
      have "snd (post_revoke sha clk cookie (as_tokens s)) = revokeTokenFamily clk (co_family c) t1"
        using tok consume Inr by (simp add: post_revoke_def)
      with s1 s2 show ?thesis unfolding idle by auto
    qed
  qed
qed

subsection \<open>Properties\<close>

lemma post_refresh_ok:
  assumes "post_refresh sha sign clk fv (Some tok) t = (rep, t')" and "ar_body rep = AccessToken a"
  obtains c t1 new t2 where "consumeRefreshToken sha clk tok t = (Inr c, t1)" and "sign (co_email c) = Some a"
    and "createRefreshToken sha clk fv (co_email c) (Some (co_family c)) t1 = (Inr new, t2)"
    and "t' = link_tokens (ct_id new) (co_token c) t2" and "ar_cookie rep = SetRefreshCookie (ct_token new)"
  using assms
  by (auto simp: post_refresh_def invalid_refresh_def split: if_splits prod.splits sum.splits option.splits)

lemma link_other: "r \<in> set t \<Longrightarrow> rt_id r \<noteq> old \<Longrightarrow> r \<in> set (link_tokens new old t)"
  by (force simp: link_tokens_def set_sql_update)

lemma post_refresh_new_row:
  assumes ids: "distinct (map rt_id t)"
    and "consumeRefreshToken sha clk tok t = (Inr c, t1)"
    and "createRefreshToken sha clk fv (co_email c) (Some (co_family c)) t1 = (Inr new, t2)"
  obtains n where "n \<in> set (link_tokens (ct_id new) (co_token c) t2)" and "rt_hash n = sha (ct_token new)"
    and "rt_family n = co_family c" and "rt_email n = co_email c" and "acceptable clk n"
proof -
  obtain n where t2: "t2 = t1 @ [n]"
    and n: "consumed_of n = \<lparr>co_email = co_email c, co_family = ct_family new, co_token = ct_id new\<rparr>"
      "rt_hash n = sha (ct_token new)" "rt_expires n = js_now clk + TOKEN_LIFETIME_MS" "rt_revoked n = None"
      "rt_replaced n = None" "rt_grace n = None" "rt_id n \<notin> rt_id ` set t1"
    using create_row [OF assms(3)] by metis
  have "c \<in> consumed_of ` set t1"
  proof -
    have "fst ` (\<lambda>r. (consumed_of r, rt_hash r)) ` set t1 = fst ` (\<lambda>r. (consumed_of r, rt_hash r)) ` set t"
      using arg_cong [OF aged_consumed [OF consume_ages [OF ids assms(2)] consume_keeps_count [OF assms(2)]],
          of "\<lambda>cs. fst ` set cs"] by simp
    with consume_origin [OF assms(2)] show ?thesis by (simp add: image_image)
  qed
  then have "co_token c \<in> rt_id ` set t1" by (auto simp: consumed_of_def)
  with n(7) have "rt_id n \<noteq> co_token c" by auto
  then have "n \<in> set (link_tokens (ct_id new) (co_token c) t2)" by (intro link_other) (simp_all add: t2)
  moreover have "acceptable clk n" using n(3-6) by (simp add: acceptable_def TOKEN_LIFETIME_MS_def)
  ultimately show thesis
    using n(1,2) create_family [OF assms(3)] by (intro that) (simp_all add: consumed_of_def)
qed


lemma revoke_row:
  assumes "q \<in> set t" and "rt_family q = f"
  obtains q' where "q' \<in> set (revokeTokenFamily clk f t)" and "row_ages q q'" and "rt_revoked q' \<noteq> None"
proof -
  let ?u = "\<lambda>r. if rt_family r = f \<and> rt_revoked r = None then rt_revoked_update (\<lambda>_. Some (db_now clk)) r else r"
  have "?u q \<in> set (revokeTokenFamily clk f t)"
    using assms(1) by (simp add: revokeTokenFamily_def set_sql_update)
  moreover have "row_ages q (?u q)" "rt_revoked (?u q) \<noteq> None" using assms(2) by (simp_all add: row_ages_def)
  ultimately show thesis by (rule that)
qed


text \<open>
  A token is spent once. After the first exchange of a token nothing that happens makes it
  acceptable again once ten seconds have passed: it is refused, as expired or revoked with no write,
  or as reused, and then every row of its family is revoked.
\<close>

theorem refresh_token_single_use:
  assumes "auth_reachable sha s"
    and "by_key rt_hash (sha tok) (as_tokens s) = Some r" and "rt_grace r = None"
    and "consumeRefreshToken sha clk tok (as_tokens s) = (Inr c, t)"
    and "(auth_step sha)\<^sup>*\<^sup>* \<lparr>as_tokens = t, as_pc = pc\<rparr> s'"
    and "\<And>w. pc w = as_pc s w \<or> pc w = Refreshing c \<or> pc w = LoggingOut c"
    and "db_now clk + 10000 \<le> js_now clk'"
  shows "\<exists>e t'. consumeRefreshToken sha clk' tok (as_tokens s') = (Inl e, t') \<and>
    (if e = TokenReuse then \<forall>q \<in> set t'. rt_family q = rt_family r \<longrightarrow> rt_revoked q \<noteq> None
     else e \<in> {TokenRevoked, TokenExpired} \<and> t' = as_tokens s')"
proof -
  note ok = reachable_ok [OF assms(1)]
  have ids: "distinct (map rt_id (as_tokens s))" using ok by (simp add: sessions_ok_def)
  have rin: "r \<in> set (as_tokens s)" "rt_hash r = sha tok" using assms(2) by (auto dest: by_key_SomeD)
  let ?g = "db_now clk + GRACE_WINDOW_SECONDS * 1000"
  have t: "t = sql_update (\<lambda>q. rt_id q = rt_id r) (\<lambda>q. q\<lparr>rt_grace := Some ?g\<rparr>) (as_tokens s)"
    and c: "c = consumed_of r"
    using assms(2-4) by (simp_all add: consumeRefreshToken_def split: if_splits)
  have ok1: "sessions_ok \<lparr>as_tokens = t, as_pc = pc\<rparr>"
  proof (rule sessions_ok_aged [OF ok consume_ages [OF ids assms(4)] consume_keeps_count [OF assms(4)]])
    fix w d assume "pc_token (pc w) = Some d"
    with assms(6) [of w] ok rin(1) show "d \<in> consumed_of ` set (as_tokens s)"
      by (auto simp: c sessions_ok_def)
  qed
  have "r\<lparr>rt_grace := Some ?g\<rparr> \<in> set t" using rin(1) by (force simp: t set_sql_update)
  then obtain r' where r': "by_key rt_hash (sha tok) (as_tokens s') = Some r'" "row_ages (r\<lparr>rt_grace := Some ?g\<rparr>) r'"
    using aged_lookup [OF assms(5) ok1, of "r\<lparr>rt_grace := Some ?g\<rparr>"] rin(2) by auto
  then have "rt_grace r' = Some ?g" "rt_family r' = rt_family r" by (simp_all add: row_ages_def)
  moreover have "\<not> js_now clk' < ?g" using assms(7) by (simp add: GRACE_WINDOW_SECONDS_def)
  ultimately show ?thesis
    using r'(1)
    by (auto simp: consumeRefreshToken_def revokeTokenFamily_def set_sql_update image_iff)
qed

text \<open>One token presented again and again within its grace window.\<close>

fun replay ::
  "(string \<Rightarrow> string) \<Rightarrow> (string \<Rightarrow> string option) \<Rightarrow> clock \<Rightarrow> string \<Rightarrow> fresh_values list \<Rightarrow>
     refresh_row list \<Rightarrow> auth_reply list \<times> refresh_row list" where
  "replay sha sign clk tok [] t = ([], t)"
| "replay sha sign clk tok (fv # fvs) t =
     (let (rep, t1) = post_refresh sha sign clk fv (Some tok) t; (reps, t2) = replay sha sign clk tok fvs t1
      in (rep # reps, t2))"

definition minted_row :: "(string \<Rightarrow> string) \<Rightarrow> clock \<Rightarrow> refresh_row \<Rightarrow> fresh_values \<Rightarrow> refresh_row" where
  "minted_row sha clk r fv = \<lparr>rt_id = fv_id fv, rt_hash = sha (fv_token fv), rt_email = rt_email r,
     rt_family = rt_family r, rt_expires = js_now clk + TOKEN_LIFETIME_MS, rt_revoked = None,
     rt_replaced = None, rt_grace = None\<rparr>"

lemma minted_row_simps [simp]:
  "rt_id (minted_row sha clk r fv) = fv_id fv" "rt_hash (minted_row sha clk r fv) = sha (fv_token fv)"
  "rt_family (minted_row sha clk r fv) = rt_family r" "acceptable clk (minted_row sha clk r fv)"
  by (simp_all add: minted_row_def acceptable_def TOKEN_LIFETIME_MS_def)

lemma update_head:
  "key r = k \<Longrightarrow> k \<notin> key ` set rest \<Longrightarrow> sql_update (\<lambda>q. key q = k) f (r # rest) = f r # rest"
  by (auto simp: sql_update_def image_iff intro!: map_idI)

lemma replay_step:
  assumes "tok \<noteq> []" and "rt_hash r = sha tok" and "acceptable clk r" and "js_now clk < db_now clk + 10000"
    and "sign (rt_email r) = Some a" and "rt_id r \<notin> rt_id ` set rest"
    and "sha (fv_token fv) \<notin> rt_hash ` set (r # rest)" and "fv_id fv \<notin> rt_id ` set (r # rest)"
  obtains r' rep where "post_refresh sha sign clk fv (Some tok) (r # rest) = (rep, r' # rest @ [minted_row sha clk r fv])"
    and "ar_cookie rep = SetRefreshCookie (fv_token fv)" and "acceptable clk r'"
    and "rt_hash r' = rt_hash r" and "rt_email r' = rt_email r" and "rt_id r' = rt_id r"
    and "rt_family r' = rt_family r"
proof -
  define r1 where "r1 = (if rt_grace r = None then r\<lparr>rt_grace := Some (db_now clk + 10000)\<rparr> else r)"
  have r1: "rt_hash r1 = rt_hash r" "rt_email r1 = rt_email r" "rt_id r1 = rt_id r" "rt_family r1 = rt_family r"
    by (simp_all add: r1_def)
  have ok: "acceptable clk (r1\<lparr>rt_replaced := Some i\<rparr>)" for i
    using assms(3,4) by (auto simp: r1_def acceptable_def split: option.splits)
  have "consumeRefreshToken sha clk tok (r # rest) = (Inr (consumed_of r), r1 # rest)"
    using assms(2,3,6) update_head [of rt_id r "rt_id r" rest]
    by (auto simp: consumeRefreshToken_def by_key_def acceptable_def r1_def not_less GRACE_WINDOW_SECONDS_def
        split: option.splits)
  moreover have "createRefreshToken sha clk fv (rt_email r) (Some (rt_family r)) (r1 # rest) =
      (Inr \<lparr>ct_token = fv_token fv, ct_id = fv_id fv, ct_family = rt_family r\<rparr>, (r1 # rest) @ [minted_row sha clk r fv])"
    using assms(7,8) r1 by (auto simp: createRefreshToken_def Let_def sql_exists_iff minted_row_def image_iff)
  moreover have "link_tokens (fv_id fv) (rt_id r) ((r1 # rest) @ [minted_row sha clk r fv]) =
      r1\<lparr>rt_replaced := Some (fv_id fv)\<rparr> # rest @ [minted_row sha clk r fv]"
    using assms(6,8) r1 update_head [of rt_id r1 "rt_id r" "rest @ [minted_row sha clk r fv]"]
    by (auto simp: link_tokens_def)
  ultimately have "post_refresh sha sign clk fv (Some tok) (r # rest) =
      (\<lparr>ar_status = 200, ar_body = AccessToken a, ar_cookie = SetRefreshCookie (fv_token fv)\<rparr>,
       r1\<lparr>rt_replaced := Some (fv_id fv)\<rparr> # rest @ [minted_row sha clk r fv])"
    using assms(1,5) by (simp add: post_refresh_def consumed_of_def)
  then show thesis by (rule that) (use ok r1 in simp_all)
qed

lemma replay_run:
  assumes "tok \<noteq> []" and "rt_hash r = sha tok" and "acceptable clk r" and "js_now clk < db_now clk + 10000"
    and "sign (rt_email r) = Some a"
    and "distinct (rt_id r # map rt_id rest @ map fv_id fvs)"
    and "distinct (rt_hash r # map rt_hash rest @ map (sha \<circ> fv_token) fvs)"
    and "replay sha sign clk tok fvs (r # rest) = (reps, t)"
  shows "map ar_cookie reps = map (SetRefreshCookie \<circ> fv_token) fvs \<and>
    (\<exists>r'. t = r' # rest @ map (minted_row sha clk r) fvs \<and> acceptable clk r')"
  using assms
proof (induction fvs arbitrary: r rest reps t)
  case (Cons fv fvs)
  obtain r1 rep where one:
    "post_refresh sha sign clk fv (Some tok) (r # rest) = (rep, r1 # rest @ [minted_row sha clk r fv])"
    "ar_cookie rep = SetRefreshCookie (fv_token fv)" "acceptable clk r1" "rt_hash r1 = rt_hash r"
    "rt_email r1 = rt_email r" "rt_id r1 = rt_id r" "rt_family r1 = rt_family r"
    by (rule replay_step [of tok r sha clk sign a rest fv]) (use Cons.prems in auto)
  obtain reps' where two: "replay sha sign clk tok fvs (r1 # rest @ [minted_row sha clk r fv]) = (reps', t)"
    and reps: "reps = rep # reps'"
    using Cons.prems(8) one(1) by (auto split: prod.splits)
  have same: "minted_row sha clk r1 = minted_row sha clk r"
    using one(5,7) by (simp add: fun_eq_iff minted_row_def)
  have "map ar_cookie reps' = map (SetRefreshCookie \<circ> fv_token) fvs \<and>
    (\<exists>r'. t = r' # (rest @ [minted_row sha clk r fv]) @ map (minted_row sha clk r1) fvs \<and> acceptable clk r')"
    by (rule Cons.IH [OF Cons.prems(1) _ one(3) Cons.prems(4) _ _ _ two])
      (use Cons.prems one in auto)
  then show ?case using one(2) by (simp add: reps same)
qed simp

text \<open>
  The grace window multiplies a session. A token presented again and again within ten seconds of
  its first use is answered every time with a new refresh token, and all of them are acceptable
  tokens of the one family: the link that the endpoint writes to the old row does not stop the next
  replay, although that is what it is for. The count has no bound but the requests that fit.
\<close>

theorem grace_replay_mints:
  assumes "createRefreshToken sha clk0 fv0 email None [] = (Inr new, t0)" and "fv_token fv0 \<noteq> []"
    and "sign email = Some a"
    and "js_now clk < db_now clk + 10000" and "js_now clk \<le> js_now clk0 + TOKEN_LIFETIME_MS"
    and "distinct (map fv_id (fv0 # fvs))" and "distinct (map (sha \<circ> fv_token) (fv0 # fvs))"
    and "replay sha sign clk (fv_token fv0) fvs t0 = (reps, t)"
  shows "map ar_cookie reps = map (SetRefreshCookie \<circ> fv_token) fvs \<and>
    length (filter (\<lambda>q. rt_family q = ct_family new \<and> acceptable clk q) t) \<ge> length fvs"
proof -
  obtain r where t0: "t0 = [r]" and r: "rt_id r = fv_id fv0" "rt_hash r = sha (fv_token fv0)" "rt_email r = email"
      "rt_family r = ct_family new" "acceptable clk r"
    using assms(1,5)
    by (auto simp: createRefreshToken_def Let_def acceptable_def sql_exists_iff)
  have "map ar_cookie reps = map (SetRefreshCookie \<circ> fv_token) fvs \<and>
      (\<exists>r'. t = r' # [] @ map (minted_row sha clk r) fvs \<and> acceptable clk r')"
    by (rule replay_run [OF assms(2) r(2,5) assms(4) _ _ _ assms(8) [unfolded t0]])
      (use assms(3,6,7) r in \<open>simp_all add: comp_def\<close>)
  moreover have "filter (\<lambda>q. rt_family q = ct_family new \<and> acceptable clk q) (map (minted_row sha clk r) fvs)
      = map (minted_row sha clk r) fvs"
    by (simp add: filter_id_conv r(4))
  ultimately show ?thesis by auto
qed

text \<open>
  A refresh in flight survives the revocation of its family. When the family of a request that
  has consumed its token is revoked, by a logout or by reuse detection, all its rows are revoked; yet
  the request's next statement adds an unrevoked row to the family, and the new token is accepted for
  its whole lifetime of seven days.
\<close>

theorem revoked_family_minted:
  fixes clk :: clock and fv :: fresh_values
  assumes "as_pc s w = Refreshing c"
    and "s1 = s\<lparr>as_tokens := revokeTokenFamily clk0 (co_family c) (as_tokens s)\<rparr>"
    and "sha (fv_token fv) \<notin> rt_hash ` set (as_tokens s)" and "fv_id fv \<notin> rt_id ` set (as_tokens s)"
    and "js_now clk' \<le> js_now clk + TOKEN_LIFETIME_MS"
  shows "(\<forall>q \<in> set (as_tokens s1). rt_family q = co_family c \<longrightarrow> rt_revoked q \<noteq> None) \<and>
    (\<exists>s2. auth_step sha s1 s2 \<and>
      fst (consumeRefreshToken sha clk' (fv_token fv) (as_tokens s2)) =
        Inr \<lparr>co_email = co_email c, co_family = co_family c, co_token = fv_id fv\<rparr>)"
proof -
  have revoked: "\<forall>q \<in> set (as_tokens s1). rt_family q = co_family c \<longrightarrow> rt_revoked q \<noteq> None"
    by (auto simp: assms(2) revokeTokenFamily_def set_sql_update split: if_splits)
  have "map rt_hash (as_tokens s1) = map rt_hash (as_tokens s)" "map rt_id (as_tokens s1) = map rt_id (as_tokens s)"
    by (simp_all add: assms(2) revokeTokenFamily_def map_key_sql_update)
  then have keys: "rt_hash ` set (as_tokens s1) = rt_hash ` set (as_tokens s)"
    "rt_id ` set (as_tokens s1) = rt_id ` set (as_tokens s)"
    by (metis list.set_map)+
  let ?n = "\<lparr>rt_id = fv_id fv, rt_hash = sha (fv_token fv), rt_email = co_email c, rt_family = co_family c,
    rt_expires = js_now clk + TOKEN_LIFETIME_MS, rt_revoked = None, rt_replaced = None, rt_grace = None\<rparr>"
  let ?new = "\<lparr>ct_token = fv_token fv, ct_id = fv_id fv, ct_family = co_family c\<rparr>"
  have fresh: "\<forall>q \<in> set (as_tokens s1). rt_hash q \<noteq> sha (fv_token fv) \<and> rt_id q \<noteq> fv_id fv"
    using assms(3,4) keys by (metis imageI)
  then have "createRefreshToken sha clk fv (co_email c) (Some (co_family c)) (as_tokens s1) =
      (Inr ?new, as_tokens s1 @ [?n])"
    by (auto simp: createRefreshToken_def Let_def sql_exists_iff)
  moreover have "as_pc s1 w = Refreshing c" using assms(1,2) by simp
  ultimately have "auth_step sha s1 \<lparr>as_tokens = as_tokens s1 @ [?n], as_pc = (as_pc s1)(w := Minted c (fv_id fv))\<rparr>"
    using auth_step.refresh_create by fastforce
  moreover have "by_key rt_hash (sha (fv_token fv)) (as_tokens s1) = None"
    using fresh by (simp add: by_key_None_iff)
  then have "by_key rt_hash (sha (fv_token fv)) (as_tokens s1 @ [?n]) = Some ?n"
    by (simp add: by_key_append) (simp add: by_key_def)
  then have "fst (consumeRefreshToken sha clk' (fv_token fv) (as_tokens s1 @ [?n])) =
      Inr \<lparr>co_email = co_email c, co_family = co_family c, co_token = fv_id fv\<rparr>"
    using assms(5) by (simp add: consumeRefreshToken_def consumed_of_def)
  ultimately show ?thesis using revoked by auto
qed

subsection \<open>Witnesses\<close>

definition example_fresh :: "string \<Rightarrow> fresh_values" where
  "example_fresh x = \<lparr>fv_token = x, fv_id = x, fv_family = x\<rparr>"

definition example_clock :: "millis \<Rightarrow> clock" where
  "example_clock now = \<lparr>js_now = now, db_now = now\<rparr>"

definition example_row :: refresh_row where
  "example_row = \<lparr>rt_id = ''a'', rt_hash = ''a'', rt_email = ''u'', rt_family = ''a'',
     rt_expires = TOKEN_LIFETIME_MS, rt_revoked = None, rt_replaced = None, rt_grace = None\<rparr>"

definition example_login :: auth_state where
  "example_login = \<lparr>as_tokens = [example_row], as_pc = (\<lambda>_. NoRequest)\<rparr>"

lemmas example_defs = example_fresh_def example_clock_def example_row_def example_login_def

lemma example_login_reachable: "auth_reachable id example_login"
proof -
  have "createRefreshToken id (example_clock 0) (example_fresh ''a'') ''u'' None (as_tokens no_sessions) =
      (Inr \<lparr>ct_token = ''a'', ct_id = ''a'', ct_family = ''a''\<rparr>, [example_row])"
    by (simp add: createRefreshToken_def Let_def example_defs no_sessions_def sql_exists_def)
  from auth_step.login [OF this] show ?thesis
    by (simp add: auth_reachable_def example_login_def no_sessions_def example_fresh_def r_into_rtranclp)
qed


definition example_used :: auth_state where
  "example_used = \<lparr>as_tokens = [example_row\<lparr>rt_grace := Some 10000\<rparr>], as_pc = (\<lambda>_. NoRequest)(0 := Refreshing (consumed_of example_row))\<rparr>"

lemma example_first_use:
  "consumeRefreshToken id (example_clock 0) ''a'' (as_tokens example_login) =
    (Inr (consumed_of example_row), as_tokens example_used)"
  by (simp add: consumeRefreshToken_def by_key_def sql_update_def TOKEN_LIFETIME_MS_def
      GRACE_WINDOW_SECONDS_def example_used_def example_defs)

lemma example_used_reachable: "auth_reachable id example_used"
proof -
  have "auth_step id example_login example_used"
    using auth_step.refresh_consume [of example_login 0 id, OF _ example_first_use]
    by (simp add: example_login_def example_used_def)
  with example_login_reachable show ?thesis by (simp add: auth_reachable_def)
qed


theorem refresh_token_single_use_witness:
  "\<exists>(s' :: auth_state) e t'. consumeRefreshToken id (example_clock 10000) ''a'' (as_tokens s') = (Inl e, t') \<and>
    e \<in> {TokenReuse, TokenRevoked, TokenExpired}"
proof -
  have row: "by_key rt_hash (id ''a'') (as_tokens example_login) = Some example_row"
    by (simp add: by_key_def example_defs)
  have pcs: "as_pc example_used w = as_pc example_login w \<or> as_pc example_used w = Refreshing (consumed_of example_row) \<or>
      as_pc example_used w = LoggingOut (consumed_of example_row)" for w
    by (simp add: example_used_def example_login_def)
  have "rt_grace example_row = None" "db_now (example_clock 0) + 10000 \<le> js_now (example_clock 10000)"
    by (simp_all add: example_row_def example_clock_def)
  from refresh_token_single_use [OF example_login_reachable row this(1) example_first_use rtranclp.rtrancl_refl pcs this(2)]
  show ?thesis by (metis insert_iff)
qed

theorem grace_replay_mints_witness:
  "\<exists>t. length (filter (\<lambda>q. rt_family q = ''a'' \<and> acceptable (example_clock 9) q) t) \<ge> 2"
proof -
  let ?fvs = "map example_fresh [''b'', ''c'']"
  have new: "createRefreshToken id (example_clock 0) (example_fresh ''a'') ''u'' None [] =
      (Inr \<lparr>ct_token = ''a'', ct_id = ''a'', ct_family = ''a''\<rparr>, [example_row])"
    by (simp add: createRefreshToken_def Let_def example_defs sql_exists_def)
  obtain reps t where "replay id Some (example_clock 9) (fv_token (example_fresh ''a'')) ?fvs [example_row] = (reps, t)"
    by fastforce
  from grace_replay_mints [OF new _ _ _ _ _ _ this]
  have "length ?fvs \<le> length (filter (\<lambda>q. rt_family q = ''a'' \<and> acceptable (example_clock 9) q) t)"
    by (simp add: example_fresh_def example_clock_def TOKEN_LIFETIME_MS_def)
  then show ?thesis by (intro exI [of _ t]) simp
qed

theorem revoked_family_minted_witness:
  "\<exists>s2 :: auth_state. fst (consumeRefreshToken id (example_clock 100000) ''b'' (as_tokens s2)) =
    Inr \<lparr>co_email = ''u'', co_family = ''a'', co_token = ''b''\<rparr>"
  using revoked_family_minted [of example_used 0 "consumed_of example_row" _ "example_clock 50" id "example_fresh ''b''"
      "example_clock 100000" "example_clock 60", OF _ refl]
  by (auto simp: example_used_def consumed_of_def example_defs TOKEN_LIFETIME_MS_def)

end
