(* ===== verification/OneTimeCodes.thy ===== *)
theory OneTimeCodes
  imports RefreshTokens
begin

text \<open>
  Logging in with a one-time secret: the endpoints \<^verbatim>\<open>/auth/request-link\<close>,
  \<^verbatim>\<open>/auth/consume\<close> (magic links) and \<^verbatim>\<open>/auth/exchange\<close> (OAuth codes) of
  \<^verbatim>\<open>src/api/server.ts\<close>, with the tables of migrations 008 and 083. Both redeem a row of the
  same shape in a transaction that locks it with \<open>FOR UPDATE SKIP LOCKED\<close>; the refresh token is
  created on the pool, outside that transaction. SHA-256, randomness, mail, \<open>URL\<close> and the
  signing of access tokens are parameters.
\<close>

record code_row =
  cr_id :: uuid
  cr_hash :: string
  cr_email :: string
  cr_expires :: millis
  cr_used :: "millis option"

record auth_db =
  ad_links :: "code_row list"
  ad_codes :: "code_row list"
  ad_tokens :: "refresh_row list"

datatype http_result = Replied auth_reply | Thrown

definition reply_error :: "nat \<Rightarrow> string \<Rightarrow> http_result" where
  "reply_error status message =
     Replied \<lparr>ar_status = status, ar_body = AuthError message, ar_cookie = KeepCookie\<rparr>"

definition js_truthy :: "string option \<Rightarrow> string option" where
  "js_truthy s = (case s of Some x \<Rightarrow> if x = [] then None else Some x | None \<Rightarrow> None)"

subsection \<open>Requesting a link\<close>

text \<open>The constraint on the column: the at sign is not the first character.\<close>

definition email_check :: "string \<Rightarrow> bool" where
  "email_check email = (List.member email (CHR ''@'') \<and> \<not> js_startsWith email ''@'')"

definition post_request_link ::
  "(string \<Rightarrow> string) \<Rightarrow> clock \<Rightarrow> fresh_values \<Rightarrow> bool \<Rightarrow> bool \<Rightarrow> string option \<Rightarrow> string option \<Rightarrow>
     auth_db \<Rightarrow> http_result \<times> auth_db" where
  "post_request_link sha clk fv delivered production baseEnv bodyEmail db =
     (case js_truthy (map_option (\<lambda>e. js_toLowerCase (js_trim e)) bodyEmail) of
        None \<Rightarrow> (reply_error 400 ''email is required'', db)
      | Some email \<Rightarrow>
          if \<not> List.member email (CHR ''@'') then (reply_error 400 ''email is required'', db)
          else
            (let token = fv_token fv; tokenSha = sha token in
             if \<not> email_check email \<or> length tokenSha \<noteq> 64 \<or>
               sql_exists (\<lambda>r. cr_hash r = tokenSha \<or> cr_id r = fv_id fv) (ad_links db)
             then (Thrown, db)
             else
               (let db = db\<lparr>ad_links := ad_links db @ [\<lparr>cr_id = fv_id fv, cr_hash = tokenSha,
                      cr_email = email, cr_expires = db_now clk + 15 * 60 * 1000, cr_used = None\<rparr>]\<rparr>;
                    baseUrl = (case js_truthy baseEnv of Some u \<Rightarrow> u | None \<Rightarrow> ''http://localhost:3000'');
                    loginUrl = baseUrl @ ''/app/auth/consume?token='' @ token
                in (Replied \<lparr>ar_status = 201,
                      ar_body = (if \<not> delivered \<and> \<not> production then AuthOkUrl loginUrl else AuthOk),
                      ar_cookie = KeepCookie\<rparr>, db))))"

subsection \<open>Redeeming a row\<close>

text \<open>
  The transaction the two endpoints share, over the ids that other transactions hold locked: the
  rows and tokens after it, and the reply. A failure after the lock rolls the row back and is
  rethrown.
\<close>

definition redeemable :: "(string \<Rightarrow> string) \<Rightarrow> clock \<Rightarrow> string \<Rightarrow> uuid list \<Rightarrow> code_row \<Rightarrow> bool" where
  "redeemable sha clk secret locked r \<longleftrightarrow>
     cr_hash r = sha secret \<and> cr_used r = None \<and> db_now clk < cr_expires r \<and> \<not> List.member locked (cr_id r)"

definition mark_used :: "clock \<Rightarrow> uuid \<Rightarrow> code_row list \<Rightarrow> code_row list" where
  "mark_used clk i = sql_update (\<lambda>r. cr_id r = i) (\<lambda>r. r\<lparr>cr_used := Some (db_now clk)\<rparr>)"

definition redeem ::
  "(string \<Rightarrow> string) \<Rightarrow> (string \<Rightarrow> string option) \<Rightarrow> clock \<Rightarrow> fresh_values \<Rightarrow> string \<Rightarrow> string \<Rightarrow> uuid list \<Rightarrow>
     code_row list \<Rightarrow> refresh_row list \<Rightarrow> http_result \<times> code_row list \<times> refresh_row list" where
  "redeem sha sign clk fv secret message locked rows tokens =
     (case find (redeemable sha clk secret locked) rows of
        None \<Rightarrow> (reply_error 400 message, rows, tokens)
      | Some r \<Rightarrow>
          (case sign (cr_email r) of
             None \<Rightarrow> (Thrown, rows, tokens)
           | Some access_token \<Rightarrow>
               (case createRefreshToken sha clk fv (cr_email r) None tokens of
                  (Inl _, tokens) \<Rightarrow> (Thrown, rows, tokens)
                | (Inr new, tokens) \<Rightarrow>
                    (Replied \<lparr>ar_status = 200, ar_body = AccessToken access_token,
                       ar_cookie = SetRefreshCookie (ct_token new)\<rparr>,
                     mark_used clk (cr_id r) rows, tokens))))"

definition post_consume ::
  "(string \<Rightarrow> string) \<Rightarrow> (string \<Rightarrow> string option) \<Rightarrow> clock \<Rightarrow> fresh_values \<Rightarrow> uuid list \<Rightarrow> string option \<Rightarrow>
     auth_db \<Rightarrow> http_result \<times> auth_db" where
  "post_consume sha sign clk fv locked bodyToken db =
     (case js_truthy bodyToken of
        None \<Rightarrow> (reply_error 400 ''token is required'', db)
      | Some token \<Rightarrow>
          (case redeem sha sign clk fv token ''invalid or expired token'' locked (ad_links db) (ad_tokens db) of
             (res, links, tokens) \<Rightarrow> (res, db\<lparr>ad_links := links, ad_tokens := tokens\<rparr>)))"

definition origin_allowed :: "(string \<Rightarrow> string option) \<Rightarrow> string option \<Rightarrow> string option \<Rightarrow> bool" where
  "origin_allowed url_origin baseEnv originHeader =
     (case js_truthy originHeader of
        None \<Rightarrow> True
      | Some origin \<Rightarrow>
          (let expectedBase = (case js_truthy baseEnv of Some u \<Rightarrow> u | None \<Rightarrow> ''http://localhost:3000'');
               expectedOrigin = (case url_origin expectedBase of Some u \<Rightarrow> u | None \<Rightarrow> ''http://localhost:3000'')
           in origin = expectedOrigin))"

definition post_exchange ::
  "(string \<Rightarrow> string option) \<Rightarrow> (string \<Rightarrow> string) \<Rightarrow> (string \<Rightarrow> string option) \<Rightarrow> clock \<Rightarrow> fresh_values \<Rightarrow>
     uuid list \<Rightarrow> string option \<Rightarrow> string option \<Rightarrow> string option \<Rightarrow> string option \<Rightarrow> auth_db \<Rightarrow>
     http_result \<times> auth_db" where
  "post_exchange url_origin sha sign clk fv locked contentType originHeader baseEnv bodyCode db =
     (let ct = js_toLowerCase (case contentType of Some c \<Rightarrow> c | None \<Rightarrow> []) in
      if \<not> js_includes ct ''application/json''
      then (reply_error 415 ''Content-Type must be application/json'', db)
      else if \<not> origin_allowed url_origin baseEnv originHeader
      then (reply_error 403 ''Origin not allowed'', db)
      else
        (case js_truthy bodyCode of
           None \<Rightarrow> (reply_error 400 ''code is required'', db)
         | Some code \<Rightarrow>
             (case redeem sha sign clk fv code ''invalid or expired code'' locked (ad_codes db) (ad_tokens db) of
                (res, codes, tokens) \<Rightarrow> (res, db\<lparr>ad_codes := codes, ad_tokens := tokens\<rparr>))))"

subsection \<open>Transactions that overlap\<close>

datatype code_pc = NoCode | Locked code_row | Issued code_row string

record code_state =
  cs_rows :: "code_row list"
  cs_tokens :: "refresh_row list"
  cs_pc :: "nat \<Rightarrow> code_pc"
  cs_redeemed :: "(uuid \<times> string) list"

definition held :: "code_pc \<Rightarrow> uuid option" where
  "held pc = (case pc of NoCode \<Rightarrow> None | Locked r \<Rightarrow> Some (cr_id r) | Issued r a \<Rightarrow> Some (cr_id r))"

text \<open>
  Any number of requests redeem rows of one table. \<open>cs_redeemed\<close> lists the ids whose access
  token was sent, with the token. A transaction can abort at any point before its commit; new rows
  arrive under new ids.
\<close>

inductive code_step ::
  "(string \<Rightarrow> string) \<Rightarrow> (string \<Rightarrow> string option) \<Rightarrow> code_state \<Rightarrow> code_state \<Rightarrow> bool" for sha sign where
  issue_row: "cr_id r \<notin> cr_id ` set (cs_rows s) \<Longrightarrow> cr_used r = None \<Longrightarrow>
    code_step sha sign s (s\<lparr>cs_rows := cs_rows s @ [r]\<rparr>)"
| lock_row: "cs_pc s w = NoCode \<Longrightarrow> r \<in> set (cs_rows s) \<Longrightarrow>
    cr_hash r = sha secret \<Longrightarrow> cr_used r = None \<Longrightarrow> db_now (clk :: clock) < cr_expires r \<Longrightarrow>
    (\<And>v. held (cs_pc s v) \<noteq> Some (cr_id r)) \<Longrightarrow>
    code_step sha sign s (s\<lparr>cs_pc := (cs_pc s)(w := Locked r)\<rparr>)"
| issue_tokens: "cs_pc s w = Locked r \<Longrightarrow> sign (cr_email r) = Some access \<Longrightarrow>
    createRefreshToken sha clk fv (cr_email r) None (cs_tokens s) = (Inr new, tokens) \<Longrightarrow>
    code_step sha sign s (s\<lparr>cs_tokens := tokens, cs_pc := (cs_pc s)(w := Issued r access)\<rparr>)"
| commit: "cs_pc s w = Issued r access \<Longrightarrow>
    code_step sha sign s (s\<lparr>cs_rows := mark_used clk (cr_id r) (cs_rows s), cs_pc := (cs_pc s)(w := NoCode),
      cs_redeemed := (cr_id r, access) # cs_redeemed s\<rparr>)"
| abort: "code_step sha sign s (s\<lparr>cs_pc := (cs_pc s)(w := NoCode)\<rparr>)"

definition no_codes :: code_state where
  "no_codes = \<lparr>cs_rows = [], cs_tokens = [], cs_pc = (\<lambda>_. NoCode), cs_redeemed = []\<rparr>"

subsection \<open>The invariant of the overlapping transactions\<close>

definition pc_row :: "code_pc \<Rightarrow> code_row option" where
  "pc_row pc = (case pc of NoCode \<Rightarrow> None | Locked r \<Rightarrow> Some r | Issued r a \<Rightarrow> Some r)"

lemma held_row: "held pc = map_option cr_id (pc_row pc)"
  by (cases pc) (simp_all add: held_def pc_row_def)

lemma pc_row_simps [simp]:
  "pc_row NoCode = None" "pc_row (Locked r) = Some r" "pc_row (Issued r a) = Some r"
  by (simp_all add: pc_row_def)

text \<open>Ids are unique; a locked row is in the table, unused, and locked once; a row that was redeemed
  is marked, was redeemed once, and the token that was sent is its owner's.\<close>

definition codes_ok :: "(string \<Rightarrow> string option) \<Rightarrow> code_state \<Rightarrow> bool" where
  "codes_ok sign s \<longleftrightarrow> distinct (map cr_id (cs_rows s)) \<and>
     (\<forall>w r. pc_row (cs_pc s w) = Some r \<longrightarrow> r \<in> set (cs_rows s) \<and> cr_used r = None) \<and>
     (\<forall>w v r. pc_row (cs_pc s w) = Some r \<longrightarrow> pc_row (cs_pc s v) = Some r \<longrightarrow> w = v) \<and>
     (\<forall>w r a. cs_pc s w = Issued r a \<longrightarrow> sign (cr_email r) = Some a) \<and>
     distinct (map fst (cs_redeemed s)) \<and>
     (\<forall>(i, a) \<in> set (cs_redeemed s). \<exists>r \<in> set (cs_rows s). cr_id r = i \<and> cr_used r \<noteq> None \<and> sign (cr_email r) = Some a)"

lemma mark_used_keep: "q \<in> set t \<Longrightarrow> cr_id q \<noteq> i \<Longrightarrow> q \<in> set (mark_used clk i t)"
  by (force simp: mark_used_def set_sql_update)

lemma mark_used_hit:
  "r \<in> set t \<Longrightarrow> r\<lparr>cr_used := Some (db_now clk)\<rparr> \<in> set (mark_used clk (cr_id r) t)"
  by (force simp: mark_used_def set_sql_update)

lemma mark_used_ids [simp]: "map cr_id (mark_used clk i t) = map cr_id t"
  by (simp add: mark_used_def map_key_sql_update)

lemma codes_ok_commit:
  assumes ok: "codes_ok sign s" and pc: "cs_pc s w = Issued r access"
  shows "codes_ok sign (s\<lparr>cs_rows := mark_used clk (cr_id r) (cs_rows s), cs_pc := (cs_pc s)(w := NoCode),
    cs_redeemed := (cr_id r, access) # cs_redeemed s\<rparr>)"
proof -
  let ?rows = "mark_used clk (cr_id r) (cs_rows s)"
  have ids: "distinct (map cr_id (cs_rows s))"
    and rows: "\<And>w r. pc_row (cs_pc s w) = Some r \<Longrightarrow> r \<in> set (cs_rows s) \<and> cr_used r = None"
    and once: "\<And>w v r. pc_row (cs_pc s w) = Some r \<Longrightarrow> pc_row (cs_pc s v) = Some r \<Longrightarrow> w = v"
    and sent: "\<And>w r a. cs_pc s w = Issued r a \<Longrightarrow> sign (cr_email r) = Some a"
    and redeemed: "\<And>i a. (i, a) \<in> set (cs_redeemed s) \<Longrightarrow>
      \<exists>r \<in> set (cs_rows s). cr_id r = i \<and> cr_used r \<noteq> None \<and> sign (cr_email r) = Some a"
    using ok unfolding codes_ok_def by blast+
  have r: "r \<in> set (cs_rows s)" "cr_used r = None" using rows [of w r] pc by simp_all
  have same: "q = r" if "q \<in> set (cs_rows s)" "cr_id q = cr_id r" for q
    using that ids r(1) by (auto simp: distinct_map dest: inj_onD)
  have new: "cr_id r \<notin> fst ` set (cs_redeemed s)"
    using redeemed same r(2) by fastforce
  have "q \<in> set ?rows" if "pc_row (cs_pc s v) = Some q" "v \<noteq> w" for v q
    using that rows once [of v q w] pc same by (metis mark_used_keep pc_row_simps(3))
  moreover have "\<exists>q \<in> set ?rows. cr_id q = i \<and> cr_used q \<noteq> None \<and> sign (cr_email q) = Some a"
    if "(i, a) \<in> set (cs_redeemed s)" for i a
    using redeemed [OF that] same r(2) by (metis mark_used_keep)
  moreover have "\<exists>q \<in> set ?rows. cr_id q = cr_id r \<and> cr_used q \<noteq> None \<and> sign (cr_email q) = Some access"
    using mark_used_hit [OF r(1), of clk] sent [OF pc] by (intro bexI) simp_all
  ultimately show ?thesis
    using ids rows once sent new ok unfolding codes_ok_def by (auto split: if_splits)
qed

lemma codes_ok_step:
  assumes "code_step sha sign s s'" and ok: "codes_ok sign s"
  shows "codes_ok sign s'"
  using assms(1)
proof (cases rule: code_step.cases)
  case (commit w r access clk)
  then show ?thesis using codes_ok_commit [OF ok] by simp
next
  case (lock_row w r secret clk)
  have "pc_row (cs_pc s v) \<noteq> Some r" for v using lock_row(7) [of v] by (auto simp: held_row)
  with ok lock_row(1-5) show ?thesis by (auto simp: codes_ok_def)
next
  case (issue_tokens w r access clk fv new tokens)
  then have "pc_row (cs_pc s w) = Some r" by simp
  then have "r \<in> set (cs_rows s) \<and> cr_used r = None"
    and "\<And>v. pc_row (cs_pc s v) = Some r \<Longrightarrow> v = w"
    using ok unfolding codes_ok_def by blast+
  with ok issue_tokens show ?thesis unfolding codes_ok_def by (auto split: if_splits)
qed (use ok in \<open>auto simp: codes_ok_def split: if_splits\<close>)

lemma codes_reachable_ok: "(code_step sha sign)\<^sup>*\<^sup>* no_codes s \<Longrightarrow> codes_ok sign s"
proof (induction rule: rtranclp_induct)
  case base
  show ?case by (simp add: codes_ok_def no_codes_def)
next
  case (step s s')
  then show ?case using codes_ok_step by blast
qed

subsection \<open>Properties\<close>


text \<open>The access token a response carries, if any.\<close>

definition sent :: "http_result \<Rightarrow> string option" where
  "sent res = (case res of Thrown \<Rightarrow> None
     | Replied rep \<Rightarrow> (case ar_body rep of AccessToken a \<Rightarrow> Some a | _ \<Rightarrow> None))"

lemma sent_reply_error [simp]: "sent (reply_error status message) = None"
  by (simp add: sent_def reply_error_def)

lemma redeem_cases:
  assumes "redeem sha sign clk fv secret message locked rows tokens = (res, rows', tokens')"
  obtains (no) "sent res = None" and "rows' = rows" and "tokens' = tokens"
  | (yes) r a where "find (redeemable sha clk secret locked) rows = Some r" and "sign (cr_email r) = Some a"
    and "sent res = Some a" and "rows' = mark_used clk (cr_id r) rows"
    and "\<exists>n. tokens' = tokens @ [n] \<and> rt_email n = cr_email r \<and> acceptable clk n"
proof (cases "find (redeemable sha clk secret locked) rows")
  case None
  then have "redeem sha sign clk fv secret message locked rows tokens = (reply_error 400 message, rows, tokens)"
    by (simp add: redeem_def)
  with assms show thesis by (intro no) auto
next
  case (Some r)
  show thesis
  proof (cases "sign (cr_email r)")
    case None
    with assms Some show thesis by (intro no) (auto simp: redeem_def sent_def)
  next
    case signed: (Some a)
    show thesis
    proof (cases "createRefreshToken sha clk fv (cr_email r) None tokens")
      case (Pair new t)
      show thesis
      proof (cases new)
        case (Inl e)
        then have "t = tokens" using Pair by (auto simp: createRefreshToken_def Let_def split: if_splits)
        with assms Some signed Pair Inl show thesis by (intro no) (auto simp: redeem_def sent_def)
      next
        case (Inr d)
        have "\<exists>n. t = tokens @ [n] \<and> rt_email n = cr_email r \<and> acceptable clk n"
        proof (rule create_row [OF Pair [unfolded Inr]])
          fix n assume "t = tokens @ [n]" "rt_expires n = js_now clk + TOKEN_LIFETIME_MS" "rt_revoked n = None"
            "rt_replaced n = None" "rt_grace n = None"
            "consumed_of n = \<lparr>co_email = cr_email r, co_family = ct_family d, co_token = ct_id d\<rparr>"
          then show ?thesis by (simp add: acceptable_def consumed_of_def TOKEN_LIFETIME_MS_def)
        qed
        with assms Some signed Pair Inr show thesis by (intro yes) (auto simp: redeem_def sent_def)
      qed
    qed
  qed
qed

lemma mark_used_spent:
  assumes "distinct (map cr_id rows)" and "distinct (map cr_hash rows)"
    and "find (redeemable sha clk secret locked) rows = Some r"
  shows "find (redeemable sha clk' secret locked') (mark_used clk (cr_id r) rows) = None"
proof -
  have r: "r \<in> set rows" "cr_hash r = sha secret"
    using assms(3) by (auto simp: find_Some_iff redeemable_def)
  have "\<not> redeemable sha clk' secret locked' q" if "q \<in> set (mark_used clk (cr_id r) rows)" for q
  proof
    assume q: "redeemable sha clk' secret locked' q"
    then have "cr_used q = None" "cr_hash q = sha secret" by (simp_all add: redeemable_def)
    with that have "q \<in> set rows" "cr_id q \<noteq> cr_id r"
      by (auto simp: mark_used_def set_sql_update split: if_splits)
    then show False
      using assms(2) r \<open>cr_hash q = sha secret\<close> by (metis distinct_map inj_onD)
  qed
  then show ?thesis by (simp add: find_None_iff)
qed

text \<open>
  The exchange endpoint answers with an access token only for a row of its table that is unused,
  unexpired and signed for its owner, it then adds one acceptable refresh token of that owner, and
  from then on nobody gets anything for that code again, whatever the headers, the clock or the locks.
  In every other case, among them any foreign \<^verbatim>\<open>Origin\<close> and any other content type, nothing is
  written.
\<close>

theorem post_exchange_spec:
  assumes "distinct (map cr_id (ad_codes db))" and "distinct (map cr_hash (ad_codes db))"
    and "post_exchange url_origin sha sign clk fv locked ct origin base (Some code) db = (res, db')"
  shows "ad_links db' = ad_links db \<and>
    (case sent res of
       None \<Rightarrow> db' = db
     | Some a \<Rightarrow> (\<exists>r \<in> set (ad_codes db). cr_hash r = sha code \<and> cr_used r = None \<and> db_now clk < cr_expires r \<and>
         sign (cr_email r) = Some a \<and>
         (\<exists>n. ad_tokens db' = ad_tokens db @ [n] \<and> rt_email n = cr_email r \<and> acceptable clk n)) \<and>
         (\<forall>clk' fv' locked' ct' origin' base'. \<exists>res'.
           post_exchange url_origin sha sign clk' fv' locked' ct' origin' base' (Some code) db' = (res', db') \<and>
           sent res' = None) \<and>
         origin_allowed url_origin base origin)"
proof (cases "sent res = None")
  case True
  obtain res1 rows1 tokens1 where step: "redeem sha sign clk fv code ''invalid or expired code'' locked (ad_codes db) (ad_tokens db) =
      (res1, rows1, tokens1)" by (metis prod_cases3)
  have "rows1 = ad_codes db \<and> tokens1 = ad_tokens db" if "sent res1 = None"
    using that by (cases rule: redeem_cases [OF step]) simp_all
  then have "db' = db"
    using assms(3) True step by (auto simp: post_exchange_def Let_def js_truthy_def split: if_splits)
  with True show ?thesis by simp
next
  case False
  then obtain a where a: "sent res = Some a" by auto
  obtain res1 rows1 tokens1 where step: "redeem sha sign clk fv code ''invalid or expired code'' locked (ad_codes db) (ad_tokens db) =
      (res1, rows1, tokens1)" by (metis prod_cases3)
  have res: "res = res1" "db' = db\<lparr>ad_codes := rows1, ad_tokens := tokens1\<rparr>"
    and origin: "origin_allowed url_origin base origin"
    using assms(3) a step
    by (auto simp: post_exchange_def Let_def js_truthy_def split: if_splits option.splits)
  from step show ?thesis
  proof (cases rule: redeem_cases)
    case no
    with a res show ?thesis by simp
  next
    case (yes r b)
    then have r: "r \<in> set (ad_codes db)" "cr_hash r = sha code" "cr_used r = None" "db_now clk < cr_expires r"
      by (auto simp: find_Some_iff redeemable_def)
    have "\<exists>res'. post_exchange url_origin sha sign clk' fv' locked' ct' origin' base' (Some code) db' = (res', db') \<and>
        sent res' = None" for clk' fv' locked' ct' origin' base'
      using mark_used_spent [OF assms(1,2) yes(1), where clk' = clk' and locked' = locked'] yes(4)
      by (auto simp: post_exchange_def Let_def js_truthy_def redeem_def res(2))
    with a yes r res origin show ?thesis by auto
  qed
qed

subsection \<open>Witnesses\<close>

definition example_code :: code_row where
  "example_code = \<lparr>cr_id = ''c'', cr_hash = ''c'', cr_email = ''u'', cr_expires = 60000, cr_used = None\<rparr>"

definition example_held :: code_state where
  "example_held = \<lparr>cs_rows = [example_code], cs_tokens = [example_row],
     cs_pc = (\<lambda>_. NoCode)(0 := Issued example_code ''u''), cs_redeemed = []\<rparr>"

lemma example_held_reachable: "(code_step id Some)\<^sup>*\<^sup>* no_codes example_held"
proof -
  let ?s1 = "no_codes\<lparr>cs_rows := [example_code]\<rparr>"
  let ?s2 = "?s1\<lparr>cs_pc := (\<lambda>_. NoCode)(0 := Locked example_code)\<rparr>"
  have "code_step id Some no_codes ?s1"
    using code_step.issue_row [of example_code no_codes id Some] by (simp add: no_codes_def example_code_def)
  moreover have "code_step id Some ?s1 ?s2"
    using code_step.lock_row [of ?s1 0 example_code id "''c''" "example_clock 1" Some]
    by (simp add: no_codes_def example_code_def example_clock_def held_def)
  moreover have "createRefreshToken id (example_clock 0) (example_fresh ''a'') (cr_email example_code) None (cs_tokens ?s2) =
      (Inr \<lparr>ct_token = ''a'', ct_id = ''a'', ct_family = ''a''\<rparr>, [example_row])"
    by (simp add: createRefreshToken_def Let_def example_defs example_code_def no_codes_def sql_exists_def)
  then have "code_step id Some ?s2 example_held"
    using code_step.issue_tokens [of ?s2 0 example_code Some "''u''" id]
    by (auto simp: no_codes_def example_held_def example_code_def)
  ultimately show ?thesis by auto
qed


theorem post_exchange_spec_witness:
  "\<exists>db' res. sent (fst (post_exchange (\<lambda>u. Some u) id Some (example_clock 5) (example_fresh ''t'') [] (Some ''application/json'')
      None None (Some ''c'') db')) = None \<and> sent res = Some ''u'' \<and>
    (res, db') = post_exchange (\<lambda>u. Some u) id Some (example_clock 1) (example_fresh ''a'') [] (Some ''application/json'')
      None None (Some ''c'') \<lparr>ad_links = [], ad_codes = [example_code], ad_tokens = []\<rparr>"
proof -
  let ?db = "\<lparr>ad_links = [], ad_codes = [example_code], ad_tokens = []\<rparr>"
  obtain res db' where run: "post_exchange (\<lambda>u. Some u) id Some (example_clock 1) (example_fresh ''a'') []
      (Some ''application/json'') None None (Some ''c'') ?db = (res, db')" by fastforce
  then have "sent res = Some ''u''"
    by (auto simp: post_exchange_def Let_def js_truthy_def origin_allowed_def redeem_def redeemable_def example_code_def
        createRefreshToken_def sql_exists_def example_clock_def example_fresh_def sent_def js_toLowerCase_def
        js_lower_char_def js_startsWith_def)
  moreover from post_exchange_spec [OF _ _ run] this
  have "sent (fst (post_exchange (\<lambda>u. Some u) id Some (example_clock 5) (example_fresh ''t'') [] (Some ''application/json'')
      None None (Some ''c'') db')) = None"
    by (simp add: example_code_def) (metis fst_conv)
  ultimately show ?thesis using run by metis
qed

end
