(* ===== verification/AccessTokens.thy ===== *)
theory AccessTokens
  imports Prelude
begin

text \<open>
  \<^verbatim>\<open>src/api/auth/jwt.ts\<close> and \<open>getAuthIdentity\<close> of
  \<^verbatim>\<open>src/api/auth/middleware.ts\<close>: signing and verifying access tokens, the rotation of the
  secret, and the identity of a request. The library \<open>jose\<close> and SHA-256 are parameters; the
  environment variables are the record \<open>jwt_env\<close>. Times are seconds.
\<close>

record jwt_env =
  je_secret :: "string option"
  je_previous :: "string option"
  je_auth_disabled :: "string option"
  je_e2e_email :: "string option"

definition isAuthDisabled :: "jwt_env \<Rightarrow> bool" where
  "isAuthDisabled env =
     (je_auth_disabled env = Some ''true'' \<or> je_auth_disabled env = Some ''1'')"

text \<open>An environment variable that is set and not empty.\<close>

definition env_set :: "string option \<Rightarrow> string option" where
  "env_set v = (case v of Some s \<Rightarrow> if s = [] then None else Some s | None \<Rightarrow> None)"

datatype TokenType = UserToken | M2MToken

fun token_type_value :: "TokenType \<Rightarrow> string" where
  "token_type_value UserToken = ''user''"
| "token_type_value M2MToken = ''m2m''"

text \<open>What is handed to \<open>jose\<close> to sign, which is also what it returns from a verification: the
  claims and the protected header. The kinds of claims it does not require are optional.\<close>

record jwt_claims =
  jc_sub :: string
  jc_type :: "string option"
  jc_iat :: int
  jc_exp :: int
  jc_jti :: string
  jc_scope :: "string option"
  jc_iss :: "string option"
  jc_kid :: "string option"

record JwtPayload =
  jp_sub :: string
  jp_type :: TokenType
  jp_iat :: int
  jp_exp :: int
  jp_jti :: string
  jp_kid :: string
  jp_scope :: "string option"
  jp_iss :: "string option"

datatype jose_error = JWSSignatureVerificationFailed string | JoseError string

datatype jwt_error =
    SecretMissing
  | SecretTooShort nat
  | NoSecretConfigured
  | InvalidTokenType "string option"
  | MissingKid
  | InvalidIssuer "string option"
  | FromJose jose_error

definition TOKEN_TTL_SECONDS :: int where "TOKEN_TTL_SECONDS = 15 * 60"
definition M2M_TOKEN_TTL_SECONDS :: rat where "M2M_TOKEN_TTL_SECONDS = 100 * (36525 / 100) * 24 * 60 * 60"
definition CLOCK_TOLERANCE_SECONDS :: int where "CLOCK_TOLERANCE_SECONDS = 30"
definition MIN_SECRET_BYTES :: nat where "MIN_SECRET_BYTES = 32"
definition M2M_ISSUER :: string where "M2M_ISSUER = ''openclaw-projects''"

definition utf8_length :: "string \<Rightarrow> nat" where
  "utf8_length s = sum_list (map (\<lambda>c. if (of_char c :: nat) < 128 then 1 else 2) s)"

definition deriveKid :: "(string \<Rightarrow> string) \<Rightarrow> string \<Rightarrow> string" where
  "deriveKid sha secret = take 8 (sha (take 8 secret))"

definition requireSecret :: "string option \<Rightarrow> jwt_error + string" where
  "requireSecret secret =
     (case secret of
        None \<Rightarrow> Inl SecretMissing
      | Some s \<Rightarrow>
          if s = [] \<or> js_trim s = [] then Inl SecretMissing
          else if utf8_length s < MIN_SECRET_BYTES then Inl (SecretTooShort (utf8_length s))
          else Inr s)"

record SignOptions =
  so_type :: "TokenType option"
  so_scopes :: "string list option"

definition signAccessToken ::
  "(jwt_claims \<Rightarrow> string \<Rightarrow> string) \<Rightarrow> (string \<Rightarrow> string) \<Rightarrow> jwt_env \<Rightarrow> int \<Rightarrow> string \<Rightarrow> string \<Rightarrow>
     SignOptions option \<Rightarrow> jwt_error + string" where
  "signAccessToken jose_sign sha env now jti email options =
     (case requireSecret (je_secret env) of
        Inl e \<Rightarrow> Inl e
      | Inr secret \<Rightarrow>
          (let kid = deriveKid sha secret;
               type = (case Option.bind options so_type of Some t \<Rightarrow> t | None \<Rightarrow> UserToken);
               scopes = (case Option.bind options so_scopes of Some ss \<Rightarrow> ss | None \<Rightarrow> []) in
           Inr (jose_sign
             \<lparr>jc_sub = email, jc_type = Some (token_type_value type), jc_iat = now,
              jc_exp = now + TOKEN_TTL_SECONDS, jc_jti = jti,
              jc_scope = (if scopes = [] then None else Some (js_join '' '' scopes)),
              jc_iss = (if type = M2MToken then Some M2M_ISSUER else None), jc_kid = Some kid\<rparr> secret)))"

definition signM2MToken ::
  "(jwt_claims \<Rightarrow> string \<Rightarrow> string) \<Rightarrow> (string \<Rightarrow> string) \<Rightarrow> jwt_env \<Rightarrow> int \<Rightarrow> string \<Rightarrow> string \<Rightarrow>
     string list \<Rightarrow> jwt_error + string" where
  "signM2MToken jose_sign sha env now jti serviceId scopes =
     (case requireSecret (je_secret env) of
        Inl e \<Rightarrow> Inl e
      | Inr secret \<Rightarrow>
          Inr (jose_sign
            \<lparr>jc_sub = serviceId, jc_type = Some (token_type_value M2MToken), jc_iat = now,
             jc_exp = now + \<lfloor>M2M_TOKEN_TTL_SECONDS\<rfloor>, jc_jti = jti,
             jc_scope = (if scopes = [] then None else Some (js_join '' '' scopes)),
             jc_iss = Some M2M_ISSUER, jc_kid = Some (deriveKid sha secret)\<rparr> secret))"

definition verifyWith ::
  "(int \<Rightarrow> int \<Rightarrow> string \<Rightarrow> string \<Rightarrow> jose_error + jwt_claims) \<Rightarrow> int \<Rightarrow> string \<Rightarrow> string \<Rightarrow>
     jwt_error + JwtPayload" where
  "verifyWith jwtVerify now token secret =
     (case jwtVerify CLOCK_TOLERANCE_SECONDS now token secret of
        Inl e \<Rightarrow> Inl (FromJose e)
      | Inr payload \<Rightarrow>
          (case (if jc_type payload = Some ''user'' then Some UserToken
                 else if jc_type payload = Some ''m2m'' then Some M2MToken else None) of
             None \<Rightarrow> Inl (InvalidTokenType (jc_type payload))
           | Some token_type \<Rightarrow>
               (case jc_kid payload of
                  None \<Rightarrow> Inl MissingKid
                | Some kid \<Rightarrow>
                    if token_type = M2MToken \<and> jc_iss payload \<noteq> Some M2M_ISSUER
                    then Inl (InvalidIssuer (jc_iss payload))
                    else Inr \<lparr>jp_sub = jc_sub payload, jp_type = token_type, jp_iat = jc_iat payload,
                      jp_exp = jc_exp payload, jp_jti = jc_jti payload, jp_kid = kid,
                      jp_scope = jc_scope payload, jp_iss = jc_iss payload\<rparr>)))"

text \<open>The second alternative tests the message of any error, so it also holds of the two errors of
  \<open>verifyWith\<close> that print a value of the token containing the words.\<close>

definition isSignatureError :: "jwt_error \<Rightarrow> bool" where
  "isSignatureError err =
     (case err of
        FromJose (JWSSignatureVerificationFailed m) \<Rightarrow> True
      | FromJose (JoseError m) \<Rightarrow> js_includes m ''signature verification failed''
      | InvalidTokenType (Some t) \<Rightarrow> js_includes t ''signature verification failed''
      | InvalidIssuer (Some i) \<Rightarrow> js_includes i ''signature verification failed''
      | _ \<Rightarrow> False)"

definition verifyAccessToken ::
  "(int \<Rightarrow> int \<Rightarrow> string \<Rightarrow> string \<Rightarrow> jose_error + jwt_claims) \<Rightarrow> jwt_env \<Rightarrow> int \<Rightarrow> string \<Rightarrow>
     jwt_error + JwtPayload" where
  "verifyAccessToken jwtVerify env now token =
     (let primary = env_set (je_secret env); previous = env_set (je_previous env) in
      if primary = None \<and> \<not> isAuthDisabled env then Inl SecretMissing
      else
        (case primary of
           Some p \<Rightarrow>
             (case verifyWith jwtVerify now token p of
                Inr payload \<Rightarrow> Inr payload
              | Inl err \<Rightarrow>
                  (case previous of
                     Some q \<Rightarrow> if isSignatureError err then verifyWith jwtVerify now token q else Inl err
                   | None \<Rightarrow> Inl err))
         | None \<Rightarrow>
             (case previous of
                Some q \<Rightarrow> verifyWith jwtVerify now token q
              | None \<Rightarrow> Inl NoSecretConfigured)))"

subsection \<open>The identity of a request\<close>

record AuthIdentity =
  ai_email :: string
  ai_type :: TokenType
  ai_scopes :: "string list option"

definition identity_of :: "JwtPayload \<Rightarrow> AuthIdentity" where
  "identity_of payload = \<lparr>ai_email = jp_sub payload, ai_type = jp_type payload,
     ai_scopes = map_option (js_split (CHR '' '')) (env_set (jp_scope payload))\<rparr>"

text \<open>\<open>verify\<close> stands for \<open>verifyAccessToken\<close> at the time of the request.\<close>

definition getAuthIdentity ::
  "(string \<Rightarrow> jwt_error + JwtPayload) \<Rightarrow> jwt_env \<Rightarrow> string option \<Rightarrow> AuthIdentity option" where
  "getAuthIdentity verify env authHeader =
     (let e2e = (case env_set (je_e2e_email env) of
          Some email \<Rightarrow> if isAuthDisabled env then Some \<lparr>ai_email = email, ai_type = UserToken, ai_scopes = None\<rparr> else None
        | None \<Rightarrow> None) in
      case env_set authHeader of
        Some header \<Rightarrow>
          if js_startsWith header ''Bearer '' \<and> drop 7 header \<noteq> []
          then (case verify (drop 7 header) of
              Inr payload \<Rightarrow> Some (identity_of payload)
            | Inl _ \<Rightarrow> e2e)
          else e2e
      | None \<Rightarrow> e2e)"

subsection \<open>Properties\<close>

text \<open>What is used of \<open>jose\<close>: a compact JWS signed with HS256 is not empty, verifies with the
  secret it was signed with until its expiry and the tolerance have passed, and with another secret
  it fails with the signature error.\<close>

definition hs256 ::
  "(jwt_claims \<Rightarrow> string \<Rightarrow> string) \<Rightarrow> (int \<Rightarrow> int \<Rightarrow> string \<Rightarrow> string \<Rightarrow> jose_error + jwt_claims) \<Rightarrow> bool" where
  "hs256 jose_sign jwtVerify \<longleftrightarrow>
     (\<forall>c k k' tol now. jose_sign c k \<noteq> [] \<and>
       (k' \<noteq> k \<longrightarrow> jwtVerify tol now (jose_sign c k) k' = Inl (JWSSignatureVerificationFailed ''signature verification failed'')) \<and>
       (now < jc_exp c + tol \<longrightarrow> jwtVerify tol now (jose_sign c k) k = Inr c) \<and>
       (jc_exp c + tol \<le> now \<longrightarrow> jwtVerify tol now (jose_sign c k) k = Inl (JoseError ''exp claim timestamp check failed'')))"

lemma requireSecret_ok [outcome_iff]:
  "requireSecret s = Inr k \<longleftrightarrow> s = Some k \<and> js_trim k \<noteq> [] \<and> MIN_SECRET_BYTES \<le> utf8_length k"
  by (auto simp: requireSecret_def js_trim_def split: option.splits if_splits)

lemma env_set_Some [simp]: "env_set (Some k) = (if k = [] then None else Some k)"
  "env_set None = None"
  by (simp_all add: env_set_def)

lemma js_trim_Nil [simp]: "js_trim [] = []"
  by (simp add: js_trim_def)

lemma verifyWith_signed:
  assumes "hs256 jose_sign jwtVerify" and "jc_type c = Some (token_type_value ty)" and "jc_kid c = Some kid"
    and "ty = M2MToken \<Longrightarrow> jc_iss c = Some M2M_ISSUER"
  shows "verifyWith jwtVerify now (jose_sign c k) q =
    (if q \<noteq> k then Inl (FromJose (JWSSignatureVerificationFailed ''signature verification failed''))
     else if jc_exp c + 30 \<le> now then Inl (FromJose (JoseError ''exp claim timestamp check failed''))
     else Inr \<lparr>jp_sub = jc_sub c, jp_type = ty, jp_iat = jc_iat c, jp_exp = jc_exp c, jp_jti = jc_jti c,
       jp_kid = kid, jp_scope = jc_scope c, jp_iss = jc_iss c\<rparr>)"
proof -
  have "jwtVerify CLOCK_TOLERANCE_SECONDS now (jose_sign c k) q =
      (if q \<noteq> k then Inl (JWSSignatureVerificationFailed ''signature verification failed'')
       else if jc_exp c + 30 \<le> now then Inl (JoseError ''exp claim timestamp check failed'') else Inr c)"
    using assms(1) unfolding hs256_def CLOCK_TOLERANCE_SECONDS_def by (cases "q = k") auto
  then show ?thesis
    using assms(2-4) by (cases ty) (simp_all add: verifyWith_def)
qed

lemma expiry_is_no_signature_error:
  "\<not> isSignatureError (FromJose (JoseError ''exp claim timestamp check failed''))"
  "isSignatureError (FromJose (JWSSignatureVerificationFailed m))"
  by (simp_all add: isSignatureError_def js_startsWith_def)

text \<open>A token is accepted under either secret of the environment, whichever signed it.\<close>

lemma verify_rotated:
  assumes "hs256 jose_sign jwtVerify" and "jc_type c = Some (token_type_value ty)" and "jc_kid c = Some kid"
    and "ty = M2MToken \<Longrightarrow> jc_iss c = Some M2M_ISSUER"
  shows "(\<exists>p. verifyAccessToken jwtVerify env now (jose_sign c k) = Inr p) \<longleftrightarrow>
    (env_set (je_secret env) \<noteq> None \<or> isAuthDisabled env) \<and>
    (env_set (je_secret env) = Some k \<or> env_set (je_previous env) = Some k) \<and> now < jc_exp c + 30"
    and "verifyAccessToken jwtVerify env now (jose_sign c k) = Inr p \<Longrightarrow>
      p = \<lparr>jp_sub = jc_sub c, jp_type = ty, jp_iat = jc_iat c, jp_exp = jc_exp c, jp_jti = jc_jti c,
       jp_kid = kid, jp_scope = jc_scope c, jp_iss = jc_iss c\<rparr>"
  using verifyWith_signed [OF assms] expiry_is_no_signature_error
  by (auto simp: verifyAccessToken_def Let_def split: option.splits if_splits)

text \<open>
  C20. A token that was signed identifies its subject, and nobody else, for exactly its lifetime.
  Presented as a bearer token it yields the email, type and scopes it was signed with while the
  signing secret is the current or the previous one of the environment and fifteen minutes and the
  tolerance of thirty seconds have not passed; otherwise the request has no identity, except the one
  configured for tests where authentication is disabled.
\<close>

theorem access_token_roundtrip:
  assumes "hs256 jose_sign jwtVerify"
    and "signAccessToken jose_sign sha env0 now0 jti email (Some \<lparr>so_type = Some ty, so_scopes = Some scopes\<rparr>) = Inr token"
    and "\<forall>s \<in> set scopes. s \<noteq> [] \<and> CHR '' '' \<notin> set s"
  shows "getAuthIdentity (verifyAccessToken jwtVerify env now) env (Some (''Bearer '' @ token)) =
    (if (env_set (je_secret env) \<noteq> None \<or> isAuthDisabled env) \<and>
       (env_set (je_secret env) = je_secret env0 \<or> env_set (je_previous env) = je_secret env0) \<and>
       now < now0 + 930
     then Some \<lparr>ai_email = email, ai_type = ty, ai_scopes = (if scopes = [] then None else Some scopes)\<rparr>
     else if isAuthDisabled env
     then map_option (\<lambda>e. \<lparr>ai_email = e, ai_type = UserToken, ai_scopes = None\<rparr>) (env_set (je_e2e_email env))
     else None)"
proof -
  obtain k where k: "requireSecret (je_secret env0) = Inr k"
    using assms(2) by (auto simp: signAccessToken_def split: sum.splits)
  then have secret: "je_secret env0 = Some k" by (simp add: requireSecret_ok)
  define c where "c = \<lparr>jc_sub = email, jc_type = Some (token_type_value ty), jc_iat = now0,
    jc_exp = now0 + TOKEN_TTL_SECONDS, jc_jti = jti,
    jc_scope = (if scopes = [] then None else Some (js_join '' '' scopes)),
    jc_iss = (if ty = M2MToken then Some M2M_ISSUER else None), jc_kid = Some (deriveKid sha k)\<rparr>"
  have token: "token = jose_sign c k"
    using assms(2) k by (simp add: signAccessToken_def c_def Let_def)
  have c: "jc_type c = Some (token_type_value ty)" "jc_kid c = Some (deriveKid sha k)"
    "ty = M2MToken \<Longrightarrow> jc_iss c = Some M2M_ISSUER" "jc_exp c + 30 = now0 + 930"
    by (simp_all add: c_def TOKEN_TTL_SECONDS_def)
  note verified = verify_rotated [OF assms(1) c(1-3), of env now k, unfolded c(4)]
  have scopes: "map_option (js_split (CHR '' '')) (env_set (jc_scope c)) = (if scopes = [] then None else Some scopes)"
  proof (cases scopes)
    case (Cons s ss)
    then have "js_join '' '' scopes \<noteq> []" using assms(3) by (cases ss) auto
    with Cons show ?thesis using js_split_join [of scopes "CHR '' ''"] assms(3) by (simp add: c_def)
  qed (simp add: c_def)
  have header: "env_set (Some (''Bearer '' @ token)) = Some (''Bearer '' @ token)"
    "js_startsWith (''Bearer '' @ token) ''Bearer ''" "drop 7 (''Bearer '' @ token) = token"
    by (simp_all add: js_startsWith_def)
  have nonempty: "token \<noteq> []" using assms(1) by (simp add: token hs256_def)
  show ?thesis
  proof (cases "verifyAccessToken jwtVerify env now token")
    case (Inl e)
    then have "\<not> ((env_set (je_secret env) \<noteq> None \<or> isAuthDisabled env) \<and>
       (env_set (je_secret env) = je_secret env0 \<or> env_set (je_previous env) = je_secret env0) \<and> now < now0 + 930)"
      using verified(1) unfolding token secret by (metis sum.simps(4))
    then show ?thesis
      using header nonempty Inl by (auto simp: getAuthIdentity_def Let_def split: option.splits)
  next
    case (Inr p)
    then have "(env_set (je_secret env) \<noteq> None \<or> isAuthDisabled env) \<and>
       (env_set (je_secret env) = je_secret env0 \<or> env_set (je_previous env) = je_secret env0) \<and> now < now0 + 930"
      using verified(1) unfolding token secret by blast
    moreover have "identity_of p = \<lparr>ai_email = email, ai_type = ty, ai_scopes = (if scopes = [] then None else Some scopes)\<rparr>"
      using verified(2) [of p] Inr scopes unfolding token by (simp add: identity_of_def c_def)
    ultimately show ?thesis
      using header nonempty Inr by (simp add: getAuthIdentity_def Let_def)
  qed
qed

text \<open>A signature scheme with the properties asked of \<open>jose\<close>, without its secrecy: a token spells
  out the claims and the secret, field by field.\<close>

fun pack :: "string list \<Rightarrow> string" where
  "pack [] = []"
| "pack (s # ss) = concat (map (\<lambda>c. [CHR ''1'', c]) s) @ CHR ''0'' # pack ss"

fun unpack :: "string \<Rightarrow> string list" where
  "unpack [] = []"
| "unpack (b # t) =
     (if b = CHR ''0'' then [] # unpack t
      else (case t of [] \<Rightarrow> [] | c # cs \<Rightarrow> (case unpack cs of [] \<Rightarrow> [] | s # ss \<Rightarrow> (c # s) # ss)))"

lemma unpack_pack: "unpack (pack ss) = ss"
proof (induction ss)
  case (Cons s ss)
  then show ?case by (induction s) simp_all
qed simp

definition opt_field :: "string option \<Rightarrow> string" where
  "opt_field v = (case v of None \<Rightarrow> [] | Some s \<Rightarrow> CHR ''s'' # s)"
definition field_opt :: "string \<Rightarrow> string option" where
  "field_opt s = (case s of [] \<Rightarrow> None | _ # t \<Rightarrow> Some t)"
definition int_field :: "int \<Rightarrow> string" where
  "int_field i = (if i < 0 then CHR ''-'' # replicate (nat (- i)) (CHR ''i'') else replicate (nat i) (CHR ''i''))"
definition field_int :: "string \<Rightarrow> int" where
  "field_int s = (case s of [] \<Rightarrow> 0 | c # t \<Rightarrow> if c = CHR ''-'' then - int (length t) else int (length s))"

lemma fields [simp]: "field_opt (opt_field v) = v" "field_int (int_field i) = i"
proof -
  show "field_int (int_field i) = i"
    by (cases "nat i") (auto simp: int_field_def field_int_def)
qed (simp add: opt_field_def field_opt_def split: option.splits)

definition plain_sign :: "jwt_claims \<Rightarrow> string \<Rightarrow> string" where
  "plain_sign c k = pack [jc_sub c, opt_field (jc_type c), int_field (jc_iat c), int_field (jc_exp c), jc_jti c,
     opt_field (jc_scope c), opt_field (jc_iss c), opt_field (jc_kid c), k]"

definition plain_verify :: "int \<Rightarrow> int \<Rightarrow> string \<Rightarrow> string \<Rightarrow> jose_error + jwt_claims" where
  "plain_verify tol now token k =
     (case unpack token of
        [sub, ty, iat, expiry, jti, scope, iss, kid, k'] \<Rightarrow>
          if k' \<noteq> k then Inl (JWSSignatureVerificationFailed ''signature verification failed'')
          else if field_int expiry + tol \<le> now then Inl (JoseError ''exp claim timestamp check failed'')
          else Inr \<lparr>jc_sub = sub, jc_type = field_opt ty, jc_iat = field_int iat, jc_exp = field_int expiry,
            jc_jti = jti, jc_scope = field_opt scope, jc_iss = field_opt iss, jc_kid = field_opt kid\<rparr>
      | _ \<Rightarrow> Inl (JoseError ''Invalid Compact JWS''))"

lemma plain_hs256: "hs256 plain_sign plain_verify"
proof -
  have "unpack (plain_sign c k) = [jc_sub c, opt_field (jc_type c), int_field (jc_iat c), int_field (jc_exp c), jc_jti c,
     opt_field (jc_scope c), opt_field (jc_iss c), opt_field (jc_kid c), k]" for c k
    unfolding plain_sign_def by (rule unpack_pack)
  moreover have "plain_sign c k \<noteq> []" for c k by (simp add: plain_sign_def)
  ultimately show ?thesis by (simp add: hs256_def plain_verify_def)
qed

theorem access_token_roundtrip_witness:
  "\<exists>token. getAuthIdentity (verifyAccessToken plain_verify \<lparr>je_secret = Some (replicate 32 CHR ''n''),
      je_previous = Some (replicate 32 CHR ''k''), je_auth_disabled = None, je_e2e_email = None\<rparr> 900)
    \<lparr>je_secret = Some (replicate 32 CHR ''n''), je_previous = Some (replicate 32 CHR ''k''),
      je_auth_disabled = None, je_e2e_email = None\<rparr> (Some (''Bearer '' @ token)) =
    Some \<lparr>ai_email = ''gw'', ai_type = M2MToken, ai_scopes = Some [''api:full'', ''x'']\<rparr>"
proof -
  let ?k = "replicate 32 CHR ''k''"
  let ?env0 = "\<lparr>je_secret = Some ?k, je_previous = None, je_auth_disabled = None, je_e2e_email = None\<rparr>"
  let ?opts = "Some \<lparr>so_type = Some M2MToken, so_scopes = Some [''api:full'', ''x'']\<rparr>"
  have "requireSecret (Some ?k) = Inr ?k"
    by (simp add: requireSecret_ok js_trim_def js_space_def utf8_length_def MIN_SECRET_BYTES_def eval_nat_numeral)
  then obtain token where "signAccessToken plain_sign id ?env0 0 ''j'' ''gw'' ?opts = Inr token"
    by (simp add: signAccessToken_def Let_def)
  from access_token_roundtrip [OF plain_hs256 this,
      of "\<lparr>je_secret = Some (replicate 32 CHR ''n''), je_previous = Some ?k, je_auth_disabled = None, je_e2e_email = None\<rparr>" 900]
  show ?thesis by (intro exI [of _ token]) simp
qed

end
