(* ===== verification/Namespaces.thy ===== *)
theory Namespaces
  imports Roles AccessTokens
begin

text \<open>
  Who may act where: the namespaces of \<^verbatim>\<open>src/api/auth/middleware.ts\<close>,
  \<^verbatim>\<open>namespace-admin.ts\<close> and \<^verbatim>\<open>permissions.ts\<close>, and the helpers of
  \<^verbatim>\<open>src/api/server.ts\<close> that the endpoints scope their statements with. A request is its
  headers, query and body; the identity is the result of \<open>getAuthIdentity\<close>; the tables are the
  grants and the user settings. \<open>collate\<close> stands for the collation of \<open>ORDER BY\<close>.
\<close>

subsection \<open>Requests\<close>

datatype header_value = HStr string | HList "string list"

record request =
  rq_headers :: "(string \<times> header_value) list"
  rq_query :: "(string \<times> json) list option"
  rq_body :: "json option"

text \<open>A header or property that is a string and not empty.\<close>

definition header_str :: "request \<Rightarrow> string \<Rightarrow> string option" where
  "header_str req name =
     (case map_of (rq_headers req) name of Some (HStr s) \<Rightarrow> env_set (Some s) | _ \<Rightarrow> None)"

definition prop_str :: "(string \<times> json) list \<Rightarrow> string \<Rightarrow> string option" where
  "prop_str obj key = (case map_of obj key of Some (JStr s) \<Rightarrow> env_set (Some s) | _ \<Rightarrow> None)"

definition query_obj :: "request \<Rightarrow> (string \<times> json) list" where
  "query_obj req = (case rq_query req of Some q \<Rightarrow> q | None \<Rightarrow> [])"

text \<open>The properties of the body; an array has none of the names asked for.\<close>

definition body_obj :: "request \<Rightarrow> (string \<times> json) list" where
  "body_obj req = (case rq_body req of Some (JObj b) \<Rightarrow> b | _ \<Rightarrow> [])"

fun first_some :: "'a option list \<Rightarrow> 'a option" where
  "first_some [] = None"
| "first_some (Some x # xs) = Some x"
| "first_some (None # xs) = first_some xs"

definition extractRequestedNamespace :: "request \<Rightarrow> string option" where
  "extractRequestedNamespace req =
     first_some [header_str req ''x-namespace'', prop_str (query_obj req) ''namespace'',
       prop_str (body_obj req) ''namespace'']"

definition MAX_NAMESPACES_PER_REQUEST :: nat where "MAX_NAMESPACES_PER_REQUEST = 20"
definition MAX_NAMESPACE_NAME_LENGTH :: nat where "MAX_NAMESPACE_NAME_LENGTH = 63"

definition lower_alnum :: "char \<Rightarrow> bool" where
  "lower_alnum c = (let n = of_char c :: nat in (97 \<le> n \<and> n \<le> 122) \<or> (48 \<le> n \<and> n \<le> 57))"

definition NAMESPACE_NAME_PATTERN :: "string \<Rightarrow> bool" where
  "NAMESPACE_NAME_PATTERN s =
     (case s of [] \<Rightarrow> False
      | c # cs \<Rightarrow> lower_alnum c \<and> list_all (\<lambda>d. lower_alnum d \<or> List.member ''._-'' d) cs)"

definition validateNamespaceList :: "string list \<Rightarrow> string list" where
  "validateNamespaceList raw =
     take MAX_NAMESPACES_PER_REQUEST
       (filter (\<lambda>ns. 0 < length ns \<and> length ns \<le> MAX_NAMESPACE_NAME_LENGTH \<and> NAMESPACE_NAME_PATTERN ns) raw)"

definition comma_list :: "string option \<Rightarrow> string list" where
  "comma_list v =
     (case v of None \<Rightarrow> [] | Some s \<Rightarrow> filter (\<lambda>x. x \<noteq> []) (map js_trim (js_split (CHR '','') s)))"

definition single_list :: "string option \<Rightarrow> string list" where
  "single_list v = (case v of None \<Rightarrow> [] | Some s \<Rightarrow> [js_trim s])"

definition body_namespaces :: "request \<Rightarrow> string list" where
  "body_namespaces req =
     (case map_of (body_obj req) ''namespaces'' of
        Some (JArr vs) \<Rightarrow> concat (map (\<lambda>v. case v of JStr s \<Rightarrow> if s = [] then [] else [s] | _ \<Rightarrow> []) vs)
      | _ \<Rightarrow> [])"

fun first_nonempty :: "'a list list \<Rightarrow> 'a list" where
  "first_nonempty [] = []"
| "first_nonempty (x # xs) = (if x = [] then first_nonempty xs else x)"

definition extractRequestedNamespaces :: "request \<Rightarrow> string list" where
  "extractRequestedNamespaces req =
     validateNamespaceList (first_nonempty
       [comma_list (header_str req ''x-namespaces''), single_list (header_str req ''x-namespace''),
        comma_list (prop_str (query_obj req) ''namespaces''), single_list (prop_str (query_obj req) ''namespace''),
        body_namespaces req, single_list (prop_str (body_obj req) ''namespace'')])"

definition hasExplicitNamespace :: "request \<Rightarrow> bool" where
  "hasExplicitNamespace req =
     (header_str req ''x-namespace'' \<noteq> None \<or> header_str req ''x-namespaces'' \<noteq> None \<or>
      prop_str (query_obj req) ''namespace'' \<noteq> None \<or> prop_str (query_obj req) ''namespaces'' \<noteq> None \<or>
      prop_str (body_obj req) ''namespace'' \<noteq> None \<or>
      (case map_of (body_obj req) ''namespaces'' of Some (JArr vs) \<Rightarrow> vs \<noteq> [] | _ \<Rightarrow> False))"

subsection \<open>The context of a request\<close>

record grant_row =
  gr_email :: string
  gr_namespace :: string
  gr_access :: string
  gr_home :: bool

record setting_row =
  us_email :: string
  us_active :: "string list option"

definition unrestricted :: "string list \<Rightarrow> NamespaceContext" where
  "unrestricted namespaces = \<lparr>nc_store = hd namespaces, nc_query = namespaces, nc_m2m = True, nc_roles = []\<rparr>"

definition restricted :: "(string \<times> string) list \<Rightarrow> string list \<Rightarrow> NamespaceContext" where
  "restricted roles namespaces =
     \<lparr>nc_store = hd namespaces, nc_query = namespaces, nc_m2m = False, nc_roles = roles\<rparr>"

definition user_namespaces ::
  "request \<Rightarrow> grant_row list \<Rightarrow> setting_row option \<Rightarrow> string list" where
  "user_namespaces req grants setting =
     (let allNamespaces = map gr_namespace grants;
          requestedMulti = extractRequestedNamespaces req in
      if requestedMulti \<noteq> [] then filter (List.member allNamespaces) requestedMulti
      else
        (case extractRequestedNamespace req of
           Some requested \<Rightarrow> if List.member allNamespaces requested then [requested] else []
         | None \<Rightarrow>
             (let homeNamespace = (case find gr_home grants of Some g \<Rightarrow> gr_namespace g | None \<Rightarrow> hd allNamespaces);
                  active = (case setting of None \<Rightarrow> []
                    | Some u \<Rightarrow> (case us_active u of None \<Rightarrow> [] | Some a \<Rightarrow> a));
                  sanitized = filter (List.member allNamespaces) active
              in if sanitized \<noteq> [] then sanitized else [homeNamespace])))"

definition resolveNamespaces ::
  "(string \<Rightarrow> nat) \<Rightarrow> jwt_env \<Rightarrow> AuthIdentity option \<Rightarrow> request \<Rightarrow> grant_row list \<Rightarrow> setting_row list \<Rightarrow>
     NamespaceContext option" where
  "resolveNamespaces collate env identity req grants settings =
     (let requested = extractRequestedNamespace req in
      if isAuthDisabled env then map_option (\<lambda>ns. unrestricted [ns]) requested
      else
        (case identity of
           None \<Rightarrow> None
         | Some i \<Rightarrow>
             if ai_type i = M2MToken
             then (let requestedMulti = extractRequestedNamespaces req in
               if requestedMulti \<noteq> [] then Some (unrestricted requestedMulti)
               else Some (unrestricted [case requested of Some ns \<Rightarrow> ns | None \<Rightarrow> ''default'']))
             else
               (let rows = sort_key (\<lambda>g. collate (gr_namespace g)) (filter (\<lambda>g. gr_email g = ai_email i) grants);
                    roles = fold (\<lambda>g. AList.update (gr_namespace g) (gr_access g)) rows [];
                    namespaces = user_namespaces req rows (find (\<lambda>u. us_email u = ai_email i) settings)
                in if rows = [] \<or> namespaces = [] then None else Some (restricted roles namespaces))))"

subsection \<open>Guards\<close>

definition getStoreNamespace :: "NamespaceContext option \<Rightarrow> string + string" where
  "getStoreNamespace context =
     (let ns = (case context of Some ctx \<Rightarrow> nc_store ctx | None \<Rightarrow> ''default'') in
      case requireMinRole context ns ReadWrite of Inl e \<Rightarrow> Inl e | Inr _ \<Rightarrow> Inr ns)"

text \<open>The store namespace and the namespaces the added condition admits.\<close>

definition addNamespaceFilter :: "NamespaceContext option \<Rightarrow> string \<times> string list" where
  "addNamespaceFilter context =
     (case context of Some ctx \<Rightarrow> (nc_store ctx, nc_query ctx) | None \<Rightarrow> (''default'', [''default'']))"

definition getEffectiveNamespaces :: "jwt_env \<Rightarrow> NamespaceContext option \<Rightarrow> string list" where
  "getEffectiveNamespaces env context =
     (case context of
        Some ctx \<Rightarrow> if nc_query ctx \<noteq> [] then nc_query ctx
          else if isAuthDisabled env then [''default''] else []
      | None \<Rightarrow> if isAuthDisabled env then [''default''] else [])"

definition resolveAndValidateNamespaceId ::
  "jwt_env \<Rightarrow> string option \<Rightarrow> string list \<Rightarrow> string + string list option" where
  "resolveAndValidateNamespaceId env namespaceId queryNamespaces =
     (if queryNamespaces = [] \<and> \<not> isAuthDisabled env then Inl ''No namespace grants available''
      else
        (case env_set namespaceId of
           None \<Rightarrow> Inr (if queryNamespaces \<noteq> [] then Some queryNamespaces else None)
         | Some ns \<Rightarrow>
             if queryNamespaces \<noteq> [] \<and> \<not> List.member queryNamespaces ns
             then Inl (''Not authorized for namespace '' @ [CHR 0x27] @ ns @ [CHR 0x27])
             else Inr (Some [ns])))"

record entity_row =
  en_id :: uuid
  en_namespace :: string
  en_deleted :: bool

definition verifyReadScope ::
  "jwt_env \<Rightarrow> NamespaceContext option \<Rightarrow> request \<Rightarrow> bool \<Rightarrow> uuid \<Rightarrow> entity_row list \<Rightarrow> bool" where
  "verifyReadScope env context req includeDeleted i t =
     (let live = (\<lambda>r. en_id r = i \<and> (includeDeleted \<or> \<not> en_deleted r));
          explicit = hasExplicitNamespace req;
          isM2M = (case context of Some ctx \<Rightarrow> nc_m2m ctx | None \<Rightarrow> False) in
      if \<not> explicit \<and> (isM2M \<or> isAuthDisabled env) then sql_exists live t
      else
        (let queryNamespaces = getEffectiveNamespaces env context in
         if queryNamespaces = [] then False
         else sql_exists (\<lambda>r. live r \<and> List.member queryNamespaces (en_namespace r)) t))"

definition verifyWriteScope ::
  "jwt_env \<Rightarrow> NamespaceContext option \<Rightarrow> request \<Rightarrow> bool \<Rightarrow> uuid \<Rightarrow> entity_row list \<Rightarrow> bool" where
  "verifyWriteScope env context req includeDeleted i t =
     (let live = (\<lambda>r. en_id r = i \<and> (includeDeleted \<or> \<not> en_deleted r));
          explicit = hasExplicitNamespace req;
          isM2M = (case context of Some ctx \<Rightarrow> nc_m2m ctx | None \<Rightarrow> False) in
      if \<not> explicit \<and> (isM2M \<or> isAuthDisabled env) then sql_exists live t
      else
        (let queryNamespaces = getEffectiveNamespaces env context in
         if queryNamespaces = [] then False
         else sql_exists (\<lambda>r. live r \<and> List.member queryNamespaces (en_namespace r)) t))"

subsection \<open>Administration and permissions\<close>

definition requireNamespaceAdmin :: "AuthIdentity \<Rightarrow> string \<Rightarrow> grant_row list \<Rightarrow> string option" where
  "requireNamespaceAdmin identity namespace grants =
     (if ai_type identity = M2MToken \<and>
        (case ai_scopes identity of Some ss \<Rightarrow> List.member ss ''api:full'' | None \<Rightarrow> False)
      then None
      else
        (case find (\<lambda>g. gr_email g = ai_email identity \<and> gr_namespace g = namespace) grants of
           None \<Rightarrow> Some ''No access to namespace''
         | Some g \<Rightarrow>
             if gr_access g \<noteq> ''readwrite'' then Some ''Requires readwrite access to manage grants'' else None))"

record PermissionConfig =
  pm_namespace :: string
  pm_description :: string

text \<open>A property inherited from \<open>Object.prototype\<close> is not a definition with a namespace of the
  user's, so it grants nothing.\<close>

definition hasPermission :: "string list \<Rightarrow> string \<Rightarrow> (string \<times> PermissionConfig) list option \<Rightarrow> bool" where
  "hasPermission userNamespaces permissionName permissions =
     (case Option.bind permissions (\<lambda>ps. js_get ps permissionName) of
        Some (Own permDef) \<Rightarrow> List.member userNamespaces (pm_namespace permDef)
      | Some Inherited \<Rightarrow> False
      | None \<Rightarrow> False)"

definition getPermissions :: "string list \<Rightarrow> (string \<times> PermissionConfig) list option \<Rightarrow> string list" where
  "getPermissions userNamespaces permissions =
     (case permissions of None \<Rightarrow> []
      | Some ps \<Rightarrow> map fst (filter (\<lambda>(permName, permDef). List.member userNamespaces (pm_namespace permDef)) ps))"

subsection \<open>Binding a request to its user\<close>

definition resolveUserEmail ::
  "jwt_env \<Rightarrow> AuthIdentity option \<Rightarrow> request \<Rightarrow> string option \<Rightarrow> string option" where
  "resolveUserEmail env identity req requestedEmail =
     (let fromParam = env_set (map_option js_trim requestedEmail) in
      if isAuthDisabled env then fromParam
      else
        (case identity of
           None \<Rightarrow> None
         | Some i \<Rightarrow>
             if ai_type i = M2MToken
             then (case fromParam of Some e \<Rightarrow> Some e
               | None \<Rightarrow>
                   (case map_of (rq_headers req) ''x-user-email'' of
                      Some (HStr h) \<Rightarrow> env_set (Some (js_trim h)) | _ \<Rightarrow> None))
             else Some (ai_email i)))"

text \<open>The hook that overwrites every \<open>user_email\<close> a user supplies.\<close>

definition bind_obj :: "string \<Rightarrow> (string \<times> json) list \<Rightarrow> (string \<times> json) list" where
  "bind_obj bound obj =
     (if map_of obj ''user_email'' \<noteq> None then AList.update ''user_email'' (JStr bound) obj else obj)"

definition bind_element :: "string \<Rightarrow> json \<Rightarrow> json" where
  "bind_element bound v = (case v of JObj el \<Rightarrow> JObj (bind_obj bound el) | _ \<Rightarrow> v)"

definition bind_array :: "string \<Rightarrow> string \<Rightarrow> (string \<times> json) list \<Rightarrow> (string \<times> json) list" where
  "bind_array bound arrayKey obj =
     (case map_of obj arrayKey of
        Some (JArr arr) \<Rightarrow> AList.update arrayKey (JArr (map (bind_element bound) arr)) obj
      | _ \<Rightarrow> obj)"

definition bind_body :: "string \<Rightarrow> json \<Rightarrow> json" where
  "bind_body bound body =
     (case body of
        JObj b \<Rightarrow> JObj (fold (bind_array bound) [''items'', ''memories'', ''contacts''] (bind_obj bound b))
      | _ \<Rightarrow> body)"

definition header_truthy :: "header_value option \<Rightarrow> bool" where
  "header_truthy h = (case h of None \<Rightarrow> False | Some (HStr s) \<Rightarrow> s \<noteq> [] | Some (HList xs) \<Rightarrow> True)"

definition bind_principal :: "AuthIdentity option \<Rightarrow> request \<Rightarrow> request" where
  "bind_principal identity req =
     (case identity of
        None \<Rightarrow> req
      | Some i \<Rightarrow>
          if ai_type i \<noteq> UserToken then req
          else
            (let bound = ai_email i in
             req\<lparr>rq_query := map_option (bind_obj bound) (rq_query req),
                 rq_body := map_option (bind_body bound) (rq_body req),
                 rq_headers := (if header_truthy (map_of (rq_headers req) ''x-user-email'')
                   then AList.update ''x-user-email'' (HStr bound) (rq_headers req) else rq_headers req)\<rparr>))"

subsection \<open>The gate of the API\<close>

definition authSkipPaths :: "string list" where
  "authSkipPaths = [''/health'', ''/health/live'', ''/health/ready'', ''/auth/request-link'', ''/auth/consume'',
     ''/auth/refresh'', ''/auth/revoke'', ''/auth/exchange'', ''/capabilities'', ''/openapi.json'',
     ''/twilio/sms'', ''/twilio/sms/status'', ''/postmark/inbound'', ''/postmark/email/status'',
     ''/cloudflare/email'', ''/ws'', ''/ws/conversation'', ''/oauth/callback'', ''/chat/ws'', ''/symphony/feed'']"

definition public_path :: "string \<Rightarrow> bool" where
  "public_path url =
     (js_startsWith url ''/files/shared/'' \<or> js_startsWith url ''/shared/'' \<or>
      (js_startsWith url ''/terminal/sessions/'' \<and> js_endsWith url ''/attach'') \<or>
      js_startsWith url ''/yjs/'' \<or> List.member authSkipPaths url \<or> js_startsWith url ''/static/'' \<or>
      url = ''/'' \<or> url = ''/auth'' \<or> url = ''/app'' \<or> js_startsWith url ''/app/'' \<or>
      url = ''/dashboard'' \<or> js_startsWith url ''/dashboard/'')"

text \<open>Whether the hook lets the request on; otherwise it answers 401.\<close>

definition auth_hook :: "jwt_env \<Rightarrow> AuthIdentity option \<Rightarrow> string \<Rightarrow> string \<Rightarrow> bool" where
  "auth_hook env identity method rawUrl =
     (let url = takeWhile (\<lambda>c. c \<noteq> CHR ''?'') rawUrl in
      public_path url \<or> method = ''OPTIONS'' \<or> isAuthDisabled env \<or> identity \<noteq> None)"

subsection \<open>The namespaces of a context\<close>

lemma first_nonempty_in: "first_nonempty xs \<noteq> [] \<Longrightarrow> first_nonempty xs \<in> set xs"
  by (induction xs) auto

definition namespace_name :: "string \<Rightarrow> bool" where
  "namespace_name ns \<longleftrightarrow> 0 < length ns \<and> length ns \<le> 63 \<and> NAMESPACE_NAME_PATTERN ns"

lemma validateNamespaceList_valid: "ns \<in> set (validateNamespaceList raw) \<Longrightarrow> namespace_name ns"
  unfolding validateNamespaceList_def namespace_name_def MAX_NAMESPACE_NAME_LENGTH_def
  by (drule in_set_takeD) simp

lemma validateNamespaceList_count: "length (validateNamespaceList raw) \<le> 20"
  unfolding validateNamespaceList_def MAX_NAMESPACES_PER_REQUEST_def by simp

lemma requested_valid: "ns \<in> set (extractRequestedNamespaces req) \<Longrightarrow> namespace_name ns"
  unfolding extractRequestedNamespaces_def by (rule validateNamespaceList_valid)

lemma requested_count: "length (extractRequestedNamespaces req) \<le> 20"
  unfolding extractRequestedNamespaces_def by (rule validateNamespaceList_count)

lemma if_filter: "u = (if b then filter P xs else y) \<Longrightarrow> u = y \<or> (\<exists>xs. u = filter P xs)"
  by (cases b) auto

lemma user_namespaces_granted:
  "grants \<noteq> [] \<Longrightarrow> set (user_namespaces req grants setting) \<subseteq> gr_namespace ` set grants"
proof -
  assume grants: "grants \<noteq> []"
  let ?home = "case find gr_home grants of Some g \<Rightarrow> gr_namespace g | None \<Rightarrow> hd (map gr_namespace grants)"
  have "?home \<in> gr_namespace ` set grants"
  proof (cases "find gr_home grants")
    case None
    then show ?thesis using grants by (cases grants) simp_all
  next
    case (Some g)
    then have "g \<in> set grants" by (auto dest: find_SomeD)
    with Some show ?thesis by simp
  qed
  moreover have "user_namespaces req grants setting = [?home] \<or>
      (\<exists>xs. user_namespaces req grants setting = filter (List.member (map gr_namespace grants)) xs)"
  proof (cases "extractRequestedNamespaces req = [] \<and> extractRequestedNamespace req = None")
    case True
    let ?active = "case setting of None \<Rightarrow> [] | Some u \<Rightarrow> (case us_active u of None \<Rightarrow> [] | Some a \<Rightarrow> a)"
    from True have "user_namespaces req grants setting =
        (if filter (List.member (map gr_namespace grants)) ?active \<noteq> []
         then filter (List.member (map gr_namespace grants)) ?active else [?home])"
      unfolding user_namespaces_def Let_def by simp
    then show ?thesis by (rule if_filter)
  next
    case False
    then have "user_namespaces req grants setting = filter (List.member (map gr_namespace grants))
        (if extractRequestedNamespaces req \<noteq> [] then extractRequestedNamespaces req
         else [the (extractRequestedNamespace req)])"
      unfolding user_namespaces_def Let_def by (cases "extractRequestedNamespace req") simp_all
    then show ?thesis by blast
  qed
  ultimately show ?thesis by (force simp: List.member_iff)
qed

lemma fold_update_map_of:
  "map_of (fold (\<lambda>g. AList.update (f g) (h g)) gs al) k =
     (case find (\<lambda>g. f g = k) (rev gs) of Some g \<Rightarrow> Some (h g) | None \<Rightarrow> map_of al k)"
  by (induction gs arbitrary: al) (auto simp: update_conv' find_append split: option.splits)

text \<open>One grant per user and namespace, as the table's constraints demand, with one of two levels.\<close>

definition grants_ok :: "grant_row list \<Rightarrow> bool" where
  "grants_ok grants \<longleftrightarrow> distinct (map (\<lambda>g. (gr_email g, gr_namespace g)) grants) \<and>
     (\<forall>g \<in> set grants. namespace_name (gr_namespace g) \<and> gr_access g \<in> {''read'', ''readwrite''})"

definition granted :: "grant_row list \<Rightarrow> string \<Rightarrow> string \<Rightarrow> string \<Rightarrow> bool" where
  "granted grants email ns access \<longleftrightarrow>
     (\<exists>g \<in> set grants. gr_email g = email \<and> gr_namespace g = ns \<and> gr_access g = access)"

lemma roles_of_grants:
  assumes "grants_ok grants"
  shows "map_of (fold (\<lambda>g. AList.update (gr_namespace g) (gr_access g))
      (sort_key key (filter (\<lambda>g. gr_email g = email) grants)) []) ns = Some access \<longleftrightarrow>
    granted grants email ns access"
proof -
  let ?rows = "sort_key key (filter (\<lambda>g. gr_email g = email) grants)"
  have inj: "g = h" if "g \<in> set ?rows" "h \<in> set ?rows" "gr_namespace g = gr_namespace h" for g h
    using assms that by (auto simp: grants_ok_def distinct_map dest: inj_onD)
  show ?thesis
  proof (cases "find (\<lambda>g. gr_namespace g = ns) (rev ?rows)")
    case None
    then have "map_of (fold (\<lambda>g. AList.update (gr_namespace g) (gr_access g)) ?rows []) ns = None"
      by (simp add: fold_update_map_of)
    moreover have "\<not> granted grants email ns access"
      using None by (auto simp: granted_def find_None_iff)
    ultimately show ?thesis by simp
  next
    case (Some g)
    then have g: "g \<in> set ?rows" "gr_namespace g = ns" by (auto dest: find_SomeD)
    have "map_of (fold (\<lambda>g. AList.update (gr_namespace g) (gr_access g)) ?rows []) ns = Some (gr_access g)"
      using Some by (simp add: fold_update_map_of)
    moreover have "granted grants email ns access \<longleftrightarrow> access = gr_access g"
    proof
      assume "granted grants email ns access"
      then obtain h where h: "h \<in> set ?rows" "gr_namespace h = ns" "gr_access h = access"
        by (auto simp: granted_def)
      then have "h = g" using g by (intro inj) simp_all
      with h(3) show "access = gr_access g" by simp
    next
      assume "access = gr_access g"
      with g show "granted grants email ns access" by (auto simp: granted_def)
    qed
    ultimately show ?thesis by auto
  qed
qed

lemma user_context:
  assumes "\<not> isAuthDisabled env" and "ai_type i = UserToken"
    and "resolveNamespaces collate env (Some i) req grants settings = Some ctx"
  obtains namespaces where
    "ctx = restricted (fold (\<lambda>g. AList.update (gr_namespace g) (gr_access g))
      (sort_key (\<lambda>g. collate (gr_namespace g)) (filter (\<lambda>g. gr_email g = ai_email i) grants)) []) namespaces"
    and "namespaces \<noteq> []"
    and "set namespaces \<subseteq> gr_namespace ` set (filter (\<lambda>g. gr_email g = ai_email i) grants)"
proof -
  let ?rows = "sort_key (\<lambda>g. collate (gr_namespace g)) (filter (\<lambda>g. gr_email g = ai_email i) grants)"
  let ?ns = "user_namespaces req ?rows (find (\<lambda>u. us_email u = ai_email i) settings)"
  have "?rows \<noteq> []" "?ns \<noteq> []"
    "ctx = restricted (fold (\<lambda>g. AList.update (gr_namespace g) (gr_access g)) ?rows []) ?ns"
    using assms by (simp_all add: resolveNamespaces_def Let_def split: if_splits)
  moreover from this(1) have "set ?ns \<subseteq> gr_namespace ` set ?rows" by (rule user_namespaces_granted)
  ultimately show thesis by (intro that) simp_all
qed

lemma min_role_restricted:
  "requireMinRole (Some (restricted roles namespaces)) ns minRole = Inr () \<longleftrightarrow>
    (case map_of roles ns of
       Some a \<Rightarrow> a \<noteq> [] \<and> (minRole = ReadWrite \<longrightarrow> a \<noteq> ''read'')
     | None \<Rightarrow> ns \<in> set object_prototype)"
  by (auto simp: requireMinRole_def restricted_def js_get_def List.member_iff Let_def split: option.splits)

subsection \<open>Properties\<close>

text \<open>
  C21. A user's context holds what the user was granted, whatever the headers, query and body ask
  for: its namespaces are all granted and the first is where writes go; a role check for a namespace
  that is not a name of \<open>Object.prototype\<close> passes exactly with the grant it asks for; and a write
  is let through only into a namespace granted for writing.
\<close>

theorem user_context_granted:
  assumes "grants_ok grants" and "\<not> isAuthDisabled env" and "ai_type i = UserToken"
    and "resolveNamespaces collate env (Some i) req grants settings = Some ctx"
  shows "\<not> nc_m2m ctx \<and> nc_store ctx \<in> set (nc_query ctx) \<and>
    (\<forall>ns \<in> set (nc_query ctx). granted grants (ai_email i) ns ''read'' \<or> granted grants (ai_email i) ns ''readwrite'') \<and>
    (\<forall>ns. ns \<notin> set object_prototype \<longrightarrow>
      (requireMinRole (Some ctx) ns Read = Inr () \<longleftrightarrow>
        granted grants (ai_email i) ns ''read'' \<or> granted grants (ai_email i) ns ''readwrite'') \<and>
      (requireMinRole (Some ctx) ns ReadWrite = Inr () \<longleftrightarrow> granted grants (ai_email i) ns ''readwrite'')) \<and>
    (\<forall>ns. getStoreNamespace (Some ctx) = Inr ns \<longrightarrow> granted grants (ai_email i) ns ''readwrite'')"
proof -
  let ?roles = "fold (\<lambda>g. AList.update (gr_namespace g) (gr_access g))
    (sort_key (\<lambda>g. collate (gr_namespace g)) (filter (\<lambda>g. gr_email g = ai_email i) grants)) []"
  obtain namespaces where ctx: "ctx = restricted ?roles namespaces" "namespaces \<noteq> []"
    and sub: "set namespaces \<subseteq> gr_namespace ` set (filter (\<lambda>g. gr_email g = ai_email i) grants)"
    using user_context [OF assms(2-4)] .
  note roles = roles_of_grants [OF assms(1), of "\<lambda>g. collate (gr_namespace g)" "ai_email i"]
  have levels: "access = ''read'' \<or> access = ''readwrite''" if "granted grants (ai_email i) ns access" for ns access
    using assms(1) that by (auto simp: granted_def grants_ok_def)
  have all: "granted grants (ai_email i) ns ''read'' \<or> granted grants (ai_email i) ns ''readwrite''"
    if "ns \<in> set namespaces" for ns
  proof -
    from sub that obtain g where "g \<in> set grants" "gr_email g = ai_email i" "gr_namespace g = ns" by auto
    then have "granted grants (ai_email i) ns (gr_access g)" by (auto simp: granted_def)
    with levels show ?thesis by metis
  qed
  have unique: "access = access'" if "granted grants (ai_email i) ns access" "granted grants (ai_email i) ns access'" for ns access access'
  proof -
    from that have "map_of ?roles ns = Some access" "map_of ?roles ns = Some access'" by (simp_all only: roles)
    then show ?thesis by simp
  qed
  have role: "requireMinRole (Some ctx) ns minRole = Inr () \<longleftrightarrow>
      (if \<exists>access. granted grants (ai_email i) ns access
       then granted grants (ai_email i) ns ''readwrite'' \<or> (minRole = Read \<and> granted grants (ai_email i) ns ''read'')
       else ns \<in> set object_prototype)" for ns minRole
  proof (cases "map_of ?roles ns")
    case None
    then have "\<nexists>access. granted grants (ai_email i) ns access" using roles [of ns] by simp
    with None show ?thesis by (simp add: ctx(1) min_role_restricted)
  next
    case (Some a)
    then have a: "granted grants (ai_email i) ns a" using roles [of ns a] by simp
    from levels [OF a] show ?thesis
    proof
      assume "a = ''read''"
      with a unique [OF a, of "''readwrite''"] Some show ?thesis
        by (cases minRole) (auto simp: ctx(1) min_role_restricted)
    next
      assume "a = ''readwrite''"
      with a Some show ?thesis by (cases minRole) (auto simp: ctx(1) min_role_restricted)
    qed
  qed
  have store: "nc_store ctx = hd namespaces" "nc_query ctx = namespaces" "\<not> nc_m2m ctx"
    by (simp_all add: ctx(1) restricted_def)
  then have "nc_store ctx \<in> set (nc_query ctx)" using ctx(2) by simp
  moreover have "granted grants (ai_email i) ns ''readwrite''" if "getStoreNamespace (Some ctx) = Inr ns" for ns
  proof -
    from that have "ns = hd namespaces" "requireMinRole (Some ctx) ns ReadWrite = Inr ()"
      by (auto simp: getStoreNamespace_def store Let_def split: sum.splits)
    with all [of ns] role [of ns ReadWrite] ctx(2) show ?thesis by (auto split: if_splits)
  qed
  moreover have "requireMinRole (Some ctx) ns Read = Inr () \<longleftrightarrow>
      granted grants (ai_email i) ns ''read'' \<or> granted grants (ai_email i) ns ''readwrite''"
    "requireMinRole (Some ctx) ns ReadWrite = Inr () \<longleftrightarrow> granted grants (ai_email i) ns ''readwrite''"
    if "ns \<notin> set object_prototype" for ns
    using role [of ns] that by auto
  ultimately show ?thesis using store all by simp
qed

text \<open>
  Naming a namespace one was not granted opens the default one. For a user who asks for such a
  namespace in the header, as for a user with no grants at all, the context is null, which the role
  check lets pass: \<open>getStoreNamespace\<close> gives the default namespace for writing and
  \<open>addNamespaceFilter\<close> gives it for reading, whatever the grants say of it; only
  \<open>getEffectiveNamespaces\<close> gives nothing.
\<close>

theorem ungranted_request_opens_default:
  assumes "\<not> isAuthDisabled env" and "ai_type i = UserToken" and "namespace_name ns"
    and "\<forall>g \<in> set grants. gr_email g = ai_email i \<longrightarrow> gr_namespace g \<noteq> ns"
    and "map_of (rq_headers req) ''x-namespace'' = Some (HStr ns)"
    and "map_of (rq_headers req) ''x-namespaces'' = None"
  shows "resolveNamespaces collate env (Some i) req grants settings = None \<and>
    getStoreNamespace (resolveNamespaces collate env (Some i) req grants settings) = Inr ''default'' \<and>
    addNamespaceFilter (resolveNamespaces collate env (Some i) req grants settings) = (''default'', [''default'']) \<and>
    getEffectiveNamespaces env (resolveNamespaces collate env (Some i) req grants settings) = []"
proof -
  have ns: "ns \<noteq> []" "js_trim ns = ns"
  proof -
    show "ns \<noteq> []" using assms(3) by (auto simp: namespace_name_def)
    have "\<not> js_space c" if "c \<in> set ns" for c
    proof -
      from assms(3) that have "lower_alnum c \<or> c \<in> set ''._-''"
        by (auto simp: namespace_name_def NAMESPACE_NAME_PATTERN_def list_all_iff List.member_iff split: list.splits)
      then show ?thesis by (auto simp: lower_alnum_def js_space_def Let_def)
    qed
    then have "dropWhile js_space xs = xs" if "set xs = set ns" for xs
      using that by (cases xs) auto
    then have "dropWhile js_space ns = ns" "dropWhile js_space (rev ns) = rev ns" by simp_all
    then show "js_trim ns = ns" by (simp add: js_trim_def)
  qed
  have "extractRequestedNamespaces req = [ns]"
    using assms(3,5,6) ns
    by (simp add: extractRequestedNamespaces_def header_str_def comma_list_def single_list_def
        validateNamespaceList_def namespace_name_def MAX_NAMESPACE_NAME_LENGTH_def MAX_NAMESPACES_PER_REQUEST_def)
  moreover have "\<not> List.member (map gr_namespace (sort_key (\<lambda>g. collate (gr_namespace g))
      (filter (\<lambda>g. gr_email g = ai_email i) grants))) ns"
    using assms(4) by (auto simp: List.member_iff)
  ultimately have "resolveNamespaces collate env (Some i) req grants settings = None"
    using assms(1,2) by (simp add: resolveNamespaces_def user_namespaces_def Let_def del: set_map)
  then show ?thesis
    using assms(1)
    by (simp add: getStoreNamespace_def requireMinRole_def addNamespaceFilter_def getEffectiveNamespaces_def Let_def)
qed

text \<open>
  Reading is enough to write by id. The guard of the endpoints that update and delete an entity
  by its id admits a user for every live entity in the namespaces of the context, also where the grant
  is for reading and the role check that creating asks for refuses.
\<close>

theorem read_grant_writes_by_id:
  assumes "grants_ok grants" and "\<not> isAuthDisabled env" and "ai_type i = UserToken"
    and "resolveNamespaces collate env (Some i) req grants settings = Some ctx"
    and "ns \<in> set (nc_query ctx)" and "granted grants (ai_email i) ns ''read''"
    and "row \<in> set t" and "en_id row = x" and "en_namespace row = ns" and "\<not> en_deleted row"
  shows "verifyWriteScope env (Some ctx) req False x t \<and> requireMinRole (Some ctx) ns ReadWrite \<noteq> Inr ()"
proof -
  let ?roles = "fold (\<lambda>g. AList.update (gr_namespace g) (gr_access g))
    (sort_key (\<lambda>g. collate (gr_namespace g)) (filter (\<lambda>g. gr_email g = ai_email i) grants)) []"
  obtain namespaces where ctx: "ctx = restricted ?roles namespaces"
    using user_context [OF assms(2-4)] by blast
  have "map_of ?roles ns = Some ''read''"
    by (rule iffD2 [OF roles_of_grants [OF assms(1)] assms(6)])
  then have "requireMinRole (Some ctx) ns ReadWrite \<noteq> Inr ()"
    by (simp add: ctx min_role_restricted)
  moreover have "getEffectiveNamespaces env (Some ctx) = nc_query ctx" "\<not> nc_m2m ctx"
    using assms(5) by (auto simp: getEffectiveNamespaces_def ctx restricted_def)
  then have "verifyWriteScope env (Some ctx) req False x t"
    using assms(2,5,7-10) by (auto simp: verifyWriteScope_def Let_def sql_exists_iff List.member_iff)
  ultimately show ?thesis by simp
qed

text \<open>Every \<open>user_email\<close> is the user's own.\<close>

definition owned_obj :: "string \<Rightarrow> (string \<times> json) list \<Rightarrow> bool" where
  "owned_obj email obj \<longleftrightarrow> map_of obj ''user_email'' \<in> {None, Some (JStr email)}"

definition owned_body :: "string \<Rightarrow> (string \<times> json) list \<Rightarrow> bool" where
  "owned_body email b \<longleftrightarrow> owned_obj email b \<and>
     (\<forall>key \<in> {''items'', ''memories'', ''contacts''}. \<forall>arr el. map_of b key = Some (JArr arr) \<longrightarrow>
        JObj el \<in> set arr \<longrightarrow> owned_obj email el)"

lemma bind_obj_owned: "owned_obj email (bind_obj email obj)"
  by (simp add: owned_obj_def bind_obj_def update_conv')

lemma map_of_bind_array:
  "map_of (bind_array email key obj) k =
    (if k = key then (case map_of obj key of Some (JArr arr) \<Rightarrow> Some (JArr (map (bind_element email) arr)) | v \<Rightarrow> v)
     else map_of obj k)"
  by (simp add: bind_array_def update_conv' split: option.splits json.splits)

lemma bind_body_owned: "bind_body email (JObj b) = JObj b' \<Longrightarrow> owned_body email b'"
  by (auto simp: bind_body_def owned_body_def owned_obj_def map_of_bind_array bind_obj_def update_conv'
      bind_element_def split: option.splits json.splits if_splits)

lemma alist_update_same: "map_of al k = Some v \<Longrightarrow> AList.update k v al = al"
  by (induction al) auto

lemma owned_bind_obj: "owned_obj email obj \<Longrightarrow> bind_obj email obj = obj"
  by (auto simp: owned_obj_def bind_obj_def alist_update_same)

lemma owned_bind_body:
  assumes "owned_body email b"
  shows "bind_body email (JObj b) = JObj b"
proof -
  have el: "bind_element email v = v" if "map_of b key = Some (JArr arr)" "v \<in> set arr" "key \<in> {''items'', ''memories'', ''contacts''}" for key arr v
    using assms that by (cases v) (auto simp: owned_body_def bind_element_def intro: owned_bind_obj)
  then have "bind_array email key b = b" if "key \<in> {''items'', ''memories'', ''contacts''}" for key
  proof -
    have "map (bind_element email) arr = arr" if "map_of b key = Some (JArr arr)" for arr
      using el [OF that _ \<open>key \<in> _\<close>] by (intro map_idI) simp
    then show ?thesis by (auto simp: bind_array_def intro!: alist_update_same split: option.splits json.splits)
  qed
  moreover have "bind_obj email b = b" using assms owned_bind_obj by (auto simp: owned_body_def)
  ultimately show ?thesis by (simp add: bind_body_def)
qed


subsection \<open>Witnesses\<close>

definition example_user :: AuthIdentity where
  "example_user = \<lparr>ai_email = ''u'', ai_type = UserToken, ai_scopes = None\<rparr>"

definition example_grants :: "grant_row list" where
  "example_grants = [\<lparr>gr_email = ''u'', gr_namespace = ''home'', gr_access = ''read'', gr_home = True\<rparr>]"

definition dev_env :: jwt_env where
  "dev_env = \<lparr>je_secret = None, je_previous = None, je_auth_disabled = None, je_e2e_email = None\<rparr>"

definition plain_request :: request where
  "plain_request = \<lparr>rq_headers = [], rq_query = None, rq_body = None\<rparr>"

lemmas example_user_defs = example_user_def example_grants_def dev_env_def plain_request_def

lemma example_enabled: "\<not> isAuthDisabled dev_env" "ai_type example_user = UserToken"
  by (simp_all add: isAuthDisabled_def example_user_defs)

lemma example_grants_ok: "grants_ok example_grants"
  by (simp add: grants_ok_def example_grants_def namespace_name_def NAMESPACE_NAME_PATTERN_def lower_alnum_def)

lemma example_context:
  "resolveNamespaces (\<lambda>_. 0) dev_env (Some example_user) plain_request example_grants [] =
    Some \<lparr>nc_store = ''home'', nc_query = [''home''], nc_m2m = False, nc_roles = [(''home'', ''read'')]\<rparr>"
  by (simp add: resolveNamespaces_def user_namespaces_def extractRequestedNamespace_def
      extractRequestedNamespaces_def validateNamespaceList_def header_str_def prop_str_def query_obj_def
      body_obj_def comma_list_def single_list_def body_namespaces_def isAuthDisabled_def restricted_def
      example_user_defs)

theorem user_context_granted_witness:
  "requireMinRole (Some \<lparr>nc_store = ''home'', nc_query = [''home''], nc_m2m = False, nc_roles = [(''home'', ''read'')]\<rparr>)
    ''other'' Read \<noteq> Inr ()"
proof -
  have "''other'' \<notin> set object_prototype" by (simp add: object_prototype_def)
  moreover have "\<not> granted example_grants (ai_email example_user) ''other'' access" for access
    by (simp add: granted_def example_grants_def)
  ultimately show ?thesis
    using user_context_granted [OF example_grants_ok example_enabled example_context] by blast
qed

theorem ungranted_request_opens_default_witness:
  "getStoreNamespace (resolveNamespaces (\<lambda>_. 0) dev_env (Some example_user)
     (plain_request\<lparr>rq_headers := [(''x-namespace'', HStr ''other'')]\<rparr>) example_grants []) = Inr ''default''"
  by (rule ungranted_request_opens_default [OF example_enabled, of "''other''", THEN conjunct2, THEN conjunct1])
     (simp_all add: namespace_name_def NAMESPACE_NAME_PATTERN_def lower_alnum_def example_user_defs)

theorem read_grant_writes_by_id_witness:
  "verifyWriteScope dev_env (Some \<lparr>nc_store = ''home'', nc_query = [''home''], nc_m2m = False,
      nc_roles = [(''home'', ''read'')]\<rparr>) plain_request False ''x''
    [\<lparr>en_id = ''x'', en_namespace = ''home'', en_deleted = False\<rparr>]"
  by (rule read_grant_writes_by_id [where ns = "''home''" and row = "\<lparr>en_id = ''x'', en_namespace = ''home'', en_deleted = False\<rparr>",
        OF example_grants_ok example_enabled example_context, THEN conjunct1])
     (simp_all add: granted_def example_user_defs)


end
