(* ===== verification/Outbox.thy ===== *)
theory Outbox
  imports Database
begin

text \<open>
  The outbox of webhooks, \<^verbatim>\<open>src/api/webhooks/dispatcher.ts\<close> and its configuration
  \<^verbatim>\<open>config.ts\<close>: entries are enqueued under an optional idempotency key, workers fetch the due
  ones, lock each, send it and record the outcome. \<open>fetch\<close> and \<open>JSON.parse\<close> are
  parameters, the guard against internal addresses is an argument (\<open>validateSsrf\<close>, modelled in
  \<open>AddressGuards\<close>), and every statement runs at a time of its own.
\<close>

subsection \<open>Configuration\<close>

record openclaw_env =
  oe_gateway :: "string option"
  oe_hook_token :: "string option"
  oe_api_token :: "string option"
  oe_model :: "string option"
  oe_timeout :: "string option"

record OpenClawConfig =
  ow_gateway :: string
  ow_token :: string
  ow_model :: string
  ow_timeout :: "int option"

text \<open>\<open>a || b\<close> on strings that may be missing: the first that is set and not empty.\<close>

definition js_or :: "string option \<Rightarrow> string option \<Rightarrow> string option" where
  "js_or a b = (case a of Some (c # cs) \<Rightarrow> Some (c # cs) | _ \<Rightarrow> b)"

definition strip_slash :: "string \<Rightarrow> string" where
  "strip_slash s = (if js_endsWith s ''/'' then butlast s else s)"

text \<open>The configuration and what is cached afterwards; once cached, the environment is not read again.\<close>

definition getOpenClawConfig ::
  "openclaw_env \<Rightarrow> OpenClawConfig option \<Rightarrow> OpenClawConfig option \<times> OpenClawConfig option" where
  "getOpenClawConfig env cachedConfig =
     (case cachedConfig of
        Some c \<Rightarrow> (Some c, cachedConfig)
      | None \<Rightarrow>
          (case (js_or (oe_gateway env) None, js_or (oe_hook_token env) (js_or (oe_api_token env) None)) of
             (Some gatewayUrl, Some apiToken) \<Rightarrow>
               (let c = \<lparr>ow_gateway = strip_slash gatewayUrl, ow_token = apiToken,
                    ow_model = the (js_or (oe_model env) (Some ''anthropic/claude-sonnet-4-20250514'')),
                    ow_timeout = js_parseInt (the (js_or (oe_timeout env) (Some ''120'')))\<rparr>
                in (Some c, Some c))
           | _ \<Rightarrow> (None, None)))"

definition isOpenClawConfigured :: "openclaw_env \<Rightarrow> OpenClawConfig option \<Rightarrow> bool" where
  "isOpenClawConfigured env cachedConfig = (fst (getOpenClawConfig env cachedConfig) \<noteq> None)"

definition clearConfigCache :: "OpenClawConfig option" where
  "clearConfigCache = None"

definition validateOpenClawConfig :: "(string \<Rightarrow> bool) \<Rightarrow> openclaw_env \<Rightarrow> bool \<times> string list" where
  "validateOpenClawConfig url_ok env =
     (let gatewayErrors =
            (case js_or (oe_gateway env) None of
               None \<Rightarrow> [''OPENCLAW_GATEWAY_URL is not set'']
             | Some gatewayUrl \<Rightarrow>
                 if url_ok gatewayUrl then [] else [''OPENCLAW_GATEWAY_URL is not a valid URL'']);
          tokenErrors =
            (case js_or (oe_hook_token env) (js_or (oe_api_token env) None) of
               None \<Rightarrow> [''OPENCLAW_HOOK_TOKEN (or OPENCLAW_API_TOKEN) is not set'']
             | Some apiToken \<Rightarrow>
                 if js_trim apiToken = [] then [''OPENCLAW_HOOK_TOKEN is empty or whitespace'']
                 else if js_startsWith apiToken ''op://''
                 then [''OPENCLAW_HOOK_TOKEN appears to be an unresolved 1Password reference (starts with op://)'']
                 else if js_includes apiToken (''[use '' @ [CHR 0x27] @ ''op item get'')
                 then [''OPENCLAW_HOOK_TOKEN contains unresolved 1Password CLI placeholder'']
                 else []);
          errors = gatewayErrors @ tokenErrors
      in (errors = [], errors))"

subsection \<open>Entries\<close>

record webhook_row =
  wh_id :: uuid
  wh_kind :: string
  wh_destination :: string
  wh_run_at :: millis
  wh_headers :: "(string \<times> string) list"
  wh_body :: json
  wh_attempts :: nat
  wh_error :: "string option"
  wh_locked_at :: "millis option"
  wh_locked_by :: "string option"
  wh_dispatched :: "millis option"
  wh_key :: "string option"
  wh_created :: millis
  wh_updated :: millis

definition MAX_RETRIES :: nat where "MAX_RETRIES = 5"
definition LOCK_TIMEOUT_MS :: millis where "LOCK_TIMEOUT_MS = 5 * 60 * 1000"

definition isRetryable :: "int option \<Rightarrow> bool" where
  "isRetryable status_code =
     (case status_code of
        None \<Rightarrow> True
      | Some c \<Rightarrow> 500 \<le> c \<or> c = 408 \<or> c = 409 \<or> c = 425 \<or> c = 429)"

definition truncateForLog :: "string \<Rightarrow> string" where
  "truncateForLog value =
     (if length value \<le> 256 then value else take 256 value @ ''...[truncated]'')"

definition isAbsoluteUrl :: "string \<Rightarrow> bool" where
  "isAbsoluteUrl url =
     (js_startsWith (js_toLowerCase url) ''http://'' \<or> js_startsWith (js_toLowerCase url) ''https://'')"

subsection \<open>Sending one entry\<close>

record http_request =
  hr_url :: string
  hr_headers :: "(string \<times> string) list"
  hr_body :: json
  hr_timeout :: millis

text \<open>How a request ends: a response with its status and the text of its body (\<open>None\<close> when
  reading it fails), the abort of the timer, or another error with its message.\<close>

datatype fetch_outcome = FetchResponse int "string option" | FetchAborted | FetchFailed string

record WebhookDispatchResult =
  dr_success :: bool
  dr_status :: "int option"
  dr_error :: "string option"
  dr_body :: "json option"

definition failed_dispatch :: "int option \<Rightarrow> string \<Rightarrow> WebhookDispatchResult" where
  "failed_dispatch status message =
     \<lparr>dr_success = False, dr_status = status, dr_error = Some message, dr_body = None\<rparr>"

definition dispatch_request :: "OpenClawConfig \<Rightarrow> webhook_row \<Rightarrow> http_request" where
  "dispatch_request config entry =
     (let isExternal = isAbsoluteUrl (wh_destination entry);
          own = (if isExternal then [] else [(''Authorization'', ''Bearer '' @ ow_token config)]) in
      \<lparr>hr_url = (if isExternal then wh_destination entry else ow_gateway config @ wh_destination entry),
       hr_headers = fold (\<lambda>(k, v). AList.update k v) (wh_headers entry)
         ((''Content-Type'', ''application/json'') # own),
       hr_body = wh_body entry,
       hr_timeout = (case ow_timeout config of Some n \<Rightarrow> if n = 0 then 120 else n | None \<Rightarrow> 120) * 1000\<rparr>)"

text \<open>
  A body can be read once: after \<open>response.json()\<close> has failed, \<open>response.text()\<close> rejects
  with a \<open>TypeError\<close>, whose message is \<open>unusable\<close>. It is thrown inside the \<open>try\<close>.
\<close>

definition dispatchWebhook ::
  "(string \<Rightarrow> json option) \<Rightarrow> string \<Rightarrow> (http_request \<Rightarrow> fetch_outcome) \<Rightarrow> OpenClawConfig option \<Rightarrow>
     webhook_row \<Rightarrow> WebhookDispatchResult" where
  "dispatchWebhook parse unusable fetch config entry =
     (case config of
        None \<Rightarrow> failed_dispatch None ''OpenClaw not configured''
      | Some c \<Rightarrow>
          (case fetch (dispatch_request c entry) of
             FetchAborted \<Rightarrow> failed_dispatch None ''Request timeout''
           | FetchFailed message \<Rightarrow> failed_dispatch None message
           | FetchResponse status body \<Rightarrow>
               if 200 \<le> status \<and> status \<le> 299
               then (case Option.bind body parse of
                   Some response_body \<Rightarrow>
                     \<lparr>dr_success = True, dr_status = Some status, dr_error = None, dr_body = Some response_body\<rparr>
                 | None \<Rightarrow> failed_dispatch None unusable)
               else failed_dispatch (Some status) (''HTTP '' @ show_int status @ '': '' @
                 (case body of Some errorBody \<Rightarrow> errorBody | None \<Rightarrow> ''Unable to read response body''))))"

subsection \<open>The statements on the table\<close>

definition unlocked :: "millis \<Rightarrow> webhook_row \<Rightarrow> bool" where
  "unlocked now r = (case wh_locked_at r of None \<Rightarrow> True | Some l \<Rightarrow> l < now - LOCK_TIMEOUT_MS)"

definition lockWebhookEntry ::
  "millis \<Rightarrow> uuid \<Rightarrow> string \<Rightarrow> webhook_row list \<Rightarrow> bool \<times> webhook_row list" where
  "lockWebhookEntry now i worker t =
     (let free = (\<lambda>r. wh_id r = i \<and> wh_dispatched r = None \<and> unlocked now r) in
      (sql_count free t = 1,
       sql_update free (\<lambda>r. r\<lparr>wh_locked_at := Some now, wh_locked_by := Some worker, wh_updated := now\<rparr>) t))"

definition owned_entry :: "uuid \<Rightarrow> string \<Rightarrow> webhook_row \<Rightarrow> bool" where
  "owned_entry i worker r \<longleftrightarrow> wh_id r = i \<and> wh_locked_by r = Some worker"

definition unlock :: "millis \<Rightarrow> webhook_row \<Rightarrow> webhook_row" where
  "unlock now r = r\<lparr>wh_locked_at := None, wh_locked_by := None, wh_updated := now\<rparr>"

definition markDispatched :: "millis \<Rightarrow> uuid \<Rightarrow> string \<Rightarrow> webhook_row list \<Rightarrow> webhook_row list" where
  "markDispatched now i worker =
     sql_update (owned_entry i worker) (\<lambda>r. (unlock now r)\<lparr>wh_dispatched := Some now\<rparr>)"

definition failed_row :: "millis \<Rightarrow> string \<Rightarrow> int \<Rightarrow> webhook_row \<Rightarrow> webhook_row" where
  "failed_row now error jitterMs r =
     (unlock now r)\<lparr>wh_attempts := wh_attempts r + 1, wh_error := Some (truncateForLog error),
       wh_run_at := now + 2 ^ min (wh_attempts r) 5 * 1000 + jitterMs\<rparr>"

definition recordWebhookFailure ::
  "millis \<Rightarrow> uuid \<Rightarrow> string \<Rightarrow> int \<Rightarrow> string \<Rightarrow> webhook_row list \<Rightarrow> webhook_row list" where
  "recordWebhookFailure now i error jitterMs worker =
     sql_update (owned_entry i worker) (failed_row now error jitterMs)"

definition deadLetter ::
  "millis \<Rightarrow> uuid \<Rightarrow> string \<Rightarrow> string \<Rightarrow> webhook_row list \<Rightarrow> webhook_row list" where
  "deadLetter now i error worker =
     sql_update (owned_entry i worker)
       (\<lambda>r. (unlock now r)\<lparr>wh_attempts := MAX_RETRIES, wh_error := Some error\<rparr>)"

definition is_pending :: "millis \<Rightarrow> webhook_row \<Rightarrow> bool" where
  "is_pending now r \<longleftrightarrow>
     wh_dispatched r = None \<and> wh_run_at r \<le> now \<and> wh_attempts r < MAX_RETRIES \<and> unlocked now r"

definition getPendingWebhooks :: "millis \<Rightarrow> nat \<Rightarrow> webhook_row list \<Rightarrow> webhook_row list" where
  "getPendingWebhooks now limit t = take limit (sort_key wh_run_at (filter (is_pending now) t))"

definition retryWebhook :: "millis \<Rightarrow> uuid \<Rightarrow> webhook_row list \<Rightarrow> bool \<times> webhook_row list" where
  "retryWebhook now i t =
     (let undelivered = (\<lambda>r. wh_id r = i \<and> wh_dispatched r = None) in
      (sql_count undelivered t = 1,
       sql_update undelivered (\<lambda>r. (unlock now r)\<lparr>wh_run_at := now, wh_attempts := 0, wh_error := None\<rparr>) t))"

definition new_entry ::
  "millis \<Rightarrow> uuid \<Rightarrow> string \<Rightarrow> string \<Rightarrow> json \<Rightarrow> (string \<times> string) list option \<Rightarrow> millis option \<Rightarrow>
     string option \<Rightarrow> webhook_row" where
  "new_entry now newId kind destination body headers runAt key =
     \<lparr>wh_id = newId, wh_kind = kind, wh_destination = destination,
      wh_run_at = (case runAt of Some r \<Rightarrow> r | None \<Rightarrow> now),
      wh_headers = (case headers of Some h \<Rightarrow> h | None \<Rightarrow> []), wh_body = body, wh_attempts = 0,
      wh_error = None, wh_locked_at = None, wh_locked_by = None, wh_dispatched = None,
      wh_key = key, wh_created = now, wh_updated = now\<rparr>"

text \<open>Rows whose kind or destination is blank violate a constraint of the table; the statement then
  throws (\<open>None\<close>).\<close>

definition enqueueWebhook ::
  "millis \<Rightarrow> uuid \<Rightarrow> string \<Rightarrow> string \<Rightarrow> json \<Rightarrow> (string \<times> string) list option \<Rightarrow> millis option \<Rightarrow>
     string option \<Rightarrow> webhook_row list \<Rightarrow> uuid option \<times> webhook_row list" where
  "enqueueWebhook now newId kind destination body headers runAt idempotency_key t =
     (let key = js_or idempotency_key None in
      if list_all (\<lambda>c. c = CHR '' '') kind \<or> list_all (\<lambda>c. c = CHR '' '') destination then (None, t)
      else
        (case (if key = None then None else find (\<lambda>r. wh_kind r = kind \<and> wh_key r = key) t) of
           Some existing \<Rightarrow> (Some (wh_id existing), t)
         | None \<Rightarrow>
             if sql_exists (\<lambda>r. wh_id r = newId) t then (None, t)
             else (Some newId, t @ [new_entry now newId kind destination body headers runAt key])))"

datatype outbox_status = PendingOnly | FailedOnly | DispatchedOnly

definition status_matches :: "outbox_status \<Rightarrow> webhook_row \<Rightarrow> bool" where
  "status_matches status r =
     (case status of
        PendingOnly \<Rightarrow> wh_dispatched r = None \<and> wh_attempts r < MAX_RETRIES
      | FailedOnly \<Rightarrow> wh_dispatched r = None \<and> MAX_RETRIES \<le> wh_attempts r
      | DispatchedOnly \<Rightarrow> wh_dispatched r \<noteq> None)"

definition getWebhookOutbox ::
  "outbox_status option \<Rightarrow> string option \<Rightarrow> nat \<Rightarrow> nat \<Rightarrow> webhook_row list \<Rightarrow> webhook_row list \<times> nat" where
  "getWebhookOutbox status kind limit offset t =
     (let whereClause = (\<lambda>r. (case status of None \<Rightarrow> True | Some s \<Rightarrow> status_matches s r) \<and>
            (case js_or kind None of None \<Rightarrow> True | Some k \<Rightarrow> wh_kind r = k)) in
      (take limit (drop offset (sort_key (\<lambda>r. - wh_created r) (filter whereClause t))),
       sql_count whereClause t))"


subsection \<open>A pass over the pending entries\<close>

record DispatchStats =
  st_processed :: nat
  st_succeeded :: nat
  st_failed :: nat
  st_skipped :: nat

definition no_stats :: DispatchStats where
  "no_stats = \<lparr>st_processed = 0, st_succeeded = 0, st_failed = 0, st_skipped = 0\<rparr>"

text \<open>What one entry meets: the times of its two statements, the jitter drawn and the network.\<close>

record entry_run =
  er_lock :: millis
  er_done :: millis
  er_jitter :: int
  er_fetch :: "http_request \<Rightarrow> fetch_outcome"

text \<open>The outcome of a locked entry: blocked before it is sent, or the result of sending it.\<close>

datatype send_result = SsrfBlocked string | Sent WebhookDispatchResult

definition send_entry ::
  "(string \<Rightarrow> json option) \<Rightarrow> string \<Rightarrow> (string \<Rightarrow> string option) \<Rightarrow> OpenClawConfig option \<Rightarrow>
     entry_run \<Rightarrow> webhook_row \<Rightarrow> send_result" where
  "send_entry parse unusable validateSsrf config er entry =
     (case (if isAbsoluteUrl (wh_destination entry) then validateSsrf (wh_destination entry) else None) of
        Some ssrfError \<Rightarrow> SsrfBlocked ssrfError
      | None \<Rightarrow> Sent (dispatchWebhook parse unusable (er_fetch er) config entry))"

definition settle_entry ::
  "string \<Rightarrow> millis \<Rightarrow> int \<Rightarrow> send_result \<Rightarrow> uuid \<Rightarrow> webhook_row list \<Rightarrow> webhook_row list" where
  "settle_entry worker now jitterMs res i t =
     (case res of
        SsrfBlocked ssrfError \<Rightarrow> deadLetter now i (''SSRF blocked at dispatch: '' @ ssrfError) worker t
      | Sent r \<Rightarrow>
          if dr_success r then markDispatched now i worker t
          else
            (let error = the (js_or (dr_error r) (Some ''Unknown error'')) in
             if \<not> isRetryable (dr_status r) then deadLetter now i (truncateForLog error) worker t
             else recordWebhookFailure now i error jitterMs worker t))"

definition delivered :: "send_result \<Rightarrow> bool" where
  "delivered res = (case res of SsrfBlocked _ \<Rightarrow> False | Sent r \<Rightarrow> dr_success r)"

definition process_entry ::
  "(string \<Rightarrow> json option) \<Rightarrow> string \<Rightarrow> (string \<Rightarrow> string option) \<Rightarrow> OpenClawConfig option \<Rightarrow> string \<Rightarrow>
     (uuid \<Rightarrow> entry_run) \<Rightarrow> webhook_row \<Rightarrow> DispatchStats \<times> webhook_row list \<Rightarrow> DispatchStats \<times> webhook_row list" where
  "process_entry parse unusable validateSsrf config worker world entry = (\<lambda>(stats, t).
     (let er = world (wh_id entry) in
      case lockWebhookEntry (er_lock er) (wh_id entry) worker t of
        (False, t) \<Rightarrow> (stats\<lparr>st_skipped := st_skipped stats + 1\<rparr>, t)
      | (True, t) \<Rightarrow>
          (let res = send_entry parse unusable validateSsrf config er entry;
               stats = stats\<lparr>st_processed := st_processed stats + 1\<rparr> in
           (if delivered res then stats\<lparr>st_succeeded := st_succeeded stats + 1\<rparr>
            else stats\<lparr>st_failed := st_failed stats + 1\<rparr>,
            settle_entry worker (er_done er) (er_jitter er) res (wh_id entry) t))))"

definition processPendingWebhooks ::
  "(string \<Rightarrow> json option) \<Rightarrow> string \<Rightarrow> (string \<Rightarrow> string option) \<Rightarrow> OpenClawConfig option \<Rightarrow> string \<Rightarrow>
     (uuid \<Rightarrow> entry_run) \<Rightarrow> millis \<Rightarrow> nat \<Rightarrow> webhook_row list \<Rightarrow> DispatchStats \<times> webhook_row list" where
  "processPendingWebhooks parse unusable validateSsrf config worker world now limit t =
     (case config of
        None \<Rightarrow> (no_stats, t)
      | Some _ \<Rightarrow>
          fold (process_entry parse unusable validateSsrf config worker world)
            (getPendingWebhooks now limit t) (no_stats, t))"

subsection \<open>Workers that overlap\<close>

datatype outbox_pc =
    Resting
  | Working "webhook_row list"
  | Sending webhook_row millis "webhook_row list"

record outbox_state =
  ob_now :: millis
  ob_rows :: "webhook_row list"
  ob_pc :: "string \<Rightarrow> outbox_pc"
  ob_log :: "(uuid \<times> bool) list"

datatype outbox_label = Other | RetryOf uuid

text \<open>
  A state has the database's clock, the table, where each worker stands and the log of what was sent:
  the ids, newest first, with whether the send succeeded. A step is one statement of a worker or of a
  caller, at the time the state shows; a worker may stop anywhere.
\<close>

inductive outbox_step ::
  "outbox_label \<Rightarrow> outbox_state \<Rightarrow> outbox_state \<Rightarrow> bool" where
  enqueue: "enqueueWebhook (ob_now s) newId kind destination body headers runAt key (ob_rows s) = (res, t) \<Longrightarrow>
    outbox_step Other s (s\<lparr>ob_rows := t\<rparr>)"
| fetch_pending: "ob_pc s w = Resting \<Longrightarrow>
    outbox_step Other s (s\<lparr>ob_pc := (ob_pc s)(w := Working (getPendingWebhooks (ob_now s) limit (ob_rows s)))\<rparr>)"
| lock: "ob_pc s w = Working (e # es) \<Longrightarrow>
    lockWebhookEntry (ob_now s) (wh_id e) w (ob_rows s) = (True, t) \<Longrightarrow>
    outbox_step Other s (s\<lparr>ob_rows := t, ob_pc := (ob_pc s)(w := Sending e (ob_now s) es)\<rparr>)"
| skip_locked: "ob_pc s w = Working (e # es) \<Longrightarrow>
    lockWebhookEntry (ob_now s) (wh_id e) w (ob_rows s) = (False, t) \<Longrightarrow>
    outbox_step Other s (s\<lparr>ob_rows := t, ob_pc := (ob_pc s)(w := Working es)\<rparr>)"
| settle: "ob_pc s w = Sending e since es \<Longrightarrow>
    outbox_step Other s (s\<lparr>ob_rows := settle_entry w (ob_now s) jitterMs res (wh_id e) (ob_rows s),
      ob_pc := (ob_pc s)(w := Working es), ob_log := (wh_id e, delivered res) # ob_log s\<rparr>)"
| retry: "retryWebhook (ob_now s) i (ob_rows s) = (res, t) \<Longrightarrow>
    outbox_step (RetryOf i) s (s\<lparr>ob_rows := t\<rparr>)"
| rest: "outbox_step Other s (s\<lparr>ob_pc := (ob_pc s)(w := Resting)\<rparr>)"
| tick: "ob_now s \<le> now \<Longrightarrow> outbox_step Other s (s\<lparr>ob_now := now\<rparr>)"

definition empty_outbox :: outbox_state where
  "empty_outbox = \<lparr>ob_now = 0, ob_rows = [], ob_pc = (\<lambda>_. Resting), ob_log = []\<rparr>"

definition any_step :: "outbox_state \<Rightarrow> outbox_state \<Rightarrow> bool" where
  "any_step s s' \<longleftrightarrow> (\<exists>l. outbox_step l s s')"

definition sending :: "outbox_state \<Rightarrow> string \<Rightarrow> uuid \<Rightarrow> bool" where
  "sending s w i = (case ob_pc s w of Sending e since es \<Rightarrow> wh_id e = i | _ \<Rightarrow> False)"

text \<open>Runs in which every send ends within the lock's timeout and nobody retries an entry while it
  is being sent.\<close>

definition punctual :: "outbox_state \<Rightarrow> bool" where
  "punctual s \<longleftrightarrow> (\<forall>w e since es. ob_pc s w = Sending e since es \<longrightarrow> ob_now s \<le> since + LOCK_TIMEOUT_MS)"

definition prompt_step :: "outbox_state \<Rightarrow> outbox_state \<Rightarrow> bool" where
  "prompt_step s s' \<longleftrightarrow> punctual s' \<and>
     (\<exists>l. outbox_step l s s' \<and> (\<forall>i w. l = RetryOf i \<longrightarrow> \<not> sending s w i))"


subsection \<open>What a statement does to a row\<close>

definition settled_row :: "millis \<Rightarrow> int \<Rightarrow> send_result \<Rightarrow> webhook_row \<Rightarrow> webhook_row" where
  "settled_row now jitterMs res r =
     (case res of
        SsrfBlocked e \<Rightarrow> (unlock now r)\<lparr>wh_attempts := MAX_RETRIES, wh_error := Some (''SSRF blocked at dispatch: '' @ e)\<rparr>
      | Sent d \<Rightarrow>
          if dr_success d then (unlock now r)\<lparr>wh_dispatched := Some now\<rparr>
          else
            (let error = the (js_or (dr_error d) (Some ''Unknown error'')) in
             if isRetryable (dr_status d) then failed_row now error jitterMs r
             else (unlock now r)\<lparr>wh_attempts := MAX_RETRIES, wh_error := Some (truncateForLog error)\<rparr>))"

lemma settle_entry_update:
  "settle_entry w now j res i t = sql_update (owned_entry i w) (settled_row now j res) t"
proof -
  have "settled_row now j res = (case res of
        SsrfBlocked e \<Rightarrow> (\<lambda>r. (unlock now r)\<lparr>wh_attempts := MAX_RETRIES, wh_error := Some (''SSRF blocked at dispatch: '' @ e)\<rparr>)
      | Sent d \<Rightarrow>
          if dr_success d then (\<lambda>r. (unlock now r)\<lparr>wh_dispatched := Some now\<rparr>)
          else if isRetryable (dr_status d) then failed_row now (the (js_or (dr_error d) (Some ''Unknown error''))) j
          else (\<lambda>r. (unlock now r)\<lparr>wh_attempts := MAX_RETRIES,
            wh_error := Some (truncateForLog (the (js_or (dr_error d) (Some ''Unknown error''))))\<rparr>))"
    by (rule ext) (cases res; simp add: settled_row_def Let_def)
  then show ?thesis
    by (cases res) (simp_all add: settle_entry_def deadLetter_def markDispatched_def recordWebhookFailure_def Let_def)
qed

lemma unlock_simps [simp]:
  "wh_id (unlock now r) = wh_id r" "wh_kind (unlock now r) = wh_kind r" "wh_key (unlock now r) = wh_key r"
  "wh_locked_by (unlock now r) = None" "wh_locked_at (unlock now r) = None"
  "wh_dispatched (unlock now r) = wh_dispatched r" "wh_attempts (unlock now r) = wh_attempts r"
  by (simp_all add: unlock_def)

lemma settled_row_simps [simp]:
  "wh_id (settled_row now j res r) = wh_id r" "wh_kind (settled_row now j res r) = wh_kind r"
  "wh_key (settled_row now j res r) = wh_key r" "wh_locked_by (settled_row now j res r) = None"
  "wh_locked_at (settled_row now j res r) = None"
  "wh_dispatched (settled_row now j res r) = (if delivered res then Some now else wh_dispatched r)"
  by (cases res; simp add: settled_row_def delivered_def failed_row_def Let_def)+

text \<open>A row shows who holds it and since when, or neither; a dispatched row is not held.\<close>

definition row_ok :: "webhook_row \<Rightarrow> bool" where
  "row_ok r \<longleftrightarrow> (wh_locked_by r = None \<longleftrightarrow> wh_locked_at r = None) \<and>
     (wh_dispatched r \<noteq> None \<longrightarrow> wh_locked_by r = None)"

definition outbox_ok :: "webhook_row list \<Rightarrow> bool" where
  "outbox_ok t \<longleftrightarrow> distinct (map wh_id t) \<and> list_all row_ok t \<and>
     distinct (map (\<lambda>r. (wh_kind r, wh_key r)) (filter (\<lambda>r. wh_key r \<noteq> None) t))"

definition keeps_names :: "(webhook_row \<Rightarrow> webhook_row) \<Rightarrow> bool" where
  "keeps_names f \<longleftrightarrow> (\<forall>r. wh_id (f r) = wh_id r \<and> wh_kind (f r) = wh_kind r \<and> wh_key (f r) = wh_key r)"

text \<open>An update that a statement can make: rows that are not dispatched, or locked, are changed
  in everything but their names.\<close>

definition live_update :: "(webhook_row \<Rightarrow> bool) \<Rightarrow> (webhook_row \<Rightarrow> webhook_row) \<Rightarrow> bool" where
  "live_update P f \<longleftrightarrow> keeps_names f \<and>
     (\<forall>r. P r \<longrightarrow> row_ok (f r) \<and> (wh_dispatched r = None \<or> wh_locked_by r \<noteq> None))"

lemma outbox_ok_update:
  assumes "outbox_ok t" and "live_update P f"
  shows "outbox_ok (sql_update P f t)"
proof -
  let ?g = "\<lambda>r. if P r then f r else r"
  have names: "wh_id (?g r) = wh_id r" "wh_kind (?g r) = wh_kind r" "wh_key (?g r) = wh_key r" for r
    using assms(2) by (auto simp: live_update_def keeps_names_def)
  have "filter (\<lambda>r. wh_key r \<noteq> None) (map ?g t) = map ?g (filter (\<lambda>r. wh_key r \<noteq> None) t)"
    by (simp only: filter_map comp_def names)
  then have keys: "map (\<lambda>r. (wh_kind r, wh_key r)) (filter (\<lambda>r. wh_key r \<noteq> None) (map ?g t)) =
      map (\<lambda>r. (wh_kind r, wh_key r)) (filter (\<lambda>r. wh_key r \<noteq> None) t)"
    by (simp only: map_map comp_def names)
  have "map wh_id (map ?g t) = map wh_id t" by (simp only: map_map comp_def names)
  moreover have "list_all row_ok (map ?g t)"
    using assms by (auto simp: outbox_ok_def list_all_iff live_update_def)
  ultimately show ?thesis
    using assms(1) keys unfolding outbox_ok_def sql_update_def by metis
qed

lemma dispatched_row_kept:
  assumes "outbox_ok t" and "live_update P f" and "r \<in> set t" and "wh_dispatched r \<noteq> None"
  shows "r \<in> set (sql_update P f t)"
proof -
  have "row_ok r" using assms(1,3) by (simp add: outbox_ok_def list_all_iff)
  then have "\<not> P r" using assms(2,4) by (auto simp: live_update_def row_ok_def)
  then show ?thesis using assms(3) by (force simp: set_sql_update)
qed

lemma live_settle: "live_update (owned_entry i w) (settled_row now j res)"
  by (auto simp: live_update_def keeps_names_def row_ok_def owned_entry_def)

lemma live_lock:
  "live_update (\<lambda>r. wh_id r = i \<and> wh_dispatched r = None \<and> unlocked now r)
     (\<lambda>r. r\<lparr>wh_locked_at := Some now, wh_locked_by := Some w, wh_updated := now\<rparr>)"
  by (auto simp: live_update_def keeps_names_def row_ok_def)

lemma live_retry:
  "live_update (\<lambda>r. wh_id r = i \<and> wh_dispatched r = None)
     (\<lambda>r. (unlock now r)\<lparr>wh_run_at := now, wh_attempts := 0, wh_error := None\<rparr>)"
  by (auto simp: live_update_def keeps_names_def row_ok_def)

lemma new_entry_simps [simp]:
  "wh_id (new_entry now newId kind destination body headers runAt key) = newId"
  "wh_kind (new_entry now newId kind destination body headers runAt key) = kind"
  "wh_key (new_entry now newId kind destination body headers runAt key) = key"
  "wh_dispatched (new_entry now newId kind destination body headers runAt key) = None"
  "wh_locked_by (new_entry now newId kind destination body headers runAt key) = None"
  "wh_locked_at (new_entry now newId kind destination body headers runAt key) = None"
  by (simp_all add: new_entry_def)

lemma enqueue_cases:
  assumes "enqueueWebhook now newId kind destination body headers runAt key t = (res, t')"
  obtains (same) "t' = t"
  | (added) "t' = t @ [new_entry now newId kind destination body headers runAt (js_or key None)]"
      "res = Some newId" "newId \<notin> wh_id ` set t"
      "\<And>r. r \<in> set t \<Longrightarrow> js_or key None \<noteq> None \<Longrightarrow> (wh_kind r, wh_key r) \<noteq> (kind, js_or key None)"
proof (cases "t' = t")
  case True
  then show ?thesis by (rule same)
next
  case False
  let ?found = "if js_or key None = None then None
    else find (\<lambda>r. wh_kind r = kind \<and> wh_key r = js_or key None) t"
  have none: "?found = None" and blank: "\<not> (list_all (\<lambda>c. c = CHR '' '') kind \<or> list_all (\<lambda>c. c = CHR '' '') destination)"
    using assms False by (auto simp: enqueueWebhook_def Let_def split: option.splits if_splits)
  show ?thesis
  proof (rule added)
    show "t' = t @ [new_entry now newId kind destination body headers runAt (js_or key None)]"
      "res = Some newId" "newId \<notin> wh_id ` set t"
      using assms False unfolding enqueueWebhook_def Let_def none if_not_P [OF blank]
      by (auto simp: sql_exists_iff split: if_splits)
    show "(wh_kind r, wh_key r) \<noteq> (kind, js_or key None)" if "r \<in> set t" "js_or key None \<noteq> None" for r
      using none that by (auto simp: find_None_iff)
  qed
qed

lemma outbox_ok_enqueue:
  assumes "outbox_ok t" and "enqueueWebhook now newId kind destination body headers runAt key t = (res, t')"
  shows "outbox_ok t'"
  using assms(2)
proof (cases rule: enqueue_cases)
  case same
  with assms(1) show ?thesis by simp
next
  case added
  then show ?thesis
    using assms(1) by (auto simp: outbox_ok_def row_ok_def)
qed


subsection \<open>The table over any run\<close>

lemma statement_rows:
  "lockWebhookEntry now i w t = (res, t') \<Longrightarrow> \<exists>P f. t' = sql_update P f t \<and> live_update P f"
  "retryWebhook now i t = (res, t') \<Longrightarrow> \<exists>P f. t' = sql_update P f t \<and> live_update P f"
  "\<exists>P f. settle_entry w now j r i t = sql_update P f t \<and> live_update P f"
  by (auto simp: lockWebhookEntry_def retryWebhook_def settle_entry_update Let_def
      intro: live_lock live_retry live_settle)

lemma step_rows:
  assumes "outbox_step l s s'"
  shows "ob_rows s' = ob_rows s \<or> (\<exists>P f. ob_rows s' = sql_update P f (ob_rows s) \<and> live_update P f) \<or>
    (\<exists>now newId kind destination body headers runAt key res.
       enqueueWebhook now newId kind destination body headers runAt key (ob_rows s) = (res, ob_rows s'))"
  using assms
proof cases
  case (settle w e since es res jitterMs)
  then show ?thesis
    using statement_rows(3) [of w "ob_now s" jitterMs res "wh_id e" "ob_rows s"] by auto
qed (auto dest: statement_rows(1,2))

lemma outbox_ok_step: "outbox_step l s s' \<Longrightarrow> outbox_ok (ob_rows s) \<Longrightarrow> outbox_ok (ob_rows s')"
  using step_rows [of l s s'] by (auto intro: outbox_ok_update outbox_ok_enqueue)

lemma dispatched_step:
  assumes "outbox_step l s s'" and "outbox_ok (ob_rows s)" and "r \<in> set (ob_rows s)" and "wh_dispatched r \<noteq> None"
  shows "r \<in> set (ob_rows s')"
  using step_rows [OF assms(1)]
proof (elim disjE exE conjE)
  assume "ob_rows s' = ob_rows s"
  then show ?thesis using assms(3) by simp
next
  fix P f
  assume "ob_rows s' = sql_update P f (ob_rows s)" "live_update P f"
  then show ?thesis using dispatched_row_kept assms(2-4) by simp
next
  fix now newId kind destination body headers runAt key res
  assume "enqueueWebhook now newId kind destination body headers runAt key (ob_rows s) = (res, ob_rows s')"
  then show ?thesis
    using assms(3) by (cases rule: enqueue_cases) auto
qed

lemma outbox_ok_run:
  assumes "any_step\<^sup>*\<^sup>* s s'" and "outbox_ok (ob_rows s)"
  shows "outbox_ok (ob_rows s') \<and>
    (\<forall>r \<in> set (ob_rows s). wh_dispatched r \<noteq> None \<longrightarrow> r \<in> set (ob_rows s'))"
  using assms(1)
proof induction
  case base
  then show ?case using assms(2) by simp
next
  case (step t u)
  then show ?case unfolding any_step_def by (blast intro: outbox_ok_step dispatched_step)
qed

lemma outbox_ok_empty: "outbox_ok (ob_rows empty_outbox)"
  by (simp add: empty_outbox_def outbox_ok_def)


subsection \<open>Sends do not overlap in prompt runs\<close>

fun never_sent_again :: "(uuid \<times> bool) list \<Rightarrow> bool" where
  "never_sent_again [] = True"
| "never_sent_again ((i, b) # earlier) = ((i, True) \<notin> set earlier \<and> never_sent_again earlier)"

definition holds :: "webhook_row list \<Rightarrow> string \<Rightarrow> uuid \<Rightarrow> millis \<Rightarrow> bool" where
  "holds t w i since \<longleftrightarrow> (\<exists>r \<in> set t. wh_id r = i \<and> wh_locked_by r = Some w \<and> wh_locked_at r = Some since)"

definition delivered_row :: "webhook_row list \<Rightarrow> uuid \<Rightarrow> bool" where
  "delivered_row t i \<longleftrightarrow> (\<exists>r \<in> set t. wh_id r = i \<and> wh_dispatched r \<noteq> None)"

definition prompt_inv :: "outbox_state \<Rightarrow> bool" where
  "prompt_inv s \<longleftrightarrow> punctual s \<and> outbox_ok (ob_rows s) \<and>
     (\<forall>w e since es. ob_pc s w = Sending e since es \<longrightarrow> holds (ob_rows s) w (wh_id e) since) \<and>
     (\<forall>i. (i, True) \<in> set (ob_log s) \<longrightarrow> delivered_row (ob_rows s) i) \<and> never_sent_again (ob_log s)"

lemma holds_unique:
  "outbox_ok t \<Longrightarrow> holds t v i a \<Longrightarrow> holds t w i b \<Longrightarrow> v = w \<and> a = b"
  by (fastforce simp: holds_def outbox_ok_def distinct_map inj_on_def)

lemma holds_not_delivered: "outbox_ok t \<Longrightarrow> holds t w i since \<Longrightarrow> \<not> delivered_row t i"
proof
  assume ok: "outbox_ok t" and "holds t w i since" "delivered_row t i"
  then obtain r r' where "r \<in> set t" "r' \<in> set t" "wh_id r = wh_id r'" "wh_locked_by r = Some w" "wh_dispatched r' \<noteq> None"
    by (auto simp: holds_def delivered_row_def)
  moreover then have "r = r'" using ok by (auto simp: outbox_ok_def distinct_map inj_on_def)
  ultimately show False using ok by (auto simp: outbox_ok_def list_all_iff row_ok_def)
qed

lemma holds_update:
  "holds t w i since \<Longrightarrow> keeps_names f \<Longrightarrow>
   (\<And>r. r \<in> set t \<Longrightarrow> wh_id r = i \<Longrightarrow> wh_locked_by r = Some w \<Longrightarrow> wh_locked_at r = Some since \<Longrightarrow> \<not> P r) \<Longrightarrow>
   holds (sql_update P f t) w i since"
  unfolding holds_def by (force simp: set_sql_update)

lemma delivered_update:
  "outbox_ok t \<Longrightarrow> live_update P f \<Longrightarrow> delivered_row t i \<Longrightarrow> delivered_row (sql_update P f t) i"
  unfolding delivered_row_def using dispatched_row_kept by blast


lemma settle_holds:
  "outbox_ok t \<Longrightarrow> holds t v i since \<Longrightarrow> v \<noteq> w \<Longrightarrow> holds (settle_entry w now j res k t) v i since"
  unfolding settle_entry_update
  by (rule holds_update) (auto simp: keeps_names_def owned_entry_def)

lemma settle_delivered:
  assumes "outbox_ok t" and "holds t w i since" and "delivered res"
  shows "delivered_row (settle_entry w now j res i t) i"
proof -
  obtain r where r: "r \<in> set t" "owned_entry i w r"
    using assms(2) by (auto simp: holds_def owned_entry_def)
  then have "settled_row now j res r \<in> set (settle_entry w now j res i t)"
    by (force simp: settle_entry_update set_sql_update)
  then show ?thesis
    using r(2) assms(3) unfolding delivered_row_def by (intro bexI) (auto simp: owned_entry_def)
qed

lemma lock_holds:
  assumes "lockWebhookEntry now i w t = (True, t')"
  shows "holds t' w i now"
proof -
  have "0 < sql_count (\<lambda>r. wh_id r = i \<and> wh_dispatched r = None \<and> unlocked now r) t"
    using assms by (simp add: lockWebhookEntry_def Let_def)
  then obtain r where r: "r \<in> set t" "wh_id r = i \<and> wh_dispatched r = None \<and> unlocked now r"
    unfolding sql_count_pos by blast
  let ?r = "r\<lparr>wh_locked_at := Some now, wh_locked_by := Some w, wh_updated := now\<rparr>"
  have "?r \<in> set t'"
    using assms r unfolding lockWebhookEntry_def Let_def by (force simp: set_sql_update)
  then show ?thesis
    using r unfolding holds_def by (intro bexI [of _ ?r]) simp_all
qed

lemma lock_keeps_holds:
  assumes "lockWebhookEntry now i w t = (res, t')" and "holds t v k since" and "now \<le> since + LOCK_TIMEOUT_MS"
  shows "holds t' v k since"
proof -
  let ?P = "\<lambda>r. wh_id r = i \<and> wh_dispatched r = None \<and> unlocked now r"
  have t': "t' = sql_update ?P (\<lambda>r. r\<lparr>wh_locked_at := Some now, wh_locked_by := Some w, wh_updated := now\<rparr>) t"
    using assms(1) by (simp add: lockWebhookEntry_def Let_def)
  show ?thesis
    unfolding t' using assms(2)
  proof (rule holds_update)
    show "\<not> ?P r" if "wh_locked_at r = Some since" for r
      using that assms(3) by (simp add: unlocked_def)
  qed (simp add: keeps_names_def)
qed

lemma enqueue_keeps:
  assumes "enqueueWebhook now newId kind destination body headers runAt key t = (res, t')"
  shows "holds t w i since \<Longrightarrow> holds t' w i since" and "delivered_row t i \<Longrightarrow> delivered_row t' i"
  using assms by (cases rule: enqueue_cases; auto simp: holds_def delivered_row_def)+

lemma retry_holds:
  assumes "retryWebhook now i t = (res, t')" and "holds t w k since" and "k \<noteq> i"
  shows "holds t' w k since"
  using assms unfolding retryWebhook_def Let_def
  by (auto simp: keeps_names_def intro!: holds_update)

lemma step_holds:
  assumes "outbox_step l s s'" and "\<forall>i w. l = RetryOf i \<longrightarrow> \<not> sending s w i" and "prompt_inv s"
    and "ob_pc s' w = Sending e since es"
  shows "holds (ob_rows s') w (wh_id e) since"
proof -
  note inv = assms(3) [unfolded prompt_inv_def punctual_def]
  have held: "holds (ob_rows s) v (wh_id x) a" "ob_now s \<le> a + LOCK_TIMEOUT_MS" if "ob_pc s v = Sending x a xs" for v x a xs
    using inv that by blast+
  show ?thesis
    using assms(1)
  proof cases
    case (enqueue newId kind destination body headers runAt key res t)
    then show ?thesis using assms(4) held(1) enqueue_keeps(1) by simp
  next
    case (lock v x xs t)
    show ?thesis
    proof (cases "w = v")
      case True
      then show ?thesis using lock assms(4) lock_holds by simp
    next
      case False
      then show ?thesis using lock assms(4) held [of w] lock_keeps_holds [OF lock(4)] by simp
    qed
  next
    case (skip_locked v x xs t)
    then show ?thesis
      using assms(4) held [of w] lock_keeps_holds [OF skip_locked(4)] by (simp split: if_splits)
  next
    case (settle v x a xs res j)
    then show ?thesis
      using assms(4) held [of w] inv settle_holds [of "ob_rows s" w] by (simp split: if_splits)
  next
    case (retry i res t)
    then have "\<not> sending s w i" "ob_pc s w = Sending e since es" using assms(2,4) by simp_all
    then have "wh_id e \<noteq> i" by (auto simp: sending_def)
    then show ?thesis using retry assms(4) held(1) retry_holds by simp
  qed (use assms(4) held(1) in \<open>auto split: if_splits\<close>)
qed

lemma step_delivered:
  assumes "outbox_step l s s'" and "outbox_ok (ob_rows s)" and "delivered_row (ob_rows s) i"
  shows "delivered_row (ob_rows s') i"
  using assms dispatched_step unfolding delivered_row_def by blast

lemma step_log:
  assumes "outbox_step l s s'" and "prompt_inv s"
  shows "(\<forall>i. (i, True) \<in> set (ob_log s') \<longrightarrow> delivered_row (ob_rows s') i) \<and> never_sent_again (ob_log s')"
proof -
  have inv: "outbox_ok (ob_rows s)" "never_sent_again (ob_log s)"
    "\<And>i. (i, True) \<in> set (ob_log s) \<Longrightarrow> delivered_row (ob_rows s) i"
    "\<And>w e a xs. ob_pc s w = Sending e a xs \<Longrightarrow> holds (ob_rows s) w (wh_id e) a"
    using assms(2) by (auto simp: prompt_inv_def)
  have kept: "delivered_row (ob_rows s') i" if "(i, True) \<in> set (ob_log s)" for i
    using step_delivered [OF assms(1) inv(1)] inv(3) that by blast
  show ?thesis
    using assms(1)
  proof cases
    case (settle w e a xs res j)
    then have h: "holds (ob_rows s) w (wh_id e) a" using inv(4) by blast
    then have "(wh_id e, True) \<notin> set (ob_log s)" using inv(1,3) holds_not_delivered by blast
    moreover have "delivered res \<Longrightarrow> delivered_row (ob_rows s') (wh_id e)"
      using settle_delivered [OF inv(1) h] settle by simp
    ultimately show ?thesis using settle kept inv(2) by auto
  qed (use kept inv(2) in simp_all)
qed

lemma prompt_inv_step: "prompt_step s s' \<Longrightarrow> prompt_inv s \<Longrightarrow> prompt_inv s'"
  unfolding prompt_step_def
proof (elim conjE exE)
  fix l
  assume "punctual s'" and l: "outbox_step l s s'" "\<forall>i w. l = RetryOf i \<longrightarrow> \<not> sending s w i" and inv: "prompt_inv s"
  then show "prompt_inv s'"
    using step_holds [OF l inv] step_log [OF l(1) inv] outbox_ok_step [OF l(1)]
    unfolding prompt_inv_def by blast
qed

lemma prompt_inv_run: "prompt_step\<^sup>*\<^sup>* empty_outbox s \<Longrightarrow> prompt_inv s"
proof (induction rule: rtranclp_induct)
  case base
  then show ?case by (simp add: prompt_inv_def punctual_def empty_outbox_def outbox_ok_def)
next
  case (step t u)
  then show ?case by (blast intro: prompt_inv_step)
qed

text \<open>
  C24. Prompt workers deliver once. In every run in which a send ends within the five minutes of its
  lock and nobody retries an entry while it is being sent, no two workers send one entry at the same
  time, and an entry whose send succeeded is marked dispatched and never sent again.
\<close>

theorem outbox_prompt_delivery:
  assumes "prompt_step\<^sup>*\<^sup>* empty_outbox s"
  shows "(\<forall>v w i. sending s v i \<and> sending s w i \<longrightarrow> v = w) \<and> never_sent_again (ob_log s) \<and>
    (\<forall>i. (i, True) \<in> set (ob_log s) \<longrightarrow> delivered_row (ob_rows s) i)"
proof -
  note inv = prompt_inv_run [OF assms, unfolded prompt_inv_def]
  have "v = w" if vw: "sending s v i" "sending s w i" for v w i
  proof -
    obtain e a xs where "ob_pc s v = Sending e a xs" "wh_id e = i"
      using vw(1) by (auto simp: sending_def split: outbox_pc.splits)
    moreover obtain e' a' xs' where "ob_pc s w = Sending e' a' xs'" "wh_id e' = i"
      using vw(2) by (auto simp: sending_def split: outbox_pc.splits)
    ultimately have "holds (ob_rows s) v i a" "holds (ob_rows s) w i a'" using inv by metis+
    then show "v = w" using holds_unique inv by blast
  qed
  then show ?thesis using inv by blast
qed


subsection \<open>One pass\<close>

lemma settled_row_of_locked:
  "settled_row now j res (r\<lparr>wh_locked_at := a, wh_locked_by := b, wh_updated := c\<rparr>) = settled_row now j res r"
  by (cases res) (simp_all add: settled_row_def unlock_def failed_row_def Let_def)

lemma lock_and_settle:
  assumes "distinct (map wh_id t)" and "e \<in> set t" and "wh_dispatched e = None" and "unlocked a e"
  shows "\<exists>t'. lockWebhookEntry a (wh_id e) w t = (True, t') \<and>
    settle_entry w b j res (wh_id e) t' = sql_update (\<lambda>r. r = e) (settled_row b j res) t"
proof -
  let ?free = "\<lambda>r. wh_id r = wh_id e \<and> wh_dispatched r = None \<and> unlocked a r"
  let ?lk = "\<lambda>r. r\<lparr>wh_locked_at := Some a, wh_locked_by := Some w, wh_updated := a\<rparr>"
  have same: "wh_id r = wh_id e \<longleftrightarrow> r = e" if "r \<in> set t" for r
    using assms(1,2) that by (auto simp: distinct_map inj_on_def)
  have "filter ?free t = filter (\<lambda>r. r = e) t"
    using same assms(3,4) by (intro filter_cong) auto
  moreover have "filter (\<lambda>r. r = e) t = [e]"
    using assms(1,2) by (induction t) (auto simp: filter_empty_conv)
  ultimately have "sql_count ?free t = 1" by (simp add: sql_count_def)
  moreover have "settle_entry w b j res (wh_id e) (sql_update ?free ?lk t) =
      sql_update (\<lambda>r. r = e) (settled_row b j res) t"
    unfolding settle_entry_update sql_update_def map_map
    using same assms(3,4) by (intro map_cong) (auto simp: owned_entry_def settled_row_of_locked)
  ultimately show ?thesis by (simp add: lockWebhookEntry_def Let_def)
qed

definition pass_result ::
  "(webhook_row \<Rightarrow> send_result) \<Rightarrow> (uuid \<Rightarrow> entry_run) \<Rightarrow> webhook_row \<Rightarrow> webhook_row" where
  "pass_result sent world r =
     settled_row (er_done (world (wh_id r))) (er_jitter (world (wh_id r))) (sent r) r"

lemma process_entries:
  fixes parse unusable validateSsrf config world
  defines "sent \<equiv> \<lambda>r. send_entry parse unusable validateSsrf config (world (wh_id r)) r"
  assumes "distinct (map wh_id t)" and "distinct (map wh_id es)" and "set es \<subseteq> set t"
    and "\<And>e. e \<in> set es \<Longrightarrow> wh_dispatched e = None \<and> unlocked (er_lock (world (wh_id e))) e"
  shows "fold (process_entry parse unusable validateSsrf config w world) es (stats, t) =
    (stats\<lparr>st_processed := st_processed stats + length es,
       st_succeeded := st_succeeded stats + sql_count (\<lambda>r. delivered (sent r)) es,
       st_failed := st_failed stats + sql_count (\<lambda>r. \<not> delivered (sent r)) es\<rparr>,
     sql_update (\<lambda>r. r \<in> set es) (pass_result sent world) t)"
  using assms(2-5)
proof (induction es arbitrary: stats t)
  case Nil
  then show ?case by (simp add: sql_count_def sql_update_none)
next
  case (Cons e es)
  let ?t = "sql_update (\<lambda>r. r = e) (pass_result sent world) t"
  let ?er = "world (wh_id e)"
  obtain t' where t': "lockWebhookEntry (er_lock ?er) (wh_id e) w t = (True, t')"
    "settle_entry w (er_done ?er) (er_jitter ?er) (sent e) (wh_id e) t' =
      sql_update (\<lambda>r. r = e) (settled_row (er_done ?er) (er_jitter ?er) (sent e)) t"
    using lock_and_settle [of t e "er_lock ?er" w "er_done ?er" "er_jitter ?er" "sent e"] Cons.prems by auto
  have upd: "sql_update (\<lambda>r. r = e) (settled_row (er_done ?er) (er_jitter ?er) (sent e)) t = ?t"
    by (auto simp: sql_update_def pass_result_def)
  have ids: "map wh_id ?t = map wh_id t" by (simp add: map_key_sql_update pass_result_def)
  have rest: "fold (process_entry parse unusable validateSsrf config w world) es (st, ?t) =
    (st\<lparr>st_processed := st_processed st + length es,
       st_succeeded := st_succeeded st + sql_count (\<lambda>r. delivered (sent r)) es,
       st_failed := st_failed st + sql_count (\<lambda>r. \<not> delivered (sent r)) es\<rparr>,
     sql_update (\<lambda>r. r \<in> set es) (pass_result sent world) ?t)" for st
  proof (rule Cons.IH)
    show "distinct (map wh_id ?t)" using ids Cons.prems(1) by simp
    show "distinct (map wh_id es)" using Cons.prems(2) by simp
    show "set es \<subseteq> set ?t" using Cons.prems(2,3) by (force simp: set_sql_update)
  qed (use Cons.prems(4) in simp)
  have "wh_id e \<notin> wh_id ` set es" using Cons.prems(2) by simp
  moreover have "wh_id (pass_result sent world e) = wh_id e" by (simp add: pass_result_def)
  ultimately have "e \<notin> set es" "pass_result sent world e \<notin> set es" by (metis imageI)+
  then have both: "sql_update (\<lambda>r. r \<in> set es) (pass_result sent world) ?t =
      sql_update (\<lambda>r. r \<in> set (e # es)) (pass_result sent world) t"
    by (auto simp: sql_update_def)
  have "process_entry parse unusable validateSsrf config w world e (stats, t) =
      ((if delivered (sent e) then (stats\<lparr>st_processed := st_processed stats + 1\<rparr>)\<lparr>st_succeeded := st_succeeded stats + 1\<rparr>
        else (stats\<lparr>st_processed := st_processed stats + 1\<rparr>)\<lparr>st_failed := st_failed stats + 1\<rparr>), ?t)"
    using t' upd by (simp add: process_entry_def sent_def Let_def)
  then show ?case by (simp add: rest both) (simp add: sql_count_def)
qed


lemma set_pending:
  "e \<in> set (getPendingWebhooks now limit t) \<Longrightarrow> e \<in> set t \<and> is_pending now e"
  unfolding getPendingWebhooks_def by (drule in_set_takeD) simp

lemma distinct_pending:
  assumes "distinct (map wh_id t)"
  shows "distinct (map wh_id (getPendingWebhooks now limit t))"
proof -
  have "distinct (map wh_id (filter (is_pending now) t))"
    using assms by (rule distinct_map_filter)
  then have "distinct (map wh_id (sort_key wh_run_at (filter (is_pending now) t)))"
    by (simp add: distinct_map)
  then show ?thesis by (simp add: getPendingWebhooks_def take_map [symmetric] distinct_take)
qed

text \<open>
  What one pass does. A pass that meets no other worker sends each fetched entry exactly once
  and skips none, whatever their number: its counts add up, the row of each becomes the result of its
  own send (dispatched, retried with back-off, or dead), and every other row is left as it was.
\<close>

theorem processPendingWebhooks_spec:
  assumes "outbox_ok t" and "\<And>i. now \<le> er_lock (world i)"
  shows "processPendingWebhooks parse unusable validateSsrf (Some c) w world now limit t =
    (let sent = \<lambda>r. send_entry parse unusable validateSsrf (Some c) (world (wh_id r)) r;
         es = getPendingWebhooks now limit t in
     (\<lparr>st_processed = length es, st_succeeded = sql_count (\<lambda>r. delivered (sent r)) es,
       st_failed = sql_count (\<lambda>r. \<not> delivered (sent r)) es, st_skipped = 0\<rparr>,
      sql_update (\<lambda>r. r \<in> set es) (pass_result sent world) t))"
proof -
  have free: "wh_dispatched e = None \<and> unlocked (er_lock (world (wh_id e))) e"
    if "e \<in> set (getPendingWebhooks now limit t)" for e
    using set_pending [OF that] assms(2) [of "wh_id e"]
    by (auto simp: is_pending_def unlocked_def split: option.splits)
  have ids: "distinct (map wh_id t)" using assms(1) by (simp add: outbox_ok_def)
  show ?thesis
    by (simp add: processPendingWebhooks_def Let_def no_stats_def
        process_entries [OF ids distinct_pending [OF ids] _ free] subsetI set_pending)
qed

subsection \<open>Where the outbox does not do what it means to\<close>

text \<open>
  A reply that is not JSON counts as a failure. When the endpoint accepts a webhook with a 2xx
  status and a body that is empty or plain text, the body is read twice, which throws: the entry is
  recorded as failed, stays undelivered and, while attempts remain, is due to be sent again.
\<close>

theorem plain_reply_resent:
  assumes "isAbsoluteUrl (wh_destination r) \<longrightarrow> validateSsrf (wh_destination r) = None"
    and "er_fetch er (dispatch_request c r) = FetchResponse status body" and "200 \<le> status" and "status \<le> 299"
    and "Option.bind body parse = None" and "unusable \<noteq> []"
    and "wh_dispatched r = None" and "wh_attempts r + 1 < MAX_RETRIES"
  shows "let res = send_entry parse unusable validateSsrf (Some c) er r; r' = settled_row now j res r in
    \<not> delivered res \<and> wh_attempts r' = wh_attempts r + 1 \<and> wh_dispatched r' = None \<and>
    (\<forall>later. wh_run_at r' \<le> later \<longrightarrow> is_pending later r')"
proof -
  have res: "send_entry parse unusable validateSsrf (Some c) er r = Sent (failed_dispatch None unusable)"
    using assms(1-5) by (auto simp: send_entry_def dispatchWebhook_def)
  have "js_or (Some unusable) d = Some unusable" for d
    using assms(6) by (cases unusable) (simp_all add: js_or_def)
  then have "settled_row now j (Sent (failed_dispatch None unusable)) r = failed_row now unusable j r"
    by (simp add: settled_row_def failed_dispatch_def isRetryable_def)
  then show ?thesis
    using assms(7,8) by (simp add: res Let_def delivered_def failed_dispatch_def failed_row_def is_pending_def unlocked_def)
qed

text \<open>The workers of the next property: the k-th is named by k letters.\<close>

definition worker_name :: "nat \<Rightarrow> string" where
  "worker_name k = replicate k (CHR ''w'')"

lemma worker_name_inj [simp]: "worker_name j = worker_name k \<longleftrightarrow> j = k"
  by (auto simp: worker_name_def replicate_eq_replicate)

definition unavailable :: send_result where
  "unavailable = Sent (failed_dispatch (Some 503) ''HTTP 503: '')"

definition stale_state :: "webhook_row \<Rightarrow> nat \<Rightarrow> nat \<Rightarrow> webhook_row \<Rightarrow> outbox_state \<Rightarrow> bool" where
  "stale_state e n k r s \<longleftrightarrow> ob_now s = 0 \<and> ob_rows s = [r] \<and> wh_id r = wh_id e \<and> wh_attempts r = k \<and>
     wh_dispatched r = None \<and> wh_locked_at r = None \<and> ob_log s = replicate k (wh_id e, False) \<and>
     (\<forall>v x a xs. ob_pc s v \<noteq> Sending x a xs) \<and> (\<forall>m. k \<le> m \<and> m < n \<longrightarrow> ob_pc s (worker_name m) = Working [e])"


lemma prompt_stepI:
  "outbox_step Other s s' \<Longrightarrow> (\<And>w e since es. ob_pc s' w = Sending e since es \<Longrightarrow> ob_now s' \<le> since + LOCK_TIMEOUT_MS) \<Longrightarrow>
   prompt_step s s'"
  unfolding prompt_step_def punctual_def by (intro conjI exI [of _ Other]) auto

lemma stale_lists_start:
  assumes "wh_id e = i" and "is_pending 0 e" and "ob_rows s = [e]" and "ob_now s = 0"
    and "\<forall>v. ob_pc s v = Resting"
  shows "\<exists>s'. prompt_step\<^sup>*\<^sup>* s s' \<and> ob_rows s' = [e] \<and> ob_now s' = 0 \<and> ob_log s' = ob_log s \<and>
    (\<forall>m < n. ob_pc s' (worker_name m) = Working [e]) \<and>
    (\<forall>v. (\<forall>m < n. v \<noteq> worker_name m) \<longrightarrow> ob_pc s' v = Resting)"
proof (induction n)
  case 0
  then show ?case using assms by (intro exI [of _ s]) simp
next
  case (Suc n)
  then obtain u where u: "prompt_step\<^sup>*\<^sup>* s u" "ob_rows u = [e]" "ob_now u = 0" "ob_log u = ob_log s"
    "\<forall>m < n. ob_pc u (worker_name m) = Working [e]"
    "\<forall>v. (\<forall>m < n. v \<noteq> worker_name m) \<longrightarrow> ob_pc u v = Resting" by blast
  let ?u = "u\<lparr>ob_pc := (ob_pc u)(worker_name n := Working (getPendingWebhooks (ob_now u) 1 (ob_rows u)))\<rparr>"
  have e: "getPendingWebhooks (ob_now u) 1 (ob_rows u) = [e]"
    using assms(2) u(2,3) by (simp add: getPendingWebhooks_def)
  have "ob_pc u (worker_name n) = Resting" using u(6) by auto
  then have "outbox_step Other u ?u" by (rule fetch_pending)
  moreover have "\<not> ob_pc ?u v = Sending x a xs" for v x a xs
    using u(5,6) by (cases "\<exists>m < n. v = worker_name m") auto
  ultimately have "prompt_step u ?u" by (intro prompt_stepI) blast+
  with u(1) have "prompt_step\<^sup>*\<^sup>* s ?u" by (rule rtranclp.rtrancl_into_rtrancl)
  then show ?case
    using u e by (intro exI [of _ ?u]) (auto simp: less_Suc_eq)
qed

lemma stale_send:
  assumes "stale_state e n k r s" and "k < n"
  shows "\<exists>r' s'. prompt_step\<^sup>*\<^sup>* s s' \<and> stale_state e n (Suc k) r' s'"
proof -
  note st = assms(1) [unfolded stale_state_def]
  let ?w = "worker_name k"
  let ?lk = "r\<lparr>wh_locked_at := Some 0, wh_locked_by := Some ?w, wh_updated := 0\<rparr>"
  let ?u = "s\<lparr>ob_rows := [?lk], ob_pc := (ob_pc s)(?w := Sending e 0 [])\<rparr>"
  let ?r = "settled_row 0 0 unavailable ?lk"
  let ?v = "?u\<lparr>ob_rows := [?r], ob_pc := (ob_pc ?u)(?w := Working []), ob_log := (wh_id e, False) # ob_log s\<rparr>"
  have pc: "ob_pc s ?w = Working [e]" using st assms(2) by blast
  have "lockWebhookEntry (ob_now s) (wh_id e) ?w (ob_rows s) = (True, [?lk])"
    using st by (simp add: lockWebhookEntry_def Let_def sql_count_def sql_update_def unlocked_def)
  from lock [OF pc this] have "outbox_step Other s ?u" using st by simp
  moreover have "ob_now ?u \<le> a + LOCK_TIMEOUT_MS" if "ob_pc ?u x = Sending y a ys" for x y a ys
    using that st by (auto simp: LOCK_TIMEOUT_MS_def split: if_splits)
  ultimately have one: "prompt_step s ?u" by (rule prompt_stepI)
  have "settle_entry ?w (ob_now ?u) 0 unavailable (wh_id e) (ob_rows ?u) = [?r]"
    using st by (simp add: settle_entry_update sql_update_def owned_entry_def)
  moreover have "\<not> delivered unavailable" by (simp add: delivered_def unavailable_def failed_dispatch_def)
  ultimately have "outbox_step Other ?u ?v"
    using settle [of ?u ?w e 0 "[]" unavailable 0] by simp
  moreover have "ob_now ?v \<le> a + LOCK_TIMEOUT_MS" if "ob_pc ?v x = Sending y a ys" for x y a ys
    using that st by (auto split: if_splits)
  ultimately have "prompt_step ?u ?v" by (rule prompt_stepI)
  with one have "prompt_step\<^sup>*\<^sup>* s ?v" by (rule converse_rtranclp_into_rtranclp [OF _ r_into_rtranclp])
  moreover have "stale_state e n (Suc k) ?r ?v"
    using st by (auto simp: stale_state_def delivered_def unavailable_def settled_row_def failed_dispatch_def
        isRetryable_def failed_row_def Let_def)
  ultimately show ?thesis by blast
qed

definition example_entry :: webhook_row where
  "example_entry = new_entry 0 ''e1'' ''reminder'' ''/hooks/agent'' JNull None None None"

text \<open>
  The limit of attempts and the back-off bind one worker only. A worker locks the entries of
  the list it fetched without looking at their attempts and due time again: for every \<open>n\<close> there is a
  prompt run in which one entry, whose first send failed, is sent \<open>n\<close> times at a single instant.
\<close>

theorem stale_lists_exceed_retries:
  "\<exists>s r. prompt_step\<^sup>*\<^sup>* empty_outbox s \<and> ob_now s = 0 \<and> ob_rows s = [r] \<and> wh_attempts r = n \<and>
     ob_log s = replicate n (wh_id r, False)"
proof -
  let ?s = "empty_outbox\<lparr>ob_rows := [example_entry]\<rparr>"
  have "enqueueWebhook (ob_now empty_outbox) ''e1'' ''reminder'' ''/hooks/agent'' JNull None None None (ob_rows empty_outbox) =
      (Some ''e1'', [example_entry])"
    by (simp add: enqueueWebhook_def Let_def js_or_def empty_outbox_def example_entry_def sql_exists_def)
  from enqueue [OF this] have "prompt_step empty_outbox ?s"
    by (rule prompt_stepI) (simp add: empty_outbox_def)
  moreover have "is_pending 0 example_entry"
    by (simp add: is_pending_def example_entry_def new_entry_def unlocked_def MAX_RETRIES_def)
  then obtain u where u: "prompt_step\<^sup>*\<^sup>* ?s u" "ob_rows u = [example_entry]" "ob_now u = 0" "ob_log u = []"
    "\<forall>m < n. ob_pc u (worker_name m) = Working [example_entry]"
    "\<forall>v. (\<forall>m < n. v \<noteq> worker_name m) \<longrightarrow> ob_pc u v = Resting"
    using stale_lists_start [of example_entry _ ?s n] by (auto simp: empty_outbox_def)
  then have "\<not> ob_pc u v = Sending x a xs" for v x a xs
    by (cases "\<exists>m < n. v = worker_name m") auto
  then have "stale_state example_entry n 0 example_entry u"
    using u by (simp add: stale_state_def example_entry_def new_entry_def)
  moreover have "\<exists>r s. prompt_step\<^sup>*\<^sup>* u s \<and> stale_state example_entry n k r s" if "k \<le> n" for k
    using that
  proof (induction k)
    case 0
    then show ?case using \<open>stale_state example_entry n 0 example_entry u\<close> by blast
  next
    case (Suc k)
    then obtain r s where rs: "prompt_step\<^sup>*\<^sup>* u s" "stale_state example_entry n k r s" by auto
    obtain r' s' where "prompt_step\<^sup>*\<^sup>* s s'" "stale_state example_entry n (Suc k) r' s'"
      using stale_send [OF rs(2)] Suc.prems by auto
    with rs(1) show ?case by (meson rtranclp_trans)
  qed
  then obtain r s where "prompt_step\<^sup>*\<^sup>* u s" "stale_state example_entry n n r s" by blast
  ultimately show ?thesis
    using u(1) unfolding stale_state_def by (metis converse_rtranclp_into_rtranclp rtranclp_trans)
qed


subsection \<open>Witnesses\<close>

definition example_result :: send_result where
  "example_result = Sent \<lparr>dr_success = True, dr_status = Some 200, dr_error = None, dr_body = Some JNull\<rparr>"

definition example_outbox :: "webhook_row \<Rightarrow> outbox_state" where
  "example_outbox r = empty_outbox\<lparr>ob_rows := [r]\<rparr>"

lemma example_enqueued: "prompt_step empty_outbox (example_outbox example_entry)"
proof (rule prompt_stepI)
  have "enqueueWebhook (ob_now empty_outbox) ''e1'' ''reminder'' ''/hooks/agent'' JNull None None None (ob_rows empty_outbox) =
      (Some ''e1'', [example_entry])"
    by (simp add: enqueueWebhook_def Let_def js_or_def empty_outbox_def example_entry_def sql_exists_def)
  from enqueue [OF this] show "outbox_step Other empty_outbox (example_outbox example_entry)"
    by (simp add: example_outbox_def)
qed (simp add: example_outbox_def empty_outbox_def)

definition example_delivered :: outbox_state where
  "example_delivered = \<lparr>ob_now = 0, ob_rows = [settled_row 0 0 example_result example_entry],
     ob_pc = (\<lambda>_. Resting)(''w'' := Working []), ob_log = [(''e1'', True)]\<rparr>"

lemma example_delivery: "prompt_step\<^sup>*\<^sup>* empty_outbox example_delivered"
proof -
  let ?a = "example_outbox example_entry"
  let ?b = "?a\<lparr>ob_pc := (ob_pc ?a)(''w'' := Working [example_entry])\<rparr>"
  let ?lk = "example_entry\<lparr>wh_locked_at := Some 0, wh_locked_by := Some ''w'', wh_updated := 0\<rparr>"
  let ?c = "?b\<lparr>ob_rows := [?lk], ob_pc := (ob_pc ?b)(''w'' := Sending example_entry 0 [])\<rparr>"
  have idle: "ob_pc ?a v = Resting" "ob_now ?a = 0" "ob_rows ?a = [example_entry]" "ob_log ?a = []" for v
    by (simp_all add: example_outbox_def empty_outbox_def)
  have "getPendingWebhooks (ob_now ?a) 1 (ob_rows ?a) = [example_entry]"
    by (simp only: idle) (simp add: getPendingWebhooks_def is_pending_def example_entry_def new_entry_def unlocked_def MAX_RETRIES_def)
  with fetch_pending [of ?a "''w''" 1] idle have "outbox_step Other ?a ?b" by simp
  then have ab: "prompt_step ?a ?b" by (rule prompt_stepI) (simp add: idle split: if_splits)
  have "lockWebhookEntry (ob_now ?b) (wh_id example_entry) ''w'' (ob_rows ?b) = (True, [?lk])"
    by (simp add: idle lockWebhookEntry_def Let_def sql_count_def sql_update_def unlocked_def)
       (simp add: example_entry_def new_entry_def)
  from lock [OF _ this] have "outbox_step Other ?b ?c" by (simp add: idle)
  then have bc: "prompt_step ?b ?c" by (rule prompt_stepI) (auto simp: idle LOCK_TIMEOUT_MS_def split: if_splits)
  have "settle_entry ''w'' 0 0 example_result ''e1'' [?lk] = [settled_row 0 0 example_result example_entry]"
    by (simp add: settle_entry_update sql_update_def owned_entry_def settled_row_of_locked) (simp add: example_entry_def)
  then have "outbox_step Other ?c example_delivered"
    using settle [of ?c "''w''" example_entry 0 "[]" example_result 0]
    by (simp add: idle example_delivered_def delivered_def example_result_def) (simp add: example_outbox_def empty_outbox_def example_entry_def)
  then have "prompt_step ?c example_delivered"
    by (rule prompt_stepI) (simp add: example_delivered_def split: if_splits)
  with ab bc example_enqueued show ?thesis
    by (blast intro: converse_rtranclp_into_rtranclp)
qed

lemma prompt_any: "prompt_step\<^sup>*\<^sup>* s s' \<Longrightarrow> any_step\<^sup>*\<^sup>* s s'"
  by (erule rtranclp_mono [THEN predicate2D, rotated]) (auto simp: prompt_step_def any_step_def)


theorem outbox_prompt_delivery_witness: "delivered_row (ob_rows example_delivered) ''e1''"
  using outbox_prompt_delivery [OF example_delivery] by (simp add: example_delivered_def)

definition example_world :: "uuid \<Rightarrow> entry_run" where
  "example_world _ = \<lparr>er_lock = 1, er_done = 2, er_jitter = 0, er_fetch = (\<lambda>_. FetchResponse 200 (Some ''ok''))\<rparr>"

definition example_config :: OpenClawConfig where
  "example_config = \<lparr>ow_gateway = ''https://gateway'', ow_token = ''t'', ow_model = ''m'', ow_timeout = Some 120\<rparr>"

theorem processPendingWebhooks_spec_witness:
  "fst (processPendingWebhooks (\<lambda>_. None) ''unusable'' (\<lambda>_. None) (Some example_config) ''w'' example_world 0 100
     [example_entry]) = \<lparr>st_processed = 1, st_succeeded = 0, st_failed = 1, st_skipped = 0\<rparr>"
proof -
  have "outbox_ok [example_entry]"
    by (simp add: outbox_ok_def row_ok_def example_entry_def)
  moreover have "(0 :: millis) \<le> er_lock (example_world i)" for i by (simp add: example_world_def)
  ultimately show ?thesis
    using processPendingWebhooks_spec [of "[example_entry]" 0 example_world "\<lambda>_. None" "''unusable''" "\<lambda>_. None"
        example_config "''w''" 100]
    by (simp add: Let_def getPendingWebhooks_def is_pending_def unlocked_def MAX_RETRIES_def sql_count_def
        send_entry_def isAbsoluteUrl_def js_startsWith_def js_toLowerCase_def js_lower_char_def dispatchWebhook_def
        example_world_def delivered_def failed_dispatch_def example_entry_def new_entry_def)
qed

theorem plain_reply_resent_witness:
  "wh_attempts (settled_row 2 0 (send_entry (\<lambda>_. None) ''unusable'' (\<lambda>_. None) (Some example_config)
     (example_world ''e1'') example_entry) example_entry) = 1"
  using plain_reply_resent [of example_entry "\<lambda>_. None" "example_world ''e1''" example_config 200 "Some ''ok''"
      "\<lambda>_. None" "''unusable''" 2 0]
  by (simp add: Let_def example_world_def MAX_RETRIES_def) (simp add: example_entry_def new_entry_def)

end
