(* ===== verification/NumberText.thy ===== *)
theory NumberText
  imports Prelude "HOL-Library.Word"
begin

text \<open>
  Numbers as JavaScript prints and reads them in a base, \<open>Number.prototype.toString(b)\<close> and
  \<open>parseInt(s, 16)\<close>, with the round trips between the two, and words put together from groups of
  bits: what the guards of network addresses are built from.
\<close>

unbundle bit_operations_syntax

subsection \<open>Decimal\<close>

lemma digit_char_decimal [simp]: "d < 10 \<Longrightarrow> decimal_digit (digit_char d)"
  by (simp add: decimal_digit_def digit_char_def Let_def)

lemma digit_char_value [simp]: "d < 10 \<Longrightarrow> (of_char (digit_char d) :: nat) = 48 + d"
  by (simp add: digit_char_def)

lemma show_nat_nonempty [simp]: "show_nat n \<noteq> []"
  by (simp add: show_nat.simps [of n])

lemma show_nat_digits: "list_all decimal_digit (show_nat n)"
proof (induction n rule: show_nat.induct)
  case (1 n)
  then show ?case by (cases "n < 10") (simp_all add: show_nat.simps [of n])
qed

lemma digits_value_snoc: "digits_value (ds @ [c]) = 10 * digits_value ds + (of_char c - 48)"
  by (simp add: digits_value_def)

lemma digits_value_show_nat [simp]: "digits_value (show_nat n) = n"
proof (induction n rule: show_nat.induct)
  case (1 n)
  show ?case
  proof (cases "n < 10")
    case True
    then show ?thesis by (simp add: show_nat.simps [of n] digits_value_def)
  next
    case False
    then show ?thesis using 1 by (simp add: show_nat.simps [of n] digits_value_snoc)
  qed
qed

lemma decimal_digit_plain:
  "decimal_digit c \<Longrightarrow> \<not> js_space c \<and> c \<noteq> CHR ''-'' \<and> c \<noteq> CHR ''+'' \<and> c \<noteq> CHR ''.'' \<and> c \<noteq> CHR '':'' \<and> c \<noteq> CHR ''/''"
  by (auto simp: decimal_digit_def js_space_def Let_def)

lemma takeWhile_all: "list_all P xs \<Longrightarrow> takeWhile P xs = xs"
  by (simp add: list_all_iff)

lemma js_parseInt_show_nat [simp]: "js_parseInt (show_nat n) = Some (int n)"
proof -
  obtain c cs where s: "show_nat n = c # cs" by (cases "show_nat n") simp_all
  then have "decimal_digit c" using show_nat_digits [of n] by simp
  then have "\<not> js_space c \<and> c \<noteq> CHR ''-'' \<and> c \<noteq> CHR ''+''" by (simp add: decimal_digit_plain)
  moreover have "takeWhile decimal_digit (c # cs) = c # cs"
    using show_nat_digits [of n] by (simp only: s takeWhile_all)
  ultimately have "js_parseInt (c # cs) = Some (int (digits_value (c # cs)))"
    unfolding js_parseInt_def by (simp add: Let_def)
  then show ?thesis by (simp add: s [symmetric])
qed

subsection \<open>Other bases\<close>

definition base_char :: "nat \<Rightarrow> char" where
  "base_char d = (if d < 10 then char_of (48 + d) else char_of (87 + d))"

definition hexit_value :: "char \<Rightarrow> nat option" where
  "hexit_value c =
     (let n = of_char c :: nat in
      if 48 \<le> n \<and> n \<le> 57 then Some (n - 48)
      else if 97 \<le> n \<and> n \<le> 102 then Some (n - 87)
      else if 65 \<le> n \<and> n \<le> 70 then Some (n - 55) else None)"

definition hexit :: "char \<Rightarrow> bool" where
  "hexit c = (hexit_value c \<noteq> None)"

definition hex_digits_value :: "string \<Rightarrow> nat" where
  "hex_digits_value ds = foldl (\<lambda>v c. 16 * v + the (hexit_value c)) 0 ds"

text \<open>\<open>parseInt(s, 16)\<close>: white space, a sign, an optional \<open>0x\<close> and the hexadecimal digits that
  follow; \<open>None\<close> is \<open>NaN\<close>.\<close>

definition js_parseInt16 :: "string \<Rightarrow> int option" where
  "js_parseInt16 s =
     (let t = dropWhile js_space s;
          (sgn, ds) = (case t of
              [] \<Rightarrow> (1, [])
            | c # cs \<Rightarrow> if c = CHR ''-'' then (- 1, cs) else if c = CHR ''+'' then (1, cs) else (1, t));
          ds = (if js_startsWith ds ''0x'' \<or> js_startsWith ds ''0X'' then drop 2 ds else ds);
          digits = takeWhile hexit ds
      in if digits = [] then None else Some (sgn * int (hex_digits_value digits)))"

fun show_base :: "nat \<Rightarrow> nat \<Rightarrow> string" where
  "show_base b n = (if n < b \<or> b < 2 then [base_char n] else show_base b (n div b) @ [base_char (n mod b)])"

declare show_base.simps [simp del]

lemma base_char_value: "d < 16 \<Longrightarrow> hexit_value (base_char d) = Some d"
  by (simp add: hexit_value_def base_char_def Let_def)

lemma show_base_nonempty [simp]: "show_base b n \<noteq> []"
  by (simp add: show_base.simps [of b n])

lemma show_hex_digits: "list_all hexit (show_base 16 n)"
proof (induction "16 :: nat" n rule: show_base.induct)
  case (1 n)
  then show ?case
    by (cases "n < 16") (simp_all add: show_base.simps [of 16 n] hexit_def base_char_value)
qed

lemma hex_digits_value_snoc: "hex_digits_value (ds @ [c]) = 16 * hex_digits_value ds + the (hexit_value c)"
  by (simp add: hex_digits_value_def)

lemma hex_digits_value_show [simp]: "hex_digits_value (show_base 16 n) = n"
proof (induction "16 :: nat" n rule: show_base.induct)
  case (1 n)
  show ?case
  proof (cases "n < 16")
    case True
    then show ?thesis by (simp add: show_base.simps [of 16 n] hex_digits_value_def base_char_value)
  next
    case False
    then show ?thesis using 1 by (simp add: show_base.simps [of 16 n] hex_digits_value_snoc base_char_value)
  qed
qed

lemma hexit_plain:
  "hexit c \<Longrightarrow> \<not> js_space c \<and> c \<noteq> CHR ''-'' \<and> c \<noteq> CHR ''+'' \<and> c \<noteq> CHR ''x'' \<and> c \<noteq> CHR ''X'' \<and> c \<noteq> CHR '':''"
  by (auto simp: hexit_def hexit_value_def js_space_def Let_def)

lemma hex_digits_value_zeros: "hex_digits_value (replicate k (CHR ''0'') @ ds) = hex_digits_value ds"
proof (induction k)
  case (Suc k)
  then show ?case by (simp add: hex_digits_value_def hexit_value_def Let_def)
qed simp

lemma js_parseInt16_digits:
  assumes "ds \<noteq> []" and "list_all hexit ds"
  shows "js_parseInt16 ds = Some (int (hex_digits_value ds))"
proof -
  obtain c cs where s: "ds = c # cs" using assms(1) by (cases ds) simp_all
  have c: "\<not> js_space c \<and> c \<noteq> CHR ''-'' \<and> c \<noteq> CHR ''+''" using assms(2) s hexit_plain by simp
  have "\<not> js_startsWith ds ''0x''" "\<not> js_startsWith ds ''0X''"
    using assms(2) hexit_plain by (auto simp: s js_startsWith_def take_Cons' list_all_iff split: if_splits; cases cs; auto)+
  moreover have "takeWhile hexit ds = ds" by (rule takeWhile_all [OF assms(2)])
  ultimately show ?thesis
    using c unfolding js_parseInt16_def by (simp add: s Let_def)
qed

lemma js_parseInt16_pad [simp]: "js_parseInt16 (pad_left k (show_base 16 n)) = Some (int n)"
proof -
  have "hexit (CHR ''0'')" by (simp add: hexit_def hexit_value_def Let_def)
  then have "list_all hexit (pad_left k (show_base 16 n))"
    using show_hex_digits [of n] by (auto simp: pad_left_def list_all_iff)
  moreover have "pad_left k (show_base 16 n) \<noteq> []" by (simp add: pad_left_def)
  ultimately show ?thesis
    by (simp add: js_parseInt16_digits) (simp add: pad_left_def hex_digits_value_zeros)
qed


subsection \<open>Bits\<close>

text \<open>The text of a number in base 2, padded to \<open>w\<close> digits, shows its bits.\<close>

definition bit_char :: "bool \<Rightarrow> char" where
  "bit_char b = (if b then CHR ''1'' else CHR ''0'')"

definition bits_of :: "nat \<Rightarrow> nat \<Rightarrow> bool list" where
  "bits_of w n = map (\<lambda>i. bit n (w - 1 - i)) [0..<w]"

lemma bits_of_Suc: "bits_of (Suc w) n = bits_of w (n div 2) @ [odd n]"
proof -
  have "map (\<lambda>i. bit n (w - i)) [0..<w] = map (\<lambda>i. bit (n div 2) (w - 1 - i)) [0..<w]"
    by (intro map_cong) (auto simp: bit_Suc [symmetric] Suc_diff_Suc)
  then show ?thesis by (simp add: bits_of_def bit_0)
qed

lemma length_bits_of [simp]: "length (bits_of w n) = w"
  by (simp add: bits_of_def)

lemma bit_char_inj [simp]: "bit_char a = bit_char b \<longleftrightarrow> a = b"
  by (simp add: bit_char_def)

lemma show_base_2: "show_base 2 n = (if n < 2 then [bit_char (odd n)] else show_base 2 (n div 2) @ [bit_char (odd n)])"
proof -
  have "char_of (48 :: nat) = CHR ''0''" "char_of (49 :: nat) = CHR ''1''"
    by (simp_all add: char_of_def bit_0)
  then have "base_char (n mod 2) = bit_char (odd n)"
    by (cases "even n") (simp_all add: base_char_def bit_char_def odd_iff_mod_2_eq_one)
  then show ?thesis by (auto simp: show_base.simps [of 2 n] mod_less [symmetric])
qed

lemma pad_left_snoc: "pad_left (Suc w) (s @ [c]) = pad_left w s @ [c]"
  by (simp add: pad_left_def)

lemma pad_left_single: "pad_left (Suc w) [c] = replicate w (CHR ''0'') @ [c]"
  by (simp add: pad_left_def)

lemma bits_of_0: "bits_of w 0 = replicate w False"
  by (induction w) (simp_all add: bits_of_Suc replicate_append_same, simp add: bits_of_def)

lemma padded_bits: "0 < w \<Longrightarrow> n < 2 ^ w \<Longrightarrow> pad_left w (show_base 2 n) = map bit_char (bits_of w n)"
proof (induction w arbitrary: n)
  case 0
  then show ?case by simp
next
  case (Suc w)
  show ?case
  proof (cases "n < 2")
    case True
    then have "n div 2 = 0" by simp
    then show ?thesis
      using True by (simp add: show_base_2 [of n] pad_left_single bits_of_Suc bits_of_0 bit_char_def)
  next
    case False
    have "w \<noteq> 0"
    proof
      assume "w = 0"
      with Suc.prems False show False by simp
    qed
    then have "pad_left w (show_base 2 (n div 2)) = map bit_char (bits_of w (n div 2))"
      using Suc.IH [of "n div 2"] Suc.prems by simp
    then show ?thesis
      using False by (simp add: show_base_2 [of n] pad_left_snoc bits_of_Suc)
  qed
qed

lemma bits_of_inj: "m < 2 ^ w \<Longrightarrow> n < 2 ^ w \<Longrightarrow> bits_of w m = bits_of w n \<longleftrightarrow> m = n"
proof (induction w arbitrary: m n)
  case 0
  then show ?case by simp
next
  case (Suc w)
  have "m div 2 = n div 2 \<and> odd m = odd n \<longleftrightarrow> m = n" by (metis bit_eq_rec)
  moreover have "m div 2 < 2 ^ w" "n div 2 < 2 ^ w" using Suc.prems by simp_all
  ultimately show ?case using Suc.IH by (simp add: bits_of_Suc)
qed

lemma take_bits_of: "k \<le> w \<Longrightarrow> take k (bits_of w n) = bits_of k (n div 2 ^ (w - k))"
proof (induction "w - k" arbitrary: w n)
  case 0
  then show ?case by simp
next
  case (Suc d)
  then obtain v where v: "w = Suc v" "k \<le> v" by (cases w) auto
  then have "take k (bits_of w n) = bits_of k (n div 2 div 2 ^ (v - k))"
    using Suc by (simp add: bits_of_Suc)
  also have "n div 2 div 2 ^ (v - k) = n div 2 ^ (w - k)"
    using v by (simp add: div_mult2_eq [symmetric] Suc_diff_le)
  finally show ?case .
qed

lemma bits_of_append: "n < 2 ^ v \<Longrightarrow> bits_of u m @ bits_of v n = bits_of (u + v) (m * 2 ^ v + n)"
proof (induction v arbitrary: n)
  case 0
  then show ?case by (simp add: bits_of_def)
next
  case (Suc v)
  have "(m * 2 ^ Suc v + n) div 2 = m * 2 ^ v + n div 2" by simp
  moreover have "odd (m * 2 ^ Suc v + n) = odd n" by simp
  ultimately show ?case
    using Suc.IH [of "n div 2"] Suc.prems by (simp add: bits_of_Suc)
qed

text \<open>Two words agree under the mask of a prefix when their leading bits do.\<close>

lemma prefix_mask_eq:
  fixes x y :: "32 word"
  shows "x AND push_bit k (- 1) = y AND push_bit k (- 1) \<longleftrightarrow> unat x div 2 ^ k = unat y div 2 ^ k"
proof -
  have bits: "bit (z AND push_bit k (- 1)) n \<longleftrightarrow> k \<le> n \<and> bit z n" for z :: "32 word" and n
    by (auto simp: bit_and_iff push_bit_minus_one_eq_not_mask bit_not_iff bit_mask_iff not_less
        dest: bit_imp_le_length)
  have "x AND push_bit k (- 1) = y AND push_bit k (- 1) \<longleftrightarrow> (\<forall>n. k \<le> n \<longrightarrow> bit x n = bit y n)"
    unfolding bit_eq_iff bits by (blast dest: bit_imp_possible_bit)
  also have "\<dots> \<longleftrightarrow> drop_bit k x = drop_bit k y"
  proof -
    have "drop_bit k x = drop_bit k y \<longleftrightarrow> (\<forall>n. bit x (k + n) = bit y (k + n))"
    proof
      assume "drop_bit k x = drop_bit k y"
      then have "bit (drop_bit k x) n = bit (drop_bit k y) n" for n by simp
      then show "\<forall>n. bit x (k + n) = bit y (k + n)" by (simp add: bit_drop_bit_eq)
    next
      assume "\<forall>n. bit x (k + n) = bit y (k + n)"
      then show "drop_bit k x = drop_bit k y" by (simp add: bit_eq_iff bit_drop_bit_eq)
    qed
    also have "\<dots> \<longleftrightarrow> (\<forall>n. k \<le> n \<longrightarrow> bit x n = bit y n)"
      by (metis le_add_diff_inverse le_add1)
    finally show ?thesis by simp
  qed
  also have "\<dots> \<longleftrightarrow> unat x div 2 ^ k = unat y div 2 ^ k"
    unfolding word_unat_eq_iff unat_drop_bit_eq by (simp only: drop_bit_eq_div)
  finally show ?thesis .
qed

lemma push_or_low:
  fixes a d :: "32 word"
  assumes "unat d < 2 ^ k"
  shows "push_bit k a OR d = push_bit k a + d"
proof -
  have "\<not> bit d n" if "k \<le> n" for n
  proof -
    have "unat d < 2 ^ n" using assms that by (meson le_trans not_less power_increasing one_le_numeral)
    then have "take_bit n (unat d) = unat d" by (simp add: take_bit_nat_eq_self_iff)
    then have "\<not> bit (unat d) n" by (metis bit_take_bit_iff less_irrefl)
    then show ?thesis by (simp add: bit_unsigned_iff)
  qed
  then show ?thesis by (intro disjunctive_add [symmetric]) (auto simp: bit_push_bit_iff)
qed

end
