(* ===== verification/AddressGuards.thy ===== *)
theory AddressGuards
  imports NumberText
begin

text \<open>
  The guards of network addresses: the check of webhook destinations against internal networks
  (\<^verbatim>\<open>src/api/webhooks/ssrf.ts\<close>), the whitelist of callers
  (\<^verbatim>\<open>webhooks/ip-whitelist.ts\<close>) and the check of outbound provider connections
  (\<^verbatim>\<open>src/api/geolocation/network-guard.ts\<close>). They read the same addresses in three ways; the
  properties compare them with each other and with the ranges they mean. Parsing a URL, resolving a
  name and \<open>net.isIPv6\<close> are parameters.
\<close>

subsection \<open>Addresses as text\<close>

type_synonym quad = "nat list"

definition quad_ok :: "quad \<Rightarrow> bool" where
  "quad_ok q \<longleftrightarrow> length q = 4 \<and> (\<forall>n \<in> set q. n < 256)"

definition show_quad :: "quad \<Rightarrow> string" where
  "show_quad q = js_join ''.'' (map show_nat q)"

definition quad_value :: "quad \<Rightarrow> nat" where
  "quad_value q = foldl (\<lambda>v n. 256 * v + n) 0 q"

text \<open>Four runs of digits between dots; \<open>net.isIPv4\<close>, which bounds them and refuses leading zeros.\<close>

definition dotted_digits :: "string \<Rightarrow> bool" where
  "dotted_digits s =
     (let ps = js_split (CHR ''.'') s in length ps = 4 \<and> list_all (\<lambda>p. p \<noteq> [] \<and> list_all decimal_digit p) ps)"

definition isIPv4 :: "string \<Rightarrow> bool" where
  "isIPv4 s \<longleftrightarrow> dotted_digits s \<and>
     list_all (\<lambda>p. digits_value p < 256 \<and> length p \<le> 3 \<and> (length p = 1 \<or> hd p \<noteq> CHR ''0'')) (js_split (CHR ''.'') s)"

text \<open>\<open>s.split('::')\<close>.\<close>

fun split_colons :: "string \<Rightarrow> string list" where
  "split_colons [] = [[]]"
| "split_colons [x] = [[x]]"
| "split_colons (x # y # xs) =
     (if x = CHR '':'' \<and> y = CHR '':'' then [] # split_colons xs
      else (case split_colons (y # xs) of [] \<Rightarrow> [[x]] | p # ps \<Rightarrow> (x # p) # ps))"

text \<open>\<open>p ? p.split(':') : []\<close>\<close>

definition colon_groups :: "string \<Rightarrow> string list" where
  "colon_groups p = (if p = [] then [] else js_split (CHR '':'') p)"

subsection \<open>Webhook destinations\<close>

definition octet_at :: "string list \<Rightarrow> nat \<Rightarrow> 32 word" where
  "octet_at ps i = (if i < length ps then of_nat (digits_value (ps ! i)) else 0)"

definition ip4ToInt :: "string \<Rightarrow> 32 word" where
  "ip4ToInt ip =
     (let parts = js_split (CHR ''.'') ip in
      ((push_bit 24 (octet_at parts 0) OR push_bit 16 (octet_at parts 1)) OR push_bit 8 (octet_at parts 2))
        OR octet_at parts 3)"

definition prefixToMask :: "nat \<Rightarrow> 32 word" where
  "prefixToMask bits = (if bits = 0 then 0 else push_bit (32 - bits) (- 1))"

record ip_range =
  rg_network :: "32 word"
  rg_mask :: "32 word"
  rg_label :: string

definition PRIVATE_IPV4_RANGES :: "ip_range list" where
  "PRIVATE_IPV4_RANGES =
     map (\<lambda>(net, bits, label). \<lparr>rg_network = ip4ToInt net, rg_mask = prefixToMask bits, rg_label = label\<rparr>)
       [(''127.0.0.0'', 8, ''loopback''), (''10.0.0.0'', 8, ''private (10/8)''),
        (''172.16.0.0'', 12, ''private (172.16/12)''), (''192.168.0.0'', 16, ''private (192.168/16)''),
        (''169.254.0.0'', 16, ''link-local''), (''0.0.0.0'', 8, ''unspecified'')]"

definition BLOCKED_HOSTNAMES :: "string list" where
  "BLOCKED_HOSTNAMES = [''localhost'', ''localhost.localdomain'', ''metadata.google.internal'', ''metadata.google'']"

definition BLOCKED_SUFFIXES :: "string list" where
  "BLOCKED_SUFFIXES = [''.internal'', ''.local'', ''.localhost'']"

definition isPrivateIPv4 :: "string \<Rightarrow> string option" where
  "isPrivateIPv4 ip =
     map_option rg_label
       (find (\<lambda>range. (ip4ToInt ip AND rg_mask range) = (rg_network range AND rg_mask range)) PRIVATE_IPV4_RANGES)"

text \<open>The two hexadecimal groups after \<open>::ffff:\<close>.\<close>

definition mapped_hex :: "string \<Rightarrow> (nat \<times> nat) option" where
  "mapped_hex normalized =
     (if js_startsWith normalized ''::ffff:'' then
        (case js_split (CHR '':'') (drop 7 normalized) of
           [h, l] \<Rightarrow>
             if list_all (\<lambda>g. g \<noteq> [] \<and> length g \<le> 4 \<and> list_all (\<lambda>c. hexit c \<and> js_lower_char c = c) g) [h, l]
             then Some (hex_digits_value h, hex_digits_value l) else None
         | _ \<Rightarrow> None)
      else None)"

definition isPrivateIPv6 :: "string \<Rightarrow> string option" where
  "isPrivateIPv6 ip =
     (let normalized = js_toLowerCase ip in
      if normalized = ''::1'' \<or> normalized = ''0:0:0:0:0:0:0:1'' then Some ''loopback (IPv6)''
      else if normalized = ''::'' \<or> normalized = ''0:0:0:0:0:0:0:0'' then Some ''unspecified (IPv6)''
      else if js_startsWith normalized ''fc'' \<or> js_startsWith normalized ''fd'' then Some ''private (IPv6 ULA)''
      else if js_startsWith normalized ''fe8'' \<or> js_startsWith normalized ''fe9'' \<or>
        js_startsWith normalized ''fea'' \<or> js_startsWith normalized ''feb'' then Some ''link-local (IPv6)''
      else if js_startsWith normalized ''::ffff:'' \<and> dotted_digits (drop 7 normalized)
      then isPrivateIPv4 (drop 7 normalized)
      else
        (case mapped_hex normalized of
           Some (high, low) \<Rightarrow>
             isPrivateIPv4 (show_quad [high div 256 mod 256, high mod 256, low div 256 mod 256, low mod 256])
         | None \<Rightarrow> None))"

definition isBlockedHostname :: "string \<Rightarrow> string option" where
  "isBlockedHostname hostname =
     (let lower = js_toLowerCase hostname in
      if List.member BLOCKED_HOSTNAMES lower then Some (''blocked hostname: '' @ lower)
      else map_option (\<lambda>suff. ''blocked hostname suffix: '' @ suff) (find (js_endsWith lower) BLOCKED_SUFFIXES))"

definition bare_host :: "string \<Rightarrow> string" where
  "bare_host hostname =
     (if js_startsWith hostname ''['' \<and> js_endsWith hostname '']'' then tl (butlast hostname) else hostname)"

definition validateSsrf :: "(string \<Rightarrow> string option) \<Rightarrow> (string \<Rightarrow> bool) \<Rightarrow> string \<Rightarrow> string option" where
  "validateSsrf url_hostname isIPv6 url =
     (case url_hostname url of
        None \<Rightarrow> Some ''Invalid URL''
      | Some hostname \<Rightarrow>
          (case isBlockedHostname hostname of
             Some hostBlockReason \<Rightarrow> Some (''SSRF protection: '' @ hostBlockReason)
           | None \<Rightarrow>
               (let bareHost = bare_host hostname;
                    refused = map_option (\<lambda>reason. ''SSRF protection: '' @ reason @ '' address not allowed'') in
                if isIPv4 bareHost then refused (isPrivateIPv4 bareHost)
                else if isIPv6 bareHost then refused (isPrivateIPv6 bareHost)
                else None)))"

definition redactWebhookHeaders :: "(string \<times> string) list option \<Rightarrow> (string \<times> string) list option" where
  "redactWebhookHeaders headers =
     map_option (map (\<lambda>(key, value). (key, if value \<noteq> [] then ''***'' else value))) headers"

subsection \<open>The whitelist of callers\<close>

text \<open>A step of \<open>reduce\<close>: the shift works on the accumulator cut to 32 bits and is signed.\<close>

definition octet_step :: "int \<Rightarrow> string \<Rightarrow> int" where
  "octet_step acc octet =
     (case js_parseInt octet of
        None \<Rightarrow> - 1
      | Some num \<Rightarrow>
          if num < 0 \<or> 255 < num then - 1 else sint (push_bit 8 (word_of_int acc :: 32 word)) + num)"

definition isIPv4InCIDR :: "string \<Rightarrow> string \<Rightarrow> int \<Rightarrow> bool" where
  "isIPv4InCIDR ip network prefixLen =
     (if 32 < prefixLen then False
      else
        (let ipParts = js_split (CHR ''.'') ip; networkParts = js_split (CHR ''.'') network in
         if length ipParts \<noteq> 4 \<or> length networkParts \<noteq> 4 then False
         else
           (let ipNum = foldl octet_step 0 ipParts; networkNum = foldl octet_step 0 networkParts;
                mask = (if prefixLen = 0 then 0 else push_bit (nat (32 - prefixLen)) (- 1)) in
            if ipNum = - 1 \<or> networkNum = - 1 then False
            else ((word_of_int ipNum :: 32 word) AND mask) = (word_of_int networkNum AND mask))))"

definition expandIPv6 :: "string \<Rightarrow> string option" where
  "expandIPv6 ip =
     (if ip = ''::1'' then Some ''0000:0000:0000:0000:0000:0000:0000:0001''
      else if js_includes ip ''::'' then
        (case split_colons ip of
           [b, a] \<Rightarrow>
             (let before = colon_groups b; after = colon_groups a in
              if 8 < length before + length after then None
              else Some (js_join '':'' (map (pad_left 4)
                (before @ replicate (8 - length before - length after) ''0000'' @ after))))
         | _ \<Rightarrow> None)
      else
        (let parts = js_split (CHR '':'') ip in
         if length parts \<noteq> 8 then None else Some (js_join '':'' (map (pad_left 4) parts))))"

definition show_binary :: "int option \<Rightarrow> string" where
  "show_binary v =
     (case v of
        None \<Rightarrow> ''NaN''
      | Some i \<Rightarrow> if i < 0 then CHR ''-'' # show_base 2 (nat (- i)) else show_base 2 (nat i))"

definition ipv6ToBinary :: "string \<Rightarrow> string" where
  "ipv6ToBinary ip =
     concat (map (\<lambda>part. pad_left 16 (show_binary (js_parseInt16 part))) (js_split (CHR '':'') ip))"

definition isIPv6InCIDR :: "string \<Rightarrow> string \<Rightarrow> int \<Rightarrow> bool" where
  "isIPv6InCIDR ip network prefixLen =
     (if 128 < prefixLen then False
      else
        (case (expandIPv6 ip, expandIPv6 network) of
           (Some expandedIP, Some expandedNetwork) \<Rightarrow>
             take (nat prefixLen) (ipv6ToBinary expandedIP) = take (nat prefixLen) (ipv6ToBinary expandedNetwork)
         | _ \<Rightarrow> False))"

definition isIPInCIDR :: "string \<Rightarrow> string \<Rightarrow> bool" where
  "isIPInCIDR ip cidr =
     (if ip = [] \<or> cidr = [] then False
      else
        (case js_split (CHR ''/'') cidr of
           [network, prefixStr] \<Rightarrow>
             (case js_parseInt prefixStr of
                None \<Rightarrow> False
              | Some prefixLen \<Rightarrow>
                  if prefixLen < 0 then False
                  else if List.member ip (CHR '':'') \<or> List.member network (CHR '':'')
                  then isIPv6InCIDR ip network prefixLen
                  else isIPv4InCIDR ip network prefixLen)
         | _ \<Rightarrow> False))"

definition isIPInWhitelist :: "string \<Rightarrow> string list \<Rightarrow> bool" where
  "isIPInWhitelist ip whitelist = list_ex (isIPInCIDR ip) whitelist"

definition parseIPWhitelist :: "string option \<Rightarrow> string list" where
  "parseIPWhitelist value =
     (case value of None \<Rightarrow> [] | Some v \<Rightarrow> filter (\<lambda>c. c \<noteq> []) (map js_trim (js_split (CHR '','') v)))"

text \<open>Whether the middleware lets a request on; otherwise it answers 403.\<close>

definition ip_whitelist_admits :: "string option \<Rightarrow> string option \<Rightarrow> string \<Rightarrow> bool" where
  "ip_whitelist_admits disabledEnv whitelistValue clientIP =
     (let whitelist = parseIPWhitelist whitelistValue in
      disabledEnv = Some ''true'' \<or> whitelist = [] \<or> isIPInWhitelist clientIP whitelist)"


subsection \<open>Outbound provider connections\<close>

definition ALLOWED_SCHEMES :: "string list" where
  "ALLOWED_SCHEMES = [''https:'', ''wss:'']"

definition LOCAL_HOSTNAMES :: "string list" where
  "LOCAL_HOSTNAMES = [''localhost'', ''localhost.localdomain'']"

definition LOCAL_HOSTNAME_SUFFIXES :: "string list" where
  "LOCAL_HOSTNAME_SUFFIXES = [''.local'', ''.localhost'', ''.internal'']"

definition isLocalHostname :: "string \<Rightarrow> bool" where
  "isLocalHostname host =
     (let lower = js_toLowerCase host in
      List.member LOCAL_HOSTNAMES lower \<or> list_ex (js_endsWith lower) LOCAL_HOSTNAME_SUFFIXES)"

definition isPrivateIpv4 :: "nat \<Rightarrow> nat \<Rightarrow> bool" where
  "isPrivateIpv4 a b =
     (a = 127 \<or> a = 10 \<or> (a = 172 \<and> 16 \<le> b \<and> b \<le> 31) \<or> (a = 192 \<and> b = 168) \<or> (a = 169 \<and> b = 254) \<or> a = 0)"

text \<open>\<open>/^\d{1,3}(\.\d{1,3}){3}$/\<close>\<close>

definition short_dotted :: "string \<Rightarrow> bool" where
  "short_dotted s \<longleftrightarrow> dotted_digits s \<and> list_all (\<lambda>p. length p \<le> 3) (js_split (CHR ''.'') s)"

text \<open>Without a zone id, \<open>/%.*$/\<close>, and the brackets around it.\<close>

definition strip_zone :: "string \<Rightarrow> string" where
  "strip_zone s =
     (let last_line = rev (takeWhile (\<lambda>c. \<not> js_line_terminator c) (rev s)) in
      take (length s - length last_line) s @ takeWhile (\<lambda>c. c \<noteq> CHR ''%'') last_line)"

definition strip_brackets :: "string \<Rightarrow> string" where
  "strip_brackets s =
     (let t = (if js_startsWith s ''['' then tl s else s) in if js_endsWith t '']'' then butlast t else t)"

definition parts_number :: "string \<Rightarrow> nat \<Rightarrow> nat" where
  "parts_number s i = digits_value (js_split (CHR ''.'') s ! i)"

text \<open>The eight groups, a group that is not hexadecimal being \<open>NaN\<close>.\<close>

definition expand_mapped :: "string \<Rightarrow> string" where
  "expand_mapped addr =
     (let v4 = rev (takeWhile (\<lambda>c. c \<noteq> CHR '':'') (rev addr));
          before = take (length addr - length v4 - 1) addr in
      if List.member addr (CHR '':'') \<and> short_dotted v4 \<and> \<not> list_ex js_line_terminator before
      then before @ '':'' @ show_base 16 (parts_number v4 0 * 256 + parts_number v4 1) @ '':'' @
        show_base 16 (parts_number v4 2 * 256 + parts_number v4 3)
      else addr)"

definition expandIpv6 :: "string \<Rightarrow> int option list option" where
  "expandIpv6 addr =
     (case split_colons (expand_mapped addr) of
        [l] \<Rightarrow>
          (let left = map js_parseInt16 (colon_groups l) in if length left \<noteq> 8 then None else Some left)
      | [l, r] \<Rightarrow>
          (let left = map js_parseInt16 (colon_groups l); right = map js_parseInt16 (colon_groups r) in
           if 8 < length left + length right then None
           else Some (left @ replicate (8 - length left - length right) (Some 0) @ right))
      | _ \<Rightarrow> None)"

definition group_byte :: "int option \<Rightarrow> nat \<Rightarrow> nat" where
  "group_byte g k = (case g of None \<Rightarrow> 0 | Some v \<Rightarrow> unat (drop_bit k (word_of_int v :: 32 word) AND 255))"

definition in_range :: "int \<Rightarrow> int \<Rightarrow> int option \<Rightarrow> bool" where
  "in_range lo hi g = (case g of None \<Rightarrow> False | Some v \<Rightarrow> lo \<le> v \<and> v \<le> hi)"

definition isPrivateIp :: "string \<Rightarrow> bool" where
  "isPrivateIp ip =
     (let cleaned = strip_brackets (strip_zone ip) in
      if short_dotted cleaned then isPrivateIpv4 (parts_number cleaned 0) (parts_number cleaned 1)
      else
        (let lower = js_toLowerCase cleaned in
         if lower = ''::1'' \<or> lower = ''::'' then True
         else
           (case expandIpv6 lower of
              None \<Rightarrow> False
            | Some expanded \<Rightarrow>
                if take 6 expanded = replicate 5 (Some 0) @ [Some 65535]
                then isPrivateIpv4 (group_byte (expanded ! 6) 8) (group_byte (expanded ! 6) 0)
                else in_range 64512 65023 (expanded ! 0) \<or> in_range 65152 65215 (expanded ! 0))))"

datatype OutboundError =
    InvalidUrl string
  | SchemeNotAllowed string
  | NoHostname
  | LocalHost string
  | PrivateHost string
  | InvalidPort rat
  | EmptyHost
  | PlainMqttPort
  | ResolvesPrivate string string
  | Unresolved string

text \<open>A parsed URL is its protocol and hostname.\<close>

definition validateOutboundUrl ::
  "(string \<Rightarrow> (string \<times> string) option) \<Rightarrow> string \<Rightarrow> OutboundError + string \<times> string" where
  "validateOutboundUrl parse url =
     (case parse url of
        None \<Rightarrow> Inl (InvalidUrl url)
      | Some (protocol, host) \<Rightarrow>
          if \<not> List.member ALLOWED_SCHEMES protocol
          then Inl (SchemeNotAllowed (takeWhile (\<lambda>c. c \<noteq> CHR '':'') protocol @ tl (dropWhile (\<lambda>c. c \<noteq> CHR '':'') protocol)))
          else if host = [] then Inl NoHostname
          else if isLocalHostname host then Inl (LocalHost host)
          else if isPrivateIp host then Inl (PrivateHost host)
          else Inr (protocol, host))"

definition validateOutboundHost :: "string \<Rightarrow> rat \<Rightarrow> OutboundError + unit" where
  "validateOutboundHost host port =
     (if of_int \<lfloor>port\<rfloor> \<noteq> port \<or> port < 1 \<or> 65535 < port then Inl (InvalidPort port)
      else if host = [] then Inl EmptyHost
      else if port = 1883 then Inl PlainMqttPort
      else if isLocalHostname host then Inl (LocalHost host)
      else if isPrivateIp host then Inl (PrivateHost host)
      else Inr ())"

definition resolveHostToPrivateCheck :: "(string \<Rightarrow> string option) \<Rightarrow> string \<Rightarrow> OutboundError option" where
  "resolveHostToPrivateCheck lookup host =
     (if short_dotted host \<or> List.member host (CHR '':'') then None
      else
        (case lookup host of
           None \<Rightarrow> Some (Unresolved host)
         | Some address \<Rightarrow> if isPrivateIp address then Some (ResolvesPrivate host address) else None))"

definition resolveAndValidateOutboundUrl ::
  "(string \<Rightarrow> (string \<times> string) option) \<Rightarrow> (string \<Rightarrow> string option) \<Rightarrow> string \<Rightarrow>
     OutboundError + string \<times> string" where
  "resolveAndValidateOutboundUrl parse lookup url =
     (case validateOutboundUrl parse url of
        Inl e \<Rightarrow> Inl e
      | Inr parsed \<Rightarrow>
          (case resolveHostToPrivateCheck lookup (snd parsed) of Some dnsError \<Rightarrow> Inl dnsError | None \<Rightarrow> Inr parsed))"

definition resolveAndValidateOutboundHost ::
  "(string \<Rightarrow> string option) \<Rightarrow> string \<Rightarrow> rat \<Rightarrow> OutboundError + unit" where
  "resolveAndValidateOutboundHost lookup host port =
     (case validateOutboundHost host port of
        Inl e \<Rightarrow> Inl e
      | Inr r \<Rightarrow>
          (case resolveHostToPrivateCheck lookup host of Some dnsError \<Rightarrow> Inl dnsError | None \<Rightarrow> Inr r))"


subsection \<open>Reading back a quad\<close>

lemma split_show_quad [simp]: "q \<noteq> [] \<Longrightarrow> js_split (CHR ''.'') (show_quad q) = map show_nat q"
proof -
  assume q: "q \<noteq> []"
  have "CHR ''.'' \<notin> set (show_nat n)" for n
    using show_nat_digits [of n] decimal_digit_plain by (auto simp: list_all_iff)
  with q show ?thesis unfolding show_quad_def by (intro js_split_join) auto
qed

lemma quadE:
  assumes "quad_ok q"
  obtains a b c d where "q = [a, b, c, d]" "a < 256" "b < 256" "c < 256" "d < 256"
proof -
  have "length q = 4" using assms by (simp add: quad_ok_def)
  then obtain a b c d where "q = [a, b, c, d]"
    by (auto simp: numeral_eq_Suc length_Suc_conv)
  then show ?thesis using assms that by (simp add: quad_ok_def)
qed

lemma unat_quad:
  assumes "v < 2 ^ 32" shows "unat (of_nat v :: 32 word) = v"
  using assms by (simp add: unat_of_nat take_bit_nat_eq_self_iff)

lemma ip4ToInt_quad:
  assumes "a < 256" and "b < 256" and "c < 256" and "d < 256"
  shows "unat (ip4ToInt (show_quad [a, b, c, d])) = ((a * 256 + b) * 256 + c) * 256 + d"
proof -
  have byte: "unat (of_nat n :: 32 word) < 2 ^ 8" if "n < 256" for n
    using that by (simp add: unat_quad)
  have up: "push_bit k (push_bit m w) = push_bit (k + m) w" for k m and w :: "32 word"
    by (rule push_bit_push_bit)
  have dist: "push_bit k (v OR w) = push_bit k v OR push_bit k w" for k and v w :: "32 word"
    by (rule push_bit_or)
  have "ip4ToInt (show_quad [a, b, c, d]) =
      push_bit 8 (push_bit 8 (push_bit 8 (of_nat a) OR of_nat b) OR of_nat c) OR of_nat d"
    by (simp add: ip4ToInt_def octet_at_def dist up Let_def del: push_bit_of_nat)
  also have "\<dots> = push_bit 8 (push_bit 8 (push_bit 8 (of_nat a) + of_nat b) + of_nat c) + of_nat d"
    by (simp only: push_or_low [OF byte [OF assms(2)]] push_or_low [OF byte [OF assms(3)]] push_or_low [OF byte [OF assms(4)]])
  also have "\<dots> = of_nat (((a * 256 + b) * 256 + c) * 256 + d)"
    by (simp add: push_bit_eq_mult)
  finally show ?thesis
    using assms by (simp only:) (rule unat_quad, simp)
qed


lemma show_nat_small: "n < 10 \<Longrightarrow> show_nat n = [digit_char n]"
  by (simp add: show_nat.simps [of n])

lemma show_nat_length: "n < 256 \<Longrightarrow> length (show_nat n) \<le> 3"
  by (simp add: show_nat.simps [of n] show_nat.simps [of "n div 10"] show_nat.simps [of "n div 10 div 10"])

lemma short_dotted_quad: "quad_ok q \<Longrightarrow> short_dotted (show_quad q)"
proof (erule quadE)
  fix a b c d :: nat
  assume q: "q = [a, b, c, d]" "a < 256" "b < 256" "c < 256" "d < 256"
  show "short_dotted (show_quad q)"
    unfolding short_dotted_def dotted_digits_def Let_def
    by (simp add: q show_nat_digits show_nat_length)
qed

lemma dotted_quad: "quad_ok q \<Longrightarrow> dotted_digits (show_quad q)"
  using short_dotted_quad by (simp add: short_dotted_def)

subsection \<open>The ranges\<close>

lemma range_match:
  assumes "k \<le> 32" and "0 < k"
  shows "(x AND prefixToMask k) = (y AND prefixToMask k) \<longleftrightarrow> unat x div 2 ^ (32 - k) = unat y div 2 ^ (32 - k)"
  using assms prefix_mask_eq [of x "32 - k" y] by (simp only: prefixToMask_def) simp

lemma range_networks:
  "''127.0.0.0'' = show_quad [127, 0, 0, 0]" "''10.0.0.0'' = show_quad [10, 0, 0, 0]"
  "''172.16.0.0'' = show_quad [172, 16, 0, 0]" "''192.168.0.0'' = show_quad [192, 168, 0, 0]"
  "''169.254.0.0'' = show_quad [169, 254, 0, 0]" "''0.0.0.0'' = show_quad [0, 0, 0, 0]"
  by code_simp+

lemma ranges_quads:
  "PRIVATE_IPV4_RANGES =
     map (\<lambda>(net, bits, label). \<lparr>rg_network = ip4ToInt (show_quad net), rg_mask = prefixToMask bits, rg_label = label\<rparr>)
       [([127, 0, 0, 0], 8, ''loopback''), ([10, 0, 0, 0], 8, ''private (10/8)''),
        ([172, 16, 0, 0], 12, ''private (172.16/12)''), ([192, 168, 0, 0], 16, ''private (192.168/16)''),
        ([169, 254, 0, 0], 16, ''link-local''), ([0, 0, 0, 0], 8, ''unspecified'')]"
  by (simp add: PRIVATE_IPV4_RANGES_def range_networks [symmetric])

lemma quad_div:
  fixes a b c d :: nat
  assumes "b < 256" and "c < 256" and "d < 256"
  shows "(((a * 256 + b) * 256 + c) * 256 + d) div 2 ^ 24 = a"
    and "(((a * 256 + b) * 256 + c) * 256 + d) div 2 ^ 16 = a * 256 + b"
    and "(((a * 256 + b) * 256 + c) * 256 + d) div 2 ^ 20 = a * 16 + b div 16"
proof -
  have low: "(x * 2 ^ k + y) div 2 ^ k = x" if "y < 2 ^ k" for x y k :: nat using that by simp
  have "((a * 256 + b) * 256 + c) * 256 + d = (a * 256 + b) * 2 ^ 16 + (c * 256 + d)" by simp
  then show h: "(((a * 256 + b) * 256 + c) * 256 + d) div 2 ^ 16 = a * 256 + b"
    using low [of "c * 256 + d" 16 "a * 256 + b"] assms by simp
  have split: "v div 2 ^ (16 + k) = v div 2 ^ 16 div 2 ^ k" for v k :: nat
    by (simp only: power_add div_mult2_eq)
  have "(a * 256 + b) div 2 ^ 8 = a" using assms(1) by simp
  then show "(((a * 256 + b) * 256 + c) * 256 + d) div 2 ^ 24 = a"
    using split [of _ 8] h by simp
  have "(a * 256 + b) div 2 ^ 4 = a * 16 + b div 16" by simp
  then show "(((a * 256 + b) * 256 + c) * 256 + d) div 2 ^ 20 = a * 16 + b div 16"
    using split [of _ 4] h by simp
qed

lemma two_digits:
  fixes a b m n g :: nat
  assumes "b < g" and "n < g"
  shows "a * g + b = m * g + n \<longleftrightarrow> a = m \<and> b = n"
proof -
  have "(a * g + b) div g = a" "(a * g + b) mod g = b" "(m * g + n) div g = m" "(m * g + n) mod g = n"
    using assms by simp_all
  then show ?thesis by metis
qed

lemma isPrivateIPv4_quad:
  assumes "quad_ok q"
  shows "isPrivateIPv4 (show_quad q) \<noteq> None \<longleftrightarrow> isPrivateIpv4 (q ! 0) (q ! 1)"
proof -
  obtain a b c d where q: "q = [a, b, c, d]" and lt: "a < 256" "b < 256" "c < 256" "d < 256"
    using assms by (rule quadE)
  let ?x = "ip4ToInt (show_quad [a, b, c, d])"
  note x = ip4ToInt_quad [OF lt]
  have net: "unat (ip4ToInt (show_quad [m, n, 0, 0])) = ((m * 256 + n) * 256 + 0) * 256 + 0"
    if "m < 256" "n < 256" for m n using ip4ToInt_quad [of m n 0 0] that by simp
  have m8: "(v AND prefixToMask 8) = (w AND prefixToMask 8) \<longleftrightarrow> unat v div 2 ^ 24 = unat w div 2 ^ 24"
    and m12: "(v AND prefixToMask 12) = (w AND prefixToMask 12) \<longleftrightarrow> unat v div 2 ^ 20 = unat w div 2 ^ 20"
    and m16: "(v AND prefixToMask 16) = (w AND prefixToMask 16) \<longleftrightarrow> unat v div 2 ^ 16 = unat w div 2 ^ 16" for v w
    using range_match [of 8 v w] range_match [of 12 v w] range_match [of 16 v w] by simp_all
  have zero: "(0 :: nat) < 256" by simp
  have r8: "(?x AND prefixToMask 8) = (ip4ToInt (show_quad [m, 0, 0, 0]) AND prefixToMask 8) \<longleftrightarrow> a = m"
    if "m < 256" for m
    unfolding m8 x net [OF that zero] quad_div(1) [OF lt(2-4)] quad_div(1) [OF zero zero zero] ..
  have r16: "(?x AND prefixToMask 16) = (ip4ToInt (show_quad [m, n, 0, 0]) AND prefixToMask 16) \<longleftrightarrow> a = m \<and> b = n"
    if "m < 256" "n < 256" for m n
    unfolding m16 x net [OF that] quad_div(2) [OF lt(2-4)] quad_div(2) [OF that(2) zero zero]
    by (rule two_digits [OF lt(2) that(2)])
  have r12: "(?x AND prefixToMask 12) = (ip4ToInt (show_quad [172, 16, 0, 0]) AND prefixToMask 12) \<longleftrightarrow>
      a = 172 \<and> 16 \<le> b \<and> b \<le> 31"
  proof -
    have k: "(172 :: nat) < 256" "(16 :: nat) < 256" by simp_all
    have "b div 16 < 16" using lt(2) by simp
    moreover have "b div 16 = 16 div 16 \<longleftrightarrow> 16 \<le> b \<and> b \<le> 31"
    proof -
      have "b = 16 * (b div 16) + b mod 16" "b mod 16 < 16" by simp_all
      moreover have "16 div 16 = (1 :: nat)" by simp
      ultimately show ?thesis by auto
    qed
    ultimately have "a * 16 + b div 16 = 172 * 16 + 16 div 16 \<longleftrightarrow> a = 172 \<and> 16 \<le> b \<and> b \<le> 31"
      using two_digits [of "b div 16" 16 "16 div 16" a 172] by simp
    then show ?thesis unfolding m12 x net [OF k] quad_div(3) [OF lt(2-4)] quad_div(3) [OF k(2) zero zero] .
  qed
  have "isPrivateIPv4 (show_quad q) \<noteq> None \<longleftrightarrow> a = 127 \<or> a = 10 \<or> (a = 172 \<and> 16 \<le> b \<and> b \<le> 31) \<or>
      (a = 192 \<and> b = 168) \<or> (a = 169 \<and> b = 254) \<or> a = 0"
    unfolding isPrivateIPv4_def ranges_quads q
    by (simp add: r8 r16 r12 del: One_nat_def)
  then show ?thesis by (simp add: q isPrivateIpv4_def)
qed


text \<open>None of the characters that the clean-up of \<open>isPrivateIp\<close> looks for.\<close>

definition plain_char :: "char \<Rightarrow> bool" where
  "plain_char c \<longleftrightarrow> c \<noteq> CHR ''%'' \<and> c \<noteq> CHR ''['' \<and> c \<noteq> CHR '']'' \<and> \<not> js_line_terminator c \<and> js_lower_char c = c"

lemma plain_clean:
  assumes "list_all plain_char s"
  shows "strip_brackets (strip_zone s) = s" and "js_toLowerCase s = s"
proof -
  have nl: "takeWhile (\<lambda>c. \<not> js_line_terminator c) (rev s) = rev s"
    using assms by (auto simp: list_all_iff plain_char_def)
  have pc: "takeWhile (\<lambda>c. c \<noteq> CHR ''%'') s = s"
    using assms by (auto simp: list_all_iff plain_char_def)
  have "\<not> js_startsWith s ''[''" "\<not> js_endsWith s '']''"
    using assms by (auto simp: js_startsWith_prefix js_endsWith_suffix prefix_def suffix_def plain_char_def)
  then show "strip_brackets (strip_zone s) = s"
    by (simp add: strip_brackets_def strip_zone_def nl pc Let_def)
  show "js_toLowerCase s = s"
    using assms by (simp add: js_toLowerCase_def list_all_iff plain_char_def map_idI)
qed

lemma plain_digit: "decimal_digit c \<Longrightarrow> plain_char c"
  by (auto simp: decimal_digit_def plain_char_def js_line_terminator_def js_lower_char_def Let_def)

lemma plain_quad: "quad_ok q \<Longrightarrow> list_all plain_char (show_quad q)"
proof (erule quadE)
  fix a b c d :: nat
  assume q: "q = [a, b, c, d]"
  have "list_all plain_char (show_nat n)" for n
    using show_nat_digits [of n] plain_digit by (auto simp: list_all_iff)
  moreover have "plain_char (CHR ''.'')" by (simp add: plain_char_def js_line_terminator_def js_lower_char_def)
  ultimately show "list_all plain_char (show_quad q)" by (simp add: q show_quad_def)
qed

lemma parts_number_quad [simp]: "q \<noteq> [] \<Longrightarrow> i < length q \<Longrightarrow> parts_number (show_quad q) i = q ! i"
  by (simp add: parts_number_def)

lemma isPrivateIp_quad:
  assumes "quad_ok q"
  shows "isPrivateIp (show_quad q) \<longleftrightarrow> isPrivateIpv4 (q ! 0) (q ! 1)"
proof -
  have "q \<noteq> []" "0 < length q" "1 < length q" using assms by (auto simp: quad_ok_def)
  then show ?thesis
    by (simp add: isPrivateIp_def plain_clean [OF plain_quad [OF assms]] short_dotted_quad [OF assms] Let_def)
qed

subsection \<open>The same addresses inside IPv6\<close>

lemma set_join: "set (js_join sep xs) \<subseteq> set sep \<union> \<Union> (set ` set xs)"
  by (induction sep xs rule: js_join.induct) auto

lemma quad_no_colon: "CHR '':'' \<notin> set (show_quad q)"
proof -
  have "CHR '':'' \<notin> set (show_nat n)" for n
    using show_nat_digits [of n] decimal_digit_plain by (auto simp: list_all_iff)
  then show ?thesis unfolding show_quad_def using set_join [of "''.''"] by fastforce
qed

lemma hex_no_colon [simp]: "CHR '':'' \<notin> set (show_base 16 n)"
  using show_hex_digits [of n] hexit_plain by (auto simp: list_all_iff)

lemma isPrivateIPv6_mapped:
  assumes "quad_ok q"
  shows "isPrivateIPv6 (''::ffff:'' @ show_quad q) = isPrivateIPv4 (show_quad q)"
proof -
  have plain: "js_toLowerCase (''::ffff:'' @ show_quad q) = ''::ffff:'' @ show_quad q"
    using plain_clean(2) [OF plain_quad [OF assms]] by (simp add: js_toLowerCase_def js_lower_char_def)
  show ?thesis
    unfolding isPrivateIPv6_def plain Let_def by (simp add: js_startsWith_def dotted_quad [OF assms])
qed


subsection \<open>Groups between colons\<close>

fun no_double :: "string \<Rightarrow> bool" where
  "no_double (x # y # xs) = (\<not> (x = CHR '':'' \<and> y = CHR '':'') \<and> no_double (y # xs))"
| "no_double _ = True"

lemma split_colons_single: "no_double s \<Longrightarrow> split_colons s = [s]"
  by (induction s rule: split_colons.induct) auto

lemma split_colons_double:
  "no_double x \<Longrightarrow> x = [] \<or> last x \<noteq> CHR '':'' \<Longrightarrow> split_colons (x @ ''::'' @ y) = x # split_colons y"
proof (induction x rule: split_colons.induct)
  case (2 c)
  then show ?case by (auto split: list.splits)
next
  case (3 c d xs)
  then show ?case by (auto split: list.splits)
qed simp

definition group_text :: "string \<Rightarrow> bool" where
  "group_text g \<longleftrightarrow> g \<noteq> [] \<and> CHR '':'' \<notin> set g"

lemma no_double_append:
  "no_double s \<Longrightarrow> CHR '':'' \<notin> set g \<Longrightarrow> no_double (g @ s)"
proof (induction g)
  case (Cons c g)
  then show ?case by (cases "g @ s") auto
qed simp

lemma no_double_groups:
  "\<forall>g \<in> set gs. group_text g \<Longrightarrow> no_double (js_join '':'' gs)"
proof (induction "'':''" gs rule: js_join.induct)
  case (2 g)
  then show ?case using no_double_append [of "[]" g] by (simp add: group_text_def)
next
  case (3 g h gs)
  obtain c cs where "js_join '':'' (h # gs) = c # cs" "c \<noteq> CHR '':''"
    using 3 by (cases h; cases gs) (auto simp: group_text_def)
  then have "no_double ('':'' @ js_join '':'' (h # gs))" using 3 by simp
  then show ?case using 3 no_double_append [of "'':'' @ js_join '':'' (h # gs)" g] by (simp add: group_text_def)
qed simp

lemma last_groups:
  "\<forall>g \<in> set gs. group_text g \<Longrightarrow> gs \<noteq> [] \<Longrightarrow> js_join '':'' gs \<noteq> [] \<and> last (js_join '':'' gs) \<noteq> CHR '':''"
proof (induction "'':''" gs rule: js_join.induct)
  case (2 g)
  then have "g \<noteq> []" "CHR '':'' \<notin> set g" by (simp_all add: group_text_def)
  then show ?case by (metis js_join.simps(2) last_in_set)
next
  case (3 g h gs)
  then show ?case by auto
qed simp

lemma colon_groups_join:
  assumes "\<forall>g \<in> set gs. group_text g"
  shows "colon_groups (js_join '':'' gs) = gs"
proof (cases "gs = []")
  case False
  then have "js_join '':'' gs \<noteq> []" using last_groups assms by blast
  then show ?thesis
    using False assms by (simp add: colon_groups_def js_split_join group_text_def)
qed (simp add: colon_groups_def)

lemma split_compressed:
  assumes "\<forall>g \<in> set (ls @ rs). group_text g"
  shows "split_colons (js_join '':'' ls @ ''::'' @ js_join '':'' rs) = [js_join '':'' ls, js_join '':'' rs]"
proof -
  have "\<forall>g \<in> set ls. group_text g" "\<forall>g \<in> set rs. group_text g" using assms by auto
  then show ?thesis
    using split_colons_double [OF no_double_groups, of ls "js_join '':'' rs"] last_groups [of ls]
      split_colons_single [OF no_double_groups, of rs] by (cases "ls = []") auto
qed

lemma group_text_hex [simp]: "group_text (show_base 16 n)"
  by (simp add: group_text_def)

lemma show_hex_length: "n < 16 ^ k \<Longrightarrow> 0 < k \<Longrightarrow> length (show_base 16 n) \<le> k"
proof (induction k arbitrary: n)
  case 0
  then show ?case by simp
next
  case (Suc k)
  show ?case
  proof (cases "n < 16")
    case True
    then show ?thesis by (simp add: show_base.simps [of 16 n])
  next
    case False
    then have "0 < k" using Suc.prems by (cases k) auto
    then have "length (show_base 16 (n div 16)) \<le> k" using Suc.IH [of "n div 16"] Suc.prems by simp
    then show ?thesis using False by (simp add: show_base.simps [of 16 n])
  qed
qed

lemma base_char_plain: "d < 16 \<Longrightarrow> plain_char (base_char d) \<and> base_char d \<noteq> CHR ''.''"
  by (auto simp: base_char_def plain_char_def js_line_terminator_def js_lower_char_def Let_def
      dest!: arg_cong [where f = "of_char :: char \<Rightarrow> nat"])

lemma show_hex_plain: "list_all (\<lambda>c. plain_char c \<and> c \<noteq> CHR ''.'') (show_base 16 n)"
proof (induction "16 :: nat" n rule: show_base.induct)
  case (1 n)
  then show ?case by (cases "n < 16") (simp_all add: show_base.simps [of 16 n] base_char_plain)
qed


lemma plain_mapped: "plain_char (CHR '':'') \<and> plain_char (CHR ''f'')"
  by (simp add: plain_char_def js_line_terminator_def js_lower_char_def)

lemma hex_mapped_plain: "list_all plain_char (''::ffff:'' @ show_base 16 h @ '':'' @ show_base 16 l)"
  using show_hex_plain [of h] show_hex_plain [of l] plain_mapped by (auto simp: list_all_iff)

lemma quad_mapped_plain: "quad_ok q \<Longrightarrow> list_all plain_char (''::ffff:'' @ show_quad q)"
  using plain_quad plain_mapped by simp

lemma split_hex_pair:
  "js_split (CHR '':'') (show_base 16 h @ '':'' @ show_base 16 l) = [show_base 16 h, show_base 16 l]"
  by (simp add: js_split_append_sep js_split_singleton)

lemma no_dots: "CHR ''.'' \<notin> set s \<Longrightarrow> \<not> dotted_digits s"
  by (simp add: dotted_digits_def js_split_singleton)

lemma hex_lower: "list_all (\<lambda>c. hexit c \<and> js_lower_char c = c) (show_base 16 n)"
  using show_hex_plain [of n] show_hex_digits [of n] by (auto simp: list_all_iff plain_char_def)

lemma isPrivateIPv6_hex:
  assumes "h < 65536" and "l < 65536"
  shows "isPrivateIPv6 (''::ffff:'' @ show_base 16 h @ '':'' @ show_base 16 l) =
    isPrivateIPv4 (show_quad [h div 256, h mod 256, l div 256, l mod 256])"
proof -
  let ?t = "show_base 16 h @ '':'' @ show_base 16 l"
  have low: "js_toLowerCase (''::ffff:'' @ ?t) = ''::ffff:'' @ ?t"
    by (rule plain_clean(2) [OF hex_mapped_plain])
  have "CHR ''.'' \<notin> set ?t"
    using show_hex_plain [of h] show_hex_plain [of l] by (auto simp: list_all_iff)
  then have nodots: "\<not> dotted_digits ?t" by (rule no_dots)
  have "length (show_base 16 h) \<le> 4" "length (show_base 16 l) \<le> 4"
    using show_hex_length [of h 4] show_hex_length [of l 4] assms by simp_all
  then have "mapped_hex (''::ffff:'' @ ?t) = Some (h, l)"
    using hex_lower split_hex_pair [of h l] by (simp add: mapped_hex_def js_startsWith_def)
  then show ?thesis
    using nodots assms unfolding isPrivateIPv6_def low Let_def by (simp add: js_startsWith_def)
qed

subsection \<open>The network guard on mapped addresses\<close>

lemma not_short_dotted:
  "s = x @ ('':'' @ y) \<Longrightarrow> CHR ''.'' \<notin> set x \<Longrightarrow> \<not> short_dotted s"
proof
  assume s: "s = x @ ('':'' @ y)" and x: "CHR ''.'' \<notin> set x" and sd: "short_dotted s"
  have "\<forall>p \<in> set (js_split (CHR ''.'') s). CHR '':'' \<notin> set p"
    using sd decimal_digit_plain by (auto simp: short_dotted_def dotted_digits_def Let_def list_all_iff)
  moreover have "set s \<subseteq> {CHR ''.''} \<union> \<Union> (set ` set (js_split (CHR ''.'') s))"
    using set_join [of "''.''" "js_split (CHR ''.'') s"] by (simp add: js_join_split)
  ultimately show False using s by auto
qed

lemma group_byte_word:
  assumes "v < 65536"
  shows "group_byte (Some (int v)) 8 = v div 256" and "group_byte (Some (int v)) 0 = v mod 256"
proof -
  have "x AND 255 = take_bit 8 x" for x :: "32 word"
    by (simp add: take_bit_eq_mask mask_numeral)
  then have bytes: "unat (drop_bit k (of_nat v :: 32 word) AND 255) = take_bit 8 (drop_bit k (unat (of_nat v :: 32 word)))" for k
    by (simp only: unsigned_take_bit_eq unat_drop_bit_eq)
  have "unat (drop_bit k (of_nat v :: 32 word) AND 255) = v div 2 ^ k mod 256" for k
  proof -
    have "unat (of_nat v :: 32 word) = v" using assms by (intro unat_quad) simp
    then show ?thesis unfolding bytes by (simp add: take_bit_eq_mod drop_bit_eq_div)
  qed
  from this [of 8] this [of 0] show "group_byte (Some (int v)) 8 = v div 256" "group_byte (Some (int v)) 0 = v mod 256"
    using assms by (simp_all add: group_byte_def)
qed

lemma expand_hex_mapped:
  "expandIpv6 (''::ffff:'' @ show_base 16 h @ '':'' @ show_base 16 l) =
     Some (replicate 5 (Some 0) @ [Some 65535, Some (int h), Some (int l)])"
proof -
  let ?t = "''::ffff:'' @ show_base 16 h @ '':'' @ show_base 16 l"
  have "takeWhile (\<lambda>c. c \<noteq> CHR '':'') (rev ?t) = rev (show_base 16 l)"
  proof -
    have "rev ?t = rev (show_base 16 l) @ CHR '':'' # (rev (show_base 16 h) @ rev ''::ffff:'')" by simp
    then show ?thesis by (simp only:) (simp add: takeWhile_append)
  qed
  moreover have "\<not> short_dotted (show_base 16 l)"
    using show_hex_plain [of l] by (auto simp: short_dotted_def list_all_iff dest!: no_dots [of "show_base 16 l", rotated])
  ultimately have "expand_mapped ?t = ?t" by (simp add: expand_mapped_def Let_def)
  moreover have "split_colons ?t = [[], js_join '':'' [''ffff'', show_base 16 h, show_base 16 l]]"
    using split_compressed [of "[]" "[''ffff'', show_base 16 h, show_base 16 l]"] by (simp add: group_text_def)
  moreover have "colon_groups (js_join '':'' [''ffff'', show_base 16 h, show_base 16 l]) = [''ffff'', show_base 16 h, show_base 16 l]"
    by (rule colon_groups_join) (simp add: group_text_def)
  moreover have "js_parseInt16 ''ffff'' = Some 65535"
    by (simp add: js_parseInt16_digits hexit_def hexit_value_def hex_digits_value_def Let_def)
  moreover have "js_parseInt16 (show_base 16 n) = Some (int n)" for n
    using js_parseInt16_pad [of 0 n] by (simp add: pad_left_def)
  moreover have "colon_groups [] = []" by (simp add: colon_groups_def)
  ultimately show ?thesis by (simp add: expandIpv6_def Let_def numeral_eq_Suc)
qed


lemma isPrivateIp_expanded:
  assumes "list_all plain_char s" and "\<not> short_dotted s" and "s \<noteq> ''::1''" and "s \<noteq> ''::''"
    and "expandIpv6 s = Some (replicate 5 (Some 0) @ [Some 65535, g, h])"
  shows "isPrivateIp s \<longleftrightarrow> isPrivateIpv4 (group_byte g 8) (group_byte g 0)"
  using assms(2-5) unfolding isPrivateIp_def plain_clean [OF assms(1)] Let_def by (simp add: numeral_eq_Suc)

lemma isPrivateIp_hex:
  assumes "h < 65536" and "l < 65536"
  shows "isPrivateIp (''::ffff:'' @ show_base 16 h @ '':'' @ show_base 16 l) \<longleftrightarrow> isPrivateIpv4 (h div 256) (h mod 256)"
proof -
  let ?t = "''::ffff:'' @ show_base 16 h @ '':'' @ show_base 16 l"
  have "\<not> short_dotted ?t" by (rule not_short_dotted [of _ "'':''" "''ffff:'' @ show_base 16 h @ '':'' @ show_base 16 l"]) simp_all
  moreover have "?t \<noteq> ''::1'' \<and> ?t \<noteq> ''::''" by simp
  ultimately show ?thesis
    using isPrivateIp_expanded [OF hex_mapped_plain _ _ _ expand_hex_mapped] group_byte_word [OF assms(1)] by simp
qed

lemma expand_quad_mapped:
  assumes "quad_ok q"
  shows "expand_mapped (''::ffff:'' @ show_quad q) =
    ''::ffff:'' @ show_base 16 (q ! 0 * 256 + q ! 1) @ '':'' @ show_base 16 (q ! 2 * 256 + q ! 3)"
proof -
  let ?t = "''::ffff:'' @ show_quad q"
  have "takeWhile (\<lambda>c. c \<noteq> CHR '':'') (rev (show_quad q) @ CHR '':'' # rest) = rev (show_quad q)" for rest
    using quad_no_colon [of q] by (auto simp: takeWhile_append)
  then have "rev (takeWhile (\<lambda>c. c \<noteq> CHR '':'') (rev ?t)) = show_quad q" by simp
  moreover have "take (length ?t - length (show_quad q) - 1) ?t = ''::ffff''" by simp
  moreover have "length q = 4" "q \<noteq> []" using assms by (auto simp: quad_ok_def)
  ultimately show ?thesis
    using short_dotted_quad [OF assms]
    by (simp add: expand_mapped_def Let_def js_line_terminator_def)
qed

lemma isPrivateIp_mapped:
  assumes "quad_ok q"
  shows "isPrivateIp (''::ffff:'' @ show_quad q) \<longleftrightarrow> isPrivateIpv4 (q ! 0) (q ! 1)"
proof -
  obtain a b c d where q: "q = [a, b, c, d]" and lt: "a < 256" "b < 256" "c < 256" "d < 256"
    using assms by (rule quadE)
  let ?t = "''::ffff:'' @ show_quad q" and ?h = "''::ffff:'' @ show_base 16 (a * 256 + b) @ '':'' @ show_base 16 (c * 256 + d)"
  have "expand_mapped ?h = expand_mapped ?t"
  proof -
    have "\<not> short_dotted (show_base 16 (c * 256 + d))"
      using show_hex_plain [of "c * 256 + d"] by (auto simp: short_dotted_def list_all_iff dest!: no_dots [of "show_base 16 (c * 256 + d)", rotated])
    moreover have "rev (takeWhile (\<lambda>x. x \<noteq> CHR '':'') (rev ?h)) = show_base 16 (c * 256 + d)"
    proof -
      have "rev ?h = rev (show_base 16 (c * 256 + d)) @ CHR '':'' # (rev (show_base 16 (a * 256 + b)) @ rev ''::ffff:'')" by simp
      then show ?thesis by (simp only:) (simp add: takeWhile_append)
    qed
    ultimately have "expand_mapped ?h = ?h" by (simp add: expand_mapped_def Let_def)
    then show ?thesis using expand_quad_mapped [OF assms] by (simp add: q)
  qed
  then have "expandIpv6 ?t = expandIpv6 ?h" by (simp add: expandIpv6_def)
  moreover have "\<not> short_dotted ?t" by (rule not_short_dotted [of _ "'':''" "''ffff:'' @ show_quad q"]) simp_all
  moreover have "?t \<noteq> ''::1'' \<and> ?t \<noteq> ''::''" by simp
  ultimately have "isPrivateIp ?t \<longleftrightarrow>
      isPrivateIpv4 (group_byte (Some (int (a * 256 + b))) 8) (group_byte (Some (int (a * 256 + b))) 0)"
    using isPrivateIp_expanded [OF quad_mapped_plain [OF assms]] expand_hex_mapped [of "a * 256 + b" "c * 256 + d"] by metis
  moreover have "a * 256 + b < 65536" using lt by simp
  ultimately show ?thesis using lt by (simp only: group_byte_word) (simp add: q)
qed

text \<open>
  C25. Two guards, one meaning. For every IPv4 address the check of webhook destinations, which
  compares 32-bit words under masks, and the check of provider connections, which compares octets,
  refuse the same addresses, and they do so in all three spellings: dotted, mapped into IPv6 with
  dots, and mapped with hexadecimal groups as the URL parser writes it.
\<close>

theorem private_ranges_agree:
  assumes "quad_ok q"
  shows "let private = isPrivateIpv4 (q ! 0) (q ! 1);
      hex = ''::ffff:'' @ show_base 16 (q ! 0 * 256 + q ! 1) @ '':'' @ show_base 16 (q ! 2 * 256 + q ! 3) in
    (isPrivateIPv4 (show_quad q) \<noteq> None \<longleftrightarrow> private) \<and> (isPrivateIp (show_quad q) \<longleftrightarrow> private) \<and>
    (isPrivateIPv6 (''::ffff:'' @ show_quad q) \<noteq> None \<longleftrightarrow> private) \<and>
    (isPrivateIp (''::ffff:'' @ show_quad q) \<longleftrightarrow> private) \<and>
    (isPrivateIPv6 hex \<noteq> None \<longleftrightarrow> private) \<and> (isPrivateIp hex \<longleftrightarrow> private)"
proof -
  obtain a b c d where q: "q = [a, b, c, d]" and lt: "a < 256" "b < 256" "c < 256" "d < 256"
    using assms by (rule quadE)
  have word: "a * 256 + b < 65536" "c * 256 + d < 65536" using lt by simp_all
  have parts: "(a * 256 + b) div 256 = a" "(a * 256 + b) mod 256 = b" "(c * 256 + d) div 256 = c" "(c * 256 + d) mod 256 = d"
    using lt by simp_all
  have "isPrivateIPv6 (''::ffff:'' @ show_base 16 (a * 256 + b) @ '':'' @ show_base 16 (c * 256 + d)) = isPrivateIPv4 (show_quad q)"
    unfolding isPrivateIPv6_hex [OF word] parts q ..
  moreover have "isPrivateIp (''::ffff:'' @ show_base 16 (a * 256 + b) @ '':'' @ show_base 16 (c * 256 + d)) \<longleftrightarrow> isPrivateIpv4 a b"
    unfolding isPrivateIp_hex [OF word] parts ..
  ultimately show ?thesis
    using isPrivateIPv4_quad [OF assms] isPrivateIp_quad [OF assms] isPrivateIPv6_mapped [OF assms] isPrivateIp_mapped [OF assms]
    by (simp add: q Let_def)
qed


subsection \<open>The whitelist on IPv4\<close>

lemma sint_word32:
  assumes "- (2 ^ 31) \<le> k" and "k < 2 ^ 31"
  shows "sint (word_of_int k :: 32 word) = k"
  using assms by (simp add: signed_of_int signed_take_bit_int_eq_self)

lemma shifted_word: "push_bit 8 (word_of_int acc :: 32 word) = word_of_int (acc * 256)"
  by (simp add: push_bit_eq_mult)

lemma wrapped_word: "word_of_int (k - 2 ^ 32) = (word_of_int k :: 32 word)"
  by (simp only: word_of_int_eq_iff take_bit_eq_mod) simp

lemma octet_step_low:
  assumes "n < 256" and "0 \<le> acc" and "acc < 2 ^ 23"
  shows "octet_step acc (show_nat n) = acc * 256 + int n"
proof -
  have "sint (push_bit 8 (word_of_int acc :: 32 word)) = acc * 256"
    unfolding shifted_word by (rule sint_word32) (use assms(2,3) in simp_all)
  then show ?thesis using assms(1) by (simp add: octet_step_def)
qed

lemma octet_step_high:
  assumes "n < 256" and "0 \<le> acc" and "acc < 2 ^ 24"
  shows "octet_step acc (show_nat n) = (if acc < 2 ^ 23 then acc * 256 + int n else acc * 256 + int n - 2 ^ 32)"
proof (cases "acc < 2 ^ 23")
  case True
  then show ?thesis using octet_step_low assms by simp
next
  case False
  have "sint (push_bit 8 (word_of_int acc :: 32 word)) = acc * 256 - 2 ^ 32"
    unfolding shifted_word wrapped_word [symmetric, of "acc * 256"]
    by (rule sint_word32) (use False assms(3) in simp_all)
  then show ?thesis using assms(1) False by (simp add: octet_step_def)
qed

definition quad_int :: "quad \<Rightarrow> int" where
  "quad_int q = (let v = int (quad_value q) in if v < 2 ^ 31 then v else v - 2 ^ 32)"

lemma octets_quad:
  assumes "quad_ok q"
  shows "foldl octet_step 0 (map show_nat q) = quad_int q"
proof -
  obtain a b c d where q: "q = [a, b, c, d]" and lt: "a < 256" "b < 256" "c < 256" "d < 256"
    using assms by (rule quadE)
  have steps: "octet_step 0 (show_nat a) = int a" "octet_step (int a) (show_nat b) = int a * 256 + int b"
    "octet_step (int a * 256 + int b) (show_nat c) = (int a * 256 + int b) * 256 + int c"
    using octet_step_low [of a 0] octet_step_low [of b "int a"] octet_step_low [of c "int a * 256 + int b"] lt by simp_all
  let ?acc = "(int a * 256 + int b) * 256 + int c"
  have "octet_step ?acc (show_nat d) = (if ?acc < 2 ^ 23 then ?acc * 256 + int d else ?acc * 256 + int d - 2 ^ 32)"
    using octet_step_high [of d ?acc] lt by simp
  moreover have "int (quad_value q) = ?acc * 256 + int d" by (simp add: q quad_value_def)
  moreover have "?acc < 2 ^ 23 \<longleftrightarrow> ?acc * 256 + int d < 2 ^ 31" using lt by simp linarith
  ultimately show ?thesis by (simp only: quad_int_def Let_def q list.map foldl_Cons foldl_Nil steps)
qed

lemma quad_value_less: "quad_ok q \<Longrightarrow> quad_value q < 2 ^ 32"
  by (erule quadE) (simp add: quad_value_def)

lemma quad_value_max: "quad_ok q \<Longrightarrow> quad_value q = 2 ^ 32 - 1 \<longleftrightarrow> q = [255, 255, 255, 255]"
proof (erule quadE)
  fix a b c d :: nat
  assume q: "q = [a, b, c, d]" "a < 256" "b < 256" "c < 256" "d < 256"
  have "quad_value q = ((a * 256 + b) * 256 + c) * 256 + d" by (simp add: q quad_value_def)
  moreover have "2 ^ 32 - 1 = ((255 * 256 + 255) * 256 + 255) * 256 + (255 :: nat)" by simp
  moreover have "(255 :: nat) < 256" by simp
  ultimately show ?thesis using q by (simp only: two_digits list.inject) simp
qed

lemma quad_int_minus_1: "quad_ok q \<Longrightarrow> quad_int q = - 1 \<longleftrightarrow> q = [255, 255, 255, 255]"
  using quad_value_max [of q] quad_value_less [of q] by (simp add: quad_int_def Let_def) linarith

lemma unat_quad_int: "quad_ok q \<Longrightarrow> unat (word_of_int (quad_int q) :: 32 word) = quad_value q"
proof -
  assume "quad_ok q"
  then have "quad_value q < 2 ^ 32" by (rule quad_value_less)
  moreover have "word_of_int (quad_int q) = (of_nat (quad_value q) :: 32 word)"
    by (cases "int (quad_value q) < 2 ^ 31") (simp_all only: quad_int_def Let_def if_True if_False wrapped_word of_int_of_nat_eq)
  ultimately show ?thesis by (simp add: unat_quad)
qed

lemma quad_no_slash: "CHR ''/'' \<notin> set (show_quad q)"
proof -
  have "CHR ''/'' \<notin> set (show_nat n)" for n
    using show_nat_digits [of n] decimal_digit_plain by (auto simp: list_all_iff)
  then show ?thesis unfolding show_quad_def using set_join [of "''.''"] by fastforce
qed

lemma digits_no_slash: "CHR ''/'' \<notin> set (show_nat n)"
  using show_nat_digits [of n] decimal_digit_plain by (auto simp: list_all_iff)

lemma show_quad_nonempty: "quad_ok q \<Longrightarrow> show_quad q \<noteq> []"
  by (erule quadE) (simp add: show_quad_def)

text \<open>
  The whitelist matches the range it names. For IPv4 addresses and a prefix of at most 32 bits
  the test on signed 32-bit arithmetic holds exactly when the two addresses share their leading bits,
  with one exception: 255.255.255.255 collides with the error value and matches nothing.
\<close>

theorem whitelist_ipv4_exact:
  assumes "quad_ok p" and "quad_ok q" and "n \<le> 32"
  shows "isIPInCIDR (show_quad p) (show_quad q @ ''/'' @ show_nat n) \<longleftrightarrow>
    p \<noteq> [255, 255, 255, 255] \<and> q \<noteq> [255, 255, 255, 255] \<and>
    quad_value p div 2 ^ (32 - n) = quad_value q div 2 ^ (32 - n)"
proof -
  have len: "length p = 4" "length q = 4" "p \<noteq> []" "q \<noteq> []" using assms by (auto simp: quad_ok_def)
  have "js_split (CHR ''/'') (show_quad q @ ''/'' @ show_nat n) = [show_quad q, show_nat n]"
    by (simp add: js_split_append_sep js_split_singleton quad_no_slash digits_no_slash)
  then have "isIPInCIDR (show_quad p) (show_quad q @ ''/'' @ show_nat n) = isIPv4InCIDR (show_quad p) (show_quad q) (int n)"
    using quad_no_colon show_quad_nonempty [OF assms(1)] by (simp add: isIPInCIDR_def List.member_iff)
  also have "\<dots> \<longleftrightarrow> p \<noteq> [255, 255, 255, 255] \<and> q \<noteq> [255, 255, 255, 255] \<and>
      ((word_of_int (quad_int p) :: 32 word) AND prefixToMask n) = (word_of_int (quad_int q) AND prefixToMask n)"
    using assms len
    by (auto simp: isIPv4InCIDR_def Let_def octets_quad quad_int_minus_1 prefixToMask_def nat_diff_distrib)
  also have "((word_of_int (quad_int p) :: 32 word) AND prefixToMask n) = (word_of_int (quad_int q) AND prefixToMask n) \<longleftrightarrow>
      quad_value p div 2 ^ (32 - n) = quad_value q div 2 ^ (32 - n)"
  proof (cases "n = 0")
    case True
    then show ?thesis using assms quad_value_less by (simp add: prefixToMask_def)
  next
    case False
    then show ?thesis using range_match [of n] assms by (simp only: unat_quad_int)
  qed
  finally show ?thesis .
qed


subsection \<open>The whitelist on IPv6\<close>

type_synonym groups = "nat list"

definition groups_ok :: "groups \<Rightarrow> bool" where
  "groups_ok gs \<longleftrightarrow> length gs = 8 \<and> (\<forall>g \<in> set gs. g < 65536)"

definition show_groups :: "groups \<Rightarrow> string" where
  "show_groups gs = js_join '':'' (map (show_base 16) gs)"

definition groups_value :: "groups \<Rightarrow> nat" where
  "groups_value gs = foldl (\<lambda>v g. v * 2 ^ 16 + g) 0 gs"

text \<open>The texts of an address: all eight groups, or with one run of zero groups left out.\<close>

definition spells :: "string \<Rightarrow> groups \<Rightarrow> bool" where
  "spells s gs \<longleftrightarrow> s = show_groups gs \<or>
     (\<exists>ls rs. length ls + length rs \<le> 7 \<and> gs = ls @ replicate (8 - length ls - length rs) 0 @ rs \<and>
        s = show_groups ls @ ''::'' @ show_groups rs)"

lemma groups_text: "\<forall>g \<in> set (map (show_base 16) gs). group_text g"
  by simp

lemma padded_zero: "pad_left 4 ''0000'' = pad_left 4 (show_base 16 0)"
  by code_simp

lemma no_double_includes: "no_double s \<Longrightarrow> \<not> js_includes s ''::''"
  by (induction s rule: no_double.induct) (auto simp: js_startsWith_def)

definition padded_groups :: "groups \<Rightarrow> string" where
  "padded_groups gs = js_join '':'' (map (\<lambda>g. pad_left 4 (show_base 16 g)) gs)"

lemma loopback_text: "''0000:0000:0000:0000:0000:0000:0000:0001'' = padded_groups [0, 0, 0, 0, 0, 0, 0, 1]"
  by code_simp

lemma show_groups_back: "colon_groups (show_groups gs) = map (show_base 16) gs"
  unfolding show_groups_def by (rule colon_groups_join [OF groups_text])

lemma show_groups_inj: "show_groups gs = show_groups hs \<Longrightarrow> gs = hs"
proof -
  assume "show_groups gs = show_groups hs"
  then have "map hex_digits_value (map (show_base 16) gs) = map hex_digits_value (map (show_base 16) hs)"
    using show_groups_back by metis
  then show ?thesis by (simp add: comp_def)
qed

lemma split_spelled:
  "split_colons (show_groups ls @ ''::'' @ show_groups rs) = [show_groups ls, show_groups rs]"
  unfolding show_groups_def by (rule split_compressed) auto

lemma loopback_spelled:
  assumes "spells ''::1'' gs"
  shows "gs = [0, 0, 0, 0, 0, 0, 0, 1]"
proof -
  have "js_includes ''::1'' ''::''" by (simp add: js_startsWith_def)
  moreover have "\<not> js_includes (show_groups gs) ''::''"
    unfolding show_groups_def by (rule no_double_includes [OF no_double_groups [OF groups_text]])
  ultimately obtain ls rs where lr: "gs = ls @ replicate (8 - length ls - length rs) 0 @ rs"
    "''::1'' = show_groups ls @ ''::'' @ show_groups rs"
    using assms unfolding spells_def by metis
  have "split_colons ''::1'' = [[], ''1'']" by simp
  moreover have "[] = show_groups []" by (simp add: show_groups_def)
  moreover have "''1'' = show_groups [1]" by code_simp
  ultimately have "ls = []" "rs = [1]"
    using split_spelled [of ls rs] show_groups_inj unfolding lr(2) [symmetric] by (metis list.inject)+
  then show ?thesis using lr(1) by (simp add: numeral_eq_Suc)
qed

lemma expandIPv6_spelled:
  assumes "groups_ok gs" and "spells s gs"
  shows "expandIPv6 s = Some (padded_groups gs)"
proof (cases "s = ''::1''")
  case True
  then show ?thesis using assms(2) loopback_spelled by (simp add: expandIPv6_def loopback_text)
next
  case False
  have pad: "map (pad_left 4) (map (show_base 16) hs) = map (\<lambda>g. pad_left 4 (show_base 16 g)) hs" for hs
    by simp
  show ?thesis
    using assms(2) unfolding spells_def
  proof (elim disjE exE conjE)
    assume s: "s = show_groups gs"
    have "\<not> js_includes s ''::''"
      unfolding s show_groups_def by (rule no_double_includes [OF no_double_groups [OF groups_text]])
    moreover have "map (show_base 16) gs \<noteq> []" using assms(1) by (auto simp: groups_ok_def)
    then have "js_split (CHR '':'') s = map (show_base 16) gs"
      unfolding s show_groups_def by (rule js_split_join) (use groups_text in \<open>simp add: group_text_def\<close>)
    ultimately show ?thesis
      using False assms(1) by (simp add: expandIPv6_def groups_ok_def padded_groups_def comp_def)
  next
    fix ls rs
    assume lr: "length ls + length rs \<le> 7" "gs = ls @ replicate (8 - length ls - length rs) 0 @ rs"
      "s = show_groups ls @ ''::'' @ show_groups rs"
    have "js_includes s ''::''" unfolding lr(3) by (rule js_includes_append)
    moreover have "split_colons s = [show_groups ls, show_groups rs]" unfolding lr(3) by (rule split_spelled)
    ultimately show ?thesis
      using False lr(1)
      by (simp add: expandIPv6_def show_groups_back Let_def padded_groups_def lr(2) padded_zero comp_def)
  qed
qed

lemma binary_groups:
  assumes "\<forall>g \<in> set gs. g < 65536" and "gs \<noteq> []"
  shows "ipv6ToBinary (padded_groups gs) = map bit_char (concat (map (bits_of 16) gs))"
proof -
  have "hexit c \<Longrightarrow> c \<noteq> CHR '':''" for c using hexit_plain by blast
  then have "CHR '':'' \<notin> set (pad_left 4 (show_base 16 g))" for g
    using show_hex_digits [of g] by (auto simp: pad_left_def list_all_iff)
  then have "js_split (CHR '':'') (padded_groups gs) = map (\<lambda>g. pad_left 4 (show_base 16 g)) gs"
    unfolding padded_groups_def by (intro js_split_join) (use assms(2) in auto)
  moreover have "pad_left 16 (show_binary (js_parseInt16 (pad_left 4 (show_base 16 g)))) = map bit_char (bits_of 16 g)"
    if "g \<in> set gs" for g
    using padded_bits [of 16 g] assms(1) that by (simp add: show_binary_def)
  ultimately show ?thesis
    by (simp add: ipv6ToBinary_def map_concat comp_def cong: map_cong)
qed

lemma map_bit_char_eq: "map bit_char xs = map bit_char ys \<longleftrightarrow> xs = ys"
  by (rule inj_map_eq_map) (auto intro: injI)

lemma bits_of_groups:
  "\<forall>g \<in> set gs. g < 65536 \<Longrightarrow> bits_of w v @ concat (map (bits_of 16) gs) =
     bits_of (w + 16 * length gs) (foldl (\<lambda>v g. v * 2 ^ 16 + g) v gs)"
proof (induction gs arbitrary: w v)
  case Nil
  then show ?case by simp
next
  case (Cons g gs)
  then have "bits_of w v @ bits_of 16 g = bits_of (w + 16) (v * 2 ^ 16 + g)"
    by (intro bits_of_append) simp
  then have "bits_of w v @ concat (map (bits_of 16) (g # gs)) =
      bits_of (w + 16) (v * 2 ^ 16 + g) @ concat (map (bits_of 16) gs)" by simp
  also have "\<dots> = bits_of (w + 16 + 16 * length gs) (foldl (\<lambda>v g. v * 2 ^ 16 + g) (v * 2 ^ 16 + g) gs)"
    using Cons by simp
  finally show ?case by (simp add: add.assoc)
qed

lemma groups_value_less:
  fixes gs :: groups
  assumes "\<forall>g \<in> set gs. g < 65536" and "v < 2 ^ w"
  shows "foldl (\<lambda>v g. v * 2 ^ 16 + g) v gs < 2 ^ (w + 16 * length gs)"
  using assms
proof (induction gs arbitrary: w v)
  case (Cons g gs)
  have "v * 2 ^ 16 + g < (v + 1) * 2 ^ 16" using Cons.prems by simp
  also have "\<dots> \<le> 2 ^ w * 2 ^ 16" using Cons.prems by (intro mult_right_mono) simp_all
  finally have "v * 2 ^ 16 + g < 2 ^ (w + 16)" by (simp only: power_add)
  then have "foldl (\<lambda>v g. v * 2 ^ 16 + g) (v * 2 ^ 16 + g) gs < 2 ^ (w + 16 + 16 * length gs)"
    using Cons.IH [of "v * 2 ^ 16 + g" "w + 16"] Cons.prems(1) by simp
  moreover have "w + 16 + 16 * length gs = w + 16 * length (g # gs)" by simp
  ultimately show ?case by (simp only: foldl_Cons)
qed simp

text \<open>
  The whitelist on IPv6 also matches the range it names: for addresses spelled in full or with a
  run of zeros left out, and a prefix of at most 128 bits, comparing the texts of the bits is
  comparing the leading bits of the 128-bit numbers.
\<close>

theorem whitelist_ipv6_exact:
  assumes "groups_ok gs" and "groups_ok hs" and "spells s gs" and "spells t hs" and "n \<le> 128"
  shows "isIPv6InCIDR s t (int n) \<longleftrightarrow> groups_value gs div 2 ^ (128 - n) = groups_value hs div 2 ^ (128 - n)"
proof -
  have bits: "ipv6ToBinary (padded_groups xs) = map bit_char (bits_of 128 (groups_value xs))"
    "groups_value xs < 2 ^ 128" if "groups_ok xs" for xs
  proof -
    have xs: "length xs = 8" "\<forall>g \<in> set xs. g < 65536" "xs \<noteq> []" using that by (auto simp: groups_ok_def)
    have "bits_of 0 0 = []" by (simp add: bits_of_def)
    then have "concat (map (bits_of 16) xs) = bits_of 128 (groups_value xs)"
      using bits_of_groups [OF xs(2), of 0 0] xs(1) by (simp add: groups_value_def)
    then show "ipv6ToBinary (padded_groups xs) = map bit_char (bits_of 128 (groups_value xs))"
      using binary_groups [OF xs(2,3)] by simp
    show "groups_value xs < 2 ^ 128"
      using groups_value_less [OF xs(2), of 0 0] xs(1) by (simp add: groups_value_def)
  qed
  have less: "groups_value xs div 2 ^ (128 - n) < 2 ^ n" if "groups_ok xs" for xs
    using bits(2) [OF that] assms(5) by (simp add: less_mult_imp_div_less flip: power_add)
  have "isIPv6InCIDR s t (int n) \<longleftrightarrow>
      take n (map bit_char (bits_of 128 (groups_value gs))) = take n (map bit_char (bits_of 128 (groups_value hs)))"
    using assms(5) expandIPv6_spelled [OF assms(1,3)] expandIPv6_spelled [OF assms(2,4)] bits assms(1,2)
    by (simp add: isIPv6InCIDR_def)
  also have "\<dots> \<longleftrightarrow> bits_of n (groups_value gs div 2 ^ (128 - n)) = bits_of n (groups_value hs div 2 ^ (128 - n))"
    using take_bits_of [OF assms(5)] by (simp add: take_map map_bit_char_eq)
  also have "\<dots> \<longleftrightarrow> groups_value gs div 2 ^ (128 - n) = groups_value hs div 2 ^ (128 - n)"
    by (rule bits_of_inj [OF less [OF assms(1)] less [OF assms(2)]])
  finally show ?thesis .
qed


subsection \<open>Names that end with a dot\<close>

text \<open>
  A trailing dot opens the webhook guard. A name written as fully qualified, with a dot at its
  end, is none of the blocked names and has none of the blocked suffixes, so \<open>localhost.\<close> and
  \<open>metadata.google.internal.\<close> pass the check that refuses them without the dot.
\<close>

theorem trailing_dot_passes:
  assumes "url_hostname url = Some (name @ ''.'')" and "\<not> isIPv6 (name @ ''.'')"
  shows "validateSsrf url_hostname isIPv6 url = None"
proof -
  have dot: "js_toLowerCase (name @ ''.'') = js_toLowerCase name @ ''.''"
    by (simp add: js_toLowerCase_def js_lower_char_def)
  have ends: "\<not> js_endsWith (x @ ''.'') p" if "p \<noteq> []" "last p \<noteq> CHR ''.''" for x p
    using that by (auto simp: js_endsWith_suffix suffix_def) (metis last_appendR last_snoc)
  have "js_toLowerCase name @ ''.'' \<noteq> b" if "b \<in> set BLOCKED_HOSTNAMES" for b
    using that by (auto simp: BLOCKED_HOSTNAMES_def dest: arg_cong [where f = last])
  then have "isBlockedHostname (name @ ''.'') = None"
    using ends [of "''.internal''"] ends [of "''.local''"] ends [of "''.localhost''"]
    by (auto simp: isBlockedHostname_def dot Let_def List.member_iff BLOCKED_SUFFIXES_def)
  moreover have "bare_host (name @ ''.'') = name @ ''.''"
    using ends [of "'']''"] by (simp add: bare_host_def)
  moreover have "[] \<in> set (tl (js_split (CHR ''.'') (x @ ''.'')))" for x
    by (induction x) (auto split: list.splits)
  then have "[] \<in> set (js_split (CHR ''.'') (name @ ''.''))"
    using list.set_sel(2) [OF js_split_nonempty] by metis
  then have "\<not> isIPv4 (name @ ''.'')"
    by (auto simp: isIPv4_def dotted_digits_def Let_def list_all_iff)
  ultimately show ?thesis
    using assms by (simp add: validateSsrf_def Let_def)
qed

subsection \<open>Witnesses\<close>

theorem private_ranges_agree_witness: "isPrivateIp (''::ffff:'' @ show_quad [10, 0, 0, 1])"
  using private_ranges_agree [of "[10, 0, 0, 1]"] by (simp add: quad_ok_def Let_def isPrivateIpv4_def)

theorem whitelist_ipv4_exact_witness:
  "isIPInCIDR (show_quad [3, 134, 147, 250]) (show_quad [3, 134, 147, 0] @ ''/'' @ show_nat 24)"
  using whitelist_ipv4_exact [of "[3, 134, 147, 250]" "[3, 134, 147, 0]" 24]
  by (simp add: quad_ok_def quad_value_def)

theorem whitelist_ipv6_exact_witness:
  "isIPv6InCIDR (show_groups [8193, 3512] @ ''::'' @ show_groups [1]) (show_groups [8193, 3512, 0, 0, 0, 0, 0, 0]) (int 32)"
proof -
  have "replicate 5 (0 :: nat) = [0, 0, 0, 0, 0]" by (simp add: numeral_eq_Suc)
  note five = this [symmetric]
  have "spells (show_groups [8193, 3512] @ ''::'' @ show_groups [1]) [8193, 3512, 0, 0, 0, 0, 0, 1]"
    unfolding spells_def by (rule disjI2, rule exI [of _ "[8193, 3512]"], rule exI [of _ "[1]"]) (simp add: five)
  moreover have "spells (show_groups [8193, 3512, 0, 0, 0, 0, 0, 0]) [8193, 3512, 0, 0, 0, 0, 0, 0]"
    by (simp add: spells_def)
  ultimately show ?thesis
    using whitelist_ipv6_exact [of "[8193, 3512, 0, 0, 0, 0, 0, 1]" "[8193, 3512, 0, 0, 0, 0, 0, 0]" _ _ 32]
    by (simp add: groups_ok_def groups_value_def)
qed

theorem trailing_dot_passes_witness:
  "validateSsrf (\<lambda>_. Some ''localhost.'') (\<lambda>_. False) ''http://localhost./'' = None"
  using trailing_dot_passes [of "\<lambda>_. Some ''localhost.''" "''http://localhost./''" "''localhost''" "\<lambda>_. False"]
  by simp

end
