(* ===== verification/Forest.thy ===== *)
theory Forest
  imports Prelude
begin

text \<open>
  Tables whose rows name a parent row: notebooks and work items. The sources walk from a row to
  its ancestors with a recursive query (\<open>WITH RECURSIVE ... UNION ALL\<close>, read only until the row
  looked for appears). Such a query returns on a forest and never on a cycle that misses the goal,
  so \<open>in_chain\<close> is a partial function whose value \<open>None\<close> is a query that does not return.
  The locale \<open>parent_table\<close> is what a table offers: an identifier, a parent, and a patch of a
  row that may name a new parent. Inside it: when the walk returns and what it decides, that a checked change of parent
  keeps a forest, and what happens on a cycle.
\<close>

subsection \<open>The recursive query\<close>

partial_function (option) in_chain ::
    "('r \<Rightarrow> uuid) \<Rightarrow> ('r \<Rightarrow> uuid option) \<Rightarrow> 'r list \<Rightarrow> uuid \<Rightarrow> uuid \<Rightarrow> bool option" where
  "in_chain ident parent rows goal n =
     (case by_key ident n rows of
        None \<Rightarrow> Some False
      | Some r \<Rightarrow>
          if n = goal then Some True
          else (case parent r of None \<Rightarrow> Some False | Some p \<Rightarrow> in_chain ident parent rows goal p))"

definition parents :: "('r \<Rightarrow> uuid) \<Rightarrow> ('r \<Rightarrow> uuid option) \<Rightarrow> 'r list \<Rightarrow> (uuid \<times> uuid) set" where
  "parents ident parent rows = {(ident r, p) | r p. r \<in> set rows \<and> parent r = Some p}"

text \<open>No row is its own ancestor, and no two rows have one identifier.\<close>

definition forest :: "('r \<Rightarrow> uuid) \<Rightarrow> ('r \<Rightarrow> uuid option) \<Rightarrow> 'r list \<Rightarrow> bool" where
  "forest ident parent rows \<longleftrightarrow> distinct (map ident rows) \<and> acyclic (parents ident parent rows)"

lemma distinct_ident_eq:
  "distinct (map ident rows) \<Longrightarrow> r \<in> set rows \<Longrightarrow> q \<in> set rows \<Longrightarrow> ident r = ident q \<Longrightarrow> r = q"
  by (auto simp only: distinct_map dest: inj_onD)

lemma parents_iff:
  "(n, p) \<in> parents ident parent rows \<longleftrightarrow> (\<exists>r \<in> set rows. ident r = n \<and> parent r = Some p)"
  by (auto simp: parents_def)

lemma parentsI: "r \<in> set rows \<Longrightarrow> parent r = Some p \<Longrightarrow> (ident r, p) \<in> parents ident parent rows"
  by (auto simp: parents_def)

lemma finite_parents: "finite (parents ident parent rows)"
proof (rule finite_subset)
  show "parents ident parent rows \<subseteq> (\<lambda>r. (ident r, the (parent r))) ` set rows"
    by (force simp: parents_def)
qed simp

lemma single_valued_parents:
  "distinct (map ident rows) \<Longrightarrow> single_valued (parents ident parent rows)"
proof (rule single_valuedI)
  fix x y z
  assume dist: "distinct (map ident rows)"
    and "(x, y) \<in> parents ident parent rows" "(x, z) \<in> parents ident parent rows"
  then obtain r q where "r \<in> set rows" "ident r = x" "parent r = Some y"
      "q \<in> set rows" "ident q = x" "parent q = Some z"
    unfolding parents_iff by (elim bexE conjE)
  then show "y = z" using distinct_ident_eq [OF dist, of r q] by (metis option.inject)
qed

lemma wf_parents: "forest ident parent rows \<Longrightarrow> wf ((parents ident parent rows)\<inverse>)"
  by (simp add: forest_def finite_parents finite_acyclic_wf_converse)

text \<open>On a forest the walk returns, and it answers whether the goal is the row or one of its
  ancestors.\<close>

lemma in_chain_forest:
  assumes "forest ident parent rows"
  shows "in_chain ident parent rows goal n =
           Some (goal \<in> ident ` set rows \<and> (n, goal) \<in> (parents ident parent rows)\<^sup>*)"
proof (induction n rule: wf_induct_rule [OF wf_parents [OF assms]])
  case (1 n)
  let ?E = "parents ident parent rows"
  have dist: "distinct (map ident rows)" using assms by (simp add: forest_def)
  show ?case
  proof (cases "by_key ident n rows")
    case None
    then have n: "n \<notin> ident ` set rows" by (auto simp: by_key_None_iff)
    then have "(n, p) \<notin> ?E" for p by (auto simp: parents_def)
    then have "(n, goal) \<in> ?E\<^sup>* \<longleftrightarrow> n = goal" by (meson converse_rtranclE rtrancl.rtrancl_refl)
    then show ?thesis
      using None n by (subst in_chain.simps) auto
  next
    case (Some r)
    then have r: "r \<in> set rows" "ident r = n" using by_key_SomeD [OF Some] by simp_all
    then have mem: "n \<in> ident ` set rows" by blast
    show ?thesis
    proof (cases "parent r")
      case None
      have "(n, p) \<notin> ?E" for p
      proof
        assume "(n, p) \<in> ?E"
        then obtain q where "q \<in> set rows" "ident q = n" "parent q = Some p"
          unfolding parents_iff by (elim bexE conjE)
        then show False using r None distinct_ident_eq [OF dist, of q r] by (metis option.distinct(1))
      qed
      then have "(n, goal) \<in> ?E\<^sup>* \<longleftrightarrow> n = goal" by (meson converse_rtranclE rtrancl.rtrancl_refl)
      then show ?thesis
        using Some None mem by (subst in_chain.simps) auto
    next
      fix p assume p: "parent r = Some p"
      have edge: "(n, p) \<in> ?E" unfolding parents_iff using r p by (intro bexI [of _ r] conjI)
      have only: "(n, q) \<in> ?E \<Longrightarrow> q = p" for q
        by (rule single_valuedD [OF single_valued_parents [OF dist] _ edge])
      have "(n, goal) \<in> ?E\<^sup>* \<longleftrightarrow> n = goal \<or> (p, goal) \<in> ?E\<^sup>*"
      proof
        assume "(n, goal) \<in> ?E\<^sup>*"
        then show "n = goal \<or> (p, goal) \<in> ?E\<^sup>*"
          by (rule converse_rtranclE) (auto dest: only)
      qed (auto intro: converse_rtrancl_into_rtrancl [OF edge])
      moreover have "in_chain ident parent rows goal p = Some (goal \<in> ident ` set rows \<and> (p, goal) \<in> ?E\<^sup>*)"
        using "1.IH" edge by auto
      ultimately show ?thesis
        using Some p mem by (subst in_chain.simps) auto
    qed
  qed
qed

text \<open>A set of rows that each have a parent in the set is never left: the walk that starts in it
  and looks for a row outside does not return.\<close>

lemma in_chain_trapped:
  assumes "\<forall>m \<in> C. \<exists>r p. by_key ident m rows = Some r \<and> parent r = Some p \<and> p \<in> C"
    and "n \<in> C" and "goal \<notin> C"
  shows "in_chain ident parent rows goal n = None"
proof (rule ccontr)
  assume "in_chain ident parent rows goal n \<noteq> None"
  then obtain b where "in_chain ident parent rows goal n = Some b" by blast
  then have "ident = ident \<and> parent = parent \<and> rows = rows \<and> goal = goal \<longrightarrow> n \<notin> C"
  proof (rule in_chain.raw_induct [rotated, where P = "\<lambda>i pa rs g m y.
      i = ident \<and> pa = parent \<and> rs = rows \<and> g = goal \<longrightarrow> m \<notin> C"])
    fix f i pa rs g m y
    assume IH: "\<And>i pa rs g m y. f i pa rs g m = Some y \<Longrightarrow>
        i = ident \<and> pa = parent \<and> rs = rows \<and> g = goal \<longrightarrow> m \<notin> C"
      and step: "(case by_key i m rs of None \<Rightarrow> Some False
        | Some r \<Rightarrow> if m = g then Some True
            else (case pa r of None \<Rightarrow> Some False | Some p \<Rightarrow> f i pa rs g p)) = Some y"
    show "i = ident \<and> pa = parent \<and> rs = rows \<and> g = goal \<longrightarrow> m \<notin> C"
    proof (intro impI notI)
      assume eqs: "i = ident \<and> pa = parent \<and> rs = rows \<and> g = goal" and "m \<in> C"
      then obtain r p where "by_key ident m rows = Some r" "parent r = Some p" "p \<in> C"
        using assms(1) by blast
      moreover have "m \<noteq> goal" using \<open>m \<in> C\<close> assms(3) by blast
      ultimately have "f ident parent rows goal p = Some y" using step eqs by simp
      then show False using IH \<open>p \<in> C\<close> by blast
    qed
  qed
  then show False using assms(2) by simp
qed

subsection \<open>Changes that keep a forest\<close>

lemma forest_sub_parents:
  assumes "forest ident parent rows"
    and "\<And>r. r \<in> set rows \<Longrightarrow> ident (f r) = ident r"
    and "\<And>r p. r \<in> set rows \<Longrightarrow> parent (f r) = Some p \<Longrightarrow>
           (ident r, p) \<in> (parents ident parent rows)\<^sup>+"
  shows "forest ident parent (map f rows)"
proof -
  have "parents ident parent (map f rows) \<subseteq> (parents ident parent rows)\<^sup>+"
    using assms(2,3) by (auto simp: parents_iff)
  moreover have "acyclic ((parents ident parent rows)\<^sup>+)"
    using assms(1) by (simp add: forest_def acyclic_def)
  moreover have "map ident (map f rows) = map ident rows" using assms(2) by simp
  ultimately show ?thesis
    using assms(1) unfolding forest_def by (metis acyclic_subset)
qed

lemma forest_add_edge:
  assumes "forest ident parent rows" and "in_chain ident parent rows c p = Some False"
    and "c \<in> ident ` set rows"
  shows "acyclic (insert (c, p) (parents ident parent rows))"
  using assms in_chain_forest [OF assms(1)] by (simp add: forest_def acyclic_insert)

lemma forest_append:
  assumes "forest ident parent rows" and "ident r \<notin> ident ` set rows"
    and "\<And>q. q \<in> set rows \<Longrightarrow> parent q \<noteq> Some (ident r)" and "parent r \<noteq> Some (ident r)"
  shows "forest ident parent (rows @ [r])"
proof (cases "parent r")
  case None
  then have "parents ident parent (rows @ [r]) = parents ident parent rows"
    by (auto simp: parents_def)
  then show ?thesis using assms(1,2) by (auto simp: forest_def)
next
  case (Some p)
  let ?E = "parents ident parent rows"
  have "parents ident parent (rows @ [r]) = insert (ident r, p) ?E"
    using Some by (auto simp: parents_def)
  moreover have "(x, ident r) \<notin> ?E" for x
    using assms(3) by (auto simp: parents_def)
  then have "(p, ident r) \<notin> ?E\<^sup>*"
    using assms(4) Some by (auto elim: rtranclE)
  ultimately show ?thesis using assms(1,2) by (auto simp: forest_def acyclic_insert)
qed

subsection \<open>Tables with a parent column\<close>

locale parent_table =
  fixes ident :: "'r \<Rightarrow> uuid"
    and parent :: "'r \<Rightarrow> uuid option"
    and patch :: "'u \<Rightarrow> 'r \<Rightarrow> 'r"
    and new_parent :: "'u \<Rightarrow> uuid option option"
  assumes ident_patch [simp]: "ident (patch u r) = ident r"
    and parent_patch [simp]:
      "parent (patch u r) = (case new_parent u of None \<Rightarrow> parent r | Some q \<Rightarrow> q)"
begin

lemma idents_patched [simp]: "map ident (sql_update P (patch u) rows) = map ident rows"
  by (simp add: map_key_sql_update)

text \<open>A patch of one row whose new parent passed the check keeps a forest.\<close>

lemma forest_patched:
  assumes forest: "forest ident parent rows"
    and only: "\<And>r. P r \<Longrightarrow> ident r = c"
    and check: "\<And>p. new_parent u = Some (Some p) \<Longrightarrow> in_chain ident parent rows c p = Some False"
  shows "forest ident parent (sql_update P (patch u) rows)"
proof (cases "\<exists>p r. new_parent u = Some (Some p) \<and> r \<in> set rows \<and> P r")
  case False
  then show ?thesis
    unfolding sql_update_def using forest
    by (intro forest_sub_parents) (auto split: if_splits option.splits intro: parentsI)
next
  case True
  then obtain p r where p: "new_parent u = Some (Some p)" "r \<in> set rows" "ident r = c"
    using only by blast
  then have "acyclic (insert (c, p) (parents ident parent rows))"
    by (intro forest_add_edge [OF forest check]) auto
  moreover have "parents ident parent (sql_update P (patch u) rows)
      \<subseteq> insert (c, p) (parents ident parent rows)"
    using only p by (auto simp: parents_iff set_sql_update)
  ultimately show ?thesis
    using forest by (auto simp: forest_def intro: acyclic_subset)
qed

text \<open>Two patches that were both checked before either was made put two rows on a cycle, and a
  walk that starts there and looks for a third row does not return.\<close>

lemma crossed_patches:
  assumes dist: "distinct (map ident rows)"
    and a: "by_key ident a rows = Some ra" "P ra" and b: "by_key ident b rows = Some rb" "Q rb"
    and P: "\<And>r. P r \<Longrightarrow> ident r = a" and Q: "\<And>r. Q r \<Longrightarrow> ident r = b"
    and "a \<noteq> b"
    and u: "new_parent u = Some (Some b)" and v: "new_parent v = Some (Some a)"
    and after: "after = sql_update Q (patch v) (sql_update P (patch u) rows)"
  shows "by_key ident a after = Some (patch u ra)"
    and "by_key ident b after = Some (patch v rb)"
    and "\<not> forest ident parent after"
    and "goal \<notin> {a, b} \<Longrightarrow> n \<in> {a, b} \<Longrightarrow> in_chain ident parent after goal n = None"
proof -
  have ra: "ident ra = a" and rb: "ident rb = b"
    using by_key_SomeD [OF a(1)] by_key_SomeD [OF b(1)] by simp_all
  have "\<not> Q (patch u ra)" using Q ra \<open>a \<noteq> b\<close> by fastforce
  then show fa: "by_key ident a after = Some (patch u ra)"
    by (simp add: after by_key_sql_update a)
  have "\<not> P rb" using P rb \<open>a \<noteq> b\<close> by fastforce
  then show fb: "by_key ident b after = Some (patch v rb)"
    by (simp add: after by_key_sql_update b)
  have "(a, b) \<in> parents ident parent after"
    unfolding parents_iff using by_key_SomeD [OF fa] u by (intro bexI [of _ "patch u ra"]) auto
  moreover have "(b, a) \<in> parents ident parent after"
    unfolding parents_iff using by_key_SomeD [OF fb] v by (intro bexI [of _ "patch v rb"]) auto
  ultimately have "(a, a) \<in> (parents ident parent after)\<^sup>+" by (meson trancl.intros)
  then show "\<not> forest ident parent after" by (auto simp: forest_def acyclic_def)
  have "\<forall>m \<in> {a, b}. \<exists>r p. by_key ident m after = Some r \<and> parent r = Some p \<and> p \<in> {a, b}"
    using fa fb u v by simp
  then show "goal \<notin> {a, b} \<Longrightarrow> n \<in> {a, b} \<Longrightarrow> in_chain ident parent after goal n = None"
    by (rule in_chain_trapped)
qed

end

end
