(* ===== verification/Notebooks.thy ===== *)
theory Notebooks
  imports Forest "HOL-Library.Multiset"
begin

text \<open>
  The notebooks of \<open>src/api/notebooks/service.ts\<close>: notes are filed in notebooks, notebooks in
  notebooks. The state is the two tables; an operation returns the new state and what the caller
  gets, with the messages the code throws as values. An update asks, in a query of its own, whether
  the new parent lies below the notebook; that query is \<open>in_chain\<close> of theory Forest, so an
  update has type \<open>option\<close>: \<open>None\<close> is an update that never returns. Check and write of an
  update are two statements without a transaction and are two definitions here.

  Identifiers are the texts of UUIDs. The collation of the database is the parameter \<open>rank\<close>;
  \<open>created_at\<close>, \<open>updated_at\<close> of a notebook are left out.
\<close>

subsection \<open>Tables, inputs and results\<close>

record notebook_row =
  nb_id :: uuid
  nb_name :: string
  nb_description :: "string option"
  nb_icon :: "string option"
  nb_color :: "string option"
  nb_parent :: "uuid option"
  nb_sort_order :: int
  nb_is_archived :: bool
  nb_deleted_at :: "millis option"
  nb_namespace :: string

record note_row =
  nt_id :: uuid
  nt_notebook :: "uuid option"
  nt_namespace :: string
  nt_title :: string
  nt_content :: string
  nt_tags :: "string list"
  nt_visibility :: string
  nt_hide_from_agents :: bool
  nt_summary :: "string option"
  nt_is_pinned :: bool
  nt_sort_order :: int
  nt_updated_at :: millis
  nt_deleted_at :: "millis option"

record notes_db =
  notebook_rows :: "notebook_row list"
  note_rows :: "note_row list"

datatype nb_error = Parent_notebook_not_found | Not_owner | FORBIDDEN | NB_NOT_FOUND | Circular

type_synonym counted = "notebook_row \<times> nat option \<times> nat option"

record notebook_view =
  v_notebook :: counted
  v_parent :: "(uuid \<times> string) option"
  v_notes :: "(uuid \<times> string \<times> millis) list option"
  v_children :: "counted list option"

record CreateNotebookInput =
  cn_name :: string
  cn_description :: "string option"
  cn_icon :: "string option"
  cn_color :: "string option"
  cn_parent :: "uuid option"

text \<open>A field of an update is undefined (\<open>None\<close>) or a value; a nullable one may be set to
  null.\<close>

record UpdateNotebookInput =
  un_name :: "string option"
  un_description :: "string option option"
  un_icon :: "string option option"
  un_color :: "string option option"
  un_parent :: "uuid option option"
  un_sort_order :: "int option"

abbreviation nb_live :: "notebook_row \<Rightarrow> bool" where
  "nb_live r \<equiv> nb_deleted_at r = None"

abbreviation nt_live :: "note_row \<Rightarrow> bool" where
  "nt_live t \<equiv> nt_deleted_at t = None"

definition userOwnsNotebook :: "notes_db \<Rightarrow> uuid \<Rightarrow> string \<Rightarrow> bool" where
  "userOwnsNotebook db i ns =
     sql_exists (\<lambda>r. nb_id r = i \<and> nb_namespace r = ns \<and> nb_live r) (notebook_rows db)"

definition notebookExists :: "notes_db \<Rightarrow> uuid \<Rightarrow> bool" where
  "notebookExists db i = sql_exists (\<lambda>r. nb_id r = i \<and> nb_live r) (notebook_rows db)"

definition wouldCreateCircularReference :: "notes_db \<Rightarrow> uuid \<Rightarrow> uuid \<Rightarrow> bool option" where
  "wouldCreateCircularReference db i p =
     (if i = p then Some True else in_chain nb_id nb_parent (notebook_rows db) i p)"

subsection \<open>Reading\<close>

definition noteCount :: "notes_db \<Rightarrow> uuid \<Rightarrow> nat" where
  "noteCount db i = sql_count (\<lambda>t. nt_notebook t = Some i \<and> nt_live t) (note_rows db)"

definition childCount :: "notes_db \<Rightarrow> uuid \<Rightarrow> nat" where
  "childCount db i = sql_count (\<lambda>r. nb_parent r = Some i \<and> nb_live r) (notebook_rows db)"

definition by_sort_order :: "(string \<Rightarrow> int) \<Rightarrow> notebook_row list \<Rightarrow> notebook_row list" where
  "by_sort_order rank rows = sort_key nb_sort_order (sort_key (\<lambda>r. rank (nb_name r)) rows)"

definition mapRowToNotebook :: "notebook_row \<Rightarrow> nat option \<Rightarrow> nat option \<Rightarrow> string option \<Rightarrow> notebook_view" where
  "mapRowToNotebook r note_count child_count parent_name =
     \<lparr>v_notebook = (r, note_count, child_count),
      v_parent = (case (parent_name, nb_parent r) of
          (Some (c # cs), Some p) \<Rightarrow> Some (p, c # cs) | _ \<Rightarrow> None),
      v_notes = None, v_children = None\<rparr>"

definition notesOf :: "notes_db \<Rightarrow> uuid \<Rightarrow> (uuid \<times> string \<times> millis) list" where
  "notesOf db i =
     map (\<lambda>t. (nt_id t, nt_title t, nt_updated_at t))
       (take 100 (sort_key nt_sort_order (sort_key (\<lambda>t. - nt_updated_at t)
         (filter (\<lambda>t. nt_notebook t = Some i \<and> nt_live t) (note_rows db)))))"

definition getNotebook ::
    "(string \<Rightarrow> int) \<Rightarrow> notes_db \<Rightarrow> uuid \<Rightarrow> string list \<Rightarrow> bool \<Rightarrow> bool \<Rightarrow> notebook_view option" where
  "getNotebook rank db i namespaces include_notes include_children =
     (case find (\<lambda>r. nb_id r = i \<and> nb_namespace r \<in> set namespaces \<and> nb_live r) (notebook_rows db) of
        None \<Rightarrow> None
      | Some r \<Rightarrow>
          let parent_name = Option.bind (nb_parent r) (\<lambda>p. map_option nb_name (by_key nb_id p (notebook_rows db)));
              view = mapRowToNotebook r (Some (noteCount db i)) (Some (childCount db i)) parent_name
          in Some (view
            \<lparr>v_notes := (if include_notes then Some (notesOf db i) else None),
             v_children := (if include_children
               then Some (map (\<lambda>c. (c, Some (noteCount db (nb_id c)), Some (childCount db (nb_id c))))
                 (by_sort_order rank
                   (filter (\<lambda>c. nb_parent c = Some i \<and> nb_live c) (notebook_rows db))))
               else None)\<rparr>))"

record ListNotebooksOptions =
  ln_parent_id :: "uuid option option"
  ln_include_archived :: bool
  ln_note_counts :: bool
  ln_child_counts :: bool
  ln_limit :: "nat option"
  ln_offset :: "nat option"

definition listed :: "string list \<Rightarrow> ListNotebooksOptions \<Rightarrow> notebook_row \<Rightarrow> bool" where
  "listed namespaces opts r =
     (nb_live r \<and> nb_namespace r \<in> set namespaces \<and>
      (case ln_parent_id opts of None \<Rightarrow> True | Some q \<Rightarrow> nb_parent r = q) \<and>
      (ln_include_archived opts \<or> \<not> nb_is_archived r))"

definition listNotebooks ::
    "(string \<Rightarrow> int) \<Rightarrow> notes_db \<Rightarrow> string list \<Rightarrow> ListNotebooksOptions \<Rightarrow> notebook_view list \<times> nat" where
  "listNotebooks rank db namespaces opts =
     (let lim = min (case ln_limit opts of None \<Rightarrow> 100 | Some n \<Rightarrow> n) 200;
          offset = (case ln_offset opts of None \<Rightarrow> 0 | Some n \<Rightarrow> n);
          selected = filter (listed namespaces opts) (notebook_rows db)
      in (map (\<lambda>r. mapRowToNotebook r
                (if ln_note_counts opts then Some (noteCount db (nb_id r)) else None)
                (if ln_child_counts opts then Some (childCount db (nb_id r)) else None) None)
            (take lim (drop offset (by_sort_order rank selected))),
          length selected))"

text \<open>The tree: one node per row of the view, each under the node of its parent where the view
  has it, else a root; \<open>cleanNode\<close> copies a node and, recursively, its children. The depth of
  that recursion is bounded by the parameter, which no call reaches (below).\<close>

datatype NotebookTreeNode = Node (node_id: uuid) (node_name: string) (node_icon: "string option")
  (node_color: "string option") (node_note_count: "nat option") (node_children: "NotebookTreeNode list")

definition tree_view :: "(string \<Rightarrow> int) \<Rightarrow> notes_db \<Rightarrow> string list \<Rightarrow> notebook_row list" where
  "tree_view rank db namespaces =
     by_sort_order rank (filter (\<lambda>r. nb_namespace r \<in> set namespaces \<and> nb_live r \<and> \<not> nb_is_archived r)
       (notebook_rows db))"

definition is_root :: "notebook_row list \<Rightarrow> notebook_row \<Rightarrow> bool" where
  "is_root rows r =
     (case nb_parent r of None \<Rightarrow> True | Some p \<Rightarrow> by_key nb_id p rows = None)"

definition children_of :: "notebook_row list \<Rightarrow> uuid \<Rightarrow> notebook_row list" where
  "children_of rows i = filter (\<lambda>r. nb_parent r = Some i) rows"

fun cleanNode :: "nat \<Rightarrow> (uuid \<Rightarrow> nat option) \<Rightarrow> notebook_row list \<Rightarrow> notebook_row \<Rightarrow> NotebookTreeNode option" where
  "cleanNode 0 tally rows r = None"
| "cleanNode (Suc k) tally rows r =
     map_option (Node (nb_id r) (nb_name r) (nb_icon r) (nb_color r) (tally (nb_id r)))
       (those (map (cleanNode k tally rows) (children_of rows (nb_id r))))"

definition getNotebooksTree ::
    "(string \<Rightarrow> int) \<Rightarrow> notes_db \<Rightarrow> string list \<Rightarrow> bool \<Rightarrow> NotebookTreeNode list option" where
  "getNotebooksTree rank db namespaces includeNoteCounts =
     (let rows = tree_view rank db namespaces;
          tally = (\<lambda>i. if includeNoteCounts then Some (noteCount db i) else None)
      in those (map (cleanNode (length rows) tally rows) (filter (is_root rows) rows)))"

subsection \<open>Writing\<close>

definition createNotebook ::
    "uuid \<Rightarrow> CreateNotebookInput \<Rightarrow> string \<Rightarrow> notes_db \<Rightarrow> (nb_error + notebook_view) \<times> notes_db" where
  "createNotebook fresh input ns db =
     (let row = \<lparr>nb_id = fresh, nb_name = cn_name input, nb_description = cn_description input,
                 nb_icon = cn_icon input, nb_color = cn_color input, nb_parent = cn_parent input,
                 nb_sort_order = 0, nb_is_archived = False, nb_deleted_at = None, nb_namespace = ns\<rparr>;
          insert_it = (Inr (mapRowToNotebook row (Some 0) (Some 0) None),
                       db\<lparr>notebook_rows := notebook_rows db @ [row]\<rparr>)
      in case cn_parent input of
           None \<Rightarrow> insert_it
         | Some p \<Rightarrow>
             if userOwnsNotebook db p ns then insert_it
             else if \<not> notebookExists db p then (Inl Parent_notebook_not_found, db)
             else (Inl Not_owner, db))"

definition update_fields :: "UpdateNotebookInput \<Rightarrow> notebook_row \<Rightarrow> notebook_row" where
  "update_fields input r = r
     \<lparr>nb_name := (case un_name input of None \<Rightarrow> nb_name r | Some x \<Rightarrow> x),
      nb_description := (case un_description input of None \<Rightarrow> nb_description r | Some x \<Rightarrow> x),
      nb_icon := (case un_icon input of None \<Rightarrow> nb_icon r | Some x \<Rightarrow> x),
      nb_color := (case un_color input of None \<Rightarrow> nb_color r | Some x \<Rightarrow> x),
      nb_parent := (case un_parent input of None \<Rightarrow> nb_parent r | Some x \<Rightarrow> x),
      nb_sort_order := (case un_sort_order input of None \<Rightarrow> nb_sort_order r | Some x \<Rightarrow> x)\<rparr>"

definition no_updates :: "UpdateNotebookInput \<Rightarrow> bool" where
  "no_updates input =
     (un_name input = None \<and> un_description input = None \<and> un_icon input = None \<and>
      un_color input = None \<and> un_parent input = None \<and> un_sort_order input = None)"

text \<open>The checks: an error, \<open>Inr False\<close> for \<open>return null\<close>, \<open>Inr True\<close> to go on to the
  statement.\<close>

definition updateNotebook_check ::
    "notes_db \<Rightarrow> uuid \<Rightarrow> UpdateNotebookInput \<Rightarrow> string \<Rightarrow> (nb_error + bool) option" where
  "updateNotebook_check db i input ns =
     (if \<not> userOwnsNotebook db i ns
      then Some (if \<not> notebookExists db i then Inr False else Inl FORBIDDEN)
      else case un_parent input of
        Some (Some p) \<Rightarrow>
          if \<not> notebookExists db p then Some (Inl Parent_notebook_not_found)
          else map_option (\<lambda>circular. if circular then Inl Circular else Inr True)
                 (wouldCreateCircularReference db i p)
      | _ \<Rightarrow> Some (Inr True))"

definition updateNotebook_write ::
    "(string \<Rightarrow> int) \<Rightarrow> uuid \<Rightarrow> UpdateNotebookInput \<Rightarrow> string \<Rightarrow> notes_db \<Rightarrow> notebook_view option \<times> notes_db" where
  "updateNotebook_write rank i input ns db =
     (if no_updates input then (getNotebook rank db i [ns] False False, db)
      else let db' = db\<lparr>notebook_rows := sql_update (\<lambda>r. nb_id r = i \<and> nb_live r) (update_fields input)
                         (notebook_rows db)\<rparr>
           in (map_option (\<lambda>r. mapRowToNotebook r None None None)
                 (find (\<lambda>r. nb_id r = i \<and> nb_live r) (notebook_rows db')), db'))"

definition updateNotebook ::
    "(string \<Rightarrow> int) \<Rightarrow> uuid \<Rightarrow> UpdateNotebookInput \<Rightarrow> string \<Rightarrow> notes_db \<Rightarrow>
       ((nb_error + notebook_view option) \<times> notes_db) option" where
  "updateNotebook rank i input ns db =
     (case updateNotebook_check db i input ns of
        None \<Rightarrow> None
      | Some (Inl e) \<Rightarrow> Some (Inl e, db)
      | Some (Inr False) \<Rightarrow> Some (Inr None, db)
      | Some (Inr True) \<Rightarrow>
          (case updateNotebook_write rank i input ns db of (v, db') \<Rightarrow> Some (Inr v, db')))"

definition setArchived ::
    "bool \<Rightarrow> uuid \<Rightarrow> string \<Rightarrow> notes_db \<Rightarrow> (nb_error + notebook_view option) \<times> notes_db" where
  "setArchived flag i ns db =
     (if \<not> userOwnsNotebook db i ns
      then (if \<not> notebookExists db i then Inr None else Inl FORBIDDEN, db)
      else let db' = db\<lparr>notebook_rows := sql_update (\<lambda>r. nb_id r = i \<and> nb_live r)
                         (\<lambda>r. r\<lparr>nb_is_archived := flag\<rparr>) (notebook_rows db)\<rparr>
           in (Inr (map_option (\<lambda>r. mapRowToNotebook r None None None)
                 (find (\<lambda>r. nb_id r = i \<and> nb_live r) (notebook_rows db'))), db'))"

definition archiveNotebook where "archiveNotebook = setArchived True"
definition unarchiveNotebook where "unarchiveNotebook = setArchived False"

definition release_notes :: "bool \<Rightarrow> millis \<Rightarrow> uuid \<Rightarrow> note_row list \<Rightarrow> note_row list" where
  "release_notes deleteNotes now i =
     sql_update (\<lambda>t. nt_notebook t = Some i \<and> nt_live t)
       (\<lambda>t. if deleteNotes then t\<lparr>nt_deleted_at := Some now\<rparr> else t\<lparr>nt_notebook := None\<rparr>)"

definition deleteNotebook ::
    "millis \<Rightarrow> uuid \<Rightarrow> string \<Rightarrow> bool \<Rightarrow> notes_db \<Rightarrow> (nb_error + bool) \<times> notes_db" where
  "deleteNotebook now i ns deleteNotes db =
     (if \<not> userOwnsNotebook db i ns
      then (if \<not> notebookExists db i then Inl NB_NOT_FOUND else Inl FORBIDDEN, db)
      else
        let released = release_notes deleteNotes now i (note_rows db);
            up = Option.bind (by_key nb_id i (notebook_rows db)) nb_parent;
            moved = sql_update (\<lambda>r. nb_parent r = Some i \<and> nb_live r) (\<lambda>r. r\<lparr>nb_parent := up\<rparr>)
                      (notebook_rows db);
            hit = sql_count (\<lambda>r. nb_id r = i \<and> nb_live r) moved
        in (Inr (0 < hit),
            \<lparr>notebook_rows = sql_update (\<lambda>r. nb_id r = i \<and> nb_live r)
                          (\<lambda>r. r\<lparr>nb_deleted_at := Some now\<rparr>) moved,
             note_rows = released\<rparr>))"

text \<open>Notes are moved or copied one by one; \<open>fresh\<close> gives the identifiers of
  the copies, by the number of notes still to come.\<close>

definition copy_note :: "uuid \<Rightarrow> uuid \<Rightarrow> millis \<Rightarrow> note_row \<Rightarrow> note_row" where
  "copy_note new i now t =
     \<lparr>nt_id = new, nt_notebook = Some i, nt_namespace = nt_namespace t, nt_title = nt_title t,
      nt_content = nt_content t, nt_tags = nt_tags t, nt_visibility = nt_visibility t,
      nt_hide_from_agents = nt_hide_from_agents t, nt_summary = nt_summary t,
      nt_is_pinned = nt_is_pinned t, nt_sort_order = 0, nt_updated_at = now, nt_deleted_at = None\<rparr>"

fun move_notes ::
    "(nat \<Rightarrow> uuid) \<Rightarrow> millis \<Rightarrow> bool \<Rightarrow> uuid \<Rightarrow> string \<Rightarrow> uuid list \<Rightarrow> note_row list \<Rightarrow>
       (uuid list \<times> uuid list) \<times> note_row list" where
  "move_notes fresh now move i ns [] ts = (([], []), ts)"
| "move_notes fresh now move i ns (n # ids) ts =
     (case find (\<lambda>t. nt_id t = n \<and> nt_namespace t = ns \<and> nt_live t) ts of
        None \<Rightarrow>
          (case move_notes fresh now move i ns ids ts of ((moved, failed), ts') \<Rightarrow>
             ((moved, n # failed), ts'))
      | Some t \<Rightarrow>
          let ts1 = (if move
                then sql_update (\<lambda>t. nt_id t = n) (\<lambda>t. t\<lparr>nt_notebook := Some i\<rparr>) ts
                else ts @ [copy_note (fresh (length ids)) i now t])
          in case move_notes fresh now move i ns ids ts1 of ((moved, failed), ts') \<Rightarrow>
             (((if move then n else fresh (length ids)) # moved, failed), ts'))"

definition moveNotesToNotebook ::
    "(nat \<Rightarrow> uuid) \<Rightarrow> millis \<Rightarrow> uuid \<Rightarrow> uuid list \<Rightarrow> bool \<Rightarrow> string \<Rightarrow> notes_db \<Rightarrow>
       (nb_error + uuid list \<times> uuid list) \<times> notes_db" where
  "moveNotesToNotebook fresh now i ids move ns db =
     (if \<not> userOwnsNotebook db i ns
      then (if \<not> notebookExists db i then Inl NB_NOT_FOUND else Inl FORBIDDEN, db)
      else case move_notes fresh now move i ns ids (note_rows db) of
             (result, ts) \<Rightarrow> (Inr result, db\<lparr>note_rows := ts\<rparr>))"

subsection \<open>The tables stay a forest and updates return\<close>

interpretation nb: parent_table nb_id nb_parent update_fields un_parent
  by unfold_locales (simp_all add: update_fields_def)

definition notebook_ids :: "notes_db \<Rightarrow> uuid set" where
  "notebook_ids db = nb_id ` set (notebook_rows db)"

text \<open>No notebook is its own ancestor, and the foreign key holds.\<close>

definition nb_ok :: "notes_db \<Rightarrow> bool" where
  "nb_ok db \<longleftrightarrow> forest nb_id nb_parent (notebook_rows db) \<and>
     (\<forall>r \<in> set (notebook_rows db). \<forall>p. nb_parent r = Some p \<longrightarrow> p \<in> notebook_ids db)"

inductive nb_step :: "(string \<Rightarrow> int) \<Rightarrow> notes_db \<Rightarrow> notes_db \<Rightarrow> bool" for rank where
  create: "fresh \<notin> notebook_ids db \<Longrightarrow> createNotebook fresh input ns db = (res, db') \<Longrightarrow>
    nb_step rank db db'"
| update: "updateNotebook rank i upd ns db = Some (res', db') \<Longrightarrow> nb_step rank db db'"
| archive: "archiveNotebook i ns db = (res', db') \<Longrightarrow> nb_step rank db db'"
| unarchive: "unarchiveNotebook i ns db = (res', db') \<Longrightarrow> nb_step rank db db'"
| delete: "deleteNotebook now i ns deleteNotes db = (flag, db') \<Longrightarrow> nb_step rank db db'"
| move: "moveNotesToNotebook names now i ids mv ns db = (moved, db') \<Longrightarrow> nb_step rank db db'"

inductive nb_reachable :: "(string \<Rightarrow> int) \<Rightarrow> notes_db \<Rightarrow> bool" for rank where
  empty: "nb_reachable rank \<lparr>notebook_rows = [], note_rows = ts\<rparr>"
| step: "nb_reachable rank db \<Longrightarrow> nb_step rank db db' \<Longrightarrow> nb_reachable rank db'"

lemma notebookExists_ids: "notebookExists db p \<Longrightarrow> p \<in> notebook_ids db"
  by (auto simp: notebookExists_def notebook_ids_def sql_exists_iff)

lemma userOwns_ids: "userOwnsNotebook db p ns \<Longrightarrow> p \<in> notebook_ids db"
  by (auto simp: userOwnsNotebook_def notebook_ids_def sql_exists_iff)

lemma circular_iff:
  assumes "nb_ok db"
  shows "wouldCreateCircularReference db i p =
    Some (i = p \<or> i \<in> notebook_ids db \<and>
      (p, i) \<in> (parents nb_id nb_parent (notebook_rows db))\<^sup>*)"
  using assms by (simp add: wouldCreateCircularReference_def nb_ok_def notebook_ids_def in_chain_forest)

lemma update_check_returns: "nb_ok db \<Longrightarrow> \<exists>res. updateNotebook_check db i input ns = Some res"
  by (auto simp: updateNotebook_check_def circular_iff split: option.split)

lemma updateNotebook_returns: "nb_ok db \<Longrightarrow> \<exists>res db'. updateNotebook rank i input ns db = Some (res, db')"
  using update_check_returns [of db i input ns]
  by (auto simp: updateNotebook_def split: sum.split bool.split prod.split)

lemma check_passed:
  assumes "updateNotebook_check db i input ns = Some (Inr True)" "un_parent input = Some (Some p)"
  shows "in_chain nb_id nb_parent (notebook_rows db) i p = Some False" "p \<in> notebook_ids db"
  using assms notebookExists_ids
  by (auto simp: updateNotebook_check_def wouldCreateCircularReference_def split: if_splits)

lemma same_rows_ok:
  assumes "nb_ok db" and "notebook_rows db' = map f (notebook_rows db)"
    and "\<And>r. nb_id (f r) = nb_id r" and "\<And>r. nb_parent (f r) = nb_parent r"
  shows "nb_ok db'"
proof -
  have "parents nb_id nb_parent (map f (notebook_rows db)) = parents nb_id nb_parent (notebook_rows db)"
    by (auto simp: parents_iff assms(3,4))
  then show ?thesis
    using assms by (auto simp: nb_ok_def forest_def notebook_ids_def comp_def image_image)
qed

lemma create_ok:
  assumes "nb_ok db" "fresh \<notin> notebook_ids db" "createNotebook fresh input ns db = (res, db')"
  shows "nb_ok db'"
proof (cases "db' = db")
  case False
  then obtain row where db': "db' = db\<lparr>notebook_rows := notebook_rows db @ [row]\<rparr>"
      and row: "nb_id row = fresh" "nb_parent row = cn_parent input"
      and owned: "\<And>p. cn_parent input = Some p \<Longrightarrow> userOwnsNotebook db p ns"
    using assms(3) by (auto simp: createNotebook_def Let_def split: option.splits if_splits)
  have "nb_parent row \<noteq> Some fresh" using owned row userOwns_ids assms(2) by metis
  then have "forest nb_id nb_parent (notebook_rows db @ [row])"
    using assms(1,2) row by (intro forest_append) (auto simp: nb_ok_def notebook_ids_def)
  then show ?thesis
    using assms(1) owned row userOwns_ids by (fastforce simp: nb_ok_def db' notebook_ids_def)
qed (use assms in simp)

lemma update_ok:
  assumes "nb_ok db" "updateNotebook rank i input ns db = Some (res, db')"
  shows "nb_ok db'"
proof (cases "db' = db")
  case False
  then have check: "updateNotebook_check db i input ns = Some (Inr True)"
      and db': "db' = db\<lparr>notebook_rows := sql_update (\<lambda>r. nb_id r = i \<and> nb_live r) (update_fields input)
        (notebook_rows db)\<rparr>"
    using assms(2)
    by (auto simp: updateNotebook_def updateNotebook_write_def Let_def
        split: option.splits sum.splits bool.splits prod.splits if_splits)
  have "forest nb_id nb_parent (notebook_rows db')"
    using assms(1) check_passed [OF check] unfolding db' nb_ok_def
    by (auto intro!: nb.forest_patched [where c = i])
  moreover have "p \<in> notebook_ids db'" if "r \<in> set (notebook_rows db')" "nb_parent r = Some p" for r p
  proof -
    have ids: "notebook_ids db' = notebook_ids db"
      by (simp add: notebook_ids_def db' image_set nb.idents_patched del: set_map)
    have "(\<exists>q \<in> set (notebook_rows db). nb_parent q = Some p) \<or> un_parent input = Some (Some p)"
      using that by (auto simp: db' set_sql_update split: if_splits option.splits)
    then show ?thesis
      using assms(1) check_passed(2) [OF check] ids by (auto simp: nb_ok_def)
  qed
  ultimately show ?thesis by (simp add: nb_ok_def)
qed (use assms in simp)

lemma delete_ok:
  assumes "nb_ok db" "deleteNotebook now i ns deleteNotes db = (flag, db')"
  shows "nb_ok db'"
proof (cases "db' = db")
  case False
  define up where "up = Option.bind (by_key nb_id i (notebook_rows db)) nb_parent"
  define f where "f r = (let q = (if nb_parent r = Some i \<and> nb_live r then r\<lparr>nb_parent := up\<rparr> else r)
    in if nb_id q = i \<and> nb_live q then q\<lparr>nb_deleted_at := Some now\<rparr> else q)" for r
  have rows: "notebook_rows db' = map f (notebook_rows db)"
    using assms(2) False
    by (auto simp: deleteNotebook_def Let_def sql_update_def f_def up_def split: if_splits)
  have id: "nb_id (f r) = nb_id r" for r by (simp add: f_def Let_def)
  have par: "nb_parent (f r) = nb_parent r \<or> nb_parent r = Some i \<and> nb_parent (f r) = up" for r
    by (simp add: f_def Let_def)
  have up_edge: "(i, p) \<in> parents nb_id nb_parent (notebook_rows db)" if "up = Some p" for p
    using that unfolding up_def parents_iff by (auto simp: bind_eq_Some_conv dest: by_key_SomeD)
  have "forest nb_id nb_parent (notebook_rows db')"
    unfolding rows
  proof (rule forest_sub_parents)
    show "forest nb_id nb_parent (notebook_rows db)" using assms(1) by (simp add: nb_ok_def)
  next
    fix r p assume r: "r \<in> set (notebook_rows db)" "nb_parent (f r) = Some p"
    show "(nb_id r, p) \<in> (parents nb_id nb_parent (notebook_rows db))\<^sup>+"
      using par [of r] r up_edge [of p] parentsI [of r "notebook_rows db" nb_parent]
      by (metis trancl.intros)
  qed (simp add: id)
  moreover have ids: "notebook_ids db' = notebook_ids db"
    by (simp add: notebook_ids_def rows image_image id)
  have "p \<in> notebook_ids db'" if "r \<in> set (notebook_rows db)" "nb_parent (f r) = Some p" for r p
    using par [of r] that assms(1) up_edge [of p] ids
    by (auto simp: nb_ok_def parents_iff)
  ultimately show ?thesis by (auto simp: nb_ok_def rows)
qed (use assms in simp)

lemma setArchived_ok: "nb_ok db \<Longrightarrow> setArchived flag i ns db = (res, db') \<Longrightarrow> nb_ok db'"
proof (cases "db' = db")
  case False
  assume ok: "nb_ok db" and "setArchived flag i ns db = (res, db')"
  with False have "notebook_rows db' =
      map (\<lambda>r. if nb_id r = i \<and> nb_live r then r\<lparr>nb_is_archived := flag\<rparr> else r) (notebook_rows db)"
    by (auto simp: setArchived_def Let_def sql_update_def split: if_splits)
  then show ?thesis by (rule same_rows_ok [OF ok]) simp_all
qed simp

lemma moveNotes_ok:
  "nb_ok db \<Longrightarrow> moveNotesToNotebook names now i ids mv ns db = (res, db') \<Longrightarrow> nb_ok db'"
  by (auto simp: moveNotesToNotebook_def nb_ok_def notebook_ids_def split: if_splits prod.splits)

lemma step_ok: "nb_step rank db db' \<Longrightarrow> nb_ok db \<Longrightarrow> nb_ok db'"
proof (induction rule: nb_step.induct)
  case create then show ?case by (blast intro: create_ok)
next
  case update then show ?case by (blast intro: update_ok)
next
  case archive then show ?case by (auto simp: archiveNotebook_def intro: setArchived_ok)
next
  case unarchive then show ?case by (auto simp: unarchiveNotebook_def intro: setArchived_ok)
next
  case delete then show ?case by (blast intro: delete_ok)
next
  case move then show ?case by (blast intro: moveNotes_ok)
qed

lemma nb_reachable_ok: "nb_reachable rank db \<Longrightarrow> nb_ok db"
proof (induction rule: nb_reachable.induct)
  case (empty ts)
  then show ?case by (simp add: nb_ok_def forest_def parents_def acyclic_def)
qed (rule step_ok)

subsection \<open>The tree\<close>

fun tree_ids :: "NotebookTreeNode \<Rightarrow> uuid list" where
  "tree_ids (Node i name icon color tally cs) = i # concat (map tree_ids cs)"

text \<open>The parent of a row within the view, the rows below a row, and the rows the second pass
  attaches, in the end, below a root.\<close>

definition view_up :: "notebook_row list \<Rightarrow> (uuid \<times> uuid) set" where
  "view_up rows = {(i, p). (i, p) \<in> parents nb_id nb_parent rows \<and> p \<in> nb_id ` set rows}"

definition below :: "notebook_row list \<Rightarrow> uuid \<Rightarrow> uuid set" where
  "below rows i = {m. (m, i) \<in> (view_up rows)\<^sup>*}"

definition rooted :: "notebook_row list \<Rightarrow> uuid set" where
  "rooted rows = {m. \<exists>r \<in> set rows. is_root rows r \<and> (m, nb_id r) \<in> (view_up rows)\<^sup>*}"

lemma single_valued_view: "distinct (map nb_id rows) \<Longrightarrow> single_valued (view_up rows)"
  by (rule single_valued_subset [OF _ single_valued_parents]) (auto simp: view_up_def)

lemma finite_view: "finite (view_up rows)"
  by (rule finite_subset [OF _ finite_parents]) (auto simp: view_up_def)

lemma view_up_child: "c \<in> set (children_of rows (nb_id r)) \<Longrightarrow> r \<in> set rows \<Longrightarrow>
    c \<in> set rows \<and> (nb_id c, nb_id r) \<in> view_up rows"
  by (auto simp: children_of_def view_up_def parents_iff)

lemma view_up_childE:
  assumes "(m, nb_id r) \<in> view_up rows"
  obtains c where "c \<in> set (children_of rows (nb_id r))" "nb_id c = m"
  using assms by (auto simp: children_of_def view_up_def parents_iff)

lemma root_no_up:
  assumes "distinct (map nb_id rows)" "r \<in> set rows" "is_root rows r"
  shows "(nb_id r, p) \<notin> view_up rows"
proof
  assume "(nb_id r, p) \<in> view_up rows"
  then obtain q where "q \<in> set rows" "nb_id q = nb_id r" "nb_parent q = Some p" "p \<in> nb_id ` set rows"
    by (auto simp: view_up_def parents_iff)
  then show False
    using assms distinct_ident_eq [OF assms(1), of q r]
    by (auto simp: is_root_def by_key_None_iff split: option.splits)
qed

lemma view_chain:
  assumes "distinct (map nb_id rows)" "(x, y) \<in> (view_up rows)\<^sup>*" "(x, z) \<in> (view_up rows)\<^sup>*"
  shows "(y, z) \<in> (view_up rows)\<^sup>* \<or> (z, y) \<in> (view_up rows)\<^sup>*"
  using single_valued_confluent [OF single_valued_view] assms by blast

text \<open>Whatever can walk up to a root is on no cycle.\<close>

lemma no_cycle_below_root:
  assumes dist: "distinct (map nb_id rows)" and "(m, i) \<in> (view_up rows)\<^sup>*"
    and "\<And>p. (i, p) \<notin> view_up rows"
  shows "(m, m) \<notin> (view_up rows)\<^sup>+"
  using assms(2)
proof (induction rule: converse_rtrancl_induct)
  case base
  then show ?case using assms(3) by (meson tranclD)
next
  case (step y z)
  show ?case
  proof
    assume "(y, y) \<in> (view_up rows)\<^sup>+"
    then obtain x where "(y, x) \<in> view_up rows" "(x, y) \<in> (view_up rows)\<^sup>*" by (meson tranclD)
    then have "(z, y) \<in> (view_up rows)\<^sup>*"
      using step.hyps(1) single_valuedD [OF single_valued_view [OF dist]] by metis
    then show False using step by (meson rtrancl_into_trancl1)
  qed
qed

lemma below_sub: "(c, i) \<in> view_up rows \<Longrightarrow> below rows c \<subseteq> below rows i"
  by (auto simp: below_def)

lemma below_rows:
  assumes "r \<in> set rows"
  shows "below rows (nb_id r) \<subseteq> nb_id ` set rows"
proof
  fix m
  assume "m \<in> below rows (nb_id r)"
  then have "(m, nb_id r) \<in> (view_up rows)\<^sup>*" by (simp add: below_def)
  then show "m \<in> nb_id ` set rows"
    using assms by (cases rule: converse_rtranclE) (auto simp: view_up_def parents_iff)
qed

lemma below_unfold:
  assumes "r \<in> set rows"
  shows "below rows (nb_id r) =
    insert (nb_id r) (\<Union>c \<in> set (children_of rows (nb_id r)). below rows (nb_id c))"
proof (rule set_eqI, rule iffI)
  fix m
  assume "m \<in> below rows (nb_id r)"
  then have "(m, nb_id r) \<in> (view_up rows)\<^sup>*" by (simp add: below_def)
  then show "m \<in> insert (nb_id r) (\<Union>c \<in> set (children_of rows (nb_id r)). below rows (nb_id c))"
  proof (cases rule: rtranclE)
    case (step y)
    then obtain c where "c \<in> set (children_of rows (nb_id r))" "nb_id c = y"
      by (blast elim: view_up_childE)
    then show ?thesis using step(1) by (auto simp: below_def)
  qed simp
next
  fix m
  assume "m \<in> insert (nb_id r) (\<Union>c \<in> set (children_of rows (nb_id r)). below rows (nb_id c))"
  then consider "m = nb_id r" | c where "c \<in> set (children_of rows (nb_id r))" "m \<in> below rows (nb_id c)"
    by blast
  then show "m \<in> below rows (nb_id r)"
  proof cases
    case 1
    then show ?thesis by (simp add: below_def)
  next
    case 2
    then show ?thesis using below_sub view_up_child [OF 2(1) assms] by blast
  qed
qed

lemma below_disjoint:
  assumes dist: "distinct (map nb_id rows)" and r: "r \<in> set rows"
    and loop: "(nb_id r, nb_id r) \<notin> (view_up rows)\<^sup>+"
    and c: "c \<in> set (children_of rows (nb_id r))" and d: "d \<in> set (children_of rows (nb_id r))"
    and "c \<noteq> d"
  shows "below rows (nb_id c) \<inter> below rows (nb_id d) = {}"
proof -
  have apart: "(nb_id a, nb_id b) \<notin> (view_up rows)\<^sup>*"
    if "a \<in> set (children_of rows (nb_id r))" "b \<in> set (children_of rows (nb_id r))" "a \<noteq> b" for a b
  proof
    assume "(nb_id a, nb_id b) \<in> (view_up rows)\<^sup>*"
    moreover have "nb_id a \<noteq> nb_id b"
      using that view_up_child [OF _ r] distinct_ident_eq [OF dist] by metis
    ultimately obtain x where x: "(nb_id a, x) \<in> view_up rows" "(x, nb_id b) \<in> (view_up rows)\<^sup>*"
      by (metis converse_rtranclE)
    have "x = nb_id r"
      using single_valuedD [OF single_valued_view [OF dist] x(1)] view_up_child [OF that(1) r] by blast
    then show False
      using x(2) view_up_child [OF that(2) r] loop by (meson rtrancl_into_trancl1)
  qed
  then show ?thesis
    using c d \<open>c \<noteq> d\<close> view_chain [OF dist] by (auto simp: below_def) blast
qed

lemma below_child_card:
  assumes "r \<in> set rows" "c \<in> set (children_of rows (nb_id r))"
    and loop: "(nb_id r, nb_id r) \<notin> (view_up rows)\<^sup>+"
  shows "card (below rows (nb_id c)) < card (below rows (nb_id r))"
proof (rule psubset_card_mono)
  show "finite (below rows (nb_id r))"
    using finite_subset [OF below_rows [OF assms(1)]] by simp
  have up: "(nb_id c, nb_id r) \<in> view_up rows" using view_up_child [OF assms(2,1)] by simp
  have "nb_id r \<notin> below rows (nb_id c)"
    using up loop by (auto simp: below_def dest: rtrancl_into_trancl1)
  then show "below rows (nb_id c) \<subset> below rows (nb_id r)"
    using below_sub [OF up] by (auto simp: below_def)
qed

text \<open>Trees built for a list of rows with disjoint sets of rows below them.\<close>

lemma those_map:
  assumes "\<forall>x \<in> set xs. \<exists>t. f x = Some t \<and> P x t"
  shows "\<exists>ts. those (map f xs) = Some ts \<and> list_all2 P xs ts"
  using assms by (induction xs) auto

lemma ids_of_trees:
  assumes "list_all2 (\<lambda>x t. set (tree_ids t) = B x \<and> distinct (tree_ids t)) xs ts"
    and "distinct xs" and "\<forall>a \<in> set xs. \<forall>b \<in> set xs. a \<noteq> b \<longrightarrow> B a \<inter> B b = {}"
  shows "distinct (concat (map tree_ids ts)) \<and> set (concat (map tree_ids ts)) = (\<Union>x \<in> set xs. B x)"
  using assms
proof (induction rule: list_all2_induct)
  case (Cons x xs t ts)
  then have "distinct (concat (map tree_ids ts)) \<and> set (concat (map tree_ids ts)) = (\<Union>x \<in> set xs. B x)"
    by simp
  moreover have "B x \<inter> (\<Union>y \<in> set xs. B y) = {}" using Cons.prems by fastforce
  ultimately show ?case using Cons.hyps by simp
qed simp

lemma cleanNode_spec:
  assumes dist: "distinct (map nb_id rows)"
  shows "r \<in> set rows \<Longrightarrow> (nb_id r, nb_id r) \<notin> (view_up rows)\<^sup>+ \<Longrightarrow>
    card (below rows (nb_id r)) \<le> k \<Longrightarrow>
    \<exists>t. cleanNode k tally rows r = Some t \<and> set (tree_ids t) = below rows (nb_id r) \<and>
      distinct (tree_ids t)"
proof (induction k arbitrary: r)
  case 0
  then have "below rows (nb_id r) = {}"
    using finite_subset [OF below_rows [OF 0(1)]] by simp
  then show ?case by (auto simp: below_def)
next
  case (Suc k)
  let ?cs = "children_of rows (nb_id r)"
  let ?good = "\<lambda>c t. set (tree_ids t) = below rows (nb_id c) \<and> distinct (tree_ids t)"
  have "\<exists>t. cleanNode k tally rows c = Some t \<and> ?good c t" if "c \<in> set ?cs" for c
  proof (rule Suc.IH)
    have up: "(nb_id c, nb_id r) \<in> view_up rows" "c \<in> set rows"
      using view_up_child [OF that Suc.prems(1)] by simp_all
    then show "c \<in> set rows" by simp
    show "(nb_id c, nb_id c) \<notin> (view_up rows)\<^sup>+"
    proof
      assume "(nb_id c, nb_id c) \<in> (view_up rows)\<^sup>+"
      then obtain x where "(nb_id c, x) \<in> view_up rows" "(x, nb_id c) \<in> (view_up rows)\<^sup>*"
        by (meson tranclD)
      then have "(nb_id r, nb_id c) \<in> (view_up rows)\<^sup>*"
        using single_valuedD [OF single_valued_view [OF dist] up(1)] by metis
      then show False using up(1) Suc.prems(2) by (meson rtrancl_into_trancl1)
    qed
    show "card (below rows (nb_id c)) \<le> k"
      using below_child_card [OF Suc.prems(1) that Suc.prems(2)] Suc.prems(3) by simp
  qed
  then obtain ts where ts: "those (map (cleanNode k tally rows) ?cs) = Some ts" "list_all2 ?good ?cs ts"
    using those_map [of ?cs "cleanNode k tally rows" ?good] by blast
  have "distinct ?cs" using dist by (simp add: children_of_def distinct_map)
  then have ids: "distinct (concat (map tree_ids ts))"
      "set (concat (map tree_ids ts)) = (\<Union>c \<in> set ?cs. below rows (nb_id c))"
    using ids_of_trees [OF ts(2)] below_disjoint [OF dist Suc.prems(1,2)] by blast+
  have "nb_id r \<notin> below rows (nb_id c)" if "c \<in> set ?cs" for c
    using view_up_child [OF that Suc.prems(1)] Suc.prems(2)
    by (auto simp: below_def dest: rtrancl_into_trancl1)
  then show ?case
    using ts(1) ids below_unfold [OF Suc.prems(1)] by auto
qed

lemma tree_spec:
  assumes dist: "distinct (map nb_id rows)"
  shows "\<exists>ts. those (map (cleanNode (length rows) tally rows) (filter (is_root rows) rows)) = Some ts \<and>
    distinct (concat (map tree_ids ts)) \<and> set (concat (map tree_ids ts)) = rooted rows"
proof -
  let ?good = "\<lambda>r t. set (tree_ids t) = below rows (nb_id r) \<and> distinct (tree_ids t)"
  let ?roots = "filter (is_root rows) rows"
  have one: "\<exists>t. cleanNode (length rows) tally rows r = Some t \<and> ?good r t" if "r \<in> set ?roots" for r
  proof (rule cleanNode_spec [OF dist])
    show "r \<in> set rows" using that by simp
    show "(nb_id r, nb_id r) \<notin> (view_up rows)\<^sup>+"
      using root_no_up [OF dist] that by (intro no_cycle_below_root [OF dist rtrancl_refl]) auto
    have "card (below rows (nb_id r)) \<le> card (nb_id ` set rows)"
      using that by (intro card_mono below_rows) auto
    also have "\<dots> \<le> length rows" by (meson card_image_le card_length finite_set le_trans)
    finally show "card (below rows (nb_id r)) \<le> length rows" .
  qed
  then obtain ts where ts: "those (map (cleanNode (length rows) tally rows) ?roots) = Some ts"
      "list_all2 ?good ?roots ts"
    using those_map [of ?roots "cleanNode (length rows) tally rows" ?good] by blast
  have "below rows (nb_id a) \<inter> below rows (nb_id b) = {}"
    if "a \<in> set ?roots" "b \<in> set ?roots" "a \<noteq> b" for a b
  proof -
    have "nb_id a \<noteq> nb_id b" using that distinct_ident_eq [OF dist, of a b] by auto
    then have "(nb_id a, nb_id b) \<notin> (view_up rows)\<^sup>*" "(nb_id b, nb_id a) \<notin> (view_up rows)\<^sup>*"
      using root_no_up [OF dist] that by (auto elim: converse_rtranclE)
    then show ?thesis using view_chain [OF dist] unfolding below_def by blast
  qed
  moreover have "distinct ?roots" using dist by (simp add: distinct_map)
  moreover have "(\<Union>r \<in> set ?roots. below rows (nb_id r)) = rooted rows"
    by (auto simp: rooted_def below_def)
  ultimately show ?thesis using ts ids_of_trees [OF ts(2)] by metis
qed

lemma rooted_all:
  assumes "acyclic (view_up rows)"
  shows "rooted rows = nb_id ` set rows"
proof
  show "rooted rows \<subseteq> nb_id ` set rows"
    using below_rows by (fastforce simp: rooted_def below_def)
  have "m \<in> nb_id ` set rows \<longrightarrow> m \<in> rooted rows" for m
  proof (induction m rule: wf_induct_rule [OF finite_acyclic_wf_converse [OF finite_view assms]])
    case (1 m)
    show ?case
    proof
      assume "m \<in> nb_id ` set rows"
      then obtain r where r: "r \<in> set rows" "nb_id r = m" by blast
      show "m \<in> rooted rows"
      proof (cases "is_root rows r")
        case True
        then show ?thesis using r by (auto simp: rooted_def)
      next
        case False
        then obtain p where "nb_parent r = Some p" "p \<in> nb_id ` set rows"
          by (auto simp: is_root_def dest: by_key_SomeD split: option.splits)
        then have up: "(m, p) \<in> view_up rows" using r by (auto simp: view_up_def parents_iff)
        then have "p \<in> rooted rows" using 1 \<open>p \<in> nb_id ` set rows\<close> by simp
        then show ?thesis using up by (auto simp: rooted_def intro: converse_rtrancl_into_rtrancl)
      qed
    qed
  qed
  then show "nb_id ` set rows \<subseteq> rooted rows" by blast
qed

lemma set_tree_view:
  "r \<in> set (tree_view rank db nss) \<longleftrightarrow>
     r \<in> set (notebook_rows db) \<and> nb_namespace r \<in> set nss \<and> nb_live r \<and> \<not> nb_is_archived r"
  by (auto simp: tree_view_def by_sort_order_def)

lemma distinct_tree_view:
  assumes "distinct (map nb_id (notebook_rows db))"
  shows "distinct (map nb_id (tree_view rank db nss))"
proof -
  have "inj_on nb_id (set (tree_view rank db nss))"
    using assms by (auto simp: distinct_map inj_on_def set_tree_view)
  then show ?thesis
    using assms by (simp add: distinct_map tree_view_def by_sort_order_def)
qed

lemma getNotebooksTree_rooted:
  assumes "distinct (map nb_id (notebook_rows db))"
  shows "\<exists>ts. getNotebooksTree rank db nss counts = Some ts \<and>
    distinct (concat (map tree_ids ts)) \<and>
    set (concat (map tree_ids ts)) = rooted (tree_view rank db nss)"
  using tree_spec [OF distinct_tree_view [OF assms]] by (simp add: getNotebooksTree_def Let_def)

subsection \<open>Properties\<close>

text \<open>
  C26. Whatever operations ran to completion, one after the other, no notebook is its own
  ancestor; the query of an update returns and finds exactly the ancestors of the new parent, so
  every update returns, and the tables it leaves are a forest again.\<close>

theorem notebook_updates_return:
  assumes "nb_reachable rank db"
  shows "forest nb_id nb_parent (notebook_rows db) \<and>
    wouldCreateCircularReference db i p =
      Some (i = p \<or> i \<in> notebook_ids db \<and> (p, i) \<in> (parents nb_id nb_parent (notebook_rows db))\<^sup>*) \<and>
    (\<exists>res db'. updateNotebook rank i input ns db = Some (res, db') \<and>
       forest nb_id nb_parent (notebook_rows db'))"
proof -
  have ok: "nb_ok db" by (rule nb_reachable_ok [OF assms])
  obtain res db' where run: "updateNotebook rank i input ns db = Some (res, db')"
    using updateNotebook_returns [OF ok] by blast
  then have "nb_ok db'" by (rule update_ok [OF ok])
  then show ?thesis using ok run circular_iff [OF ok] by (auto simp: nb_ok_def)
qed

text \<open>
  The recursion that builds the tree returns, and after any operations run one after the
  other the tree shows every live, unarchived notebook of the namespaces exactly once.\<close>

theorem notebook_tree_complete:
  assumes "nb_reachable rank db"
  shows "\<exists>ts. getNotebooksTree rank db nss counts = Some ts \<and>
    mset (concat (map tree_ids ts)) =
      mset (map nb_id (filter (\<lambda>r. nb_namespace r \<in> set nss \<and> nb_live r \<and> \<not> nb_is_archived r)
        (notebook_rows db)))"
proof -
  have ok: "forest nb_id nb_parent (notebook_rows db)"
    using nb_reachable_ok [OF assms] by (simp add: nb_ok_def)
  then have dist: "distinct (map nb_id (notebook_rows db))" by (simp add: forest_def)
  let ?rows = "tree_view rank db nss"
  have "view_up ?rows \<subseteq> parents nb_id nb_parent (notebook_rows db)"
    by (auto simp: view_up_def parents_iff set_tree_view)
  then have "rooted ?rows = nb_id ` set ?rows"
    using ok by (intro rooted_all) (auto simp: forest_def intro: acyclic_subset)
  then obtain ts where "getNotebooksTree rank db nss counts = Some ts"
      and "distinct (concat (map tree_ids ts))" "set (concat (map tree_ids ts)) = set (map nb_id ?rows)"
    using getNotebooksTree_rooted [OF dist] by (metis list.set_map)
  moreover from this have "mset (concat (map tree_ids ts)) = mset (map nb_id ?rows)"
    using distinct_tree_view [OF dist] set_eq_iff_mset_eq_distinct by blast
  ultimately show ?thesis by (auto simp: tree_view_def by_sort_order_def)
qed

text \<open>
  Check and write of an update are separate statements: when two updates that file two
  notebooks in each other are both checked before either writes, both succeed, the two notebooks
  are gone from the tree although they are live, and any later update that files a notebook in one
  of them never returns.\<close>

theorem crossed_updates_lose_notebooks:
  assumes reach: "nb_reachable rank db" and "a \<noteq> b"
    and checks: "updateNotebook_check db a u ns = Some (Inr True)"
      "updateNotebook_check db b v ns = Some (Inr True)"
    and u: "un_parent u = Some (Some b)" and v: "un_parent v = Some (Some a)"
    and seen: "{a, b} \<subseteq> nb_id ` set (tree_view rank db nss)"
    and after: "db' = snd (updateNotebook_write rank b v ns (snd (updateNotebook_write rank a u ns db)))"
    and w: "c \<notin> {a, b}" "userOwnsNotebook db' c ns" "un_parent w = Some (Some a)"
  shows "{a, b} \<subseteq> nb_id ` set (tree_view rank db' nss) \<and>
    (\<exists>ts. getNotebooksTree rank db' nss counts = Some ts \<and>
      a \<notin> set (concat (map tree_ids ts)) \<and> b \<notin> set (concat (map tree_ids ts))) \<and>
    updateNotebook rank c w ns db' = None"
proof -
  let ?P = "\<lambda>i r. nb_id r = i \<and> nb_live r"
  have dist: "distinct (map nb_id (notebook_rows db))"
    using nb_reachable_ok [OF reach] by (simp add: nb_ok_def forest_def)
  obtain ra rb where ra: "ra \<in> set (tree_view rank db nss)" "nb_id ra = a"
      and rb: "rb \<in> set (tree_view rank db nss)" "nb_id rb = b"
    using seen by auto
  have find: "by_key nb_id a (notebook_rows db) = Some ra" "by_key nb_id b (notebook_rows db) = Some rb"
    using ra rb by (simp_all add: by_key_Some_iff [OF dist] set_tree_view)
  have rows: "notebook_rows db' = sql_update (?P b) (update_fields v)
      (sql_update (?P a) (update_fields u) (notebook_rows db))"
    using u v by (simp add: after updateNotebook_write_def no_updates_def Let_def)
  have live: "?P a ra" "?P b rb" using ra rb by (simp_all add: set_tree_view)
  note crossed = nb.crossed_patches [where P = "?P a" and Q = "?P b",
      OF dist find(1) live(1) find(2) live(2) conjunct1 conjunct1 \<open>a \<noteq> b\<close> u v rows]
  have dist': "distinct (map nb_id (notebook_rows db'))" using dist rows by simp
  have in': "update_fields u ra \<in> set (tree_view rank db' nss)"
      "update_fields v rb \<in> set (tree_view rank db' nss)"
    using crossed(1,2) ra rb by (auto simp: set_tree_view update_fields_def dest!: by_key_SomeD)
  moreover have id': "nb_id (update_fields u ra) = a" "nb_id (update_fields v rb) = b"
    using ra rb by (simp_all add: update_fields_def)
  ultimately have seen': "{a, b} \<subseteq> nb_id ` set (tree_view rank db' nss)"
    by (metis (no_types) empty_subsetI image_eqI insert_subset)
  have edges: "(a, b) \<in> view_up (tree_view rank db' nss)" "(b, a) \<in> view_up (tree_view rank db' nss)"
    using parentsI [OF in'(1), of nb_parent b nb_id] parentsI [OF in'(2), of nb_parent a nb_id]
      seen' id' u v by (auto simp: view_up_def)
  have "x \<notin> rooted (tree_view rank db' nss)" if "(x, x) \<in> (view_up (tree_view rank db' nss))\<^sup>+" for x
    using no_cycle_below_root [OF distinct_tree_view [OF dist']] root_no_up [OF distinct_tree_view [OF dist']] that
    by (auto simp: rooted_def)
  then have "a \<notin> rooted (tree_view rank db' nss)" "b \<notin> rooted (tree_view rank db' nss)"
    using edges by (meson trancl.intros)+
  moreover have "updateNotebook rank c w ns db' = None"
  proof -
    have "notebookExists db' a"
      using in'(1) id'(1) unfolding notebookExists_def sql_exists_iff set_tree_view by blast
    then show ?thesis
      using w crossed(4) [where goal = c and n = a] by (simp add: updateNotebook_def updateNotebook_check_def wouldCreateCircularReference_def)
  qed
  ultimately show ?thesis
    using seen' getNotebooksTree_rooted [OF dist', of rank nss counts] by auto
qed

subsection \<open>Witnesses\<close>

definition plain_input :: "string \<Rightarrow> CreateNotebookInput" where
  "plain_input name = \<lparr>cn_name = name, cn_description = None, cn_icon = None, cn_color = None, cn_parent = None\<rparr>"

definition file_under :: "uuid \<Rightarrow> UpdateNotebookInput" where
  "file_under p = \<lparr>un_name = None, un_description = None, un_icon = None, un_color = None,
     un_parent = Some (Some p), un_sort_order = None\<rparr>"

definition add_notebook :: "uuid \<Rightarrow> notes_db \<Rightarrow> notes_db" where
  "add_notebook i db = snd (createNotebook i (plain_input i) ''home'' db)"

definition three_notebooks :: notes_db where
  "three_notebooks = add_notebook ''c'' (add_notebook ''b'' (add_notebook ''a''
     \<lparr>notebook_rows = [], note_rows = []\<rparr>))"

lemmas add_notebook_simps = add_notebook_def createNotebook_def plain_input_def Let_def

lemma add_notebook_reachable:
  "nb_reachable rank db \<Longrightarrow> i \<notin> notebook_ids db \<Longrightarrow> nb_reachable rank (add_notebook i db)"
  unfolding add_notebook_def
  by (rule nb_reachable.step, assumption, rule nb_step.create [OF _ prod.collapse [symmetric]])

lemma three_notebooks_reachable: "nb_reachable rank three_notebooks"
  unfolding three_notebooks_def
  by (intro add_notebook_reachable nb_reachable.empty) (simp_all add: add_notebook_simps notebook_ids_def)

text \<open>Two notebooks filed side by side, then one under the other.\<close>

theorem notebook_updates_return_witness:
  "\<exists>res db'. updateNotebook (\<lambda>_. 0) ''a'' (file_under ''b'') ''home'' three_notebooks = Some (res, db') \<and>
     forest nb_id nb_parent (notebook_rows db')"
  using notebook_updates_return [OF three_notebooks_reachable] by blast

theorem notebook_tree_complete_witness:
  "\<exists>ts. getNotebooksTree (\<lambda>_. 0) three_notebooks [''home''] False = Some ts \<and>
     mset (concat (map tree_ids ts)) = {#''a'', ''b'', ''c''#}"
  using notebook_tree_complete [OF three_notebooks_reachable, of "\<lambda>_. 0" "[''home'']" False]
  by (simp add: three_notebooks_def add_notebook_simps)

theorem crossed_updates_lose_notebooks_witness:
  "let db' = snd (updateNotebook_write (\<lambda>_. 0) ''b'' (file_under ''a'') ''home''
         (snd (updateNotebook_write (\<lambda>_. 0) ''a'' (file_under ''b'') ''home'' three_notebooks)))
   in updateNotebook (\<lambda>_. 0) ''c'' (file_under ''a'') ''home'' db' = None"
  unfolding Let_def
proof (rule conjunct2 [OF conjunct2 [OF crossed_updates_lose_notebooks
    [OF three_notebooks_reachable _ _ _ _ _ _ refl]]])
  show "updateNotebook_check three_notebooks ''a'' (file_under ''b'') ''home'' = Some (Inr True)"
    "updateNotebook_check three_notebooks ''b'' (file_under ''a'') ''home'' = Some (Inr True)"
    by (simp_all add: updateNotebook_check_def file_under_def userOwnsNotebook_def notebookExists_def
        wouldCreateCircularReference_def in_chain.simps by_key_def three_notebooks_def add_notebook_simps
        sql_exists_def)
  show "{''a'', ''b''} \<subseteq> nb_id ` set (tree_view (\<lambda>_. 0) three_notebooks [''home''])"
    by (simp add: tree_view_def by_sort_order_def three_notebooks_def add_notebook_simps)
  show "userOwnsNotebook (snd (updateNotebook_write (\<lambda>_. 0) ''b'' (file_under ''a'') ''home''
         (snd (updateNotebook_write (\<lambda>_. 0) ''a'' (file_under ''b'') ''home'' three_notebooks)))) ''c'' ''home''"
    by (simp add: userOwnsNotebook_def sql_exists_def updateNotebook_write_def no_updates_def file_under_def
        three_notebooks_def add_notebook_simps sql_update_def update_fields_def)
qed (simp_all add: file_under_def)

end
