(* ===== verification/WorkItems.thy ===== *)
theory WorkItems
  imports Forest Namespaces
begin

text \<open>
  The hierarchy of work items: \<open>src/api/hierarchy-validation.ts\<close>, the trigger that repeats its
  rules in the database (\<open>migrations/154_consolidate_hierarchy_columns.up.sql\<close>), and the
  endpoints of \<open>src/api/server.ts\<close> that change the kind, the parent, the position and the
  namespace of an item. A statement that names the kind, the parent or the namespace of a row runs the trigger for
  each row it changes, in the order the database visits them, and each run sees the rows changed
  before it. The trigger walks to the ancestors with \<open>in_chain\<close> of theory Forest, so these
  operations have type \<open>option\<close>: \<open>None\<close> is a request that does not return.

  The legacy columns \<open>kind\<close> and \<open>parent_id\<close>, which another trigger keeps equal to the ones
  modelled, the titles and the times of change are left out.
\<close>

subsection \<open>Kinds and their rules\<close>

datatype WorkItemKind = Project | Initiative | Epic | Issue | Task | WList

definition VALID_KINDS :: "string list" where
  "VALID_KINDS = [''project'', ''initiative'', ''epic'', ''issue'', ''task'', ''list'']"

definition isValidWorkItemKind :: "string \<Rightarrow> bool" where
  "isValidWorkItemKind kind = List.member VALID_KINDS kind"

definition kind_of_name :: "string \<Rightarrow> WorkItemKind option" where
  "kind_of_name kind = map_of (zip VALID_KINDS [Project, Initiative, Epic, Issue, Task, WList]) kind"

datatype hierarchy_error = Child_under_list | Project_has_parent | List_has_parent
  | Initiative_parent | Epic_parent | Issue_parent

text \<open>The error of a check, \<open>None\<close> for a valid pair.\<close>

definition validateHierarchy :: "WorkItemKind \<Rightarrow> WorkItemKind option \<Rightarrow> hierarchy_error option" where
  "validateHierarchy childKind parentKind =
     (if parentKind = Some WList then Some Child_under_list
      else case childKind of
        Project \<Rightarrow> if parentKind \<noteq> None then Some Project_has_parent else None
      | WList \<Rightarrow> if parentKind \<noteq> None then Some List_has_parent else None
      | Initiative \<Rightarrow>
          if parentKind \<noteq> None \<and> parentKind \<noteq> Some Project then Some Initiative_parent else None
      | Epic \<Rightarrow> if parentKind \<noteq> Some Initiative then Some Epic_parent else None
      | Issue \<Rightarrow> if parentKind \<noteq> None \<and> parentKind \<noteq> Some Epic then Some Issue_parent else None
      | Task \<Rightarrow> None)"

subsection \<open>The table and its trigger\<close>

record work_row =
  wk_id :: uuid
  wk_kind :: WorkItemKind
  wk_parent :: "uuid option"
  wk_namespace :: string
  wk_sort :: int
  wk_deleted :: bool

text \<open>What an \<open>UPDATE\<close> of the endpoints sets.\<close>

record work_patch =
  wp_kind :: "WorkItemKind option"
  wp_parent :: "uuid option option"
  wp_namespace :: "string option"
  wp_sort :: "int option"

definition apply_patch :: "work_patch \<Rightarrow> work_row \<Rightarrow> work_row" where
  "apply_patch u r = r
     \<lparr>wk_kind := (case wp_kind u of None \<Rightarrow> wk_kind r | Some x \<Rightarrow> x),
      wk_parent := (case wp_parent u of None \<Rightarrow> wk_parent r | Some x \<Rightarrow> x),
      wk_namespace := (case wp_namespace u of None \<Rightarrow> wk_namespace r | Some x \<Rightarrow> x),
      wk_sort := (case wp_sort u of None \<Rightarrow> wk_sort r | Some x \<Rightarrow> x)\<rparr>"

interpretation wk: parent_table wk_id wk_parent apply_patch wp_parent
  by unfold_locales (simp_all add: apply_patch_def)

datatype db_error = Exc_project | Exc_list | Exc_no_parent | Exc_initiative | Exc_epic_root
  | Exc_namespace | Exc_under_list | Exc_epic | Exc_issue | Exc_cycle

definition validate_work_item_hierarchy ::
    "work_row list \<Rightarrow> work_row \<Rightarrow> (db_error + unit) option" where
  "validate_work_item_hierarchy rows new =
     (let parent = Option.bind (wk_parent new) (\<lambda>p. by_key wk_id p rows) in
      if wk_kind new = Project \<and> wk_parent new \<noteq> None then Some (Inl Exc_project)
      else if wk_kind new = WList \<and> wk_parent new \<noteq> None then Some (Inl Exc_list)
      else if wk_kind new = Initiative \<and> wk_parent new \<noteq> None \<and> parent = None
        then Some (Inl Exc_no_parent)
      else if wk_kind new = Initiative \<and> wk_parent new \<noteq> None \<and> map_option wk_kind parent \<noteq> Some Project
        then Some (Inl Exc_initiative)
      else if wk_kind new = Epic \<and> wk_parent new = None then Some (Inl Exc_epic_root)
      else case wk_parent new of None \<Rightarrow> Some (Inr ())
      | Some p \<Rightarrow>
          (case parent of None \<Rightarrow> Some (Inl Exc_no_parent)
           | Some q \<Rightarrow>
               if wk_namespace q \<noteq> wk_namespace new then Some (Inl Exc_namespace)
               else if wk_kind q = WList then Some (Inl Exc_under_list)
               else if wk_kind new = Epic \<and> wk_kind q \<noteq> Initiative then Some (Inl Exc_epic)
               else if wk_kind new = Issue \<and> wk_kind q \<noteq> Epic then Some (Inl Exc_issue)
               else map_option (\<lambda>found. if found then Inl Exc_cycle else Inr ())
                      (in_chain wk_id wk_parent rows (wk_id new) p)))"

text \<open>One statement over the rows with the given identifiers, in the order they are visited; an
  exception undoes the statement.\<close>

fun patch_rows :: "work_patch \<Rightarrow> uuid list \<Rightarrow> work_row list \<Rightarrow> (db_error + work_row list) option" where
  "patch_rows u [] rows = Some (Inr rows)"
| "patch_rows u (i # ids) rows =
     (case by_key wk_id i rows of
        None \<Rightarrow> patch_rows u ids rows
      | Some r \<Rightarrow>
          (case validate_work_item_hierarchy rows (apply_patch u r) of
             None \<Rightarrow> None
           | Some (Inl e) \<Rightarrow> Some (Inl e)
           | Some (Inr _) \<Rightarrow> patch_rows u ids (sql_update (\<lambda>q. wk_id q = i) (apply_patch u) rows)))"

subsection \<open>Changing kind and parent\<close>

text \<open>Who asks, and whether the item is there for them to write.\<close>

record caller =
  ca_env :: jwt_env
  ca_context :: "NamespaceContext option"
  ca_request :: request

definition entity_of :: "work_row \<Rightarrow> entity_row" where
  "entity_of r = \<lparr>en_id = wk_id r, en_namespace = wk_namespace r, en_deleted = wk_deleted r\<rparr>"

definition writable :: "caller \<Rightarrow> uuid \<Rightarrow> work_row list \<Rightarrow> bool" where
  "writable ca i rows =
     verifyWriteScope (ca_env ca) (ca_context ca) (ca_request ca) False i (map entity_of rows)"

text \<open>Replies: 404, 400 with its reason, 500 for an exception of the database, 200 with the row.\<close>

datatype wk_bad = Kind_required | Kind_invalid | Parent_not_found | Other_namespace
  | Hierarchy hierarchy_error | Own_parent | After_not_found | After_elsewhere
  | Position_required | One_position | Target_not_found | Not_a_sibling

datatype wk_reply = Not_found | Bad wk_bad | Server_error db_error | Ok work_row

abbreviation refuse :: "wk_bad \<Rightarrow> work_row list \<Rightarrow> (wk_reply \<times> work_row list) option" where
  "refuse e rows \<equiv> Some (Bad e, rows)"

definition reply_of_patch ::
    "uuid \<Rightarrow> work_row list \<Rightarrow> (db_error + work_row list) option \<Rightarrow> (wk_reply \<times> work_row list) option" where
  "reply_of_patch i rows outcome =
     map_option (\<lambda>res. case res of
         Inl e \<Rightarrow> (Server_error e, rows)
       | Inr rows' \<Rightarrow> (case by_key wk_id i rows' of None \<Rightarrow> (Not_found, rows) | Some r \<Rightarrow> (Ok r, rows')))
       outcome"

definition check_parent ::
    "work_row list \<Rightarrow> string option \<Rightarrow> WorkItemKind \<Rightarrow> uuid option \<Rightarrow> wk_bad option" where
  "check_parent rows ns kind parent =
     (case parent of
        None \<Rightarrow> map_option Hierarchy (validateHierarchy kind None)
      | Some p \<Rightarrow>
          (case by_key wk_id p rows of
             None \<Rightarrow> Some Parent_not_found
           | Some q \<Rightarrow>
               if ns \<noteq> None \<and> ns \<noteq> Some (wk_namespace q) then Some Other_namespace
               else map_option Hierarchy (validateHierarchy kind (Some (wk_kind q)))))"

definition patch_hierarchy ::
    "caller \<Rightarrow> string option \<Rightarrow> uuid option \<Rightarrow> uuid \<Rightarrow> work_row list \<Rightarrow> (wk_reply \<times> work_row list) option" where
  "patch_hierarchy ca body_kind parent i rows =
     (case env_set body_kind of
        None \<Rightarrow> refuse Kind_required rows
      | Some name \<Rightarrow>
          (case kind_of_name name of
             None \<Rightarrow> refuse Kind_invalid rows
           | Some kind \<Rightarrow>
               if \<not> writable ca i rows then Some (Not_found, rows)
               else case check_parent rows (map_option wk_namespace (by_key wk_id i rows)) kind parent of
                 Some e \<Rightarrow> refuse e rows
               | None \<Rightarrow> reply_of_patch i rows
                   (patch_rows \<lparr>wp_kind = Some kind, wp_parent = Some parent, wp_namespace = None, wp_sort = None\<rparr>
                      [i] rows)))"

subsection \<open>Moving under another parent\<close>

definition siblings :: "work_row list \<Rightarrow> uuid option \<Rightarrow> uuid \<Rightarrow> work_row list" where
  "siblings rows p i = filter (\<lambda>r. wk_parent r = p \<and> wk_id r \<noteq> i) rows"

definition next_sort :: "work_row list \<Rightarrow> int \<Rightarrow> int option" where
  "next_sort rows s = (case sort (filter (\<lambda>x. s < x) (map wk_sort rows)) of [] \<Rightarrow> None | x # _ \<Rightarrow> Some x)"

definition max_sort :: "work_row list \<Rightarrow> int" where
  "max_sort rows = (if rows = [] then 0 else Max (set (map wk_sort rows)))"

text \<open>The position: last, or after a sibling, half-way to the next one.\<close>

definition reparent_sort :: "work_row list \<Rightarrow> uuid option \<Rightarrow> uuid option \<Rightarrow> uuid \<Rightarrow> wk_bad + int" where
  "reparent_sort rows p after i =
     (case after of
        None \<Rightarrow> Inr (max_sort (siblings rows p i) + 1000)
      | Some a \<Rightarrow>
          (case by_key wk_id a rows of
             None \<Rightarrow> Inl After_not_found
           | Some t \<Rightarrow>
               if wk_parent t \<noteq> p then Inl After_elsewhere
               else Inr (case next_sort (siblings rows p i) (wk_sort t) of
                   None \<Rightarrow> wk_sort t + 1000
                 | Some nextOrder \<Rightarrow>
                     let s = (wk_sort t + nextOrder) div 2
                     in if s = wk_sort t then wk_sort t + 500 else s)))"

definition reparent ::
    "caller \<Rightarrow> uuid option \<Rightarrow> uuid option \<Rightarrow> uuid \<Rightarrow> work_row list \<Rightarrow> (wk_reply \<times> work_row list) option" where
  "reparent ca p after i rows =
     (if \<not> writable ca i rows then Some (Not_found, rows)
      else case by_key wk_id i rows of
        None \<Rightarrow> Some (Not_found, rows)
      | Some item \<Rightarrow>
          if p = Some i then refuse Own_parent rows
          else (case check_parent rows (Some (wk_namespace item)) (wk_kind item) p of
              Some e \<Rightarrow> refuse e rows
            | None \<Rightarrow>
                (case reparent_sort rows p after i of
                   Inl e \<Rightarrow> refuse e rows
                 | Inr s \<Rightarrow> reply_of_patch i rows
                     (patch_rows \<lparr>wp_kind = None, wp_parent = Some p, wp_namespace = None, wp_sort = Some s\<rparr>
                        [i] rows))))"

subsection \<open>The invariant of the table\<close>

definition link_ok :: "work_row list \<Rightarrow> work_row \<Rightarrow> bool" where
  "link_ok rows r = (check_parent rows (Some (wk_namespace r)) (wk_kind r) (wk_parent r) = None)"

definition wk_ok :: "work_row list \<Rightarrow> bool" where
  "wk_ok rows \<longleftrightarrow> forest wk_id wk_parent rows \<and> (\<forall>r \<in> set rows. link_ok rows r)"

lemma link_ok_root: "wk_parent r = None \<Longrightarrow> link_ok rows r \<longleftrightarrow> validateHierarchy (wk_kind r) None = None"
  by (simp add: link_ok_def check_parent_def)

lemma link_ok_parent:
  "wk_parent r = Some p \<Longrightarrow> link_ok rows r \<longleftrightarrow>
     (\<exists>q. by_key wk_id p rows = Some q \<and> wk_namespace q = wk_namespace r \<and>
        validateHierarchy (wk_kind r) (Some (wk_kind q)) = None)"
  by (auto simp: link_ok_def check_parent_def split: option.splits)

text \<open>The rules of the trigger and of \<open>validateHierarchy\<close>, kind by kind.\<close>

lemma validateHierarchy_root: "validateHierarchy k None = None \<longleftrightarrow> k \<noteq> Epic"
  by (cases k) (simp_all add: validateHierarchy_def)

lemma validateHierarchy_under:
  "validateHierarchy k (Some q) = None \<longleftrightarrow>
     q \<noteq> WList \<and> k \<noteq> Project \<and> k \<noteq> WList \<and> (k = Initiative \<longrightarrow> q = Project) \<and>
     (k = Epic \<longrightarrow> q = Initiative) \<and> (k = Issue \<longrightarrow> q = Epic)"
  by (cases k) (auto simp: validateHierarchy_def)

definition on_cycle :: "work_row list \<Rightarrow> work_row \<Rightarrow> bool" where
  "on_cycle rows new \<longleftrightarrow> wk_id new \<in> wk_id ` set rows \<and>
     (\<exists>p. wk_parent new = Some p \<and> (p, wk_id new) \<in> (parents wk_id wk_parent rows)\<^sup>*)"

lemma trigger_returns:
  "forest wk_id wk_parent rows \<Longrightarrow> \<exists>res. validate_work_item_hierarchy rows new = Some res"
  by (simp add: validate_work_item_hierarchy_def Let_def in_chain_forest split: option.split)

lemma trigger_accepts:
  assumes "forest wk_id wk_parent rows"
  shows "validate_work_item_hierarchy rows new = Some (Inr ()) \<longleftrightarrow> link_ok rows new \<and> \<not> on_cycle rows new"
proof (cases "wk_parent new")
  case None
  then show ?thesis
    by (auto simp: validate_work_item_hierarchy_def link_ok_root validateHierarchy_root on_cycle_def)
next
  case (Some p)
  show ?thesis
  proof (cases "by_key wk_id p rows")
    case None
    then show ?thesis using Some by (simp add: validate_work_item_hierarchy_def link_ok_parent)
  next
    fix q assume q: "by_key wk_id p rows = Some q"
    have link: "link_ok rows new \<longleftrightarrow>
        wk_namespace q = wk_namespace new \<and> validateHierarchy (wk_kind new) (Some (wk_kind q)) = None"
      using Some q by (simp add: link_ok_parent)
    have cycle: "on_cycle rows new \<longleftrightarrow> wk_id new \<in> wk_id ` set rows \<and>
        (p, wk_id new) \<in> (parents wk_id wk_parent rows)\<^sup>*"
      using Some by (simp add: on_cycle_def)
    show ?thesis
      unfolding link cycle validateHierarchy_under
      by (cases "wk_kind new")
        (simp_all add: validate_work_item_hierarchy_def Let_def Some q in_chain_forest [OF assms])
  qed
qed

text \<open>One patched row.\<close>

lemma patch_one:
  assumes "by_key wk_id i rows = Some r"
  shows "patch_rows u [i] rows =
    map_option (map_sum id (\<lambda>_. sql_update (\<lambda>q. wk_id q = i) (apply_patch u) rows))
      (validate_work_item_hierarchy rows (apply_patch u r))"
  using assms by (simp split: option.split sum.split)

lemma by_key_patched:
  "by_key wk_id k (sql_update (\<lambda>q. wk_id q = i) (apply_patch u) rows) =
     map_option (\<lambda>r. if k = i then apply_patch u r else r) (by_key wk_id k rows)"
  by (cases "by_key wk_id k rows") (auto simp: by_key_sql_update dest: by_key_SomeD)

lemma reply_Ok:
  assumes "by_key wk_id i rows = Some item"
    and "reply_of_patch i rows (patch_rows u [i] rows) = Some (Ok r, rows')"
  shows "r = apply_patch u item \<and> rows' = sql_update (\<lambda>q. wk_id q = i) (apply_patch u) rows"
  using assms
  by (auto simp: reply_of_patch_def by_key_patched split: option.splits sum.splits)

lemma patch_keeps_forest:
  assumes forest: "forest wk_id wk_parent rows" and r: "by_key wk_id i rows = Some r"
    and accepted: "validate_work_item_hierarchy rows (apply_patch u r) = Some (Inr ())"
  shows "forest wk_id wk_parent (sql_update (\<lambda>q. wk_id q = i) (apply_patch u) rows)"
proof (rule wk.forest_patched [OF forest, where c = i])
  fix p assume p: "wp_parent u = Some (Some p)"
  have "\<not> on_cycle rows (apply_patch u r)"
    using trigger_accepts [OF forest] accepted by blast
  then show "in_chain wk_id wk_parent rows i p = Some False"
    using p by_key_SomeD [OF r] by (auto simp: on_cycle_def in_chain_forest [OF forest])
qed

text \<open>What a patched row means for the others: the links of its children follow its kind and its
  namespace.\<close>

lemma link_patched_other:
  assumes dist: "distinct (map wk_id rows)" and r: "by_key wk_id i rows = Some r"
    and c: "c \<in> set rows" "wk_id c \<noteq> i" "link_ok rows c"
  shows "link_ok (sql_update (\<lambda>q. wk_id q = i) (apply_patch u) rows) c \<longleftrightarrow>
    (wk_parent c = Some i \<longrightarrow> wk_namespace (apply_patch u r) = wk_namespace c \<and>
       validateHierarchy (wk_kind c) (Some (wk_kind (apply_patch u r))) = None)"
proof (cases "wk_parent c")
  case (Some p)
  then show ?thesis using c(3) r by (auto simp: link_ok_parent by_key_patched)
qed (use c(3) in \<open>simp add: link_ok_root\<close>)

lemma link_patched_self:
  assumes r: "by_key wk_id i rows = Some r"
    and link: "link_ok rows (apply_patch u r)" and loop: "\<not> on_cycle rows (apply_patch u r)"
  shows "link_ok (sql_update (\<lambda>q. wk_id q = i) (apply_patch u) rows) (apply_patch u r)"
proof (cases "wk_parent (apply_patch u r)")
  case (Some p)
  have "p \<noteq> i" using loop Some by_key_SomeD [OF r] by (auto simp: on_cycle_def)
  then show ?thesis using link Some by (simp add: link_ok_parent by_key_patched)
qed (use link in \<open>simp add: link_ok_root\<close>)

lemma patched_ok_iff:
  assumes ok: "wk_ok rows" and r: "by_key wk_id i rows = Some r"
    and accepted: "validate_work_item_hierarchy rows (apply_patch u r) = Some (Inr ())"
  shows "wk_ok (sql_update (\<lambda>q. wk_id q = i) (apply_patch u) rows) \<longleftrightarrow>
    (\<forall>c \<in> set rows. wk_parent c = Some i \<longrightarrow> wk_id c \<noteq> i \<longrightarrow>
       wk_namespace (apply_patch u r) = wk_namespace c \<and>
       validateHierarchy (wk_kind c) (Some (wk_kind (apply_patch u r))) = None)"
proof -
  let ?rows = "sql_update (\<lambda>q. wk_id q = i) (apply_patch u) rows"
  have forest: "forest wk_id wk_parent rows" using ok by (simp add: wk_ok_def)
  have dist: "distinct (map wk_id rows)" using forest by (simp add: forest_def)
  have self: "link_ok ?rows (apply_patch u r)"
    using trigger_accepts [OF forest] accepted link_patched_self [OF r] by blast
  have same: "c \<in> set rows \<Longrightarrow> wk_id c = i \<Longrightarrow> c = r" for c
    using by_key_SomeD [OF r] distinct_ident_eq [OF dist] by metis
  have "(\<forall>q \<in> set ?rows. link_ok ?rows q) \<longleftrightarrow> (\<forall>c \<in> set rows. wk_id c \<noteq> i \<longrightarrow> link_ok ?rows c)"
    using self same by (auto simp: set_sql_update)
  also have "\<dots> \<longleftrightarrow> (\<forall>c \<in> set rows. wk_parent c = Some i \<longrightarrow> wk_id c \<noteq> i \<longrightarrow>
       wk_namespace (apply_patch u r) = wk_namespace c \<and>
       validateHierarchy (wk_kind c) (Some (wk_kind (apply_patch u r))) = None)"
    using link_patched_other [OF dist r, of _ u] ok unfolding wk_ok_def by blast
  finally show ?thesis
    using patch_keeps_forest [OF forest r accepted] by (simp add: wk_ok_def)
qed

text \<open>Once the link is good the trigger can only complain of a cycle.\<close>

lemma trigger_linked:
  assumes "forest wk_id wk_parent rows" and "link_ok rows new"
  shows "validate_work_item_hierarchy rows new =
    Some (if on_cycle rows new then Inl Exc_cycle else Inr ())"
proof (cases "on_cycle rows new")
  case False
  then show ?thesis using trigger_accepts [OF assms(1)] assms(2) by auto
next
  case True
  then obtain p where p: "wk_parent new = Some p" "(p, wk_id new) \<in> (parents wk_id wk_parent rows)\<^sup>*"
      "wk_id new \<in> wk_id ` set rows"
    by (auto simp: on_cycle_def)
  then obtain q where q: "by_key wk_id p rows = Some q" "wk_namespace q = wk_namespace new"
      "validateHierarchy (wk_kind new) (Some (wk_kind q)) = None"
    using assms(2) by (auto simp: link_ok_parent)
  show ?thesis
    using True p q(2,3) unfolding validateHierarchy_under
    by (cases "wk_kind new")
      (simp_all add: validate_work_item_hierarchy_def Let_def q(1) in_chain_forest [OF assms(1)])
qed

lemma apply_patch_fields [simp]:
  "wk_kind (apply_patch u r) = (case wp_kind u of None \<Rightarrow> wk_kind r | Some x \<Rightarrow> x)"
  "wk_namespace (apply_patch u r) = (case wp_namespace u of None \<Rightarrow> wk_namespace r | Some x \<Rightarrow> x)"
  "wk_sort (apply_patch u r) = (case wp_sort u of None \<Rightarrow> wk_sort r | Some x \<Rightarrow> x)"
  "wk_deleted (apply_patch u r) = wk_deleted r"
  by (simp_all add: apply_patch_def)

text \<open>A patch whose parent passed the checks: the row is written, or the trigger finds a cycle.\<close>

lemma checked_patch:
  assumes ok: "wk_ok rows" and r: "by_key wk_id i rows = Some r"
    and checked: "check_parent rows (Some (wk_namespace r)) (wk_kind (apply_patch u r)) p = None"
    and u: "wp_parent u = Some p" "wp_namespace u = None"
  shows "reply_of_patch i rows (patch_rows u [i] rows) =
    Some (if on_cycle rows (apply_patch u r) then (Server_error Exc_cycle, rows)
          else (Ok (apply_patch u r), sql_update (\<lambda>q. wk_id q = i) (apply_patch u) rows))"
    and "\<not> on_cycle rows (apply_patch u r) \<Longrightarrow>
      validate_work_item_hierarchy rows (apply_patch u r) = Some (Inr ())"
proof -
  have forest: "forest wk_id wk_parent rows" using ok by (simp add: wk_ok_def)
  have "link_ok rows (apply_patch u r)" using checked u by (simp add: link_ok_def)
  then have trigger: "validate_work_item_hierarchy rows (apply_patch u r) =
      Some (if on_cycle rows (apply_patch u r) then Inl Exc_cycle else Inr ())"
    by (rule trigger_linked [OF forest])
  then show "reply_of_patch i rows (patch_rows u [i] rows) =
    Some (if on_cycle rows (apply_patch u r) then (Server_error Exc_cycle, rows)
          else (Ok (apply_patch u r), sql_update (\<lambda>q. wk_id q = i) (apply_patch u) rows))"
    unfolding patch_one [OF r] by (simp add: reply_of_patch_def by_key_patched r)
  show "\<not> on_cycle rows (apply_patch u r) \<Longrightarrow>
      validate_work_item_hierarchy rows (apply_patch u r) = Some (Inr ())"
    using trigger by simp
qed

text \<open>A request is turned down, or it comes to the statement.\<close>

lemma reparent_cases:
  "(\<exists>reply. reparent ca p after i rows = Some (reply, rows) \<and> (reply = Not_found \<or> (\<exists>e. reply = Bad e))) \<or>
   (\<exists>item u. by_key wk_id i rows = Some item \<and>
      check_parent rows (Some (wk_namespace item)) (wk_kind (apply_patch u item)) p = None \<and>
      wp_parent u = Some p \<and> wp_namespace u = None \<and> wp_kind u = None \<and>
      reparent_sort rows p after i = Inr (wk_sort (apply_patch u item)) \<and>
      reparent ca p after i rows = reply_of_patch i rows (patch_rows u [i] rows))"
proof (cases "\<exists>item s. by_key wk_id i rows = Some item \<and> writable ca i rows \<and> p \<noteq> Some i \<and>
    check_parent rows (Some (wk_namespace item)) (wk_kind item) p = None \<and>
    reparent_sort rows p after i = Inr s")
  case True
  then obtain item s where ok: "by_key wk_id i rows = Some item" "writable ca i rows" "p \<noteq> Some i"
      "check_parent rows (Some (wk_namespace item)) (wk_kind item) p = None"
      "reparent_sort rows p after i = Inr s" by blast
  define u where "u = \<lparr>wp_kind = None, wp_parent = Some p, wp_namespace = None, wp_sort = Some s\<rparr>"
  show ?thesis using ok by (intro disjI2 exI [of _ item] exI [of _ u]) (simp add: reparent_def u_def)
next
  case False
  then show ?thesis by (auto simp: reparent_def split: option.splits sum.splits)
qed

lemma patch_hierarchy_cases:
  "(\<exists>reply. patch_hierarchy ca body_kind p i rows = Some (reply, rows) \<and>
      (reply = Not_found \<or> (\<exists>e. reply = Bad e))) \<or>
   (\<exists>item u. by_key wk_id i rows = Some item \<and>
      check_parent rows (Some (wk_namespace item)) (wk_kind (apply_patch u item)) p = None \<and>
      wp_parent u = Some p \<and> wp_namespace u = None \<and>
      Option.bind body_kind kind_of_name = Some (wk_kind (apply_patch u item)) \<and>
      patch_hierarchy ca body_kind p i rows = reply_of_patch i rows (patch_rows u [i] rows))"
proof (cases "\<exists>item name kind. by_key wk_id i rows = Some item \<and> env_set body_kind = Some name \<and>
    kind_of_name name = Some kind \<and> writable ca i rows \<and>
    check_parent rows (Some (wk_namespace item)) kind p = None")
  case True
  then obtain item name kind where ok: "by_key wk_id i rows = Some item" "env_set body_kind = Some name"
      "kind_of_name name = Some kind" "writable ca i rows"
      "check_parent rows (Some (wk_namespace item)) kind p = None" by blast
  have body: "body_kind = Some name"
    using ok(2) by (auto simp: env_set_def split: option.splits if_splits)
  define u where "u = \<lparr>wp_kind = Some kind, wp_parent = Some p, wp_namespace = None, wp_sort = None\<rparr>"
  show ?thesis
    using ok by (intro disjI2 exI [of _ item] exI [of _ u]) (simp add: patch_hierarchy_def u_def body)
next
  case False
  then show ?thesis
    by (cases "by_key wk_id i rows")
      (auto simp: patch_hierarchy_def reply_of_patch_def split: option.split)
qed

subsection \<open>Properties\<close>

text \<open>
  C27. The trigger and the API check the same rules: on a forest the trigger accepts a row
  exactly when the check of the endpoints passes and the row would not be its own ancestor.\<close>

theorem hierarchy_checks_agree:
  assumes "forest wk_id wk_parent rows"
  shows "validate_work_item_hierarchy rows new = Some (Inr ()) \<longleftrightarrow>
    check_parent rows (Some (wk_namespace new)) (wk_kind new) (wk_parent new) = None \<and>
    \<not> (wk_id new \<in> wk_id ` set rows \<and>
       (\<exists>p. wk_parent new = Some p \<and> (p, wk_id new) \<in> (parents wk_id wk_parent rows)\<^sup>*))"
  using trigger_accepts [OF assms] by (simp only: link_ok_def on_cycle_def)

text \<open>
  C28. Moving an item under another parent always returns. It moves the item as asked and keeps
  the rules of the hierarchy, or it changes nothing; a move below itself is the only thing the
  trigger still has to refuse.\<close>

theorem reparent_keeps_hierarchy:
  assumes ok: "wk_ok rows"
  shows "\<exists>reply rows'. reparent ca p after i rows = Some (reply, rows') \<and> wk_ok rows' \<and>
    (\<forall>e. reply = Server_error e \<longrightarrow> e = Exc_cycle) \<and>
    (case reply of
       Ok r \<Rightarrow> by_key wk_id i rows' = Some r \<and> wk_parent r = p \<and>
         reparent_sort rows p after i = Inr (wk_sort r) \<and>
         (\<forall>k. k \<noteq> i \<longrightarrow> by_key wk_id k rows' = by_key wk_id k rows)
     | _ \<Rightarrow> rows' = rows)"
  using reparent_cases [of ca p after i rows]
proof (elim disjE exE conjE)
  fix item u
  assume item: "by_key wk_id i rows = Some item"
    and checked: "check_parent rows (Some (wk_namespace item)) (wk_kind (apply_patch u item)) p = None"
    and u: "wp_parent u = Some p" "wp_namespace u = None" "wp_kind u = None"
      "reparent_sort rows p after i = Inr (wk_sort (apply_patch u item))"
    and run: "reparent ca p after i rows = reply_of_patch i rows (patch_rows u [i] rows)"
  show ?thesis
  proof (cases "on_cycle rows (apply_patch u item)")
    case True
    then show ?thesis using ok run checked_patch(1) [OF ok item checked u(1,2)] by simp
  next
    case False
    have link: "validateHierarchy (wk_kind c) (Some (wk_kind item)) = None \<and> wk_namespace item = wk_namespace c"
      if "c \<in> set rows" "wk_parent c = Some i" for c
      using ok that item by (auto simp: wk_ok_def link_ok_parent)
    have "wk_ok (sql_update (\<lambda>q. wk_id q = i) (apply_patch u) rows)"
      using patched_ok_iff [OF ok item checked_patch(2) [OF ok item checked u(1,2) False]] link u by simp
    then show ?thesis
      using run checked_patch(1) [OF ok item checked u(1,2)] False item u
      by (simp add: by_key_patched option.map_ident)
  qed
qed (use ok in auto)

definition kind_name :: "WorkItemKind \<Rightarrow> string" where
  "kind_name k = (case k of Project \<Rightarrow> ''project'' | Initiative \<Rightarrow> ''initiative'' | Epic \<Rightarrow> ''epic''
     | Issue \<Rightarrow> ''issue'' | Task \<Rightarrow> ''task'' | WList \<Rightarrow> ''list'')"

lemma kind_of_kind_name [simp]: "kind_of_name (kind_name k) = Some k"
  by (cases k) (simp_all add: kind_of_name_def kind_name_def VALID_KINDS_def)

lemma isValidWorkItemKind_iff: "isValidWorkItemKind s \<longleftrightarrow> (\<exists>k. kind_of_name s = Some k)"
  by (auto simp: isValidWorkItemKind_def kind_of_name_def VALID_KINDS_def)

text \<open>
  Changing kind and parent of an item always returns and keeps a forest, but the new kind is
  only compared with the parent: the rules hold afterwards exactly when every child of the item
  may lie under the new kind.\<close>

theorem patch_hierarchy_ignores_children:
  assumes ok: "wk_ok rows"
  shows "\<exists>reply rows'. patch_hierarchy ca body_kind p i rows = Some (reply, rows') \<and>
    forest wk_id wk_parent rows' \<and>
    (\<forall>e. reply = Server_error e \<longrightarrow> e = Exc_cycle) \<and>
    (case reply of
       Ok r \<Rightarrow> by_key wk_id i rows' = Some r \<and> wk_parent r = p \<and>
         Option.bind body_kind kind_of_name = Some (wk_kind r) \<and>
         (wk_ok rows' \<longleftrightarrow> (\<forall>c \<in> set rows. wk_parent c = Some i \<longrightarrow> wk_id c \<noteq> i \<longrightarrow>
            validateHierarchy (wk_kind c) (Some (wk_kind r)) = None))
     | _ \<Rightarrow> rows' = rows)"
proof -
  have forest: "forest wk_id wk_parent rows" using ok by (simp add: wk_ok_def)
  show ?thesis
    using patch_hierarchy_cases [of ca body_kind p i rows]
  proof (elim disjE exE conjE)
    fix item u
    assume item: "by_key wk_id i rows = Some item"
      and checked: "check_parent rows (Some (wk_namespace item)) (wk_kind (apply_patch u item)) p = None"
      and u: "wp_parent u = Some p" "wp_namespace u = None"
        "Option.bind body_kind kind_of_name = Some (wk_kind (apply_patch u item))"
      and run: "patch_hierarchy ca body_kind p i rows = reply_of_patch i rows (patch_rows u [i] rows)"
    show ?thesis
    proof (cases "on_cycle rows (apply_patch u item)")
      case True
      then show ?thesis using forest run checked_patch(1) [OF ok item checked u(1,2)] by simp
    next
      case False
      note accepted = checked_patch(2) [OF ok item checked u(1,2) False]
      have same_ns: "wk_namespace item = wk_namespace c" if "c \<in> set rows" "wk_parent c = Some i" for c
        using ok that item by (auto simp: wk_ok_def link_ok_parent)
      have "wk_ok (sql_update (\<lambda>q. wk_id q = i) (apply_patch u) rows) \<longleftrightarrow>
          (\<forall>c \<in> set rows. wk_parent c = Some i \<longrightarrow> wk_id c \<noteq> i \<longrightarrow>
             validateHierarchy (wk_kind c) (Some (wk_kind (apply_patch u item))) = None)"
        using patched_ok_iff [OF ok item accepted] same_ns u(2) by auto
      then show ?thesis
        using run checked_patch(1) [OF ok item checked u(1,2)] False item u
          patch_keeps_forest [OF forest item accepted]
        by (simp add: by_key_patched)
    qed
  qed (use forest in auto)
qed

text \<open>Two moves that put two items under each other, each checked by its trigger before the other
  is committed, both succeed; from then on a move of any third item under one of them runs a query
  that never ends.\<close>

theorem crossed_moves_hang:
  assumes ok: "wk_ok rows"
    and a: "by_key wk_id a rows = Some ra" and b: "by_key wk_id b rows = Some rb" and "a \<noteq> b"
    and u: "wp_parent u = Some (Some b)" "wp_kind u = None" "wp_namespace u = None"
    and v: "wp_parent v = Some (Some a)" "wp_kind v = None" "wp_namespace v = None"
    and checks: "patch_rows u [a] rows = Some (Inr rows1)" "patch_rows v [b] rows = Some (Inr rows2)"
    and both: "rows' = sql_update (\<lambda>q. wk_id q = b) (apply_patch v) rows1"
    and c: "by_key wk_id c rows = Some rc" "c \<notin> {a, b}" "writable ca c rows'"
      "check_parent rows (Some (wk_namespace rc)) (wk_kind rc) (Some a) = None"
  shows "\<not> forest wk_id wk_parent rows' \<and> reparent ca (Some a) None c rows' = None"
proof -
  have dist: "distinct (map wk_id rows)" using ok by (simp add: wk_ok_def forest_def)
  have rows1: "rows1 = sql_update (\<lambda>q. wk_id q = a) (apply_patch u) rows"
    using checks(1) a by (auto split: option.splits sum.splits)
  note crossed = wk.crossed_patches [where P = "\<lambda>q. wk_id q = a" and Q = "\<lambda>q. wk_id q = b",
      OF dist a _ b _ _ _ \<open>a \<noteq> b\<close> u(1) v(1) both [unfolded rows1]]
  have ids: "wk_id ra = a" "wk_id rb = b" using by_key_SomeD [OF a] by_key_SomeD [OF b] by simp_all
  have fa: "by_key wk_id a rows' = Some (apply_patch u ra)"
    and cyc: "\<not> forest wk_id wk_parent rows'"
    and hang: "in_chain wk_id wk_parent rows' c a = None"
    using crossed(1,3) crossed(4) [where goal = c and n = a] ids c(2) by simp_all
  have fc: "by_key wk_id c rows' = Some rc"
    using c(1,2) by (simp add: both rows1 by_key_patched)
  have link: "wk_namespace ra = wk_namespace rc" "validateHierarchy (wk_kind rc) (Some (wk_kind ra)) = None"
    using c(4) a by (auto simp: check_parent_def split: if_splits)
  define w where "w = \<lparr>wp_kind = None, wp_parent = Some (Some a), wp_namespace = None,
    wp_sort = Some (max_sort (siblings rows' (Some a) c) + 1000)\<rparr>"
  have "validate_work_item_hierarchy rows' (apply_patch w rc) = None"
    using link fa hang u by_key_SomeD [OF fc] unfolding validateHierarchy_under
    by (cases "wk_kind rc") (simp_all add: validate_work_item_hierarchy_def Let_def w_def)
  then have "patch_rows w [c] rows' = None" unfolding patch_one [OF fc] by simp
  moreover have "check_parent rows' (Some (wk_namespace rc)) (wk_kind rc) (Some a) = None"
    using link fa u by (simp add: check_parent_def)
  moreover have "a \<noteq> c" using c(2) by blast
  ultimately show ?thesis
    using cyc fc c(3) by (simp add: reparent_def reparent_sort_def reply_of_patch_def w_def)
qed

subsection \<open>Witnesses\<close>

definition work_demo :: "work_row list" where
  "work_demo = map (\<lambda>(i, k, p, s). \<lparr>wk_id = i, wk_kind = k, wk_parent = p, wk_namespace = ''home'', wk_sort = s, wk_deleted = False\<rparr>)
     [(''p'', Project, None, 1000), (''i'', Initiative, Some ''p'', 1000), (''t1'', Task, None, 2000),
      (''t2'', Task, None, 2001), (''t3'', Task, None, 3000)]"

definition m2m_caller :: caller where
  "m2m_caller = \<lparr>ca_env = \<lparr>je_secret = None, je_previous = None, je_auth_disabled = Some ''true'', je_e2e_email = None\<rparr>,
     ca_context = None, ca_request = \<lparr>rq_headers = [], rq_query = None, rq_body = None\<rparr>\<rparr>"

lemma work_demo_parents: "parents wk_id wk_parent work_demo = {(''i'', ''p'')}"
  by (auto simp: parents_iff work_demo_def)

lemma work_demo_forest: "forest wk_id wk_parent work_demo"
  unfolding forest_def work_demo_parents
  by (simp add: work_demo_def acyclic_insert) (simp add: acyclic_def)

lemma work_demo_ok: "wk_ok work_demo"
  using work_demo_forest unfolding wk_ok_def
  by (auto simp: work_demo_def link_ok_def check_parent_def validateHierarchy_def by_key_def)

lemmas writable_simps = writable_def verifyWriteScope_def hasExplicitNamespace_def m2m_caller_def
  isAuthDisabled_def getEffectiveNamespaces_def sql_exists_def entity_of_def Let_def
  prop_str_def query_obj_def body_obj_def header_str_def

theorem hierarchy_checks_agree_witness:
  "validate_work_item_hierarchy work_demo
     \<lparr>wk_id = ''e'', wk_kind = Epic, wk_parent = Some ''i'', wk_namespace = ''home'', wk_sort = 0, wk_deleted = False\<rparr>
   = Some (Inr ())"
  unfolding hierarchy_checks_agree [OF work_demo_forest]
  by (simp add: work_demo_def check_parent_def by_key_def validateHierarchy_def)

theorem reparent_keeps_hierarchy_witness:
  "\<exists>reply rows'. reparent m2m_caller (Some ''t1'') None ''t3'' work_demo = Some (reply, rows') \<and> wk_ok rows'"
  using reparent_keeps_hierarchy [OF work_demo_ok] by blast

lemma demo_project_to_list:
  "patch_hierarchy m2m_caller (Some ''list'') None ''p'' work_demo =
     Some (Ok \<lparr>wk_id = ''p'', wk_kind = WList, wk_parent = None, wk_namespace = ''home'', wk_sort = 1000, wk_deleted = False\<rparr>,
       sql_update (\<lambda>q. wk_id q = ''p'')
         (apply_patch \<lparr>wp_kind = Some WList, wp_parent = Some None, wp_namespace = None, wp_sort = None\<rparr>) work_demo)"
  by (simp add: patch_hierarchy_def env_set_def kind_of_name_def VALID_KINDS_def writable_simps work_demo_def
      by_key_def check_parent_def validateHierarchy_def validate_work_item_hierarchy_def reply_of_patch_def
      sql_update_def apply_patch_def)

text \<open>A project with an initiative below it becomes a list.\<close>

theorem patch_hierarchy_ignores_children_witness:
  "\<exists>r rows'. patch_hierarchy m2m_caller (Some ''list'') None ''p'' work_demo = Some (Ok r, rows') \<and> \<not> wk_ok rows'"
proof -
  have "\<exists>c \<in> set work_demo. wk_parent c = Some ''p'' \<and> wk_id c \<noteq> ''p'' \<and>
      validateHierarchy (wk_kind c) (Some WList) \<noteq> None"
    by (simp add: work_demo_def validateHierarchy_def)
  then show ?thesis
    using patch_hierarchy_ignores_children [OF work_demo_ok, of m2m_caller "Some ''list''" None "''p''"]
    unfolding demo_project_to_list by auto
qed

definition move_under :: "uuid \<Rightarrow> work_patch" where
  "move_under p = \<lparr>wp_kind = None, wp_parent = Some (Some p), wp_namespace = None, wp_sort = Some 1000\<rparr>"

lemma demo_move:
  "patch_rows (move_under ''t2'') [''t1''] work_demo =
     Some (Inr (sql_update (\<lambda>q. wk_id q = ''t1'') (apply_patch (move_under ''t2'')) work_demo))"
  "patch_rows (move_under ''t1'') [''t2''] work_demo =
     Some (Inr (sql_update (\<lambda>q. wk_id q = ''t2'') (apply_patch (move_under ''t1'')) work_demo))"
  by (simp_all add: work_demo_def move_under_def by_key_def validate_work_item_hierarchy_def apply_patch_def
      in_chain.simps)

theorem crossed_moves_hang_witness:
  "reparent m2m_caller (Some ''t1'') None ''t3''
     (sql_update (\<lambda>q. wk_id q = ''t2'') (apply_patch (move_under ''t1''))
        (sql_update (\<lambda>q. wk_id q = ''t1'') (apply_patch (move_under ''t2'')) work_demo)) = None"
proof (rule conjunct2 [OF crossed_moves_hang [OF work_demo_ok _ _ _ _ _ _ _ _ _ demo_move refl]])
  show "by_key wk_id ''t1'' work_demo = Some (work_demo ! 2)" "by_key wk_id ''t2'' work_demo = Some (work_demo ! 3)"
    "by_key wk_id ''t3'' work_demo = Some (work_demo ! 4)"
    by (simp_all add: work_demo_def by_key_def)
  show "check_parent work_demo (Some (wk_namespace (work_demo ! 4))) (wk_kind (work_demo ! 4)) (Some ''t1'') = None"
    by (simp add: work_demo_def by_key_def check_parent_def validateHierarchy_def)
  show "writable m2m_caller ''t3'' (sql_update (\<lambda>q. wk_id q = ''t2'') (apply_patch (move_under ''t1''))
        (sql_update (\<lambda>q. wk_id q = ''t1'') (apply_patch (move_under ''t2'')) work_demo))"
    by (simp add: writable_simps work_demo_def sql_update_def apply_patch_def)
qed (simp_all add: move_under_def)

end
