(* ===== verification/WorkOrder.thy ===== *)
theory WorkOrder
  imports WorkItems
begin

text \<open>
  The order of work items among their siblings: \<open>PATCH /work-items/:id/reorder\<close> of
  \<open>src/api/server.ts\<close>, and the position \<open>PATCH /work-items/:id/reparent\<close> gives an item. An
  item's place is a number; a place between two others is the middle of theirs, and when there is
  no whole number between them a reorder first numbers all siblings anew in steps of 1000. The
  numbers are \<open>bigint\<close> columns read as doubles; they are whole numbers here.
\<close>

subsection \<open>Reordering\<close>

datatype edge = After | Before

definition prev_sort :: "work_row list \<Rightarrow> int \<Rightarrow> int option" where
  "prev_sort rows s =
     (case rev (sort (filter (\<lambda>x. x < s) (map wk_sort rows))) of [] \<Rightarrow> None | x # _ \<Rightarrow> Some x)"

definition min_sort :: "work_row list \<Rightarrow> int" where
  "min_sort rows = (if rows = [] then 0 else Min (set (map wk_sort rows)))"

text \<open>\<open>ROW_NUMBER() OVER (ORDER BY sort_order) * 1000\<close>.\<close>

definition row_index :: "work_row list \<Rightarrow> uuid \<Rightarrow> nat" where
  "row_index rows i = length (takeWhile (\<lambda>q. wk_id q \<noteq> i) rows)"

definition normalizeSort :: "uuid option \<Rightarrow> work_row list \<Rightarrow> work_row list" where
  "normalizeSort p rows =
     (let ranked = sort_key wk_sort (filter (\<lambda>r. wk_parent r = p) rows)
      in sql_update (\<lambda>r. wk_parent r = p)
           (\<lambda>r. r\<lparr>wk_sort := (int (row_index ranked (wk_id r)) + 1) * 1000\<rparr>) rows)"

text \<open>The new place between the target and its neighbour, or by a fixed step where it has none,
  with the table it refers to.\<close>

definition between :: "work_row list \<Rightarrow> work_row \<Rightarrow> int option \<Rightarrow> int \<Rightarrow> int \<Rightarrow> int \<times> work_row list" where
  "between rows t neighbour step half =
     (case neighbour of
        None \<Rightarrow> (wk_sort t + step, rows)
      | Some x \<Rightarrow>
          let s = (wk_sort t + x) div 2 in
          if s = wk_sort t \<or> s = x
          then (let rows' = normalizeSort (wk_parent t) rows;
                    targetOrder = (case by_key wk_id (wk_id t) rows' of None \<Rightarrow> 0 | Some q \<Rightarrow> wk_sort q)
                in (targetOrder + half, rows'))
          else (s, rows))"

definition reorder_sort ::
    "work_row list \<Rightarrow> work_row \<Rightarrow> edge \<Rightarrow> uuid option \<Rightarrow> wk_bad + int \<times> work_row list" where
  "reorder_sort rows item insertPosition targetId =
     (let others = siblings rows (wk_parent item) (wk_id item) in
      case targetId of
        None \<Rightarrow> Inr (if insertPosition = After then (min_sort others - 1000, rows)
                     else (max_sort others + 1000, rows))
      | Some ti \<Rightarrow>
          (case by_key wk_id ti rows of
             None \<Rightarrow> Inl Target_not_found
           | Some t \<Rightarrow>
               if wk_parent item \<noteq> wk_parent t then Inl Not_a_sibling
               else Inr (if insertPosition = After
                 then between rows t (next_sort others (wk_sort t)) 1000 500
                 else between rows t (prev_sort others (wk_sort t)) (- 1000) (- 500))))"

text \<open>The two fields of the body: absent, null or an identifier.\<close>

definition reorder ::
    "caller \<Rightarrow> uuid option option \<Rightarrow> uuid option option \<Rightarrow> uuid \<Rightarrow> work_row list \<Rightarrow> wk_reply \<times> work_row list" where
  "reorder ca after before i rows =
     (if after = None \<and> before = None then (Bad Position_required, rows)
      else if after \<noteq> None \<and> before \<noteq> None then (Bad One_position, rows)
      else if \<not> writable ca i rows then (Not_found, rows)
      else case by_key wk_id i rows of
        None \<Rightarrow> (Not_found, rows)
      | Some item \<Rightarrow>
          (case (case after of
                   Some targetId \<Rightarrow> reorder_sort rows item After targetId
                 | None \<Rightarrow> reorder_sort rows item Before (the before)) of
             Inl e \<Rightarrow> (Bad e, rows)
           | Inr (s, rows1) \<Rightarrow>
               let rows' = sql_update (\<lambda>q. wk_id q = i) (\<lambda>q. q\<lparr>wk_sort := s\<rparr>) rows1
               in (case by_key wk_id i rows' of None \<Rightarrow> (Not_found, rows) | Some r \<Rightarrow> (Ok r, rows'))))"

subsection \<open>Neighbours\<close>

lemma next_sort_Some:
  assumes "next_sort rows s = Some n"
  shows "s < n" "\<exists>q \<in> set rows. wk_sort q = n" "\<And>q. q \<in> set rows \<Longrightarrow> s < wk_sort q \<Longrightarrow> n \<le> wk_sort q"
proof -
  let ?xs = "filter (\<lambda>x. s < x) (map wk_sort rows)"
  obtain ys where ys: "sort ?xs = n # ys" using assms by (auto simp: next_sort_def split: list.splits)
  have members: "set (n # ys) = set ?xs" using ys by (metis set_sort)
  have "sorted (n # ys)" using ys by (metis sorted_sort)
  then have least: "\<forall>x \<in> set ?xs. n \<le> x" using members by auto
  have "n \<in> set ?xs" using members by auto
  then show "s < n" "\<exists>q \<in> set rows. wk_sort q = n" by auto
  show "q \<in> set rows \<Longrightarrow> s < wk_sort q \<Longrightarrow> n \<le> wk_sort q" for q using least by auto
qed

lemma next_sort_None: "next_sort rows s = None \<Longrightarrow> q \<in> set rows \<Longrightarrow> wk_sort q \<le> s"
proof -
  let ?xs = "filter (\<lambda>x. s < x) (map wk_sort rows)"
  assume "next_sort rows s = None" and q: "q \<in> set rows"
  then have "sort ?xs = []" by (auto simp: next_sort_def split: list.splits)
  then have "set ?xs = {}" by (metis set_sort set_empty)
  then show ?thesis using q by (auto simp: not_le)
qed

lemma prev_sort_Some:
  assumes "prev_sort rows s = Some n"
  shows "n < s" "\<exists>q \<in> set rows. wk_sort q = n" "\<And>q. q \<in> set rows \<Longrightarrow> wk_sort q < s \<Longrightarrow> wk_sort q \<le> n"
proof -
  let ?xs = "filter (\<lambda>x. x < s) (map wk_sort rows)"
  obtain ys where "rev (sort ?xs) = n # ys" using assms by (auto simp: prev_sort_def split: list.splits)
  then have ys: "sort ?xs = rev ys @ [n]" by (metis rev.simps(2) rev_rev_ident)
  have members: "set (rev ys @ [n]) = set ?xs" using ys by (metis set_sort)
  have "sorted (rev ys @ [n])" using ys by (metis sorted_sort)
  then have greatest: "\<forall>x \<in> set ?xs. x \<le> n" using members by (auto simp: sorted_append)
  have "n \<in> set ?xs" using members by auto
  then show "n < s" "\<exists>q \<in> set rows. wk_sort q = n" by auto
  show "q \<in> set rows \<Longrightarrow> wk_sort q < s \<Longrightarrow> wk_sort q \<le> n" for q using greatest by auto
qed

lemma prev_sort_None: "prev_sort rows s = None \<Longrightarrow> q \<in> set rows \<Longrightarrow> s \<le> wk_sort q"
proof -
  let ?xs = "filter (\<lambda>x. x < s) (map wk_sort rows)"
  assume "prev_sort rows s = None" and q: "q \<in> set rows"
  then have "sort ?xs = []" by (auto simp: prev_sort_def split: list.splits)
  then have "set ?xs = {}" by (metis set_sort set_empty)
  then show ?thesis using q by (auto simp: not_le)
qed

lemma max_sort_ge: "q \<in> set rows \<Longrightarrow> wk_sort q \<le> max_sort rows"
  by (auto simp: max_sort_def)

lemma min_sort_le: "q \<in> set rows \<Longrightarrow> min_sort rows \<le> wk_sort q"
  by (auto simp: min_sort_def)

subsection \<open>Numbering anew\<close>

lemma row_index_nth:
  "distinct (map wk_id rows) \<Longrightarrow> k < length rows \<Longrightarrow> row_index rows (wk_id (rows ! k)) = k"
  unfolding row_index_def
proof (induction rows arbitrary: k)
  case (Cons r rows)
  then show ?case by (cases k) (auto simp: imageI [OF nth_mem] dest: nth_mem)
qed simp

lemma row_index_mono:
  assumes dist: "distinct (map wk_id rows)" and "a \<in> set rows" "b \<in> set rows"
    and sorted: "sorted (map wk_sort rows)" and less: "wk_sort a < wk_sort b"
  shows "row_index rows (wk_id a) < row_index rows (wk_id b)"
proof -
  obtain j k where j: "j < length rows" "a = rows ! j" and k: "k < length rows" "b = rows ! k"
    using assms(2,3) by (auto simp: in_set_conv_nth)
  have "j < k"
  proof (rule ccontr)
    assume "\<not> j < k"
    then have "wk_sort b \<le> wk_sort a"
      using sorted_nth_mono [OF sorted, of k j] j k by simp
    then show False using less by simp
  qed
  then show ?thesis using row_index_nth [OF dist] j k by simp
qed

lemma normalizeSort_row:
  assumes "by_key wk_id i rows = Some r"
  shows "by_key wk_id i (normalizeSort (wk_parent r) rows) = Some
    (r\<lparr>wk_sort := (int (row_index (sort_key wk_sort (filter (\<lambda>q. wk_parent q = wk_parent r) rows)) i) + 1) * 1000\<rparr>)"
  using assms by_key_SomeD [OF assms] by (simp add: normalizeSort_def Let_def by_key_sql_update)

lemma normalizeSort_order:
  assumes dist: "distinct (map wk_id rows)" and "a \<in> set rows" "b \<in> set rows"
    and "wk_parent a = p" "wk_parent b = p" "wk_sort a < wk_sort b"
  shows "row_index (sort_key wk_sort (filter (\<lambda>q. wk_parent q = p) rows)) (wk_id a)
    < row_index (sort_key wk_sort (filter (\<lambda>q. wk_parent q = p) rows)) (wk_id b)"
proof (rule row_index_mono)
  have "inj_on wk_id (set (filter (\<lambda>q. wk_parent q = p) rows))"
    using dist by (auto simp: distinct_map inj_on_def)
  then show "distinct (map wk_id (sort_key wk_sort (filter (\<lambda>q. wk_parent q = p) rows)))"
    using dist by (simp add: distinct_map)
qed (use assms in auto)

lemma siblings_normalized:
  "siblings (normalizeSort p rows) p i =
     map (\<lambda>r. r\<lparr>wk_sort := (int (row_index (sort_key wk_sort (filter (\<lambda>q. wk_parent q = p) rows)) (wk_id r)) + 1) * 1000\<rparr>)
       (siblings rows p i)"
  by (auto simp: siblings_def normalizeSort_def Let_def sql_update_def filter_map comp_def
      intro!: map_cong filter_cong)

text \<open>The other siblings keep their order.\<close>

definition keeps_order :: "uuid option \<Rightarrow> uuid \<Rightarrow> work_row list \<Rightarrow> work_row list \<Rightarrow> bool" where
  "keeps_order p i rows rows' \<longleftrightarrow>
     (\<forall>a \<in> set (siblings rows p i). \<forall>b \<in> set (siblings rows p i). wk_sort a < wk_sort b \<longrightarrow>
        (\<exists>a' b'. by_key wk_id (wk_id a) rows' = Some a' \<and> by_key wk_id (wk_id b) rows' = Some b' \<and>
           wk_sort a' < wk_sort b'))"

lemma keeps_order_same: "distinct (map wk_id rows) \<Longrightarrow> keeps_order p i rows rows"
proof -
  assume dist: "distinct (map wk_id rows)"
  have "by_key wk_id (wk_id a) rows = Some a" if "a \<in> set (siblings rows p i)" for a
    using that by (simp add: by_key_Some_iff [OF dist] siblings_def)
  then show ?thesis by (auto simp: keeps_order_def)
qed

lemma keeps_order_normalized:
  assumes dist: "distinct (map wk_id rows)"
  shows "keeps_order p i rows (normalizeSort p rows)"
  unfolding keeps_order_def
proof (intro ballI impI)
  fix a b
  assume ab: "a \<in> set (siblings rows p i)" "b \<in> set (siblings rows p i)" "wk_sort a < wk_sort b"
  then have parts: "a \<in> set rows" "b \<in> set rows" "wk_parent a = p" "wk_parent b = p"
    by (simp_all add: siblings_def)
  have keys: "by_key wk_id (wk_id a) rows = Some a" "by_key wk_id (wk_id b) rows = Some b"
    using parts by (simp_all add: by_key_Some_iff [OF dist])
  show "\<exists>a' b'. by_key wk_id (wk_id a) (normalizeSort p rows) = Some a' \<and>
      by_key wk_id (wk_id b) (normalizeSort p rows) = Some b' \<and> wk_sort a' < wk_sort b'"
    using normalizeSort_row [OF keys(1)] normalizeSort_row [OF keys(2)] parts(3,4)
      normalizeSort_order [OF dist parts ab(3)]
    by simp
qed

text \<open>The place next to the target, on either side.\<close>

lemma thousands_after:
  fixes a b :: int
  shows "(a + 1) * 1000 \<le> (b + 1) * 1000 \<or> (b + 1) * 1000 + 500 < (a + 1) * 1000"
proof (cases "a \<le> b")
  case True
  then show ?thesis by simp
next
  case False
  then have "b + 1 \<le> a" by simp
  then have "(b + 1) * 1000 \<le> a * 1000" by (rule mult_right_mono) simp
  then show ?thesis by (simp add: distrib_right)
qed

lemma thousands_before:
  fixes a b :: int
  shows "(b + 1) * 1000 \<le> (a + 1) * 1000 \<or> (a + 1) * 1000 < (b + 1) * 1000 - 500"
proof (cases "b \<le> a")
  case True
  then show ?thesis by simp
next
  case False
  then have "a + 1 \<le> b" by simp
  then have "(a + 1) * 1000 \<le> b * 1000" by (rule mult_right_mono) simp
  then show ?thesis by (simp add: distrib_right)
qed

lemma between_after:
  assumes dist: "distinct (map wk_id rows)" and t: "by_key wk_id (wk_id t) rows = Some t"
    and run: "between rows t (next_sort (siblings rows (wk_parent t) i) (wk_sort t)) 1000 500 = (s, rows1)"
  shows "\<exists>t'. by_key wk_id (wk_id t) rows1 = Some t' \<and> wk_sort t' < s \<and>
    (\<forall>q \<in> set (siblings rows1 (wk_parent t) i). wk_sort q \<le> wk_sort t' \<or> s < wk_sort q)"
proof (cases "next_sort (siblings rows (wk_parent t) i) (wk_sort t)")
  case None
  then show ?thesis using run t next_sort_None [OF None] by (auto simp: between_def)
next
  case (Some x)
  note nx = next_sort_Some [OF Some]
  show ?thesis
  proof (cases "(wk_sort t + x) div 2 = wk_sort t \<or> (wk_sort t + x) div 2 = x")
    case False
    then have s: "s = (wk_sort t + x) div 2" "rows1 = rows" using run Some by (simp_all add: between_def Let_def)
    then have "wk_sort t < s" "s < x" using False nx(1) by auto
    then show ?thesis using t nx(3) s(2) by force
  next
    case True
    let ?idx = "\<lambda>j. int (row_index (sort_key wk_sort (filter (\<lambda>q. wk_parent q = wk_parent t) rows)) j)"
    have rows1: "rows1 = normalizeSort (wk_parent t) rows" "s = (?idx (wk_id t) + 1) * 1000 + 500"
      using run Some True normalizeSort_row [OF t] by (auto simp: between_def Let_def)
    have "(?idx j + 1) * 1000 \<le> (?idx (wk_id t) + 1) * 1000 \<or> s < (?idx j + 1) * 1000" for j
      unfolding rows1(2) by (rule thousands_after)
    then show ?thesis
      using normalizeSort_row [OF t] rows1 by (auto simp: siblings_normalized)
  qed
qed

lemma between_before:
  assumes dist: "distinct (map wk_id rows)" and t: "by_key wk_id (wk_id t) rows = Some t"
    and run: "between rows t (prev_sort (siblings rows (wk_parent t) i) (wk_sort t)) (- 1000) (- 500) = (s, rows1)"
  shows "\<exists>t'. by_key wk_id (wk_id t) rows1 = Some t' \<and> s < wk_sort t' \<and>
    (\<forall>q \<in> set (siblings rows1 (wk_parent t) i). wk_sort t' \<le> wk_sort q \<or> wk_sort q < s)"
proof (cases "prev_sort (siblings rows (wk_parent t) i) (wk_sort t)")
  case None
  then show ?thesis using run t prev_sort_None [OF None] by (auto simp: between_def)
next
  case (Some x)
  note nx = prev_sort_Some [OF Some]
  show ?thesis
  proof (cases "(wk_sort t + x) div 2 = wk_sort t \<or> (wk_sort t + x) div 2 = x")
    case False
    then have s: "s = (wk_sort t + x) div 2" "rows1 = rows" using run Some by (simp_all add: between_def Let_def)
    then have "s < wk_sort t" "x < s" using False nx(1) by auto
    then show ?thesis using t nx(3) s(2) by force
  next
    case True
    let ?idx = "\<lambda>j. int (row_index (sort_key wk_sort (filter (\<lambda>q. wk_parent q = wk_parent t) rows)) j)"
    have rows1: "rows1 = normalizeSort (wk_parent t) rows" "s = (?idx (wk_id t) + 1) * 1000 - 500"
      using run Some True normalizeSort_row [OF t] by (auto simp: between_def Let_def)
    have "(?idx (wk_id t) + 1) * 1000 \<le> (?idx j + 1) * 1000 \<or> (?idx j + 1) * 1000 < s" for j
      unfolding rows1(2) by (rule thousands_before)
    then show ?thesis
      using normalizeSort_row [OF t] rows1 by (auto simp: siblings_normalized)
  qed
qed

lemma normalizeSort_keys:
  "map wk_id (normalizeSort p rows) = map wk_id rows"
  "map wk_parent (normalizeSort p rows) = map wk_parent rows"
  by (simp_all add: normalizeSort_def Let_def map_key_sql_update)

lemma between_keeps:
  "distinct (map wk_id rows) \<Longrightarrow> between rows t neighbour step half = (s, rows1) \<Longrightarrow>
     keeps_order (wk_parent t) i rows rows1 \<and> map wk_id rows1 = map wk_id rows \<and>
     map wk_parent rows1 = map wk_parent rows"
  by (auto simp: between_def Let_def keeps_order_same keeps_order_normalized normalizeSort_keys
      split: option.splits if_splits)

subsection \<open>Properties\<close>

text \<open>Where an item stands: right after or before its target, or at an end.\<close>

definition stands :: "work_row list \<Rightarrow> work_row \<Rightarrow> edge \<Rightarrow> uuid option \<Rightarrow> bool" where
  "stands rows r pos targetId \<longleftrightarrow>
     (let others = siblings rows (wk_parent r) (wk_id r) in
      case (pos, targetId) of
        (After, None) \<Rightarrow> \<forall>q \<in> set others. wk_sort r < wk_sort q
      | (Before, None) \<Rightarrow> \<forall>q \<in> set others. wk_sort q < wk_sort r
      | (After, Some t) \<Rightarrow> \<exists>t'. by_key wk_id t rows = Some t' \<and> wk_sort t' < wk_sort r \<and>
          (\<forall>q \<in> set others. wk_sort q \<le> wk_sort t' \<or> wk_sort r < wk_sort q)
      | (Before, Some t) \<Rightarrow> \<exists>t'. by_key wk_id t rows = Some t' \<and> wk_sort r < wk_sort t' \<and>
          (\<forall>q \<in> set others. wk_sort t' \<le> wk_sort q \<or> wk_sort q < wk_sort r))"

lemma siblings_resorted:
  "siblings (sql_update (\<lambda>q. wk_id q = i) (\<lambda>q. q\<lparr>wk_sort := s\<rparr>) rows) p i = siblings rows p i"
  by (induction rows) (auto simp: siblings_def sql_update_def)

lemma reorder_sort_spec:
  assumes dist: "distinct (map wk_id rows)" and "targetId \<noteq> Some (wk_id item)"
    and run: "reorder_sort rows item pos targetId = Inr (s, rows1)"
    and r: "wk_id r = wk_id item" "wk_parent r = wk_parent item" "wk_sort r = s"
    and rows': "rows' = sql_update (\<lambda>q. wk_id q = wk_id item) (\<lambda>q. q\<lparr>wk_sort := s\<rparr>) rows1"
  shows "stands rows' r pos targetId \<and> keeps_order (wk_parent item) (wk_id item) rows rows1 \<and>
    map wk_id rows1 = map wk_id rows \<and> map wk_parent rows1 = map wk_parent rows"
proof (cases targetId)
  case None
  then have "rows1 = rows" using run by (auto simp: reorder_sort_def Let_def split: if_splits)
  moreover have "if pos = After then s = min_sort (siblings rows (wk_parent item) (wk_id item)) - 1000
      else s = max_sort (siblings rows (wk_parent item) (wk_id item)) + 1000"
    using run None by (auto simp: reorder_sort_def Let_def split: if_splits)
  ultimately show ?thesis
    using None keeps_order_same [OF dist] r
      min_sort_le [of _ "siblings rows (wk_parent item) (wk_id item)"]
      max_sort_ge [of _ "siblings rows (wk_parent item) (wk_id item)"]
    by (cases pos) (fastforce simp: stands_def Let_def rows' siblings_resorted)+
next
  case (Some ti)
  then obtain t where t: "by_key wk_id ti rows = Some t" "wk_parent item = wk_parent t"
    using run by (auto simp: reorder_sort_def Let_def split: option.splits if_splits)
  have ti: "wk_id t = ti" "ti \<noteq> wk_id item" using by_key_SomeD [OF t(1)] assms(2) Some by auto
  have key: "by_key wk_id (wk_id t) rows = Some t" using t ti by simp
  have same_key: "by_key wk_id ti rows' = by_key wk_id ti rows1"
    using ti(2) unfolding rows' by (cases "by_key wk_id ti rows1") (auto simp: by_key_sql_update dest: by_key_SomeD)
  show ?thesis
  proof (cases pos)
    case After
    then have "between rows t (next_sort (siblings rows (wk_parent t) (wk_id item)) (wk_sort t)) 1000 500 = (s, rows1)"
      using run Some t by (simp add: reorder_sort_def Let_def)
    from between_after [OF dist key this] between_keeps [OF dist this, of "wk_id item"] show ?thesis
      using After Some ti t(2) r same_key
      by (simp add: stands_def Let_def rows' siblings_resorted)
  next
    case Before
    then have "between rows t (prev_sort (siblings rows (wk_parent t) (wk_id item)) (wk_sort t)) (- 1000) (- 500) = (s, rows1)"
      using run Some t by (simp add: reorder_sort_def Let_def)
    from between_before [OF dist key this] between_keeps [OF dist this, of "wk_id item"] show ?thesis
      using Before Some ti t(2) r same_key
      by (simp add: stands_def Let_def rows' siblings_resorted)
  qed
qed

text \<open>A row of a table with the same identifiers and parents, place by place, has the same parent.\<close>

lemma row_parent_kept:
  assumes dist: "distinct (map wk_id rows)" and item: "by_key wk_id i rows = Some item"
    and q: "by_key wk_id i rows1 = Some q"
    and same: "map wk_id rows1 = map wk_id rows" "map wk_parent rows1 = map wk_parent rows"
  shows "wk_parent q = wk_parent item"
proof -
  obtain k where k: "k < length rows1" "rows1 ! k = q" "wk_id q = i"
    using by_key_SomeD [OF q] by (auto simp: in_set_conv_nth)
  have len: "length rows1 = length rows" using same(1) by (metis length_map)
  have "wk_id (rows ! k) = i" "wk_parent (rows ! k) = wk_parent q"
    using arg_cong [OF same(1), of "\<lambda>xs. xs ! k"] arg_cong [OF same(2), of "\<lambda>xs. xs ! k"] k len by simp_all
  moreover from this have "by_key wk_id i rows = Some (rows ! k)"
    using k(1) len by (simp add: by_key_Some_iff [OF dist])
  ultimately show ?thesis using item by simp
qed

text \<open>
  C29. A reorder that succeeds puts the item exactly where it was asked to stand, also when the
  numbers had run out and all siblings were numbered anew, and the other siblings keep their order
  and their parents.\<close>

theorem reorder_places_item:
  assumes dist: "distinct (map wk_id rows)"
    and run: "reorder ca after before i rows = (Ok r, rows')"
    and target: "after \<noteq> Some (Some i)" "before \<noteq> Some (Some i)"
  shows "by_key wk_id i rows' = Some r \<and>
    (case after of
       Some targetId \<Rightarrow> stands rows' r After targetId
     | None \<Rightarrow> before \<noteq> None \<and> stands rows' r Before (the before)) \<and>
    keeps_order (wk_parent r) i rows rows' \<and>
    map wk_id rows' = map wk_id rows \<and> map wk_parent rows' = map wk_parent rows"
proof -
  obtain item where item: "by_key wk_id i rows = Some item"
    using run by (auto simp: reorder_def split: if_splits option.splits)
  define pos where "pos = (if after = None then Before else After)"
  define targetId where "targetId = (case after of Some x \<Rightarrow> x | None \<Rightarrow> the before)"
  have sides: "after = None \<Longrightarrow> before \<noteq> None"
    using run by (auto simp: reorder_def split: if_splits)
  obtain s rows1 where new: "reorder_sort rows item pos targetId = Inr (s, rows1)"
      and rows': "rows' = sql_update (\<lambda>q. wk_id q = i) (\<lambda>q. q\<lparr>wk_sort := s\<rparr>) rows1"
      and r: "by_key wk_id i rows' = Some r"
    using run item unfolding pos_def targetId_def reorder_def
    by (auto simp: Let_def split: if_splits option.splits sum.splits)
  have iid: "wk_id item = i" using by_key_SomeD [OF item] by simp
  have far: "targetId \<noteq> Some (wk_id item)"
    using target sides iid by (auto simp: targetId_def split: option.splits)
  have keys: "map wk_id rows1 = map wk_id rows \<and> map wk_parent rows1 = map wk_parent rows"
    using reorder_sort_spec [OF dist far new, of "item\<lparr>wk_sort := s\<rparr>", OF _ _ _ refl] by simp
  obtain q where q: "by_key wk_id i rows1 = Some q" "r = q\<lparr>wk_sort := s\<rparr>"
  proof (cases "by_key wk_id i rows1")
    case None
    then show ?thesis using r by (simp add: rows' by_key_sql_update)
  next
    case (Some q)
    then show ?thesis using r by_key_SomeD [OF Some] that by (simp add: rows' by_key_sql_update)
  qed
  have rr: "wk_id r = wk_id item" "wk_parent r = wk_parent item" "wk_sort r = s"
    using q by_key_SomeD [OF q(1)] row_parent_kept [OF dist item q(1)] keys iid by simp_all
  have spec: "stands rows' r pos targetId" "keeps_order (wk_parent item) (wk_id item) rows rows1"
    using reorder_sort_spec [OF dist far new rr] rows' iid by simp_all
  have others: "by_key wk_id k rows' = by_key wk_id k rows1" if "k \<noteq> i" for k
    using that unfolding rows' by (cases "by_key wk_id k rows1") (auto simp: by_key_sql_update dest: by_key_SomeD)
  have "keeps_order (wk_parent item) i rows rows'"
    using spec(2) others unfolding keeps_order_def iid by (simp add: siblings_def)
  moreover have "map wk_id rows' = map wk_id rows1" "map wk_parent rows' = map wk_parent rows1"
    by (simp_all add: rows' map_key_sql_update)
  ultimately show ?thesis
    using r spec(1) keys rr sides by (auto simp: pos_def targetId_def split: option.splits)
qed

text \<open>
  A move under another parent does not number the siblings anew: next to a sibling whose
  number is one higher the item lands five hundred further on, behind that sibling, and otherwise
  it stands right after its target.\<close>

theorem reparent_position:
  assumes dist: "distinct (map wk_id rows)"
    and run: "reparent ca p (Some t) i rows = Some (Ok r, rows')"
    and t: "by_key wk_id t rows = Some rt"
  shows "wk_parent r = p \<and>
    (if \<exists>q \<in> set (siblings rows p i). wk_sort q = wk_sort rt + 1
     then wk_sort r = wk_sort rt + 500
     else wk_sort rt < wk_sort r \<and>
       (\<forall>q \<in> set (siblings rows p i). wk_sort q \<le> wk_sort rt \<or> wk_sort r < wk_sort q))"
proof -
  obtain item where item: "by_key wk_id i rows = Some item"
    using run by (auto simp: reparent_def split: if_splits option.splits)
  obtain s where s: "reparent_sort rows p (Some t) i = Inr s"
    and run': "reply_of_patch i rows
      (patch_rows \<lparr>wp_kind = None, wp_parent = Some p, wp_namespace = None, wp_sort = Some s\<rparr> [i] rows)
      = Some (Ok r, rows')"
    using run item by (auto simp: reparent_def split: if_splits option.splits sum.splits)
  have r: "wk_parent r = p" "wk_sort r = s"
    using reply_Ok [OF item run'] by simp_all
  let ?others = "siblings rows p i"
  have place: "s = (case next_sort ?others (wk_sort rt) of None \<Rightarrow> wk_sort rt + 1000
      | Some n \<Rightarrow> if (wk_sort rt + n) div 2 = wk_sort rt then wk_sort rt + 500 else (wk_sort rt + n) div 2)"
    using s t by (auto simp: reparent_sort_def Let_def split: if_splits option.splits)
  show ?thesis
  proof (cases "next_sort ?others (wk_sort rt)")
    case None
    then show ?thesis using place r next_sort_None [OF None] by fastforce
  next
    case (Some n)
    note nx = next_sort_Some [OF Some]
    have one: "(\<exists>q \<in> set ?others. wk_sort q = wk_sort rt + 1) \<longleftrightarrow> n = wk_sort rt + 1"
      using nx by force
    show ?thesis
    proof (cases "n = wk_sort rt + 1")
      case True
      then have "(wk_sort rt + n) div 2 = wk_sort rt" by simp
      then show ?thesis using one True place Some r by simp
    next
      case False
      then have "wk_sort rt < (wk_sort rt + n) div 2" "(wk_sort rt + n) div 2 < n" using nx(1) by linarith+
      then show ?thesis using one False place Some r nx(3) by force
    qed
  qed
qed

subsection \<open>Witnesses\<close>

lemma work_demo_distinct: "distinct (map wk_id work_demo)"
  using work_demo_forest by (simp add: forest_def)

lemma demo_reorder:
  "fst (reorder m2m_caller (Some (Some ''t1'')) None ''t3'' work_demo) =
     Ok \<lparr>wk_id = ''t3'', wk_kind = Task, wk_parent = None, wk_namespace = ''home'', wk_sort = 2500, wk_deleted = False\<rparr>"
  by code_simp

text \<open>There is no number between 2000 and 2001: the four roots are numbered anew and the item goes
  to 2500.\<close>

theorem reorder_places_item_witness:
  "\<exists>r rows'. reorder m2m_caller (Some (Some ''t1'')) None ''t3'' work_demo = (Ok r, rows') \<and>
     wk_sort r = 2500 \<and> stands rows' r After (Some ''t1'')"
proof -
  obtain r rows' where run: "reorder m2m_caller (Some (Some ''t1'')) None ''t3'' work_demo = (Ok r, rows')"
      and "wk_sort r = 2500"
    using demo_reorder by (cases "reorder m2m_caller (Some (Some ''t1'')) None ''t3'' work_demo") auto
  then show ?thesis
    using reorder_places_item [OF work_demo_distinct run] by auto
qed

lemma demo_reparent:
  "map_option fst (reparent m2m_caller None (Some ''t1'') ''t3'' work_demo) =
     Some (Ok \<lparr>wk_id = ''t3'', wk_kind = Task, wk_parent = None, wk_namespace = ''home'', wk_sort = 2500, wk_deleted = False\<rparr>)"
  by (simp add: reparent_def reparent_sort_def next_sort_def siblings_def writable_simps work_demo_def by_key_def
      check_parent_def validateHierarchy_def validate_work_item_hierarchy_def reply_of_patch_def
      sql_update_def apply_patch_def)

text \<open>Moved after the sibling at 2000 the item lands at 2500, behind the one at 2001.\<close>

theorem reparent_position_witness:
  "\<exists>r rows'. reparent m2m_caller None (Some ''t1'') ''t3'' work_demo = Some (Ok r, rows') \<and>
     wk_sort r = 2000 + 500 \<and> (\<exists>q \<in> set work_demo. wk_id q = ''t2'' \<and> wk_sort q = 2001)"
proof -
  obtain r rows' where run: "reparent m2m_caller None (Some ''t1'') ''t3'' work_demo = Some (Ok r, rows')"
    using demo_reparent by auto
  have t1: "by_key wk_id ''t1'' work_demo = Some (work_demo ! 2)" by (simp add: work_demo_def by_key_def)
  have next_to: "\<exists>q \<in> set (siblings work_demo None ''t3''). wk_sort q = wk_sort (work_demo ! 2) + 1"
    by (simp add: work_demo_def siblings_def)
  have "wk_sort r = wk_sort (work_demo ! 2) + 500"
    using reparent_position [OF work_demo_distinct run t1] next_to by presburger
  then have "wk_sort r = 2000 + 500" by (simp add: work_demo_def)
  then show ?thesis using run by (intro exI conjI) (simp_all add: work_demo_def)
qed

end
