(* ===== verification/Dependencies.thy ===== *)
theory Dependencies
  imports WorkItems
begin

text \<open>
  Dependencies between work items: \<open>POST /work-items/:id/dependencies\<close> of \<open>src/api/server.ts\<close>.
  The query that looks for a cycle is a recursive one with \<open>UNION\<close>: rows already found are not
  followed again, so unlike the queries of theory Forest it ends on every graph; \<open>walk\<close> is a total
  function. The columns \<open>not_before\<close> and \<open>not_after\<close> of the items are two functions of the
  state.
\<close>

subsection \<open>The state\<close>

record dep_row =
  dp_item :: uuid
  dp_on :: uuid
  dp_kind :: string

record dep_db =
  dd_items :: "work_row list"
  dd_deps :: "dep_row list"
  dd_not_before :: "uuid \<Rightarrow> millis option"
  dd_not_after :: "uuid \<Rightarrow> millis option"

record dep_body =
  db_depends_on :: "string option"
  db_target :: "string option"
  db_kind :: "string option"
  db_direction :: "string option"

datatype dep_reply = Target_required | Target_no_uuid | Self_dependency | Dep_not_found
  | Depends_on_not_found | Would_cycle | Insert_refused | Dep_created dep_row

text \<open>The text of a UUID, \<open>uuidRe\<close> of the endpoint.\<close>

definition uuidRe :: "string \<Rightarrow> bool" where
  "uuidRe s = uuid_text s"

subsection \<open>Looking for a cycle\<close>

definition dep_edges :: "string \<Rightarrow> dep_row list \<Rightarrow> (uuid \<times> uuid) list" where
  "dep_edges kind deps = map (\<lambda>d. (dp_item d, dp_on d)) (filter (\<lambda>d. dp_kind d = kind) deps)"

definition targets :: "(uuid \<times> uuid) list \<Rightarrow> uuid list \<Rightarrow> uuid list" where
  "targets es from = remdups (map snd (filter (\<lambda>e. fst e \<in> set from) es))"

text \<open>One round of the query follows the rows the round before it found, and keeps the new ones.\<close>

function walk :: "(uuid \<times> uuid) list \<Rightarrow> uuid list \<Rightarrow> uuid list \<Rightarrow> uuid list" where
  "walk es [] seen = seen"
| "walk es (w # ws) seen =
     (let new = filter (\<lambda>x. x \<notin> set seen) (targets es (w # ws)) in walk es new (seen @ new))"
  by pat_completeness auto

lemma targets_set: "set (targets es from) = set es `` set from"
  by (force simp: targets_def)

termination walk
proof (relation "measures [\<lambda>(es, ws, seen). card (snd ` set es - set seen), \<lambda>(es, ws, seen). length ws]")
  fix es w ws seen new
  assume new: "new = filter (\<lambda>x. x \<notin> set seen) (targets es (w # ws))"
  show "((es, new, seen @ new), es, w # ws, seen)
      \<in> measures [\<lambda>(es, ws, seen). card (snd ` set es - set seen), \<lambda>(es, ws, seen). length ws]"
  proof (cases "new = []")
    case False
    have "set new \<subseteq> snd ` set es - set seen" using new by (force simp: targets_set)
    moreover have "hd new \<in> set new" using False by simp
    ultimately have "snd ` set es - set (seen @ new) \<subset> snd ` set es - set seen" by auto
    then have "card (snd ` set es - set (seen @ new)) < card (snd ` set es - set seen)"
      by (intro psubset_card_mono) auto
    then show ?thesis by simp
  qed simp
qed simp

definition would_cycle :: "dep_row list \<Rightarrow> string \<Rightarrow> uuid \<Rightarrow> uuid \<Rightarrow> bool" where
  "would_cycle deps kind workItemId dependsOn =
     (let es = dep_edges kind deps; start = targets es [dependsOn]
      in List.member (walk es start start) workItemId)"

subsection \<open>The endpoint\<close>

definition blocker_times :: "dep_db \<Rightarrow> uuid \<Rightarrow> millis list" where
  "blocker_times db i = List.map_filter
     (\<lambda>d. if dp_item d = i \<and> dp_kind d = ''depends_on'' \<and> by_key wk_id (dp_on d) (dd_items db) \<noteq> None
          then (case dd_not_after db (dp_on d) of Some t \<Rightarrow> Some t | None \<Rightarrow> dd_not_before db (dp_on d))
          else None) (dd_deps db)"

definition latest_blocker :: "dep_db \<Rightarrow> uuid \<Rightarrow> millis option" where
  "latest_blocker db i =
     (let times = blocker_times db i in if times = [] then None else Some (Max (set times)))"

definition push_start :: "uuid \<Rightarrow> dep_db \<Rightarrow> dep_db" where
  "push_start i db =
     (case latest_blocker db i of
        None \<Rightarrow> db
      | Some t \<Rightarrow> db\<lparr>dd_not_before := (dd_not_before db)(i :=
          (case dd_not_before db i of
             None \<Rightarrow> Some t
           | Some s \<Rightarrow> if s < t then Some t else Some s))\<rparr>)"

text \<open>The table refuses a kind of blanks, an item that depends on itself and a row it already
  has.\<close>

definition insert_dependency :: "dep_row \<Rightarrow> dep_db \<Rightarrow> dep_db option" where
  "insert_dependency d db =
     (if dropWhile (\<lambda>c. c = CHR '' '') (dp_kind d) = [] \<or> dp_item d = dp_on d \<or> d \<in> set (dd_deps db) then None
      else Some (db\<lparr>dd_deps := dd_deps db @ [d]\<rparr>))"

definition post_dependency :: "caller \<Rightarrow> uuid \<Rightarrow> dep_body \<Rightarrow> dep_db \<Rightarrow> dep_reply \<times> dep_db" where
  "post_dependency ca i body db =
     (case (case env_set (db_depends_on body) of Some t \<Rightarrow> Some t | None \<Rightarrow> env_set (db_target body)) of
        None \<Rightarrow> (Target_required, db)
      | Some target \<Rightarrow>
          let blocks = (db_direction body = Some ''blocks'');
              workItemId = (if blocks then target else i);
              dependsOn = (if blocks then i else target);
              kind = (case db_kind body of Some k \<Rightarrow> k | None \<Rightarrow> ''depends_on'')
          in if \<not> uuidRe target then (Target_no_uuid, db)
             else if target = i then (Self_dependency, db)
             else if \<not> writable ca i (dd_items db) then (Dep_not_found, db)
             else if blocks \<and> \<not> writable ca target (dd_items db) then (Dep_not_found, db)
             else if by_key wk_id workItemId (dd_items db) = None then (Dep_not_found, db)
             else if by_key wk_id dependsOn (dd_items db) = None then (Depends_on_not_found, db)
             else if would_cycle (dd_deps db) kind workItemId dependsOn then (Would_cycle, db)
             else let d = \<lparr>dp_item = workItemId, dp_on = dependsOn, dp_kind = kind\<rparr> in
               (case insert_dependency d db of
                  None \<Rightarrow> (Insert_refused, db)
                | Some db1 \<Rightarrow>
                    (Dep_created d, if kind = ''depends_on'' then push_start workItemId db1 else db1)))"

subsection \<open>The search finds what is reachable\<close>

lemma walk_closure:
  assumes "set ws \<subseteq> set seen" and "set es `` (set seen - set ws) \<subseteq> set seen"
  shows "set (walk es ws seen) = (set es)\<^sup>* `` set seen"
  using assms
proof (induction es ws seen rule: walk.induct)
  case (1 es seen)
  then show ?case by (simp add: Image_closed_trancl)
next
  case (2 es w ws seen)
  define new where "new = filter (\<lambda>x. x \<notin> set seen) (targets es (w # ws))"
  have found: "set seen \<union> set new = set seen \<union> set es `` set (w # ws)"
    by (auto simp: new_def targets_set)
  have "set (seen @ new) - set new = set seen" by (auto simp: new_def)
  then have closed: "set es `` (set (seen @ new) - set new) \<subseteq> set (seen @ new)"
    using 2(3) found by auto
  have "set (walk es (w # ws) seen) = set (walk es new (seen @ new))"
    by (simp add: new_def Let_def)
  also have "\<dots> = (set es)\<^sup>* `` set (seen @ new)"
    using "2.IH" [OF new_def] closed by simp
  also have "\<dots> = (set es)\<^sup>* `` (set seen \<union> set es `` set (w # ws))"
    using found by simp
  also have "\<dots> = (set es)\<^sup>* `` set seen"
    using 2(2) by (auto intro: converse_rtrancl_into_rtrancl)
  finally show ?case .
qed

lemma would_cycle_iff:
  "would_cycle deps kind a b \<longleftrightarrow> (b, a) \<in> (set (dep_edges kind deps))\<^sup>+"
proof -
  let ?es = "dep_edges kind deps"
  have "set (walk ?es (targets ?es [b]) (targets ?es [b])) = (set ?es)\<^sup>* `` (set ?es `` {b})"
    by (simp add: walk_closure targets_set)
  then show ?thesis
    by (auto simp: would_cycle_def Let_def intro: rtrancl_into_trancl2 dest: tranclD)
qed

lemma post_dependency_refused:
  "post_dependency ca i body db = (Would_cycle, db') \<Longrightarrow>
     \<exists>kind a b. i \<in> {a, b} \<and> would_cycle (dd_deps db) kind a b"
  by (auto simp: post_dependency_def Let_def split: option.splits if_splits)

text \<open>No chain of dependencies of one kind leads back to where it began.\<close>

definition deps_acyclic :: "dep_db \<Rightarrow> bool" where
  "deps_acyclic db \<longleftrightarrow> (\<forall>kind. acyclic (set (dep_edges kind (dd_deps db))))"

lemma edges_snoc:
  "set (dep_edges k (deps @ [d])) =
     (if dp_kind d = k then insert (dp_item d, dp_on d) (set (dep_edges k deps)) else set (dep_edges k deps))"
  by (auto simp: dep_edges_def)

lemma push_start_deps [simp]: "dd_deps (push_start i db) = dd_deps db" "dd_items (push_start i db) = dd_items db"
  by (simp_all add: push_start_def split: option.split)

lemma post_dependency_cases:
  assumes "post_dependency ca i body db = (reply, db')"
  obtains (refused) "db' = db" "\<forall>d. reply \<noteq> Dep_created d"
  | (made) d db1 where "reply = Dep_created d" "i \<in> {dp_item d, dp_on d}" "insert_dependency d db = Some db1"
      "\<not> would_cycle (dd_deps db) (dp_kind d) (dp_item d) (dp_on d)"
      "db' = (if dp_kind d = ''depends_on'' then push_start (dp_item d) db1 else db1)"
  using assms by (auto simp: post_dependency_def Let_def split: option.splits if_splits)

lemma latest_blocker_ge:
  assumes "t \<in> set (blocker_times db i)"
  shows "\<exists>m. latest_blocker db i = Some m \<and> t \<le> m"
  using assms by (auto simp: latest_blocker_def Let_def)

lemma blocker_times_iff:
  "t \<in> set (blocker_times db i) \<longleftrightarrow>
     (\<exists>d \<in> set (dd_deps db). dp_item d = i \<and> dp_kind d = ''depends_on'' \<and>
        by_key wk_id (dp_on d) (dd_items db) \<noteq> None \<and>
        (case dd_not_after db (dp_on d) of Some t \<Rightarrow> Some t | None \<Rightarrow> dd_not_before db (dp_on d)) = Some t)"
  unfolding blocker_times_def List.map_filter_def by (auto split: if_splits) force

lemma push_start_after:
  assumes "t \<in> set (blocker_times db i)"
  shows "\<exists>s. dd_not_before (push_start i db) i = Some s \<and> t \<le> s"
  using latest_blocker_ge [OF assms] by (auto simp: push_start_def split: option.split)

lemma push_start_keeps:
  "dd_not_before db i = Some s \<Longrightarrow> \<exists>s'. dd_not_before (push_start i db) i = Some s' \<and> s \<le> s'"
  "k \<noteq> i \<Longrightarrow> dd_not_before (push_start i db) k = dd_not_before db k"
  "dd_not_after (push_start i db) = dd_not_after db"
  by (auto simp: push_start_def split: option.split)

subsection \<open>Properties\<close>


text \<open>The check and the insertion are two statements: two overlapping requests can still close a
  cycle, and the search, which ends all the same, then refuses every further dependency on it.\<close>

lemma crossed_dependencies:
  assumes "\<not> would_cycle deps kind a b" "\<not> would_cycle deps kind b a"
  defines "both \<equiv> deps @ [\<lparr>dp_item = a, dp_on = b, dp_kind = kind\<rparr>, \<lparr>dp_item = b, dp_on = a, dp_kind = kind\<rparr>]"
  shows "\<not> acyclic (set (dep_edges kind both)) \<and> would_cycle both kind a a"
proof -
  have "(a, b) \<in> set (dep_edges kind both)" "(b, a) \<in> set (dep_edges kind both)"
    by (auto simp: both_def dep_edges_def)
  then have "(a, a) \<in> (set (dep_edges kind both))\<^sup>+" by (meson trancl.intros)
  then show ?thesis by (auto simp: acyclic_def would_cycle_iff)
qed

subsection \<open>Witness\<close>

definition demo_id :: "char \<Rightarrow> uuid" where
  "demo_id c = replicate 8 c @ ''-'' @ replicate 4 c @ ''-'' @ replicate 4 c @ ''-'' @ replicate 4 c @ ''-'' @ replicate 12 c"

definition dep_demo :: dep_db where
  "dep_demo = \<lparr>dd_items = map (\<lambda>c. \<lparr>wk_id = demo_id c, wk_kind = Task, wk_parent = None, wk_namespace = ''home'',
       wk_sort = 0, wk_deleted = False\<rparr>) ''abc'',
     dd_deps = [\<lparr>dp_item = demo_id (CHR ''a''), dp_on = demo_id (CHR ''b''), dp_kind = ''depends_on''\<rparr>],
     dd_not_before = (\<lambda>_. None), dd_not_after = (\<lambda>_. Some 700)\<rparr>"

definition dep_request :: "char \<Rightarrow> dep_body" where
  "dep_request c = \<lparr>db_depends_on = Some (demo_id c), db_target = None, db_kind = None, db_direction = None\<rparr>"

lemma demo_id_inj: "demo_id c = demo_id d \<longleftrightarrow> c = d"
  by (auto simp: demo_id_def eval_nat_numeral)

lemma acyclic_edge: "x \<noteq> y \<Longrightarrow> acyclic {(x, y)}"
  by (simp add: acyclic_insert) (simp add: acyclic_def)

lemma dep_demo_acyclic: "deps_acyclic dep_demo"
  using acyclic_edge [of "demo_id (CHR ''a'')" "demo_id (CHR ''b'')"]
  by (auto simp: deps_acyclic_def dep_demo_def dep_edges_def demo_id_inj)

lemma dep_demo_replies:
  "fst (post_dependency m2m_caller (demo_id (CHR ''b'')) (dep_request (CHR ''a'')) dep_demo) = Would_cycle"
  "fst (post_dependency m2m_caller (demo_id (CHR ''b'')) (dep_request (CHR ''c'')) dep_demo) =
     Dep_created \<lparr>dp_item = demo_id (CHR ''b''), dp_on = demo_id (CHR ''c''), dp_kind = ''depends_on''\<rparr>"
  by code_simp+


end
