(* ===== verification/NamespaceMove.thy ===== *)
theory NamespaceMove
  imports WorkItems
begin

text \<open>
  Moving a work item to another namespace: \<open>moveEntityNamespace\<close> of \<open>src/api/server.ts\<close> for the
  table of work items, whose descendants follow by a recursive query that stops at depth 100. The
  item and then its descendants are updated by statements that set the namespace, so the trigger of
  theory WorkItems checks every row against its parent as it stands at that moment; the order in
  which the database visits the rows of the second statement is the parameter \<open>scan\<close>. The audit
  entry, which never changes the outcome, is left out.
\<close>

subsection \<open>The operation\<close>

fun descendants :: "nat \<Rightarrow> work_row list \<Rightarrow> uuid \<Rightarrow> uuid list" where
  "descendants 0 rows i = []"
| "descendants (Suc k) rows i =
     concat (map (\<lambda>c. wk_id c # descendants k rows (wk_id c)) (filter (\<lambda>c. wk_parent c = Some i) rows))"

datatype move_outcome = Move_null | Moved work_row string | Move_forbidden string | Move_failed db_error

definition set_namespace :: "string \<Rightarrow> work_patch" where
  "set_namespace ns = \<lparr>wp_kind = None, wp_parent = None, wp_namespace = Some ns, wp_sort = None\<rparr>"

definition move_statements ::
    "uuid list \<Rightarrow> uuid \<Rightarrow> string \<Rightarrow> work_row list \<Rightarrow> (db_error + work_row list) option" where
  "move_statements scan i target rows =
     (case patch_rows (set_namespace target) [i] rows of
        None \<Rightarrow> None
      | Some (Inl e) \<Rightarrow> Some (Inl e)
      | Some (Inr rows1) \<Rightarrow>
          patch_rows (set_namespace target) (filter (List.member (descendants 100 rows1 i)) scan) rows1)"

definition moveEntityNamespace ::
    "jwt_env \<Rightarrow> NamespaceContext option \<Rightarrow> string option \<Rightarrow> grant_row list \<Rightarrow> uuid list \<Rightarrow>
       uuid \<Rightarrow> string \<Rightarrow> work_row list \<Rightarrow> (move_outcome \<times> work_row list) option" where
  "moveEntityNamespace env context sessionEmail grants scan i target rows =
     (let isM2M = (case context of Some ctx \<Rightarrow> nc_m2m ctx | None \<Rightarrow> False);
          free = (isAuthDisabled env \<or> isM2M);
          sources = (if free then [] else map gr_namespace (filter (\<lambda>g. Some (gr_email g) = sessionEmail) grants)) in
      if \<not> free \<and> env_set sessionEmail = None then Some (Move_null, rows)
      else if \<not> free \<and> sources = [] then Some (Move_null, rows)
      else case find (\<lambda>r. wk_id r = i \<and> (sources = [] \<or> List.member sources (wk_namespace r))) rows of
        None \<Rightarrow> Some (Move_null, rows)
      | Some r \<Rightarrow>
          if wk_namespace r = target then Some (Moved r (wk_namespace r), rows)
          else if \<not> free \<and> \<not> List.member sources target then Some (Move_null, rows)
          else case (if free then Inr ()
                     else case requireMinRole context (wk_namespace r) ReadWrite of
                       Inl e \<Rightarrow> Inl e | Inr _ \<Rightarrow> requireMinRole context target ReadWrite) of
            Inl e \<Rightarrow> Some (Move_forbidden e, rows)
          | Inr _ \<Rightarrow>
              map_option (\<lambda>res. case res of
                  Inl e \<Rightarrow> (Move_failed e, rows)
                | Inr rows' \<Rightarrow> (Moved (apply_patch (set_namespace target) r) (wk_namespace r), rows'))
                (move_statements scan i target rows))"

subsection \<open>Statements over several rows\<close>

lemma patch_rows_append:
  "patch_rows u (xs @ ys) rows =
     (case patch_rows u xs rows of Some (Inr rows') \<Rightarrow> patch_rows u ys rows' | other \<Rightarrow> other)"
  by (induction xs arbitrary: rows) (auto split: option.split sum.split)

lemma patch_rows_other:
  "patch_rows u ids rows = Some (Inr rows') \<Longrightarrow> k \<notin> set ids \<Longrightarrow> by_key wk_id k rows' = by_key wk_id k rows"
proof (induction ids arbitrary: rows)
  case (Cons i ids)
  then show ?case
    by (auto simp: by_key_patched option.map_ident split: option.splits sum.splits)
qed simp

lemma patch_rows_forest:
  "forest wk_id wk_parent rows \<Longrightarrow>
     \<exists>res. patch_rows u ids rows = Some res \<and> (\<forall>rows'. res = Inr rows' \<longrightarrow> forest wk_id wk_parent rows')"
proof (induction ids arbitrary: rows)
  case (Cons i ids)
  show ?case
  proof (cases "by_key wk_id i rows")
    case None
    then show ?thesis using Cons by simp
  next
    case (Some r)
    obtain res where res: "validate_work_item_hierarchy rows (apply_patch u r) = Some res"
      using trigger_returns [OF Cons.prems] by blast
    show ?thesis
    proof (cases res)
      case (Inl e)
      then show ?thesis using Some res by simp
    next
      case (Inr x)
      then have "forest wk_id wk_parent (sql_update (\<lambda>q. wk_id q = i) (apply_patch u) rows)"
        using patch_keeps_forest [OF Cons.prems Some] res by simp
      then show ?thesis using Cons.IH Some res Inr by simp
    qed
  qed
qed simp

text \<open>A row whose parent is in another namespace than the new one is refused.\<close>

lemma trigger_namespace:
  assumes link: "link_ok rows0 r" and p: "wk_parent r = Some p"
    and q0: "by_key wk_id p rows0 = Some q0" and q: "by_key wk_id p rows = Some q" "wk_kind q = wk_kind q0"
    and other: "wk_namespace q \<noteq> target"
  shows "validate_work_item_hierarchy rows (apply_patch (set_namespace target) r) = Some (Inl Exc_namespace)"
proof -
  have "validateHierarchy (wk_kind r) (Some (wk_kind q)) = None"
    using link p q0 q(2) by (simp add: link_ok_parent)
  then show ?thesis
    using p q(1) other unfolding validateHierarchy_under
    by (cases "wk_kind r") (simp_all add: validate_work_item_hierarchy_def Let_def set_namespace_def)
qed

lemma move_statements_child:
  assumes ok: "wk_ok rows" and r: "by_key wk_id i rows = Some r" "wk_parent r = Some p"
    and other: "wk_namespace r \<noteq> target"
  shows "move_statements scan i target rows = Some (Inl Exc_namespace)"
proof -
  have link: "link_ok rows r" using ok by_key_SomeD [OF r(1)] by (simp add: wk_ok_def)
  then obtain q where q: "by_key wk_id p rows = Some q" "wk_namespace q = wk_namespace r"
    using r(2) by (auto simp: link_ok_parent)
  have "validate_work_item_hierarchy rows (apply_patch (set_namespace target) r) = Some (Inl Exc_namespace)"
    by (rule trigger_namespace [OF link r(2) q(1) q(1) refl]) (use q(2) other in simp)
  then show ?thesis unfolding move_statements_def patch_one [OF r(1)] by simp
qed

lemma move_statements_order:
  assumes ok: "wk_ok rows"
    and c: "by_key wk_id c rows = Some rc" "c \<noteq> i" "wk_namespace rc \<noteq> target"
    and g: "by_key wk_id g rows = Some rg" "g \<noteq> i" "wk_parent rg = Some c"
    and scan: "scan = xs @ g # ys" "c \<notin> set xs" "g \<notin> set xs"
    and below: "\<And>rows1. patch_rows (set_namespace target) [i] rows = Some (Inr rows1) \<Longrightarrow>
      g \<in> set (descendants 100 rows1 i)"
  shows "\<exists>e. move_statements scan i target rows = Some (Inl e)"
proof -
  have forest: "forest wk_id wk_parent rows" using ok by (simp add: wk_ok_def)
  obtain res where res: "patch_rows (set_namespace target) [i] rows = Some res"
      "\<And>rows1. res = Inr rows1 \<Longrightarrow> forest wk_id wk_parent rows1"
    using patch_rows_forest [OF forest] by blast
  show ?thesis
  proof (cases res)
    case (Inl e)
    then show ?thesis using res by (simp add: move_statements_def)
  next
    case (Inr rows1)
    let ?D = "List.member (descendants 100 rows1 i)"
    have one: "patch_rows (set_namespace target) [i] rows = Some (Inr rows1)" using res(1) Inr by simp
    have "patch_rows (set_namespace target) (filter ?D scan) rows1 =
        patch_rows (set_namespace target) (filter ?D xs @ g # filter ?D ys) rows1"
      using below [OF one] by (simp add: scan(1))
    moreover obtain res1 where res1: "patch_rows (set_namespace target) (filter ?D xs) rows1 = Some res1"
      using patch_rows_forest [OF res(2) [OF Inr]] by blast
    ultimately have run: "move_statements scan i target rows =
        (case res1 of Inl e \<Rightarrow> Some (Inl e)
         | Inr rows2 \<Rightarrow> patch_rows (set_namespace target) (g # filter ?D ys) rows2)"
      unfolding move_statements_def one
      by (simp add: patch_rows_append del: patch_rows.simps split: sum.split)
    show ?thesis
    proof (cases res1)
      case (Inl e)
      then show ?thesis using run by simp
    next
      case (Inr rows2)
      have keys: "by_key wk_id c rows2 = Some rc" "by_key wk_id g rows2 = Some rg"
        using patch_rows_other [OF res1 [unfolded Inr]] patch_rows_other [OF one] c g scan by simp_all
      have link: "link_ok rows rg" using ok by_key_SomeD [OF g(1)] by (simp add: wk_ok_def)
      have "validate_work_item_hierarchy rows2 (apply_patch (set_namespace target) rg) = Some (Inl Exc_namespace)"
        by (rule trigger_namespace [OF link g(3) c(1) keys(1) refl c(3)])
      then show ?thesis using run Inr keys(2) by simp
    qed
  qed
qed

lemma move_outcome_failed:
  assumes "moveEntityNamespace env context email grants scan i target rows = Some (Moved r ns, rows')"
    and "\<exists>e. move_statements scan i target rows = Some (Inl e)"
    and "\<And>r. r \<in> set rows \<Longrightarrow> wk_id r = i \<Longrightarrow> wk_namespace r \<noteq> target"
  shows False
  using assms
  by (auto simp: moveEntityNamespace_def Let_def dest!: find_SomeD
      split: option.splits if_splits sum.splits)

subsection \<open>Properties\<close>

text \<open>
  C31. Moving to another namespace never succeeds for an item that has a parent, whoever asks, and
  for an item without one it fails whenever the database visits a descendant before the
  descendant's own parent: the outcome depends on the order of the rows in the table.\<close>

theorem namespace_move_refused:
  assumes ok: "wk_ok rows" and r: "by_key wk_id i rows = Some r" "wk_namespace r \<noteq> target"
    and run: "moveEntityNamespace env context email grants scan i target rows = Some (out, rows')"
    and reason: "wk_parent r \<noteq> None \<or>
      (\<exists>c rc g rg xs ys. by_key wk_id c rows = Some rc \<and> c \<noteq> i \<and> wk_namespace rc \<noteq> target \<and>
         by_key wk_id g rows = Some rg \<and> g \<noteq> i \<and> wk_parent rg = Some c \<and>
         scan = xs @ g # ys \<and> c \<notin> set xs \<and> g \<notin> set xs \<and>
         (\<forall>rows1. patch_rows (set_namespace target) [i] rows = Some (Inr rows1) \<longrightarrow>
            g \<in> set (descendants 100 rows1 i)))"
  shows "\<forall>q ns. out \<noteq> Moved q ns"
proof (intro allI notI)
  fix q ns assume "out = Moved q ns"
  moreover have "\<exists>e. move_statements scan i target rows = Some (Inl e)"
    using reason
  proof (elim disjE exE conjE)
    assume "wk_parent r \<noteq> None"
    then show ?thesis using move_statements_child [OF ok r(1) _ r(2)] by auto
  next
    fix c rc g rg xs ys
    assume c: "by_key wk_id c rows = Some rc" "c \<noteq> i" "wk_namespace rc \<noteq> target"
      and g: "by_key wk_id g rows = Some rg" "g \<noteq> i" "wk_parent rg = Some c"
      and scan: "scan = xs @ g # ys" "c \<notin> set xs" "g \<notin> set xs"
      and below: "\<forall>rows1. patch_rows (set_namespace target) [i] rows = Some (Inr rows1) \<longrightarrow>
            g \<in> set (descendants 100 rows1 i)"
    show ?thesis by (rule move_statements_order [OF ok c g scan]) (use below in blast)
  qed
  moreover have "wk_namespace x \<noteq> target" if "x \<in> set rows" "wk_id x = i" for x
  proof -
    have "x = r"
      using that by_key_SomeD [OF r(1)] distinct_ident_eq [of wk_id rows x r] ok by (simp add: wk_ok_def forest_def)
    then show ?thesis using r(2) by simp
  qed
  ultimately show False using move_outcome_failed run by metis
qed

subsection \<open>Witness\<close>

definition chain_demo :: "work_row list" where
  "chain_demo = map (\<lambda>(i, k, p). \<lparr>wk_id = i, wk_kind = k, wk_parent = p, wk_namespace = ''home'', wk_sort = 0, wk_deleted = False\<rparr>)
     [(''p'', Project, None), (''i'', Initiative, Some ''p''), (''e'', Epic, Some ''i'')]"

lemma chain_demo_ok: "wk_ok chain_demo"
proof -
  have "parents wk_id wk_parent chain_demo = {(''i'', ''p''), (''e'', ''i'')}"
    by (auto simp: parents_iff chain_demo_def)
  moreover have "acyclic {(''i'', ''p''), (''e'', ''i'')}"
    by (rule wf_acyclic, rule wf_subset [OF wf_measure [of "\<lambda>s. if s = ''p'' then 2 else if s = ''i'' then 1 else 0"]])
      simp
  ultimately have "forest wk_id wk_parent chain_demo" by (simp add: forest_def chain_demo_def)
  then show ?thesis
    by (auto simp: wk_ok_def chain_demo_def link_ok_def check_parent_def validateHierarchy_def by_key_def)
qed

text \<open>The same move of a project with an initiative and an epic succeeds in one order of the rows and
  fails in another.\<close>

lemma chain_moves:
  "map_option fst (moveEntityNamespace (ca_env m2m_caller) None None [] [''p'', ''i'', ''e''] ''p'' ''work'' chain_demo)
     = Some (Moved (hd chain_demo\<lparr>wk_namespace := ''work''\<rparr>) ''home'')"
  "map_option fst (moveEntityNamespace (ca_env m2m_caller) None None [] [''e'', ''i'', ''p''] ''p'' ''work'' chain_demo)
     = Some (Move_failed Exc_namespace)"
  "map_option fst (moveEntityNamespace (ca_env m2m_caller) None None [] [''p'', ''i'', ''e''] ''e'' ''work'' chain_demo)
     = Some (Move_failed Exc_namespace)"
  by (simp_all add: moveEntityNamespace_def m2m_caller_def isAuthDisabled_def chain_demo_def move_statements_def
      set_namespace_def by_key_def validate_work_item_hierarchy_def apply_patch_def in_chain.simps sql_update_def
      eval_nat_numeral)

theorem namespace_move_refused_witness:
  "\<exists>out rows'. moveEntityNamespace (ca_env m2m_caller) None None [] [''p'', ''i'', ''e''] ''e'' ''work'' chain_demo =
     Some (out, rows') \<and> (\<forall>q ns. out \<noteq> Moved q ns)"
proof -
  have e: "by_key wk_id ''e'' chain_demo = Some (chain_demo ! 2)" "wk_namespace (chain_demo ! 2) \<noteq> ''work''"
      "wk_parent (chain_demo ! 2) = Some ''i''"
    by (simp_all add: chain_demo_def by_key_def)
  obtain out rows' where run: "moveEntityNamespace (ca_env m2m_caller) None None [] [''p'', ''i'', ''e''] ''e'' ''work'' chain_demo =
     Some (out, rows')"
    using chain_moves(3) by auto
  then show ?thesis using namespace_move_refused [OF chain_demo_ok e(1,2) run] e(3) by blast
qed

end
