(* ===== verification/Paging.thy ===== *)
theory Paging
  imports Prelude
begin

text \<open>
  Lists read page by page: a query asks for one row more than the page holds, and the last row of the
  page becomes the cursor from which the next page goes on. The interface says when the rows after a
  cursor are exactly the rest of the list; then following the cursors ends and yields every row once.
\<close>

definition page_of :: "nat \<Rightarrow> ('r \<Rightarrow> 'c) \<Rightarrow> 'r list \<Rightarrow> 'r list \<times> 'c option" where
  "page_of limit cursor_of rows =
     (if limit < length rows then (take limit rows, Some (cursor_of (last (take limit rows))))
      else (rows, None))"

definition keyset_page ::
    "('c \<Rightarrow> 'r \<Rightarrow> bool) \<Rightarrow> ('r \<Rightarrow> 'c) \<Rightarrow> nat \<Rightarrow> 'r list \<Rightarrow> 'c option \<Rightarrow> 'r list \<times> 'c option" where
  "keyset_page after cursor_of limit rows cursor =
     page_of limit cursor_of
       (take (limit + 1) (case cursor of None \<Rightarrow> rows | Some c \<Rightarrow> filter (after c) rows))"

text \<open>A client that follows the cursors, with fuel.\<close>

fun follow :: "nat \<Rightarrow> ('c option \<Rightarrow> 'r list \<times> 'c option) \<Rightarrow> 'c option \<Rightarrow> 'r list option" where
  "follow 0 page cursor = None"
| "follow (Suc n) page cursor =
     (case page cursor of
        (rows, None) \<Rightarrow> Some rows
      | (rows, Some c) \<Rightarrow> map_option ((@) rows) (follow n page (Some c)))"

lemma page_of_take: "page_of limit cursor_of (take (limit + 1) rows) =
    (if limit < length rows then (take limit rows, Some (cursor_of (last (take limit rows)))) else (rows, None))"
  by (auto simp: page_of_def min_def)

locale keyset_paging =
  fixes after :: "'c \<Rightarrow> 'r \<Rightarrow> bool"
    and cursor_of :: "'r \<Rightarrow> 'c"
    and spread :: "'r list \<Rightarrow> bool"
  assumes rest: "spread (pre @ r # post) \<Longrightarrow> filter (after (cursor_of r)) (pre @ r # post) = post"
begin

lemma follow_from:
  assumes "0 < limit" and "spread rows" and "rows = pre @ post" and "length post < n"
    and "(case cursor of None \<Rightarrow> rows | Some c \<Rightarrow> filter (after c) rows) = post"
  shows "follow n (keyset_page after cursor_of limit rows) cursor = Some post"
  using assms(3-5)
proof (induction n arbitrary: pre post cursor)
  case (Suc n)
  let ?page = "keyset_page after cursor_of limit rows"
  show ?case
  proof (cases "limit < length post")
    case True
    let ?r = "last (take limit post)"
    have split: "take limit post = butlast (take limit post) @ [?r]"
      using True assms(1) by (intro append_butlast_last_id [symmetric]) auto
    then have rows: "rows = (pre @ butlast (take limit post)) @ ?r # drop limit post"
      using Suc.prems(1) by (metis append.assoc append_Cons append_Nil append_take_drop_id)
    then have after: "filter (after (cursor_of ?r)) rows = drop limit post"
      using rest [of "pre @ butlast (take limit post)" ?r "drop limit post"] assms(2) by simp
    have "follow n ?page (Some (cursor_of ?r)) = Some (drop limit post)"
    proof (rule Suc.IH)
      show "rows = (pre @ take limit post) @ drop limit post" using Suc.prems(1) by simp
      show "length (drop limit post) < n" using Suc.prems(2) True assms(1) by simp
    qed (simp add: after)
    moreover have "?page cursor = (take limit post, Some (cursor_of ?r))"
      using True Suc.prems(3) page_of_take [of limit cursor_of post] by (simp add: keyset_page_def)
    ultimately show ?thesis by simp
  next
    case False
    then have "?page cursor = (post, None)"
      using Suc.prems(3) page_of_take [of limit cursor_of post] by (simp add: keyset_page_def)
    then show ?thesis by simp
  qed
qed simp

lemma follow_all:
  assumes "0 < limit" and "spread rows"
  shows "follow (length rows + 1) (keyset_page after cursor_of limit rows) None = Some rows"
  by (rule follow_from [of limit rows "[]"]) (use assms in auto)

end

end
