(* ===== verification/ChatDb.thy ===== *)
theory ChatDb
  imports Prelude
begin

text \<open>
  The tables of the agent chat (migrations 006, 125, 128) with what the database does on its own: the
  trigger and the constraints on the status of a session, the trigger on the status of a message, and
  what a foreign key deletes or clears. Times of the database are microseconds; the program reads them
  as \<open>Date\<close>s, which hold milliseconds.
\<close>

type_synonym micros = int

definition js_date :: "micros \<Rightarrow> millis" where "js_date t = t div 1000"

subsection \<open>The tables\<close>

datatype chat_session_status = Session_active | Session_ended | Session_expired
datatype chat_message_status = Message_pending | Message_streaming | Message_delivered | Message_failed
datatype message_direction = Inbound_message | Outbound_message

record chat_session_row =
  cs_id :: uuid
  cs_thread :: uuid
  cs_user :: string
  cs_agent :: string
  cs_namespace :: string
  cs_status :: chat_session_status
  cs_title :: "string option"
  cs_secret :: string
  cs_version :: int
  cs_ended :: "micros option"
  cs_activity :: micros

record external_thread_row =
  et_id :: uuid
  et_endpoint :: uuid
  et_key :: string

record external_message_row =
  em_id :: uuid
  em_thread :: uuid
  em_key :: string
  em_direction :: message_direction
  em_body :: string
  em_status :: chat_message_status
  em_idempotency :: "string option"
  em_run :: "string option"
  em_content_type :: string
  em_received :: micros

record read_cursor_row =
  cu_user :: string
  cu_session :: uuid
  cu_message :: "uuid option"
  cu_at :: micros

record chat_activity_row =
  ca_namespace :: string
  ca_session :: "uuid option"
  ca_user :: "string option"
  ca_agent :: "string option"
  ca_action :: string
  ca_at :: micros

text \<open>How an agent reaches a user outside the chat (migration 126): the wishes of the user and what was
  sent before.\<close>

datatype Urgency = Low_urgency | Normal_urgency | High_urgency | Urgent_urgency
datatype EscalationChannel = In_app | Push | Sms | Email

record ChatNotificationPrefs =
  cp_quiet_hours :: "(string \<times> string \<times> string) option"
  cp_escalation :: "(Urgency \<times> EscalationChannel list) list"

record PushSubscription =
  ps_endpoint :: string
  ps_p256dh :: string
  ps_auth :: string
  ps_created :: "millis option"

record user_setting_row =
  us_email :: string
  us_default_agent :: "string option"
  us_visible_agents :: "string list option"
  us_prefs :: ChatNotificationPrefs
  us_push :: "PushSubscription list"

definition new_setting :: "string \<Rightarrow> user_setting_row" where
  "new_setting email = \<lparr>us_email = email, us_default_agent = None, us_visible_agents = None,
     us_prefs = \<lparr>cp_quiet_hours = None, cp_escalation = []\<rparr>, us_push = []\<rparr>"

record notification_row =
  no_id :: uuid
  no_user :: string
  no_title :: string
  no_message :: string
  no_namespace :: string

record notification_dedup_row =
  nd_user :: string
  nd_reason :: string
  nd_notification :: "uuid option"
  nd_at :: micros

record notification_rate_row =
  nr_user :: string
  nr_channel :: EscalationChannel
  nr_at :: micros

record gateway_agent_row =
  ga_namespace :: string
  ga_agent :: string
  ga_default :: bool

record chat_db =
  ch_settings :: "user_setting_row list"
  ch_agents :: "gateway_agent_row list"
  ch_contacts :: "(uuid \<times> string \<times> string) list"
  ch_endpoints :: "(uuid \<times> uuid \<times> string) list"
  ch_threads :: "external_thread_row list"
  ch_sessions :: "chat_session_row list"
  ch_messages :: "external_message_row list"
  ch_cursors :: "read_cursor_row list"
  ch_activities :: "chat_activity_row list"
  ch_notifications :: "notification_row list"
  ch_dedups :: "notification_dedup_row list"
  ch_rates :: "notification_rate_row list"

subsection \<open>What the database checks\<close>

text \<open>\<open>None\<close> is an exception, which undoes the statement.\<close>

definition enforce_chat_session_status_transition ::
    "micros \<Rightarrow> chat_session_row \<Rightarrow> chat_session_row \<Rightarrow> chat_session_row option" where
  "enforce_chat_session_status_transition now old new =
     (if cs_status old = cs_status new then Some new
      else if cs_status old \<noteq> Session_active then None
      else if cs_ended new = None then Some (new\<lparr>cs_ended := Some now\<rparr>)
      else Some new)"

definition enforce_chat_message_status_transition ::
    "external_message_row \<Rightarrow> external_message_row \<Rightarrow> external_message_row option" where
  "enforce_chat_message_status_transition old new =
     (if em_status old = em_status new then Some new
      else if em_status old = Message_delivered \<or> em_status old = Message_failed then None
      else if em_status old = Message_pending \<and>
              em_status new \<notin> {Message_streaming, Message_delivered, Message_failed} then None
      else if em_status old = Message_streaming \<and> em_status new \<notin> {Message_delivered, Message_failed} then None
      else Some new)"

text \<open>\<open>length(trim(t)) > 0\<close> and the bounds of the columns.\<close>

definition sql_nonblank :: "string \<Rightarrow> bool" where
  "sql_nonblank s = list_ex (\<lambda>c. c \<noteq> CHR '' '') s"

definition chat_session_checks :: "chat_session_row \<Rightarrow> bool" where
  "chat_session_checks r \<longleftrightarrow>
     sql_nonblank (cs_agent r) \<and> length (cs_secret r) = 64 \<and>
     (case cs_title r of None \<Rightarrow> True | Some t \<Rightarrow> sql_nonblank t \<and> length t \<le> 200) \<and>
     (cs_status r \<noteq> Session_active \<or> cs_ended r = None) \<and>
     (cs_status r = Session_active \<or> cs_ended r \<noteq> None)"

fun update_sessions ::
    "micros \<Rightarrow> (chat_session_row \<Rightarrow> bool) \<Rightarrow> (chat_session_row \<Rightarrow> chat_session_row) \<Rightarrow>
       chat_session_row list \<Rightarrow> chat_session_row list option" where
  "update_sessions now p f [] = Some []"
| "update_sessions now p f (r # rs) =
     (if p r
      then (case enforce_chat_session_status_transition now r (f r) of
              None \<Rightarrow> None
            | Some r' \<Rightarrow> if chat_session_checks r' then map_option ((#) r') (update_sessions now p f rs) else None)
      else map_option ((#) r) (update_sessions now p f rs))"

definition insert_session :: "chat_session_row \<Rightarrow> chat_db \<Rightarrow> chat_db option" where
  "insert_session r db =
     (if chat_session_checks r \<and> cs_id r \<notin> set (map cs_id (ch_sessions db)) \<and>
         cs_thread r \<notin> set (map cs_thread (ch_sessions db)) \<and>
         cs_thread r \<in> set (map et_id (ch_threads db)) \<and> cs_user r \<in> set (map us_email (ch_settings db))
      then Some (db\<lparr>ch_sessions := ch_sessions db @ [r]\<rparr>)
      else None)"

text \<open>The session of an activity entry has to exist; a fire-and-forget insert that fails changes
  nothing.\<close>

definition recordChatActivity :: "chat_activity_row \<Rightarrow> chat_db \<Rightarrow> chat_db" where
  "recordChatActivity event db =
     (case ca_session event of
        Some s \<Rightarrow> if s \<in> set (map cs_id (ch_sessions db))
                  then db\<lparr>ch_activities := ch_activities db @ [event]\<rparr> else db
      | None \<Rightarrow> db\<lparr>ch_activities := ch_activities db @ [event]\<rparr>)"

text \<open>Deleting sessions: read cursors go with them, activity entries lose their session. The thread of
  a session is what a session refers to, so it stays, and its messages with it.\<close>

definition delete_sessions :: "(chat_session_row \<Rightarrow> bool) \<Rightarrow> chat_db \<Rightarrow> chat_db" where
  "delete_sessions p db =
     (let gone = map cs_id (filter p (ch_sessions db))
      in db\<lparr>ch_sessions := filter (\<lambda>r. \<not> p r) (ch_sessions db),
            ch_cursors := filter (\<lambda>c. cu_session c \<notin> set gone) (ch_cursors db),
            ch_activities := sql_update (\<lambda>a. case ca_session a of Some s \<Rightarrow> s \<in> set gone | None \<Rightarrow> False)
                               (ca_session_update (\<lambda>_. None)) (ch_activities db)\<rparr>)"

subsection \<open>Updates of sessions\<close>

definition session_step :: "chat_session_row \<Rightarrow> chat_session_row \<Rightarrow> bool" where
  "session_step r r' \<longleftrightarrow>
     cs_id r' = cs_id r \<and> cs_thread r' = cs_thread r \<and> cs_user r' = cs_user r \<and> cs_agent r' = cs_agent r \<and>
     cs_namespace r' = cs_namespace r \<and> cs_secret r' = cs_secret r \<and> cs_version r \<le> cs_version r' \<and>
     (cs_version r' = cs_version r \<longrightarrow> cs_title r' = cs_title r \<and> cs_status r' = cs_status r) \<and>
     (cs_status r \<noteq> Session_active \<longrightarrow> cs_status r' = cs_status r \<and> cs_ended r' = cs_ended r)"

definition sessions_ok :: "chat_session_row list \<Rightarrow> bool" where
  "sessions_ok rows \<longleftrightarrow> distinct (map cs_id rows) \<and> (\<forall>r \<in> set rows. chat_session_checks r)"

text \<open>What a statement assigns: it keeps the identity of the row and the end of the session, and a
  change of title or status comes with a new version.\<close>

definition session_patch :: "(chat_session_row \<Rightarrow> chat_session_row) \<Rightarrow> bool" where
  "session_patch f \<longleftrightarrow> (\<forall>r. cs_id (f r) = cs_id r \<and> cs_thread (f r) = cs_thread r \<and> cs_user (f r) = cs_user r \<and>
     cs_agent (f r) = cs_agent r \<and> cs_namespace (f r) = cs_namespace r \<and> cs_secret (f r) = cs_secret r \<and>
     cs_ended (f r) = cs_ended r \<and> cs_version r \<le> cs_version (f r) \<and>
     (cs_version (f r) = cs_version r \<longrightarrow> cs_title (f r) = cs_title r \<and> cs_status (f r) = cs_status r))"

lemma session_step_refl [simp]: "session_step r r"
  by (simp add: session_step_def)

lemma session_step_trans: "session_step a b \<Longrightarrow> session_step b c \<Longrightarrow> session_step a c"
  by (auto simp: session_step_def)

lemma transition_step:
  assumes "session_patch f" "chat_session_checks r"
    and "enforce_chat_session_status_transition now r (f r) = Some r'"
  shows "session_step r r'"
  using assms
  by (auto simp: session_patch_def session_step_def enforce_chat_session_status_transition_def
      chat_session_checks_def split: if_splits)

lemma update_sessions_steps:
  assumes "session_patch f" and "\<forall>r \<in> set rows. chat_session_checks r"
    and "update_sessions now p f rows = Some rows'"
  shows "list_all2 session_step rows rows' \<and> (\<forall>r \<in> set rows'. chat_session_checks r)"
  using assms(2,3)
proof (induction rows arbitrary: rows')
  case (Cons r rows)
  then show ?case
    using transition_step [OF assms(1)] by (auto split: if_splits option.splits)
qed simp

lemma steps_ids: "list_all2 session_step rows rows' \<Longrightarrow> map cs_id rows' = map cs_id rows"
  by (induction rule: list_all2_induct) (auto simp: session_step_def)

lemma update_sessions_ok:
  assumes "session_patch f" and "sessions_ok rows" and "update_sessions now p f rows = Some rows'"
  shows "sessions_ok rows' \<and> list_all2 session_step rows rows'"
  using update_sessions_steps [OF assms(1) _ assms(3)] assms(2) steps_ids
  unfolding sessions_ok_def by metis

lemma steps_by_key:
  assumes "list_all2 session_step rows rows'" and "by_key cs_id i rows = Some r"
  shows "\<exists>r'. by_key cs_id i rows' = Some r' \<and> session_step r r'"
  using assms
proof (induction rule: list_all2_induct)
  case (Cons x xs y ys)
  then have "cs_id y = cs_id x" by (simp add: session_step_def)
  then show ?case using Cons by (auto simp: by_key_def)
qed (simp add: by_key_def)

lemma steps_refl [simp]: "list_all2 session_step rows rows"
  by (simp add: list_all2_refl)

lemma steps_trans:
  "list_all2 session_step a b \<Longrightarrow> list_all2 session_step b c \<Longrightarrow> list_all2 session_step a c"
  using list_all2_trans [of session_step session_step session_step] session_step_trans by blast

text \<open>What a request makes of the table: rows that stay step, and only the new ones are added.\<close>

definition sessions_next :: "uuid set \<Rightarrow> chat_session_row list \<Rightarrow> chat_session_row list \<Rightarrow> bool" where
  "sessions_next new rows rows' \<longleftrightarrow>
     sessions_ok rows' \<and> (\<forall>r \<in> set rows. \<forall>r' \<in> set rows'. cs_id r' = cs_id r \<longrightarrow> session_step r r') \<and>
     cs_id ` set rows' \<subseteq> cs_id ` set rows \<union> new"

lemma sessions_distinct: "sessions_ok rows \<Longrightarrow> r \<in> set rows \<Longrightarrow> r' \<in> set rows \<Longrightarrow> cs_id r' = cs_id r \<Longrightarrow> r' = r"
  unfolding sessions_ok_def distinct_map inj_on_def by blast

lemma session_same:
  "sessions_ok rows \<Longrightarrow> r \<in> set rows \<Longrightarrow> r' \<in> set rows \<Longrightarrow> cs_id r' = cs_id r \<Longrightarrow> session_step r r'"
  using sessions_distinct by fastforce

lemma next_refl: "sessions_ok rows \<Longrightarrow> sessions_next new rows rows"
  using session_same unfolding sessions_next_def by blast

lemma next_trans:
  assumes ab: "sessions_next {} a b" and bc: "sessions_next new b c" and fresh: "cs_id ` set a \<inter> new = {}"
  shows "sessions_next new a c"
  unfolding sessions_next_def
proof (intro conjI ballI impI)
  show "sessions_ok c" using bc by (simp add: sessions_next_def)
  show "cs_id ` set c \<subseteq> cs_id ` set a \<union> new" using ab bc unfolding sessions_next_def by blast
  fix r q assume r: "r \<in> set a" and q: "q \<in> set c" and same: "cs_id q = cs_id r"
  have "cs_id q \<in> cs_id ` set b \<union> new" using bc q unfolding sessions_next_def by blast
  moreover have "cs_id q \<notin> new" using r same fresh by auto
  ultimately obtain m where m: "m \<in> set b" "cs_id m = cs_id q" by auto
  then have "session_step r m" using ab r same unfolding sessions_next_def by simp
  moreover have "session_step m q" using bc m q unfolding sessions_next_def by simp
  ultimately show "session_step r q" by (rule session_step_trans)
qed

lemma next_filter: "sessions_ok rows \<Longrightarrow> sessions_next new rows (filter P rows)"
  using session_same unfolding sessions_next_def by (auto simp: sessions_ok_def distinct_map_filter)

lemma next_updated:
  assumes ok: "sessions_ok rows" and f: "session_patch f" and up: "update_sessions now p f rows = Some rows'"
  shows "sessions_next new rows rows'"
proof -
  have steps: "list_all2 session_step rows rows'" and ok': "sessions_ok rows'"
    using update_sessions_ok [OF f ok up] by simp_all
  have "session_step r r'" if "r \<in> set rows" "r' \<in> set rows'" "cs_id r' = cs_id r" for r r'
  proof -
    have "by_key cs_id (cs_id r) rows = Some r" using ok that by (simp add: by_key_Some_iff sessions_ok_def)
    from steps_by_key [OF steps this] obtain q where q: "by_key cs_id (cs_id r) rows' = Some q" "session_step r q"
      by blast
    then have "q = r'" using sessions_distinct [OF ok'] by_key_SomeD [OF q(1)] that by metis
    then show ?thesis using q by simp
  qed
  moreover have "cs_id ` set rows' = cs_id ` set rows" using steps_ids [OF steps] by (metis set_map)
  ultimately show ?thesis using ok' by (simp add: sessions_next_def)
qed

lemma next_insert:
  assumes ok: "sessions_ok (ch_sessions db)" and ins: "insert_session r db = Some db'"
  shows "sessions_next {cs_id r} (ch_sessions db) (ch_sessions db')"
proof -
  have "chat_session_checks r" "cs_id r \<notin> cs_id ` set (ch_sessions db)" "ch_sessions db' = ch_sessions db @ [r]"
    using ins by (auto simp: insert_session_def split: if_splits)
  then show ?thesis
    using ok session_same [OF ok] unfolding sessions_next_def by (auto simp: sessions_ok_def)
qed

lemma recordChatActivity_frame [simp]:
  "ch_sessions (recordChatActivity e db) = ch_sessions db" "ch_messages (recordChatActivity e db) = ch_messages db"
  "ch_threads (recordChatActivity e db) = ch_threads db" "ch_cursors (recordChatActivity e db) = ch_cursors db"
  by (simp_all add: recordChatActivity_def split: option.split)

lemma delete_sessions_frame [simp]:
  "ch_sessions (delete_sessions p db) = filter (\<lambda>r. \<not> p r) (ch_sessions db)"
  "ch_messages (delete_sessions p db) = ch_messages db" "ch_threads (delete_sessions p db) = ch_threads db"
  by (simp_all add: delete_sessions_def Let_def)

text \<open>What the rows a statement selects look like afterwards.\<close>

lemma transition_version:
  "enforce_chat_session_status_transition now old new = Some r \<Longrightarrow> cs_id r = cs_id new \<and> cs_version r = cs_version new"
  by (auto simp: enforce_chat_session_status_transition_def split: if_splits)

lemma update_sessions_hit:
  assumes "update_sessions now p f rows = Some rows'" and "q \<in> set rows" and "p q"
  shows "\<exists>r \<in> set rows'. cs_id r = cs_id (f q) \<and> cs_version r = cs_version (f q)"
  using assms(1,2)
proof (induction rows arbitrary: rows')
  case (Cons x xs)
  show ?case
  proof (cases "q \<in> set xs")
    case True
    from Cons.prems obtain y ys where "update_sessions now p f xs = Some ys" "rows' = y # ys"
      by (auto split: if_splits option.splits)
    with Cons.IH [OF _ True] show ?thesis by auto
  next
    case False
    with Cons.prems have "q = x" by simp
    with Cons.prems assms(3) obtain y ys where
      "enforce_chat_session_status_transition now x (f x) = Some y" "rows' = y # ys"
      by (auto split: if_splits option.splits)
    with transition_version \<open>q = x\<close> show ?thesis by auto
  qed
qed simp

subsection \<open>A small database\<close>

definition example_sid :: uuid where "example_sid = ''00000000-0000-0000-0000-00000000000a''"
definition example_mid :: uuid where "example_mid = ''00000000-0000-0000-0000-00000000000b''"

definition example_session :: chat_session_row where
  "example_session =
     \<lparr>cs_id = example_sid, cs_thread = ''t1'', cs_user = ''ann'', cs_agent = ''bot'', cs_namespace = ''default'',
      cs_status = Session_active, cs_title = None, cs_secret = replicate 64 (CHR ''0''), cs_version = 1,
      cs_ended = None, cs_activity = 1000000\<rparr>"

definition example_message :: external_message_row where
  "example_message =
     \<lparr>em_id = example_mid, em_thread = ''t1'', em_key = ''k1'', em_direction = Inbound_message, em_body = ''hello'',
      em_status = Message_delivered, em_idempotency = None, em_run = None, em_content_type = ''text/plain'',
      em_received = 2000000\<rparr>"

definition example_chat :: chat_db where
  "example_chat =
     \<lparr>ch_settings = [new_setting ''ann''], ch_agents = [],
      ch_contacts = [(''c1'', ''Agent: bot'', ''default'')], ch_endpoints = [(''e1'', ''c1'', ''agent:bot:ann'')],
      ch_threads = [\<lparr>et_id = ''t1'', et_endpoint = ''e1'', et_key = ''chat:bot:ann:1''\<rparr>],
      ch_sessions = [example_session], ch_messages = [example_message], ch_cursors = [], ch_activities = [],
      ch_notifications = [], ch_dedups = [], ch_rates = []\<rparr>"

end
