(* ===== verification/ChatSessions.thy ===== *)
theory ChatSessions
  imports ChatDb
begin

text \<open>
  The sessions of the agent chat: \<open>src/api/chat/session-expiry.ts\<close>, the session endpoints of
  \<open>src/api/chat/routes.ts\<close> and the cron job of migration 127. The caller arrives as its email (\<open>None\<close>
  when unauthenticated) and the namespaces it may read; generated identifiers and secrets are
  arguments. The title of a request is \<open>None\<close> when the field is missing and \<open>Some None\<close> for \<open>null\<close>.
\<close>

subsection \<open>Expiry\<close>

definition DEFAULT_EXPIRY_HOURS :: int where "DEFAULT_EXPIRY_HOURS = 24"

definition getExpiryMs :: "string option \<Rightarrow> millis" where
  "getExpiryMs env =
     (case js_parseInt (case env of Some v \<Rightarrow> v | None \<Rightarrow> []) of
        Some hours \<Rightarrow> if hours > 0 then hours * 3600000 else DEFAULT_EXPIRY_HOURS * 3600000
      | None \<Rightarrow> DEFAULT_EXPIRY_HOURS * 3600000)"

definition isSessionExpired :: "string option \<Rightarrow> millis \<Rightarrow> millis \<Rightarrow> bool" where
  "isSessionExpired env now lastActivityAt \<longleftrightarrow> now - lastActivityAt \<ge> getExpiryMs env"

definition expire_one :: "micros \<Rightarrow> uuid \<Rightarrow> chat_session_row list \<Rightarrow> chat_session_row list option" where
  "expire_one now sid =
     update_sessions now (\<lambda>r. cs_id r = sid \<and> cs_status r = Session_active)
       (\<lambda>r. r\<lparr>cs_status := Session_expired, cs_version := cs_version r + 1\<rparr>)"

definition expireSessionIfIdle ::
    "string option \<Rightarrow> clock \<Rightarrow> uuid \<Rightarrow> millis \<Rightarrow> chat_db \<Rightarrow> (bool \<times> chat_db) option" where
  "expireSessionIfIdle env clk sid lastActivityAt db =
     (if \<not> isSessionExpired env (js_now clk) lastActivityAt then Some (False, db)
      else case expire_one (db_now clk) sid (ch_sessions db) of
        None \<Rightarrow> None
      | Some rows \<Rightarrow>
          Some (sql_exists (\<lambda>r. cs_id r = sid \<and> cs_status r = Session_active) (ch_sessions db),
                db\<lparr>ch_sessions := rows\<rparr>))"

text \<open>The job of migration 127, every fifteen minutes.\<close>

definition expiry_job :: "micros \<Rightarrow> chat_session_row list \<Rightarrow> chat_session_row list option" where
  "expiry_job now =
     update_sessions now (\<lambda>r. cs_status r = Session_active \<and> cs_activity r < now - 24 * 3600000000)
       (\<lambda>r. r\<lparr>cs_status := Session_expired, cs_version := cs_version r + 1\<rparr>)"

subsection \<open>Reading one session\<close>

definition visible_session :: "string \<Rightarrow> string list \<Rightarrow> uuid \<Rightarrow> chat_session_row \<Rightarrow> bool" where
  "visible_session user namespaces sid r \<longleftrightarrow>
     cs_id r = sid \<and> cs_user r = user \<and> cs_namespace r \<in> set namespaces"

text \<open>The outer \<open>None\<close> is an exception of the database.\<close>

definition verifySessionAccess ::
    "string option \<Rightarrow> clock \<Rightarrow> uuid \<Rightarrow> string \<Rightarrow> string list \<Rightarrow> chat_db \<Rightarrow>
       (chat_session_row option \<times> chat_db) option" where
  "verifySessionAccess env clk sid user namespaces db =
     (if namespaces = [] then Some (None, db)
      else case find (visible_session user namespaces sid) (ch_sessions db) of
        None \<Rightarrow> Some (None, db)
      | Some s \<Rightarrow>
          if cs_status s = Session_active \<and> isSessionExpired env (js_now clk) (js_date (cs_activity s))
          then (case expireSessionIfIdle env clk sid (js_date (cs_activity s)) db of
                  None \<Rightarrow> None
                | Some (_, db') \<Rightarrow>
                    Some (Some (s\<lparr>cs_status := Session_expired, cs_ended := Some (1000 * js_now clk)\<rparr>), db'))
          else Some (Some s, db))"

datatype 'a chat_reply =
  Chat_unauthorized | Chat_forbidden | Chat_limited | Chat_bad string | Chat_missing | Chat_conflict string
| Chat_failed | Chat_unavailable | Chat_done 'a

definition valid_uuid :: "string \<Rightarrow> bool" where "valid_uuid s = uuid_text s"

definition get_session ::
    "string option \<Rightarrow> clock \<Rightarrow> string option \<Rightarrow> string list \<Rightarrow> string \<Rightarrow> chat_db \<Rightarrow>
       chat_session_row chat_reply \<times> chat_db" where
  "get_session env clk caller namespaces sid db =
     (case caller of
        None \<Rightarrow> (Chat_unauthorized, db)
      | Some user \<Rightarrow>
          if \<not> valid_uuid sid then (Chat_bad ''Invalid session ID format'', db)
          else case verifySessionAccess env clk sid user namespaces db of
            None \<Rightarrow> (Chat_failed, db)
          | Some (None, db1) \<Rightarrow> (Chat_missing, db1)
          | Some (Some s, db1) \<Rightarrow> (Chat_done s, db1))"

subsection \<open>Creating a session\<close>

definition js_text :: "string option \<Rightarrow> string option" where
  "js_text s = (case s of None \<Rightarrow> None | Some t \<Rightarrow> if js_trim t = [] then None else Some (js_trim t))"

text \<open>\<open>ORDER BY is_default DESC, agent_id LIMIT 1\<close>, with the order of the texts of the agents.\<close>

definition cached_agent :: "(string \<Rightarrow> string \<Rightarrow> bool) \<Rightarrow> string \<Rightarrow> gateway_agent_row list \<Rightarrow> string option" where
  "cached_agent before namespace rows =
     (let here = filter (\<lambda>r. ga_namespace r = namespace) rows;
          pick = (\<lambda>r best. case best of
                     None \<Rightarrow> Some r
                   | Some b \<Rightarrow> if (ga_default r \<and> \<not> ga_default b) \<or>
                                  (ga_default r = ga_default b \<and> before (ga_agent r) (ga_agent b))
                               then Some r else Some b)
      in case fold pick here None of None \<Rightarrow> None | Some r \<Rightarrow> if ga_agent r = [] then None else Some (ga_agent r))"

definition choose_agent ::
    "(string \<Rightarrow> string \<Rightarrow> bool) \<Rightarrow> string \<Rightarrow> string option \<Rightarrow> user_setting_row option \<Rightarrow> chat_db \<Rightarrow> string option" where
  "choose_agent before namespace wanted setting db =
     (case js_text wanted of
        Some a \<Rightarrow> Some a
      | None \<Rightarrow>
          (case (case setting of None \<Rightarrow> None | Some u \<Rightarrow> js_text (us_default_agent u)) of
             Some a \<Rightarrow> Some a
           | None \<Rightarrow> cached_agent before namespace (ch_agents db)))"

record session_request =
  sq_agent :: "string option"
  sq_title :: "string option"

record session_ids =
  si_contact :: uuid
  si_endpoint :: uuid
  si_thread :: uuid
  si_session :: uuid
  si_secret :: string

definition endpoint_key :: "string \<Rightarrow> string \<Rightarrow> string" where
  "endpoint_key agent user = ''agent:'' @ agent @ '':'' @ user"

text \<open>The transaction: an agent's endpoint for the user is used again, otherwise made with its
  contact. The key of the thread is unique: a second session in one millisecond fails.\<close>

definition thread_key :: "millis \<Rightarrow> string \<Rightarrow> string \<Rightarrow> string" where
  "thread_key now agent user = ''chat:'' @ agent @ '':'' @ user @ '':'' @ show_int now"

definition open_thread ::
    "clock \<Rightarrow> string \<Rightarrow> session_ids \<Rightarrow> string \<Rightarrow> string \<Rightarrow> chat_db \<Rightarrow> chat_db option" where
  "open_thread clk namespace ids agent user db =
     (let key = endpoint_key agent user;
          (endpoint, db1) = (case by_key (\<lambda>(i, c, k). k) key (ch_endpoints db) of
             Some (i, _) \<Rightarrow> (i, db)
           | None \<Rightarrow> (si_endpoint ids,
               db\<lparr>ch_contacts := ch_contacts db @ [(si_contact ids, ''Agent: '' @ agent, namespace)],
                  ch_endpoints := ch_endpoints db @ [(si_endpoint ids, si_contact ids, key)]\<rparr>))
      in if sql_exists (\<lambda>t. et_key t = thread_key (js_now clk) agent user) (ch_threads db1) then None
         else Some (db1\<lparr>ch_threads := ch_threads db1 @ [\<lparr>et_id = si_thread ids, et_endpoint = endpoint,
                et_key = thread_key (js_now clk) agent user\<rparr>]\<rparr>))"

definition new_session ::
    "clock \<Rightarrow> string \<Rightarrow> session_ids \<Rightarrow> string \<Rightarrow> string \<Rightarrow> string option \<Rightarrow> chat_session_row" where
  "new_session clk namespace ids agent user title =
     \<lparr>cs_id = si_session ids, cs_thread = si_thread ids, cs_user = user, cs_agent = agent,
      cs_namespace = namespace, cs_status = Session_active, cs_title = title, cs_secret = si_secret ids,
      cs_version = 1, cs_ended = None, cs_activity = db_now clk\<rparr>"

definition activity_of ::
    "clock \<Rightarrow> string \<Rightarrow> uuid option \<Rightarrow> string option \<Rightarrow> string option \<Rightarrow> string \<Rightarrow> chat_activity_row" where
  "activity_of clk namespace session user agent action =
     \<lparr>ca_namespace = namespace, ca_session = session, ca_user = user, ca_agent = agent, ca_action = action,
      ca_at = db_now clk\<rparr>"

definition create_session ::
    "(string \<Rightarrow> string \<Rightarrow> bool) \<Rightarrow> bool \<Rightarrow> clock \<Rightarrow> string option \<Rightarrow> string \<Rightarrow> session_ids \<Rightarrow> session_request \<Rightarrow>
       chat_db \<Rightarrow> chat_session_row chat_reply \<times> chat_db" where
  "create_session before limited clk caller namespace ids body db =
     (case caller of
        None \<Rightarrow> (Chat_unauthorized, db)
      | Some user \<Rightarrow>
          if limited then (Chat_limited, db)
          else
            (let title = js_text (sq_title body);
                 setting = by_key us_email user (ch_settings db);
                 visible = (case setting of None \<Rightarrow> None | Some u \<Rightarrow> us_visible_agents u)
             in case choose_agent before namespace (sq_agent body) setting db of
                  None \<Rightarrow> (Chat_bad ''agent_id is required'', db)
                | Some agent \<Rightarrow>
                    if (case visible of Some ids \<Rightarrow> \<not> List.member ids agent | None \<Rightarrow> False)
                    then (Chat_bad ''Selected agent is not in your visible agents list'', db)
                    else if (case title of Some t \<Rightarrow> 200 < length t | None \<Rightarrow> False)
                    then (Chat_bad ''title must not exceed 200 characters'', db)
                    else
                      (let db1 = (if setting = None
                                  then db\<lparr>ch_settings := ch_settings db @
                                         [new_setting user]\<rparr>
                                  else db);
                           row = new_session clk namespace ids agent user title
                       in case Option.bind (open_thread clk namespace ids agent user db1) (insert_session row) of
                            None \<Rightarrow> (Chat_failed, db1)
                          | Some db2 \<Rightarrow>
                              (Chat_done row,
                               recordChatActivity (activity_of clk namespace (Some (si_session ids)) (Some user)
                                 (Some agent) ''session_created'') db2))))"

subsection \<open>Renaming and ending a session\<close>

definition title_refused :: "string option option \<Rightarrow> bool" where
  "title_refused title =
     (case title of Some (Some t) \<Rightarrow> js_trim t = [] \<or> 200 < length (js_trim t) | _ \<Rightarrow> False)"

definition patch_statement ::
    "micros \<Rightarrow> string \<Rightarrow> string list \<Rightarrow> uuid \<Rightarrow> string option \<Rightarrow> int \<Rightarrow> chat_session_row list \<Rightarrow>
       chat_session_row list option" where
  "patch_statement now user namespaces sid title version =
     update_sessions now (\<lambda>r. visible_session user namespaces sid r \<and> cs_version r = version)
       (\<lambda>r. r\<lparr>cs_title := title, cs_version := cs_version r + 1, cs_activity := now\<rparr>)"

definition patch_session ::
    "string option \<Rightarrow> clock \<Rightarrow> string option \<Rightarrow> string list \<Rightarrow> string \<Rightarrow> string option option \<Rightarrow> int option \<Rightarrow>
       chat_db \<Rightarrow> chat_session_row chat_reply \<times> chat_db" where
  "patch_session env clk caller namespaces sid title version db =
     (case caller of
        None \<Rightarrow> (Chat_unauthorized, db)
      | Some user \<Rightarrow>
          if \<not> valid_uuid sid then (Chat_bad ''Invalid session ID format'', db)
          else if title_refused title then (Chat_bad ''title'', db)
          else case version of
            None \<Rightarrow> (Chat_bad ''version is required for optimistic locking'', db)
          | Some v \<Rightarrow>
              (case verifySessionAccess env clk sid user namespaces db of
                 None \<Rightarrow> (Chat_failed, db)
               | Some (None, db1) \<Rightarrow> (Chat_missing, db1)
               | Some (Some s, db1) \<Rightarrow>
                   (let title' = (case title of None \<Rightarrow> cs_title s | Some t \<Rightarrow> map_option js_trim t)
                    in case patch_statement (db_now clk) user namespaces sid title' v (ch_sessions db1) of
                         None \<Rightarrow> (Chat_failed, db1)
                       | Some rows \<Rightarrow>
                           (case find (\<lambda>r. visible_session user namespaces sid r \<and> cs_version r = v) (ch_sessions db1) of
                              None \<Rightarrow> (Chat_conflict ''Version conflict'', db1\<lparr>ch_sessions := rows\<rparr>)
                            | Some _ \<Rightarrow>
                                (case by_key cs_id sid rows of
                                   None \<Rightarrow> (Chat_failed, db1\<lparr>ch_sessions := rows\<rparr>)
                                 | Some r \<Rightarrow> (Chat_done r, db1\<lparr>ch_sessions := rows\<rparr>))))))"

definition end_session ::
    "clock \<Rightarrow> string option \<Rightarrow> string list \<Rightarrow> string \<Rightarrow> string \<Rightarrow> chat_db \<Rightarrow>
       chat_session_row chat_reply \<times> chat_db" where
  "end_session clk caller namespaces store sid db =
     (case caller of
        None \<Rightarrow> (Chat_unauthorized, db)
      | Some user \<Rightarrow>
          if \<not> valid_uuid sid then (Chat_bad ''Invalid session ID format'', db)
          else if namespaces = [] then (Chat_missing, db)
          else case find (visible_session user namespaces sid) (ch_sessions db) of
            None \<Rightarrow> (Chat_missing, db)
          | Some s \<Rightarrow>
              if cs_status s \<noteq> Session_active then (Chat_conflict ''Session is already closed'', db)
              else
                (case update_sessions (db_now clk) (\<lambda>r. cs_id r = sid)
                        (\<lambda>r. r\<lparr>cs_status := Session_ended, cs_activity := db_now clk, cs_version := cs_version r + 1\<rparr>)
                        (ch_sessions db) of
                   None \<Rightarrow> (Chat_failed, db)
                 | Some rows \<Rightarrow>
                     (case by_key cs_id sid rows of
                        None \<Rightarrow> (Chat_failed, db)
                      | Some r \<Rightarrow>
                          (Chat_done r,
                           recordChatActivity (activity_of clk store (Some sid) (Some user) None ''session_ended'')
                             (db\<lparr>ch_sessions := rows\<rparr>)))))"

subsection \<open>What the requests do to the table\<close>

lemma expire_patch: "session_patch (\<lambda>r. r\<lparr>cs_status := Session_expired, cs_version := cs_version r + 1\<rparr>)"
  by (simp add: session_patch_def)

lemma rename_patch: "session_patch (\<lambda>r. r\<lparr>cs_title := t, cs_version := cs_version r + 1, cs_activity := now\<rparr>)"
  by (simp add: session_patch_def)

lemma end_patch:
  "session_patch (\<lambda>r. r\<lparr>cs_status := Session_ended, cs_activity := now, cs_version := cs_version r + 1\<rparr>)"
  by (simp add: session_patch_def)

lemma expiry_job_next:
  "sessions_ok rows \<Longrightarrow> expiry_job now rows = Some rows' \<Longrightarrow> sessions_next new rows rows'"
  unfolding expiry_job_def by (rule next_updated [OF _ expire_patch])

lemma verify_next:
  assumes ok: "sessions_ok (ch_sessions db)"
    and v: "verifySessionAccess env clk sid user nss db = Some (res, db')"
  shows "sessions_next new (ch_sessions db) (ch_sessions db')"
  using v next_refl [OF ok] next_updated [OF ok expire_patch]
  by (auto simp: verifySessionAccess_def expireSessionIfIdle_def expire_one_def split: if_splits option.splits)

lemma verify_row:
  assumes "verifySessionAccess env clk sid user nss db = Some (Some s, db')"
  shows "cs_id s = sid \<and> cs_user s = user \<and> cs_namespace s \<in> set nss \<and>
    (cs_status s = Session_active \<longrightarrow> db' = db \<and> s \<in> set (ch_sessions db))"
  using assms
  by (auto simp: verifySessionAccess_def visible_session_def find_Some_iff in_set_conv_nth
      split: if_splits option.splits prod.splits)

lemma get_next:
  assumes "sessions_ok (ch_sessions db)" and "get_session env clk caller nss sid db = (reply, db')"
  shows "sessions_next new (ch_sessions db) (ch_sessions db')"
  using assms next_refl verify_next by (auto simp: get_session_def split: if_splits option.splits)

lemma patch_cases:
  assumes "patch_session env clk caller nss sid title version db = (reply, db')"
  shows "db' = db \<and> (\<forall>r. reply \<noteq> Chat_done r) \<or>
    (\<exists>user res db1. caller = Some user \<and> verifySessionAccess env clk sid user nss db = Some (res, db1) \<and>
      (db' = db1 \<and> (\<forall>r. reply \<noteq> Chat_done r) \<or>
       (\<exists>t v. version = Some v \<and> patch_statement (db_now clk) user nss sid t v (ch_sessions db1) = Some (ch_sessions db') \<and>
         (\<forall>r. reply = Chat_done r \<longrightarrow> by_key cs_id sid (ch_sessions db') = Some r \<and>
            (\<exists>q \<in> set (ch_sessions db1). visible_session user nss sid q \<and> cs_version q = v)))))"
proof -
  note splits = if_splits option.splits prod.splits
  show ?thesis
  proof (cases "\<exists>user v res db1. caller = Some user \<and> version = Some v \<and> valid_uuid sid \<and> \<not> title_refused title \<and>
      verifySessionAccess env clk sid user nss db = Some (res, db1)")
    case False
    then show ?thesis using assms by (auto simp: patch_session_def split: splits)
  next
    case True
    then obtain user v res db1 where c: "caller = Some user" "version = Some v" "valid_uuid sid" "\<not> title_refused title"
      and ver: "verifySessionAccess env clk sid user nss db = Some (res, db1)" by blast
    show ?thesis
    proof (cases res)
      case None
      then show ?thesis using assms c ver by (auto simp: patch_session_def)
    next
      case (Some s)
      let ?t = "case title of None \<Rightarrow> cs_title s | Some t \<Rightarrow> map_option js_trim t"
      show ?thesis
        using assms c ver Some
        by (auto simp: patch_session_def Let_def dest!: find_SomeD split: option.splits)
    qed
  qed
qed


lemma patch_next:
  assumes ok: "sessions_ok (ch_sessions db)"
    and p: "patch_session env clk caller nss sid title version db = (reply, db')"
  shows "sessions_next new (ch_sessions db) (ch_sessions db')"
proof -
  have cut: "sessions_next {} a c \<Longrightarrow> sessions_next new a c" for a c unfolding sessions_next_def by blast
  from patch_cases [OF p] show ?thesis
  proof (elim disjE exE conjE)
    assume "db' = db" then show ?thesis using next_refl [OF ok] by simp
  next
    fix user res db1 assume "verifySessionAccess env clk sid user nss db = Some (res, db1)" "db' = db1"
    then show ?thesis using verify_next [OF ok] by simp
  next
    fix user res db1 t v
    assume ver: "verifySessionAccess env clk sid user nss db = Some (res, db1)"
      and up: "patch_statement (db_now clk) user nss sid t v (ch_sessions db1) = Some (ch_sessions db')"
    have first: "sessions_next {} (ch_sessions db) (ch_sessions db1)" by (rule verify_next [OF ok ver])
    then have "sessions_ok (ch_sessions db1)" by (simp add: sessions_next_def)
    then have "sessions_next {} (ch_sessions db1) (ch_sessions db')"
      using up unfolding patch_statement_def by (rule next_updated [OF _ rename_patch])
    with first show ?thesis by (intro cut next_trans [OF first]) auto
  qed
qed

lemma end_next:
  assumes "sessions_ok (ch_sessions db)" and "end_session clk caller nss store sid db = (reply, db')"
  shows "sessions_next new (ch_sessions db) (ch_sessions db')"
  using assms next_refl next_updated [OF _ end_patch]
  by (auto simp: end_session_def split: if_splits option.splits)

lemma open_thread_sessions: "open_thread clk ns ids agent user db = Some db' \<Longrightarrow> ch_sessions db' = ch_sessions db"
  by (auto simp: open_thread_def Let_def split: option.splits prod.splits if_splits)

lemma insert_new_session:
  assumes "Option.bind (open_thread clk ns' ids agent' user' db0)
      (insert_session (new_session clk ns ids agent user title)) = Some db2"
  shows "sessions_ok (ch_sessions db0) \<longrightarrow> sessions_next {si_session ids} (ch_sessions db0) (ch_sessions db2)"
proof
  assume ok: "sessions_ok (ch_sessions db0)"
  obtain db1 where db1: "open_thread clk ns' ids agent' user' db0 = Some db1"
      "insert_session (new_session clk ns ids agent user title) db1 = Some db2"
    using assms by (auto simp: bind_eq_Some_conv)
  then show "sessions_next {si_session ids} (ch_sessions db0) (ch_sessions db2)"
    using next_insert [OF _ db1(2)] open_thread_sessions [OF db1(1)] ok by (simp add: new_session_def)
qed

lemma create_next:
  assumes ok: "sessions_ok (ch_sessions db)"
    and c: "create_session before limited clk caller ns ids body db = (reply, db')"
  shows "sessions_next {si_session ids} (ch_sessions db) (ch_sessions db')"
  using c ok next_refl [OF ok]
  by (auto simp: create_session_def Let_def dest!: insert_new_session split: if_splits option.splits)

end
