(* ===== verification/ChatMessages.thy ===== *)
theory ChatMessages
  imports ChatSessions
begin

text \<open>
  The messages of the chat in \<open>src/api/chat/routes.ts\<close>: sending with an idempotency key, the answer of
  an agent, read cursors over HTTP and over the WebSocket, and the count of unread messages. Texts are
  of one-byte characters, so their length is their size. Whether the gateway takes a message
  (\<open>dispatchChatMessage\<close>) is an argument.
\<close>

subsection \<open>Sending\<close>

definition MAX_MESSAGE_BYTES :: nat where "MAX_MESSAGE_BYTES = 65536"

definition VALID_CONTENT_TYPES :: "string list" where
  "VALID_CONTENT_TYPES = [''text/plain'', ''text/markdown'', ''application/vnd.openclaw.rich-card'']"

record message_request =
  mq_content :: "string option"
  mq_idempotency :: "string option"
  mq_content_type :: "string option"

definition nonempty_text :: "string option \<Rightarrow> string option" where
  "nonempty_text s = (case s of Some (c # cs) \<Rightarrow> Some (c # cs) | _ \<Rightarrow> None)"

definition message_refused :: "message_request \<Rightarrow> string option" where
  "message_refused body =
     (let contentType = (case mq_content_type body of Some t \<Rightarrow> t | None \<Rightarrow> ''text/plain'')
      in case nonempty_text (mq_content body) of
           None \<Rightarrow> Some ''content is required''
         | Some content \<Rightarrow>
             if MAX_MESSAGE_BYTES < length content then Some ''content exceeds maximum size of 64KB''
             else if \<not> List.member VALID_CONTENT_TYPES contentType then Some ''Invalid content_type''
             else (case nonempty_text (mq_idempotency body) of
                     Some k \<Rightarrow> if valid_uuid k then None else Some ''idempotency_key must be a valid UUID''
                   | None \<Rightarrow> None))"

text \<open>The checks of the table: its thread exists, the type of its content is known, and its unique indexes: the key of the message within its thread, and the idempotency
  key within its thread where there is one.\<close>

definition same_idempotency :: "uuid \<Rightarrow> string \<Rightarrow> external_message_row \<Rightarrow> bool" where
  "same_idempotency thread k m \<longleftrightarrow> em_thread m = thread \<and> em_idempotency m = Some k"

definition insert_message :: "external_message_row \<Rightarrow> chat_db \<Rightarrow> chat_db option" where
  "insert_message m db =
     (if em_thread m \<notin> set (map et_id (ch_threads db)) \<or> \<not> List.member VALID_CONTENT_TYPES (em_content_type m) \<or>
         em_id m \<in> set (map em_id (ch_messages db)) \<or>
         sql_exists (\<lambda>x. em_thread x = em_thread m \<and> em_key x = em_key m) (ch_messages db) \<or>
         (case em_idempotency m of
            Some k \<Rightarrow> sql_exists (same_idempotency (em_thread m) k) (ch_messages db) | None \<Rightarrow> False)
      then None else Some (db\<lparr>ch_messages := ch_messages db @ [m]\<rparr>))"

definition touch_session :: "micros \<Rightarrow> uuid \<Rightarrow> chat_session_row list \<Rightarrow> chat_session_row list option" where
  "touch_session now sid = update_sessions now (\<lambda>r. cs_id r = sid) (\<lambda>r. r\<lparr>cs_activity := now\<rparr>)"

definition user_message ::
    "clock \<Rightarrow> chat_session_row \<Rightarrow> message_request \<Rightarrow> uuid \<Rightarrow> string \<Rightarrow> external_message_row" where
  "user_message clk s body mid key =
     \<lparr>em_id = mid, em_thread = cs_thread s, em_key = key, em_direction = Outbound_message,
      em_body = the (mq_content body), em_status = Message_delivered,
      em_idempotency = nonempty_text (mq_idempotency body), em_run = None,
      em_content_type = (case mq_content_type body of Some t \<Rightarrow> t | None \<Rightarrow> ''text/plain''),
      em_received = db_now clk\<rparr>"

text \<open>The reply carries whether the message is new (201) or the one stored before (200).\<close>

definition send_in_session ::
    "bool \<Rightarrow> clock \<Rightarrow> string \<Rightarrow> string \<Rightarrow> chat_session_row \<Rightarrow> message_request \<Rightarrow> uuid \<Rightarrow> string \<Rightarrow> chat_db \<Rightarrow>
       (bool \<times> external_message_row) chat_reply \<times> chat_db" where
  "send_in_session dispatched clk user store s body mid key db =
     (let m = user_message clk s body mid key
      in case (case em_idempotency m of
                 Some k \<Rightarrow> find (same_idempotency (cs_thread s) k) (ch_messages db) | None \<Rightarrow> None) of
           Some old \<Rightarrow> (Chat_done (False, old), db)
         | None \<Rightarrow>
             (case insert_message m db of
                None \<Rightarrow> (Chat_failed, db)
              | Some db1 \<Rightarrow>
                  (case touch_session (db_now clk) (cs_id s) (ch_sessions db1) of
                     None \<Rightarrow> (Chat_failed, db)
                   | Some rows \<Rightarrow>
                       let db2 = db1\<lparr>ch_sessions := rows\<rparr>
                       in if \<not> dispatched then (Chat_unavailable, db2)
                          else (Chat_done (True, m),
                                recordChatActivity
                                  (activity_of clk store (Some (cs_id s)) (Some user) None ''message_sent'') db2))))"

definition send_message ::
    "string option \<Rightarrow> bool \<Rightarrow> bool \<Rightarrow> clock \<Rightarrow> string option \<Rightarrow> string list \<Rightarrow> string \<Rightarrow> string \<Rightarrow>
       message_request \<Rightarrow> uuid \<Rightarrow> string \<Rightarrow> chat_db \<Rightarrow> (bool \<times> external_message_row) chat_reply \<times> chat_db" where
  "send_message env limited dispatched clk caller namespaces store sid body mid key db =
     (case caller of
        None \<Rightarrow> (Chat_unauthorized, db)
      | Some user \<Rightarrow>
          if limited then (Chat_limited, db)
          else if \<not> valid_uuid sid then (Chat_bad ''Invalid session ID format'', db)
          else case message_refused body of
            Some e \<Rightarrow> (Chat_bad e, db)
          | None \<Rightarrow>
              (case verifySessionAccess env clk sid user namespaces db of
                 None \<Rightarrow> (Chat_failed, db)
               | Some (None, db1) \<Rightarrow> (Chat_missing, db1)
               | Some (Some s, db1) \<Rightarrow>
                   if cs_status s \<noteq> Session_active
                   then (Chat_conflict ''Cannot send messages to a closed session'', db1)
                   else send_in_session dispatched clk user store s body mid key db1))"

subsection \<open>The answer of the agent\<close>

text \<open>The completion of a stream stores the whole answer and marks the session active: two statements
  of their own.\<close>

definition agent_message ::
    "clock \<Rightarrow> chat_session_row \<Rightarrow> uuid \<Rightarrow> string \<Rightarrow> string option \<Rightarrow> string \<Rightarrow> external_message_row" where
  "agent_message clk s mid content run contentType =
     \<lparr>em_id = mid, em_thread = cs_thread s,
      em_key = ''agent:'' @ cs_agent s @ '':'' @ show_int (js_now clk),
      em_direction = Inbound_message, em_body = content, em_status = Message_delivered,
      em_idempotency = None, em_run = run, em_content_type = contentType, em_received = db_now clk\<rparr>"

definition store_answer ::
    "clock \<Rightarrow> chat_session_row \<Rightarrow> external_message_row \<Rightarrow> chat_db \<Rightarrow> chat_db option" where
  "store_answer clk s m db =
     (case insert_message m db of
        None \<Rightarrow> None
      | Some db1 \<Rightarrow> map_option (\<lambda>rows. db1\<lparr>ch_sessions := rows\<rparr>) (touch_session (db_now clk) (cs_id s) (ch_sessions db1)))"

text \<open>The failure of a stream marks a message failed; an exception of the trigger is logged and
  dropped.\<close>

definition mark_failed :: "uuid \<Rightarrow> chat_db \<Rightarrow> chat_db" where
  "mark_failed mid db =
     (case by_key em_id mid (ch_messages db) of
        None \<Rightarrow> db
      | Some m \<Rightarrow>
          (case enforce_chat_message_status_transition m (m\<lparr>em_status := Message_failed\<rparr>) of
             None \<Rightarrow> db
           | Some m' \<Rightarrow> db\<lparr>ch_messages := sql_update (\<lambda>x. em_id x = mid) (\<lambda>_. m') (ch_messages db)\<rparr>))"

subsection \<open>Read cursors\<close>

definition set_cursor :: "micros \<Rightarrow> string \<Rightarrow> uuid \<Rightarrow> uuid \<Rightarrow> read_cursor_row list \<Rightarrow> read_cursor_row list" where
  "set_cursor now user sid mid =
     sql_upsert (\<lambda>c. (cu_user c, cu_session c)) (\<lambda>old new. old\<lparr>cu_message := Some mid, cu_at := now\<rparr>)
       \<lparr>cu_user = user, cu_session = sid, cu_message = Some mid, cu_at = now\<rparr>"

definition read_session ::
    "string option \<Rightarrow> clock \<Rightarrow> string option \<Rightarrow> string list \<Rightarrow> string \<Rightarrow> string option \<Rightarrow> chat_db \<Rightarrow>
       uuid chat_reply \<times> chat_db" where
  "read_session env clk caller namespaces sid lastRead db =
     (case caller of
        None \<Rightarrow> (Chat_unauthorized, db)
      | Some user \<Rightarrow>
          if \<not> valid_uuid sid then (Chat_bad ''Invalid session ID format'', db)
          else case verifySessionAccess env clk sid user namespaces db of
            None \<Rightarrow> (Chat_failed, db)
          | Some (None, db1) \<Rightarrow> (Chat_missing, db1)
          | Some (Some s, db1) \<Rightarrow>
              (case nonempty_text lastRead of
                 None \<Rightarrow> (Chat_bad ''Invalid last_read_message_id'', db1)
               | Some mid \<Rightarrow>
                   if \<not> valid_uuid mid then (Chat_bad ''Invalid last_read_message_id'', db1)
                   else if \<not> sql_exists (\<lambda>m. em_id m = mid \<and> em_thread m = cs_thread s) (ch_messages db1)
                   then (Chat_bad ''Message does not belong to this session'', db1)
                   else (Chat_done mid, db1\<lparr>ch_cursors := set_cursor (db_now clk) user sid mid (ch_cursors db1)\<rparr>)))"

text \<open>The \<open>read_cursor\<close> message of a socket: the foreign keys are all that is checked.\<close>

definition ws_read_cursor :: "micros \<Rightarrow> string \<Rightarrow> uuid \<Rightarrow> string option \<Rightarrow> chat_db \<Rightarrow> chat_db" where
  "ws_read_cursor now user sid lastRead db =
     (case lastRead of
        None \<Rightarrow> db
      | Some mid \<Rightarrow>
          if \<not> valid_uuid mid then db
          else if mid \<in> set (map em_id (ch_messages db)) \<and> sid \<in> set (map cs_id (ch_sessions db))
          then db\<lparr>ch_cursors := set_cursor now user sid mid (ch_cursors db)\<rparr>
          else db)"

subsection \<open>Unread messages\<close>

definition cursor_time :: "chat_db \<Rightarrow> string \<Rightarrow> uuid \<Rightarrow> micros option" where
  "cursor_time db user sid =
     (case find (\<lambda>c. cu_user c = user \<and> cu_session c = sid) (ch_cursors db) of
        None \<Rightarrow> None
      | Some c \<Rightarrow> (case cu_message c of
           None \<Rightarrow> None
         | Some mid \<Rightarrow> map_option em_received (by_key em_id mid (ch_messages db))))"

definition unread_in :: "chat_db \<Rightarrow> string \<Rightarrow> chat_session_row \<Rightarrow> external_message_row list" where
  "unread_in db user s =
     filter (\<lambda>m. em_thread m = cs_thread s \<and> em_direction m = Inbound_message \<and>
        (case cursor_time db user (cs_id s) of None \<Rightarrow> True | Some t \<Rightarrow> t < em_received m)) (ch_messages db)"

definition unread_count :: "string option \<Rightarrow> string list \<Rightarrow> chat_db \<Rightarrow> nat chat_reply" where
  "unread_count caller namespaces db =
     (case caller of
        None \<Rightarrow> Chat_unauthorized
      | Some user \<Rightarrow>
          if namespaces = [] then Chat_done 0
          else Chat_done (sum_list (map (\<lambda>s. length (unread_in db user s))
                 (filter (\<lambda>s. cs_user s = user \<and> cs_namespace s \<in> set namespaces \<and> cs_status s = Session_active)
                    (ch_sessions db)))))"


subsection \<open>What the requests do to the sessions\<close>

lemma touch_patch: "session_patch (\<lambda>r. r\<lparr>cs_activity := now\<rparr>)"
  by (simp add: session_patch_def)

lemma touch_next:
  "sessions_ok rows \<Longrightarrow> touch_session now sid rows = Some rows' \<Longrightarrow> sessions_next new rows rows'"
  unfolding touch_session_def by (rule next_updated [OF _ touch_patch])

lemma insert_message_frame:
  "insert_message m db = Some db' \<Longrightarrow> ch_sessions db' = ch_sessions db \<and> ch_threads db' = ch_threads db \<and>
     ch_cursors db' = ch_cursors db \<and> ch_messages db' = ch_messages db @ [m]"
  by (auto simp: insert_message_def split: if_splits)

lemma send_in_session_cases:
  assumes "send_in_session ok clk user store s body mid key db = (reply, db')"
  shows "db' = db \<and> (reply = Chat_failed \<or> (\<exists>m \<in> set (ch_messages db). reply = Chat_done (False, m) \<and>
            (\<exists>k. nonempty_text (mq_idempotency body) = Some k \<and> same_idempotency (cs_thread s) k m))) \<or>
    (\<exists>rows. touch_session (db_now clk) (cs_id s) (ch_sessions db) = Some rows \<and> ch_sessions db' = rows \<and>
      (\<exists>db1. insert_message (user_message clk s body mid key) db = Some db1 \<and> ch_messages db' = ch_messages db1) \<and>
      ch_threads db' = ch_threads db \<and>
      reply = (if ok then Chat_done (True, user_message clk s body mid key) else Chat_unavailable))"
proof -
  let ?m = "user_message clk s body mid key"
  have idem: "em_idempotency ?m = nonempty_text (mq_idempotency body)" by (simp add: user_message_def)
  show ?thesis
  proof (cases "case nonempty_text (mq_idempotency body) of
      Some k \<Rightarrow> find (same_idempotency (cs_thread s) k) (ch_messages db) | None \<Rightarrow> None")
    case (Some old)
    then show ?thesis
      using assms idem by (auto simp: send_in_session_def Let_def find_Some_iff split: option.splits)
  next
    case None
    show ?thesis
    proof (cases "insert_message ?m db")
      case None' : None
      then show ?thesis using assms None idem by (simp add: send_in_session_def Let_def)
    next
      case (Some db1)
      then show ?thesis
        using assms None idem insert_message_frame [OF Some]
        by (cases "touch_session (db_now clk) (cs_id s) (ch_sessions db)")
          (auto simp: send_in_session_def Let_def split: if_splits)
    qed
  qed
qed

lemma send_cases:
  assumes "send_message env limited ok clk caller nss store sid body mid key db = (reply, db')"
  shows "db' = db \<and> (\<forall>r. reply \<noteq> Chat_done r) \<or>
    (\<exists>user res db1. caller = Some user \<and> verifySessionAccess env clk sid user nss db = Some (res, db1) \<and>
      (db' = db1 \<and> (\<forall>r. reply \<noteq> Chat_done r) \<or>
       (\<exists>s. res = Some s \<and> cs_status s = Session_active \<and> message_refused body = None \<and>
          send_in_session ok clk user store s body mid key db1 = (reply, db'))))"
  using assms by (auto simp: send_message_def split: if_splits option.splits prod.splits)

lemma send_next:
  assumes ok: "sessions_ok (ch_sessions db)"
    and p: "send_message env limited dispatched clk caller nss store sid body mid key db = (reply, db')"
  shows "sessions_next new (ch_sessions db) (ch_sessions db')"
  using send_cases [OF p]
proof (elim disjE exE conjE)
  assume "db' = db" then show ?thesis using next_refl [OF ok] by simp
next
  fix user res db1 assume "verifySessionAccess env clk sid user nss db = Some (res, db1)" "db' = db1"
  then show ?thesis using verify_next [OF ok] by simp
next
  fix user res db1 s
  assume ver: "verifySessionAccess env clk sid user nss db = Some (res, db1)" "res = Some s"
      "cs_status s = Session_active"
    and up: "send_in_session dispatched clk user store s body mid key db1 = (reply, db')"
  have same: "db1 = db" using verify_row ver by blast
  from send_in_session_cases [OF up] show ?thesis
    using next_refl [OF ok] touch_next [OF ok] unfolding same by (elim disjE exE conjE) auto
qed

lemma store_answer_next:
  assumes ok: "sessions_ok (ch_sessions db)" and "store_answer clk s m db = Some db'"
  shows "sessions_next new (ch_sessions db) (ch_sessions db')"
  using assms(2) insert_message_frame touch_next [OF ok]
  by (fastforce simp: store_answer_def split: option.splits)

lemma mark_failed_sessions [simp]: "ch_sessions (mark_failed mid db) = ch_sessions db"
  by (simp add: mark_failed_def split: option.split)

lemma read_next:
  assumes "sessions_ok (ch_sessions db)" and "read_session env clk caller nss sid mid db = (reply, db')"
  shows "sessions_next new (ch_sessions db) (ch_sessions db')"
  using assms next_refl verify_next by (auto simp: read_session_def split: if_splits option.splits)

lemma ws_read_cursor_sessions [simp]: "ch_sessions (ws_read_cursor now user sid mid db) = ch_sessions db"
  by (simp add: ws_read_cursor_def split: option.split)


subsection \<open>A retry stores nothing\<close>

lemma send_active_session:
  assumes "send_message env limited ok clk (Some user) nss store sid body mid key db = (reply, db')"
    and "reply = Chat_unavailable \<or> (\<exists>r. reply = Chat_done r)"
  shows "\<exists>s \<in> set (ch_sessions db). cs_id s = sid \<and> send_in_session ok clk user store s body mid key db = (reply, db')"
  using assms verify_row
  by (fastforce simp: send_message_def split: if_splits option.splits prod.splits)

lemma verify_messages:
  "verifySessionAccess env clk sid user nss db = Some (res, db') \<Longrightarrow> ch_messages db' = ch_messages db"
  by (auto simp: verifySessionAccess_def expireSessionIfIdle_def split: if_splits option.splits)

lemma insert_message_unique:
  assumes "insert_message m db = Some db'" and "em_idempotency m = Some k"
  shows "\<not> sql_exists (same_idempotency (em_thread m) k) (ch_messages db)"
  using assms by (auto simp: insert_message_def split: if_splits)

lemma user_message_simps [simp]:
  "em_thread (user_message clk s body mid key) = cs_thread s"
  "em_idempotency (user_message clk s body mid key) = nonempty_text (mq_idempotency body)"
  by (simp_all add: user_message_def)



definition example_send :: message_request where
  "example_send = \<lparr>mq_content = Some ''hi'', mq_idempotency = Some example_mid, mq_content_type = None\<rparr>"

definition example_sent :: "(bool \<times> external_message_row) chat_reply \<times> chat_db" where
  "example_sent = send_message None False False \<lparr>js_now = 5000, db_now = 5000000\<rparr> (Some ''ann'') [''default'']
     ''default'' example_sid example_send ''m2'' ''user:ann:1'' example_chat"

definition example_resent :: "(bool \<times> external_message_row) chat_reply \<times> chat_db" where
  "example_resent = send_message None False True \<lparr>js_now = 6000, db_now = 6000000\<rparr> (Some ''ann'') [''default'']
     ''default'' example_sid example_send ''m3'' ''user:ann:2'' (snd example_sent)"

lemma example_valid: "valid_uuid example_sid" "valid_uuid example_mid" "example_mid \<noteq> []"
  by code_simp+

lemma example_key: "nonempty_text (Some example_mid) = Some example_mid"
  using example_valid by (simp add: nonempty_text_def split: list.split)

lemma example_send_accepted: "message_refused example_send = None"
  using example_valid example_key
  by (simp add: message_refused_def example_send_def nonempty_text_def [of "Some (_ # _)"] MAX_MESSAGE_BYTES_def
      VALID_CONTENT_TYPES_def Let_def)

lemma example_verified:
  "verifySessionAccess None \<lparr>js_now = 5000, db_now = 5000000\<rparr> example_sid ''ann'' [''default''] example_chat =
     Some (Some example_session, example_chat)"
  by code_simp

lemma example_sent_eq:
  "example_sent = (Chat_unavailable, example_chat
     \<lparr>ch_messages := [example_message, user_message \<lparr>js_now = 5000, db_now = 5000000\<rparr> example_session example_send ''m2'' ''user:ann:1''],
      ch_sessions := [example_session\<lparr>cs_activity := 5000000\<rparr>]\<rparr>)"
proof -
  have "send_in_session False \<lparr>js_now = 5000, db_now = 5000000\<rparr> ''ann'' ''default'' example_session example_send
     ''m2'' ''user:ann:1'' example_chat = (Chat_unavailable, example_chat
     \<lparr>ch_messages := [example_message, user_message \<lparr>js_now = 5000, db_now = 5000000\<rparr> example_session example_send ''m2'' ''user:ann:1''],
      ch_sessions := [example_session\<lparr>cs_activity := 5000000\<rparr>]\<rparr>)"
    by code_simp
  then show ?thesis
    using example_valid example_send_accepted example_verified
    by (simp add: example_sent_def send_message_def example_session_def)
qed

lemma example_sent_unavailable: "example_sent = (Chat_unavailable, snd example_sent)"
  by (simp add: example_sent_eq)



subsection \<open>Reading\<close>

lemma cursor_after_set:
  "cursor_time (db\<lparr>ch_cursors := set_cursor now user sid mid cs\<rparr>) user sid =
    map_option em_received (by_key em_id mid (ch_messages db))"
proof -
  have "find (\<lambda>c. cu_user c = user \<and> cu_session c = sid) (set_cursor now user sid mid cs) =
      by_key (\<lambda>c. (cu_user c, cu_session c)) (user, sid) (set_cursor now user sid mid cs)"
    by (simp add: by_key_def)
  then show ?thesis
    by (auto simp: cursor_time_def set_cursor_def by_key_sql_upsert split: option.split)
qed

text \<open>After a message was marked as read the unread messages of its session are those received after it,
  also when an older message is marked: the cursor moves back and read messages count again.\<close>

lemma unread_after_read:
  assumes "read_session env clk (Some user) nss sid (Some mid) db = (Chat_done i, db')"
    and "distinct (map em_id (ch_messages db))" and "m \<in> set (ch_messages db)" and "em_id m = mid" and "cs_id s = sid"
  shows "unread_in db' user s =
    filter (\<lambda>x. em_thread x = cs_thread s \<and> em_direction x = Inbound_message \<and> em_received m < em_received x) (ch_messages db)"
proof -
  obtain db1 where "ch_messages db1 = ch_messages db"
    and db': "db' = db1\<lparr>ch_cursors := set_cursor (db_now clk) user sid mid (ch_cursors db1)\<rparr>"
    using assms(1) verify_messages
    by (fastforce simp: read_session_def nonempty_text_def split: option.splits if_splits list.splits)
  moreover have "by_key em_id mid (ch_messages db) = Some m" using assms by (simp add: by_key_Some_iff)
  ultimately show ?thesis using assms(5) by (simp add: unread_in_def cursor_after_set)
qed

text \<open>A socket can move its cursor to a message of any other thread.\<close>

lemma ws_cursor_unchecked:
  assumes "valid_uuid mid" and "mid \<in> em_id ` set (ch_messages db)" and "sid \<in> cs_id ` set (ch_sessions db)"
  shows "cursor_time (ws_read_cursor now user sid (Some mid) db) user sid =
    map_option em_received (by_key em_id mid (ch_messages db))"
  using assms by (simp add: ws_read_cursor_def cursor_after_set)

end
