(* ===== verification/ChatRetention.thy ===== *)
theory ChatRetention
  imports ChatMessages
begin

text \<open>
  Deleting chat data: \<open>src/api/chat/data-retention.ts\<close>, its two endpoints and the daily job of
  migration 129.
\<close>

record deletion_result =
  dr_sessions :: nat
  dr_messages :: nat
  dr_activity :: nat

definition deleteAllChatDataForUser :: "string \<Rightarrow> chat_db \<Rightarrow> deletion_result \<times> chat_db" where
  "deleteAllChatDataForUser user db =
     (let mine = filter (\<lambda>s. cs_user s = user) (ch_sessions db);
          threads = map cs_thread mine;
          db1 = db\<lparr>ch_cursors := filter (\<lambda>c. cu_user c \<noteq> user) (ch_cursors db)\<rparr>;
          db2 = delete_sessions (\<lambda>s. cs_user s = user) db1
      in (\<lparr>dr_sessions = length mine,
           dr_messages = length (filter (\<lambda>m. em_thread m \<in> set threads) (ch_messages db)),
           dr_activity = length (filter (\<lambda>a. ca_user a = Some user) (ch_activities db2))\<rparr>,
          db2\<lparr>ch_activities := filter (\<lambda>a. ca_user a \<noteq> Some user) (ch_activities db2),
              ch_dedups := filter (\<lambda>e. nd_user e \<noteq> user) (ch_dedups db2),
              ch_rates := filter (\<lambda>e. nr_user e \<noteq> user) (ch_rates db2)\<rparr>))"

definition deleteChatSession :: "uuid \<Rightarrow> string \<Rightarrow> chat_db \<Rightarrow> bool \<times> chat_db" where
  "deleteChatSession sid user db =
     (let p = (\<lambda>s. cs_id s = sid \<and> cs_user s = user);
          db1 = delete_sessions p db
      in if sql_exists p (ch_sessions db)
         then (True, db1\<lparr>ch_activities := filter (\<lambda>a. ca_session a \<noteq> Some sid) (ch_activities db1)\<rparr>)
         else (False, db1))"

definition delete_chat_data ::
    "clock \<Rightarrow> string option \<Rightarrow> string \<Rightarrow> chat_db \<Rightarrow> deletion_result chat_reply \<times> chat_db" where
  "delete_chat_data clk caller store db =
     (case caller of
        None \<Rightarrow> (Chat_unauthorized, db)
      | Some user \<Rightarrow>
          (let (res, db1) = deleteAllChatDataForUser user db
           in (Chat_done res,
               recordChatActivity (activity_of clk store None (Some user) None ''gdpr_data_deleted'') db1)))"

definition delete_chat_session ::
    "clock \<Rightarrow> string option \<Rightarrow> string \<Rightarrow> string \<Rightarrow> chat_db \<Rightarrow> unit chat_reply \<times> chat_db" where
  "delete_chat_session clk caller store sid db =
     (case caller of
        None \<Rightarrow> (Chat_unauthorized, db)
      | Some user \<Rightarrow>
          if \<not> valid_uuid sid then (Chat_bad ''Invalid session ID format'', db)
          else (let (deleted, db1) = deleteChatSession sid user db
                in if \<not> deleted then (Chat_missing, db1)
                   else (Chat_done (),
                         recordChatActivity (activity_of clk store (Some sid) (Some user) None ''session_deleted'') db1)))"

text \<open>The job of migration 129, one transaction of four statements. The third compares a column
  \<open>last_reset\<close> which the table \<open>notification_rate\<close> of migration 126 does not have: an error.\<close>

definition retention_statements :: "micros \<Rightarrow> (chat_db \<Rightarrow> chat_db option) list" where
  "retention_statements now =
     [\<lambda>db. Some (db\<lparr>ch_activities := filter (\<lambda>a. \<not> ca_at a < now - 90 * 86400000000) (ch_activities db)\<rparr>),
      \<lambda>db. Some (db\<lparr>ch_dedups := filter (\<lambda>e. \<not> nd_at e < now - 86400000000) (ch_dedups db)\<rparr>),
      \<lambda>db. None,
      \<lambda>db. Some (delete_sessions (\<lambda>s. cs_status s \<in> {Session_ended, Session_expired} \<and>
         (case cs_ended s of Some t \<Rightarrow> t < now - 90 * 86400000000 | None \<Rightarrow> False)) db)]"

definition retention_job :: "micros \<Rightarrow> chat_db \<Rightarrow> chat_db" where
  "retention_job now db =
     (case foldl Option.bind (Some db) (retention_statements now) of Some db' \<Rightarrow> db' | None \<Rightarrow> db)"

lemma retention_job_fails: "retention_job now db = db"
  by (simp add: retention_job_def retention_statements_def)

subsection \<open>What deleting leaves\<close>

lemma deleted_data_cases:
  assumes "delete_chat_data clk caller store db = (reply, db')"
  shows "db' = db \<or> (\<exists>user. caller = Some user \<and>
    ch_sessions db' = filter (\<lambda>s. cs_user s \<noteq> user) (ch_sessions db))"
  using assms
  by (auto simp: delete_chat_data_def deleteAllChatDataForUser_def Let_def split: option.splits)

lemma deleted_session_cases:
  assumes "delete_chat_session clk caller store sid db = (reply, db')"
  shows "\<exists>P. ch_sessions db' = filter P (ch_sessions db)"
  using assms
  by (auto simp: delete_chat_session_def deleteChatSession_def Let_def split: option.splits if_splits
      intro: exI [of _ "\<lambda>_. True"])

text \<open>The activity of a deleted session: the foreign key has taken the session out of every entry before
  the entries of the session are looked for, so all of them stay, and the entry about the deletion
  refers to a session that is gone.\<close>

lemma deletion_keeps_activity:
  assumes ok: "distinct (map cs_id (ch_sessions db))"
    and done': "delete_chat_session clk caller store sid db = (Chat_done (), db')"
  shows "map ca_action (ch_activities db') = map ca_action (ch_activities db) \<and>
    map ca_user (ch_activities db') = map ca_user (ch_activities db)"
proof -
  obtain user where user: "caller = Some user" and sid: "valid_uuid sid"
    using done' by (auto simp: delete_chat_session_def split: option.splits if_splits)
  let ?p = "\<lambda>s. cs_id s = sid \<and> cs_user s = user"
  let ?db1 = "delete_sessions ?p db"
  have there: "sql_exists ?p (ch_sessions db)"
    using done' user sid by (auto simp: delete_chat_session_def deleteChatSession_def Let_def split: if_splits)
  then have "sid \<in> set (map cs_id (filter ?p (ch_sessions db)))" by (auto simp: sql_exists_iff)
  then have none: "a \<in> set (ch_activities ?db1) \<Longrightarrow> ca_session a \<noteq> Some sid" for a
    by (auto simp: delete_sessions_def Let_def set_sql_update split: option.splits)
  then have all: "filter (\<lambda>a. ca_session a \<noteq> Some sid) (ch_activities ?db1) = ch_activities ?db1"
    by (simp add: filter_id_conv)
  have gone: "sid \<notin> cs_id ` set (filter (\<lambda>s. \<not> ?p s) (ch_sessions db))"
    using ok there by (auto simp: sql_exists_iff distinct_map inj_on_def)
  have "db' = ?db1"
    using done' user sid there all gone
    by (simp add: delete_chat_session_def deleteChatSession_def Let_def recordChatActivity_def activity_of_def)
  moreover have "map ca_action (sql_update P (ca_session_update (\<lambda>_. None)) as) = map ca_action as"
      "map ca_user (sql_update P (ca_session_update (\<lambda>_. None)) as) = map ca_user as" for P and as :: "chat_activity_row list"
    by (simp_all add: map_key_sql_update)
  ultimately show ?thesis by (simp add: delete_sessions_def Let_def)
qed

text \<open>
  Erasing the chat data of a user (\<open>DELETE /chat/data\<close>) removes its sessions, read cursors and
  tracking of notifications, and reports the number of messages in its threads as deleted; every
  message, thread and notification is still there, and an activity entry with the user's email is written
  after the erasure.
\<close>

theorem erasure_keeps_messages:
  assumes "delete_chat_data clk (Some user) store db = (reply, db')"
  shows "(\<exists>res. reply = Chat_done res \<and>
      dr_messages res = length (filter (\<lambda>m. em_thread m \<in> cs_thread ` {s \<in> set (ch_sessions db). cs_user s = user})
        (ch_messages db))) \<and>
    ch_messages db' = ch_messages db \<and> ch_threads db' = ch_threads db \<and>
    ch_sessions db' = filter (\<lambda>s. cs_user s \<noteq> user) (ch_sessions db) \<and>
    (\<forall>c \<in> set (ch_cursors db'). cu_user c \<noteq> user) \<and>
    (\<forall>e \<in> set (ch_dedups db'). nd_user e \<noteq> user) \<and> (\<forall>e \<in> set (ch_rates db'). nr_user e \<noteq> user) \<and>
    ch_notifications db' = ch_notifications db \<and>
    map ca_action (filter (\<lambda>a. ca_user a = Some user) (ch_activities db')) = [''gdpr_data_deleted'']"
proof -
  have "cs_thread ` {s \<in> set (ch_sessions db). cs_user s = user} = set (map cs_thread (filter (\<lambda>s. cs_user s = user) (ch_sessions db)))"
    by auto
  moreover have "filter (\<lambda>a. ca_user a = Some user) (filter (\<lambda>a. ca_user a \<noteq> Some user) as) = []" for as
    by simp
  ultimately show ?thesis
    using assms
    by (auto simp: delete_chat_data_def deleteAllChatDataForUser_def Let_def recordChatActivity_def activity_of_def
        delete_sessions_def)
qed


theorem erasure_keeps_messages_witness:
  "example_message \<in> set (ch_messages (snd (delete_chat_data \<lparr>js_now = 1, db_now = 1000\<rparr> (Some ''ann'') ''default'' example_chat)))"
  using erasure_keeps_messages [OF prod.collapse [symmetric], of "\<lparr>js_now = 1, db_now = 1000\<rparr>" "''ann''" "''default''" example_chat]
  by (simp add: example_chat_def)

end
