(* ===== verification/ChatLife.thy ===== *)
theory ChatLife
  imports ChatRetention
begin

text \<open>
  All requests and jobs that touch chat sessions as one step relation, and what holds over any
  sequence of them. The state carries the identifiers of sessions given out so far: a generated one is
  new.
\<close>

type_synonym chat_state = "uuid set \<times> chat_db"

inductive chat_step :: "string option \<Rightarrow> chat_state \<Rightarrow> chat_state \<Rightarrow> bool" for env where
  creates: "create_session before limited clk caller ns ids body db = (reply, db') \<Longrightarrow> si_session ids \<notin> used \<Longrightarrow>
    chat_step env (used, db) (insert (si_session ids) used, db')"
| gets: "get_session env clk caller nss sid db = (reply, db') \<Longrightarrow> chat_step env (used, db) (used, db')"
| patches: "patch_session env clk caller nss sid title version db = (patched, db') \<Longrightarrow>
    chat_step env (used, db) (used, db')"
| ends: "end_session clk caller nss store sid db = (ended, db') \<Longrightarrow> chat_step env (used, db) (used, db')"
| sends: "send_message env limited ok clk caller nss store sid body mid key db = (sent, db') \<Longrightarrow>
    chat_step env (used, db) (used, db')"
| answers: "store_answer clk s m db = Some db' \<Longrightarrow> chat_step env (used, db) (used, db')"
| fails: "chat_step env (used, db) (used, mark_failed mid db)"
| reads: "read_session env clk caller nss sid lastRead db = (cursor, db') \<Longrightarrow> chat_step env (used, db) (used, db')"
| ws_reads: "chat_step env (used, db) (used, ws_read_cursor now user sid lastRead db)"
| expires: "expiry_job now (ch_sessions db) = Some rows \<Longrightarrow> chat_step env (used, db) (used, db\<lparr>ch_sessions := rows\<rparr>)"
| purges: "chat_step env (used, db) (used, retention_job now db)"
| erases: "delete_chat_data clk caller store db = (erased, db') \<Longrightarrow> chat_step env (used, db) (used, db')"
| deletes: "delete_chat_session clk caller store sid db = (deleted, db') \<Longrightarrow> chat_step env (used, db) (used, db')"

lemma chat_step_next:
  assumes "chat_step env st st'" and "sessions_ok (ch_sessions (snd st))"
  shows "fst st \<subseteq> fst st' \<and> (\<exists>new. new \<subseteq> fst st' \<and> new \<inter> fst st = {} \<and>
    sessions_next new (ch_sessions (snd st)) (ch_sessions (snd st')))"
  using assms
proof (cases rule: chat_step.cases)
  case (creates before limited clk caller ns ids body db reply db' used)
  then show ?thesis using create_next assms(2) by (auto intro!: exI [of _ "{si_session ids}"])
next
  case (deletes clk caller store db deleted db' used sid)
  then show ?thesis
    using deleted_session_cases next_filter [of _ "{}"] assms(2) by (auto intro!: exI [of _ "{}"]) metis
next
  case (erases clk caller store db erased db' used)
  then show ?thesis
    using deleted_data_cases next_filter [of _ "{}"] next_refl [of _ "{}"] assms(2) by (auto intro!: exI [of _ "{}"]) metis
next
  case (purges used db now)
  then show ?thesis
    using next_refl [of _ "{}"] assms(2) by (auto simp: retention_job_fails intro!: exI [of _ "{}"])
qed (auto intro!: exI [of _ "{}"] intro: get_next patch_next end_next send_next store_answer_next read_next
      expiry_job_next next_refl)

definition known :: "chat_state \<Rightarrow> bool" where
  "known st \<longleftrightarrow> sessions_ok (ch_sessions (snd st)) \<and> cs_id ` set (ch_sessions (snd st)) \<subseteq> fst st"

definition descends :: "chat_state \<Rightarrow> chat_state \<Rightarrow> bool" where
  "descends st st' \<longleftrightarrow> fst st \<subseteq> fst st' \<and>
     (\<forall>r \<in> set (ch_sessions (snd st)). \<forall>r' \<in> set (ch_sessions (snd st')). cs_id r' = cs_id r \<longrightarrow> session_step r r') \<and>
     cs_id ` set (ch_sessions (snd st')) \<inter> fst st \<subseteq> cs_id ` set (ch_sessions (snd st))"

lemma descendsD:
  assumes "descends a b"
  shows "fst a \<subseteq> fst b"
    and "r \<in> set (ch_sessions (snd a)) \<Longrightarrow> r' \<in> set (ch_sessions (snd b)) \<Longrightarrow> cs_id r' = cs_id r \<Longrightarrow> session_step r r'"
    and "i \<in> cs_id ` set (ch_sessions (snd b)) \<Longrightarrow> i \<in> fst a \<Longrightarrow> i \<in> cs_id ` set (ch_sessions (snd a))"
  using assms unfolding descends_def by auto

lemma chat_step_descends:
  assumes step: "chat_step env st st'" and known: "known st"
  shows "known st' \<and> descends st st'"
proof -
  have ok: "sessions_ok (ch_sessions (snd st))" and ids: "cs_id ` set (ch_sessions (snd st)) \<subseteq> fst st"
    using known by (simp_all add: known_def)
  from chat_step_next [OF step ok] obtain new where grows: "fst st \<subseteq> fst st'" "new \<subseteq> fst st'" "new \<inter> fst st = {}"
    and nx: "sessions_next new (ch_sessions (snd st)) (ch_sessions (snd st'))" by auto
  have sub: "cs_id ` set (ch_sessions (snd st')) \<subseteq> cs_id ` set (ch_sessions (snd st)) \<union> new"
    using nx by (simp add: sessions_next_def)
  have "cs_id ` set (ch_sessions (snd st')) \<subseteq> fst st'" using sub ids grows by blast
  moreover have "cs_id ` set (ch_sessions (snd st')) \<inter> fst st \<subseteq> cs_id ` set (ch_sessions (snd st))"
    using sub grows(3) by blast
  ultimately show ?thesis using nx grows(1) by (simp add: known_def descends_def sessions_next_def)
qed

lemma descends_trans:
  assumes ab: "descends a b" and bc: "descends b c" and known: "known a"
  shows "descends a c"
  unfolding descends_def
proof (intro conjI ballI impI subsetI)
  show "x \<in> fst c" if "x \<in> fst a" for x using that descendsD(1) [OF ab] descendsD(1) [OF bc] by auto
  show "i \<in> cs_id ` set (ch_sessions (snd a))" if i: "i \<in> cs_id ` set (ch_sessions (snd c)) \<inter> fst a" for i
  proof -
    have "i \<in> fst b" using i descendsD(1) [OF ab] by auto
    then have "i \<in> cs_id ` set (ch_sessions (snd b))" using i descendsD(3) [OF bc] by simp
    then show ?thesis using i descendsD(3) [OF ab] by simp
  qed
  fix r q assume r: "r \<in> set (ch_sessions (snd a))" and q: "q \<in> set (ch_sessions (snd c))" "cs_id q = cs_id r"
  have "cs_id r \<in> fst a" using known r by (auto simp: known_def)
  then have "cs_id q \<in> fst b" using q descendsD(1) [OF ab] by auto
  then have "cs_id q \<in> cs_id ` set (ch_sessions (snd b))" 
    using descendsD(3) [OF bc imageI [OF q(1)]] by simp
  then obtain m where m: "m \<in> set (ch_sessions (snd b))" "cs_id m = cs_id q" by auto
  have "session_step r m" using descendsD(2) [OF ab r m(1)] m q by simp
  moreover have "session_step m q" using descendsD(2) [OF bc m(1) q(1)] m by simp
  ultimately show "session_step r q" by (rule session_step_trans)
qed

lemma chat_steps_descend:
  assumes "(chat_step env)\<^sup>*\<^sup>* st st'" and "known st"
  shows "known st' \<and> descends st st'"
  using assms(1)
proof (induction rule: rtranclp_induct)
  case base
  show ?case using assms(2) session_same unfolding known_def descends_def by blast
next
  case (step b c)
  then show ?case using chat_step_descends descends_trans assms(2) by blast
qed

lemma patch_done_version:
  assumes ok: "sessions_ok (ch_sessions db)"
    and p: "patch_session env clk caller nss sid title (Some v) db = (Chat_done r, db')"
  shows "r \<in> set (ch_sessions db') \<and> cs_id r = sid \<and> cs_version r = v + 1"
proof -
  from patch_cases [OF p] obtain user res db1 t q where
    ver: "verifySessionAccess env clk sid user nss db = Some (res, db1)"
    and up: "patch_statement (db_now clk) user nss sid t v (ch_sessions db1) = Some (ch_sessions db')"
    and r: "by_key cs_id sid (ch_sessions db') = Some r"
    and q: "q \<in> set (ch_sessions db1)" "visible_session user nss sid q" "cs_version q = v"
    by (elim disjE exE conjE) auto
  have "sessions_ok (ch_sessions db1)" using verify_next [OF ok ver, of "{}"] by (simp add: sessions_next_def)
  then have ok': "sessions_ok (ch_sessions db')"
    using up update_sessions_ok [OF rename_patch] unfolding patch_statement_def by blast
  obtain r' where r': "r' \<in> set (ch_sessions db')" "cs_id r' = sid" "cs_version r' = v + 1"
    using update_sessions_hit [OF up [unfolded patch_statement_def] q(1)] q by (auto simp: visible_session_def)
  moreover have "r \<in> set (ch_sessions db')" "cs_id r = sid" using by_key_SomeD [OF r] by auto
  ultimately show ?thesis using sessions_distinct [OF ok'] by metis
qed

lemma patch_done_current:
  assumes ok: "sessions_ok (ch_sessions db)"
    and p: "patch_session env clk caller nss sid title (Some v) db = (Chat_done r, db')"
    and here: "q \<in> set (ch_sessions db)" "cs_id q = sid"
  shows "cs_version q \<le> v"
proof -
  from patch_cases [OF p] obtain user res db1 q' where
    ver: "verifySessionAccess env clk sid user nss db = Some (res, db1)"
    and q': "q' \<in> set (ch_sessions db1)" "visible_session user nss sid q'" "cs_version q' = v"
    by (elim disjE exE conjE) auto
  have "session_step q q'" using verify_next [OF ok ver, of "{}"] here q' unfolding sessions_next_def visible_session_def by simp
  then show ?thesis using q' by (simp add: session_step_def)
qed

lemma patch_done_id:
  assumes "sessions_ok (ch_sessions db)"
    and p: "patch_session env clk caller nss sid title version db = (Chat_done r, db')"
  shows "sid \<in> cs_id ` set (ch_sessions db)"
proof -
  from patch_cases [OF p] obtain user res db1 q' where
    ver: "verifySessionAccess env clk sid user nss db = Some (res, db1)"
    and q': "q' \<in> set (ch_sessions db1)" "visible_session user nss sid q'"
    by (elim disjE exE conjE) auto
  then show ?thesis
    using verify_next [OF assms(1) ver, of "{}"] unfolding sessions_next_def visible_session_def by blast
qed


text \<open>
  C33. Optimistic locking of a session's title: after a PATCH with some version has succeeded, no later
  PATCH with that version succeeds, whatever requests and jobs come in between.
\<close>

theorem patch_once_per_version:
  assumes "sessions_ok (ch_sessions db)" and "cs_id ` set (ch_sessions db) \<subseteq> used"
    and "patch_session env clk caller nss sid title (Some v) db = (Chat_done r, db1)"
    and "(chat_step env)\<^sup>*\<^sup>* (used, db1) (used', db2)"
    and "patch_session env clk' caller' nss' sid title' (Some v) db2 = (reply, db3)"
  shows "\<forall>r'. reply \<noteq> Chat_done r'"
proof (intro allI notI)
  fix r' assume again: "reply = Chat_done r'"
  have first: "known (used, db1)"
    using chat_step_descends [OF patches [OF assms(3)], of used] assms(1,2) by (simp add: known_def)
  have later: "known (used', db2)" "descends (used, db1) (used', db2)"
    using chat_steps_descend [OF assms(4) first] by simp_all
  have r: "r \<in> set (ch_sessions db1)" "cs_id r = sid" "cs_version r = v + 1"
    using patch_done_version [OF assms(1,3)] by simp_all
  have ok2: "sessions_ok (ch_sessions db2)" using later by (simp add: known_def)
  obtain q where q: "q \<in> set (ch_sessions db2)" "cs_id q = sid"
    using patch_done_id [OF ok2 assms(5) [unfolded again]] by auto
  have "cs_version q \<le> v" using patch_done_current [OF ok2 assms(5) [unfolded again] q] .
  moreover have "session_step r q" using later(2) r q by (simp add: descends_def)
  ultimately show False using r by (simp add: session_step_def)
qed

subsection \<open>A concrete run\<close>

definition example_clock :: clock where "example_clock = \<lparr>js_now = 5000, db_now = 5000000\<rparr>"

definition example_patched :: chat_db where
  "example_patched = snd (patch_session None example_clock (Some ''ann'') [''default''] example_sid
     (Some (Some ''Trip'')) (Some 1) example_chat)"

lemma example_patch_done:
  "patch_session None example_clock (Some ''ann'') [''default''] example_sid (Some (Some ''Trip'')) (Some 1) example_chat =
     (Chat_done (example_session\<lparr>cs_title := Some ''Trip'', cs_version := 2, cs_activity := 5000000\<rparr>), example_patched)"
  by code_simp

lemma example_patch_again:
  "patch_session None example_clock (Some ''ann'') [''default''] example_sid (Some None) (Some 1) example_patched =
     (Chat_conflict ''Version conflict'', example_patched)"
  by code_simp

lemma example_sessions_ok: "sessions_ok (ch_sessions example_chat)"
  by code_simp

lemma example_ids: "cs_id ` set (ch_sessions example_chat) \<subseteq> {example_sid}"
  by code_simp

lemma example_session_in: "example_session \<in> set (ch_sessions example_chat)"
  by code_simp

lemma example_patched_in:
  "example_session\<lparr>cs_title := Some ''Trip'', cs_version := 2, cs_activity := 5000000\<rparr> \<in> set (ch_sessions example_patched)"
  by code_simp

lemma example_run: "(chat_step None)\<^sup>*\<^sup>* ({example_sid}, example_chat) ({example_sid}, example_patched)"
  using patches [OF example_patch_done] by blast


theorem patch_once_per_version_witness:
  "\<forall>r'. (Chat_conflict ''Version conflict'' :: chat_session_row chat_reply) \<noteq> Chat_done r'"
  using patch_once_per_version [OF example_sessions_ok example_ids example_patch_done rtranclp.rtrancl_refl example_patch_again] .

end
