(* ===== verification/ChatLists.thy ===== *)
theory ChatLists
  imports ChatMessages Paging
begin

text \<open>
  The two lists of the chat in \<open>src/api/chat/routes.ts\<close>: sessions by last activity and messages by time
  of receipt, newest first, page by page. The database compares microseconds; a cursor holds the
  milliseconds of a \<open>Date\<close>. The cursor of a request is \<open>None\<close> when it is missing; for sessions
  \<open>Some None\<close> is a text that is no date, for messages a text that does not decode is ignored and
  counts as missing.
\<close>

definition DEFAULT_LIMIT :: int where "DEFAULT_LIMIT = 20"
definition MAX_LIMIT :: int where "MAX_LIMIT = 100"

definition parse_limit :: "string option \<Rightarrow> nat" where
  "parse_limit text =
     nat (case js_parseInt (case text of Some t \<Rightarrow> t | None \<Rightarrow> []) of
            Some n \<Rightarrow> if n > 0 then min n MAX_LIMIT else DEFAULT_LIMIT
          | None \<Rightarrow> DEFAULT_LIMIT)"

definition status_of_text :: "string \<Rightarrow> chat_session_status option" where
  "status_of_text s =
     (if s = ''active'' then Some Session_active else if s = ''ended'' then Some Session_ended
      else if s = ''expired'' then Some Session_expired else None)"

definition session_after :: "millis \<Rightarrow> chat_session_row \<Rightarrow> bool" where
  "session_after c r \<longleftrightarrow> cs_activity r < 1000 * c"

definition session_cursor :: "chat_session_row \<Rightarrow> millis" where
  "session_cursor r = js_date (cs_activity r)"

definition listed_sessions ::
    "string \<Rightarrow> string list \<Rightarrow> chat_session_status option \<Rightarrow> chat_db \<Rightarrow> chat_session_row list" where
  "listed_sessions user namespaces status db =
     sort_key (\<lambda>r. - cs_activity r)
       (filter (\<lambda>r. cs_user r = user \<and> cs_namespace r \<in> set namespaces \<and>
                    (case status of None \<Rightarrow> True | Some s \<Rightarrow> cs_status r = s)) (ch_sessions db))"

definition list_sessions ::
    "string option \<Rightarrow> string list \<Rightarrow> string option \<Rightarrow> string option \<Rightarrow> millis option option \<Rightarrow> chat_db \<Rightarrow>
       (chat_session_row list \<times> millis option) chat_reply" where
  "list_sessions caller namespaces limit status cursor db =
     (case caller of
        None \<Rightarrow> Chat_unauthorized
      | Some user \<Rightarrow>
          if namespaces = [] then Chat_done ([], None)
          else case (case nonempty_text status of None \<Rightarrow> Some None | Some s \<Rightarrow> map_option Some (status_of_text s)) of
            None \<Rightarrow> Chat_bad ''Invalid status filter''
          | Some st \<Rightarrow>
              if cursor = Some None then Chat_bad ''Invalid cursor format''
              else Chat_done (keyset_page session_after session_cursor (parse_limit limit)
                (listed_sessions user namespaces st db) (Option.bind cursor id)))"

text \<open>The order of the identifiers, which decides between messages of one time, is an argument.\<close>

definition message_after :: "(uuid \<Rightarrow> uuid \<Rightarrow> bool) \<Rightarrow> millis \<times> uuid \<Rightarrow> external_message_row \<Rightarrow> bool" where
  "message_after before c m \<longleftrightarrow>
     em_received m < 1000 * fst c \<or> (em_received m = 1000 * fst c \<and> before (em_id m) (snd c))"

definition message_cursor :: "external_message_row \<Rightarrow> millis \<times> uuid" where
  "message_cursor m = (js_date (em_received m), em_id m)"

definition newer :: "(uuid \<Rightarrow> uuid \<Rightarrow> bool) \<Rightarrow> external_message_row \<Rightarrow> external_message_row \<Rightarrow> bool" where
  "newer before a b \<longleftrightarrow>
     em_received b < em_received a \<or> (em_received a = em_received b \<and> before (em_id b) (em_id a))"

fun insert_newest ::
    "(uuid \<Rightarrow> uuid \<Rightarrow> bool) \<Rightarrow> external_message_row \<Rightarrow> external_message_row list \<Rightarrow> external_message_row list" where
  "insert_newest before m [] = [m]"
| "insert_newest before m (x # xs) = (if newer before x m then x # insert_newest before m xs else m # x # xs)"

definition listed_messages :: "(uuid \<Rightarrow> uuid \<Rightarrow> bool) \<Rightarrow> uuid \<Rightarrow> chat_db \<Rightarrow> external_message_row list" where
  "listed_messages before thread db =
     foldr (insert_newest before) (filter (\<lambda>m. em_thread m = thread) (ch_messages db)) []"

definition list_messages ::
    "(uuid \<Rightarrow> uuid \<Rightarrow> bool) \<Rightarrow> string option \<Rightarrow> clock \<Rightarrow> string option \<Rightarrow> string list \<Rightarrow> string \<Rightarrow> string option \<Rightarrow>
       (millis \<times> uuid) option \<Rightarrow> chat_db \<Rightarrow>
       (external_message_row list \<times> (millis \<times> uuid) option) chat_reply \<times> chat_db" where
  "list_messages before env clk caller namespaces sid limit cursor db =
     (case caller of
        None \<Rightarrow> (Chat_unauthorized, db)
      | Some user \<Rightarrow>
          if \<not> valid_uuid sid then (Chat_bad ''Invalid session ID format'', db)
          else case verifySessionAccess env clk sid user namespaces db of
            None \<Rightarrow> (Chat_failed, db)
          | Some (None, db1) \<Rightarrow> (Chat_missing, db1)
          | Some (Some s, db1) \<Rightarrow>
              (Chat_done (keyset_page (message_after before) message_cursor (parse_limit limit)
                 (listed_messages before (cs_thread s) db1)
                 (case cursor of Some (t, i) \<Rightarrow> if valid_uuid i then cursor else None | None \<Rightarrow> None)), db1))"

subsection \<open>Nothing is lost while the milliseconds differ\<close>

definition session_dates_fall :: "chat_session_row list \<Rightarrow> bool" where
  "session_dates_fall = sorted_wrt (\<lambda>a b. session_cursor b < session_cursor a)"

definition message_dates_fall :: "external_message_row list \<Rightarrow> bool" where
  "message_dates_fall = sorted_wrt (\<lambda>a b. js_date (em_received b) < js_date (em_received a))"

lemma js_date_before: "js_date a < js_date b \<Longrightarrow> a < 1000 * js_date b"
  by (simp add: js_date_def)

lemma js_date_upto: "js_date a \<le> js_date b \<Longrightarrow> \<not> b < 1000 * js_date a"
  by (simp add: js_date_def)

lemma js_date_later: "js_date a < js_date b \<Longrightarrow> 1000 * js_date a < b"
  by (simp add: js_date_def)

lemma filter_to_rest:
  "\<forall>x \<in> set pre. \<not> P x \<Longrightarrow> \<not> P r \<Longrightarrow> \<forall>x \<in> set post. P x \<Longrightarrow> filter P (pre @ r # post) = post"
  by (simp add: filter_empty_conv)

interpretation sessions: keyset_paging session_after session_cursor session_dates_fall
proof
  fix pre r post assume "session_dates_fall (pre @ r # post)"
  then show "filter (session_after (session_cursor r)) (pre @ r # post) = post"
    unfolding session_dates_fall_def session_cursor_def
    by (intro filter_to_rest)
      (auto simp: sorted_wrt_append session_after_def session_cursor_def js_date_before js_date_upto dest: less_imp_le)
qed

text \<open>The order of the identifiers only has to be irreflexive.\<close>

definition message_dates :: "(uuid \<Rightarrow> uuid \<Rightarrow> bool) \<Rightarrow> external_message_row list \<Rightarrow> bool" where
  "message_dates before ms \<longleftrightarrow> (\<forall>i. \<not> before i i) \<and> message_dates_fall ms"

interpretation messages: keyset_paging "message_after before" message_cursor "message_dates before" for before
proof
  fix pre r post assume "message_dates before (pre @ r # post)"
  then have order: "\<not> before i i" "\<forall>x \<in> set pre. js_date (em_received r) < js_date (em_received x)"
      "\<forall>x \<in> set post. js_date (em_received x) < js_date (em_received r)" for i
    by (auto simp: message_dates_def message_dates_fall_def sorted_wrt_append)
  have "\<not> message_after before (message_cursor r) x" if "x \<in> set pre" for x
    using bspec [OF order(2) that] js_date_later [of "em_received r" "em_received x"]
    by (auto simp: message_after_def message_cursor_def)
  then show "filter (message_after before (message_cursor r)) (pre @ r # post) = post"
    using order
    by (intro filter_to_rest) (auto simp: message_after_def message_cursor_def js_date_before js_date_upto)
qed

definition page_in :: "(('r list \<times> 'c option) chat_reply) \<Rightarrow> 'r list \<times> 'c option" where
  "page_in reply = (case reply of Chat_done p \<Rightarrow> p | _ \<Rightarrow> ([], None))"

lemma parse_limit_pos: "0 < parse_limit text"
  by (auto simp: parse_limit_def DEFAULT_LIMIT_def MAX_LIMIT_def split: option.split)

lemma falls_strictly:
  "sorted_wrt (\<lambda>a b. f b \<le> f a) xs \<Longrightarrow> distinct (map f xs) \<Longrightarrow> sorted_wrt (\<lambda>a b. f b < (f a :: int)) xs"
  by (induction xs) (auto simp: order_less_le image_iff)

lemma listed_sessions_fall:
  assumes "distinct (map session_cursor (listed_sessions user nss st db))"
  shows "session_dates_fall (listed_sessions user nss st db)"
proof -
  have "sorted_wrt (\<lambda>a b. cs_activity b \<le> cs_activity a) (listed_sessions user nss st db)"
    using sorted_sort_key [of "\<lambda>r. - cs_activity r"] by (simp add: listed_sessions_def sorted_map)
  then have "sorted_wrt (\<lambda>a b. session_cursor b \<le> session_cursor a) (listed_sessions user nss st db)"
    by (rule sorted_wrt_mono_rel [rotated]) (simp add: session_cursor_def js_date_def zdiv_mono1)
  then show ?thesis using assms unfolding session_dates_fall_def by (rule falls_strictly)
qed

lemma set_insert_newest [simp]: "set (insert_newest before m ms) = insert m (set ms)"
  by (induction ms) auto

lemma insert_newest_falls:
  "sorted_wrt (\<lambda>a b. em_received b \<le> em_received a) ms \<Longrightarrow>
   sorted_wrt (\<lambda>a b. em_received b \<le> em_received a) (insert_newest before m ms)"
proof (induction ms)
  case (Cons x xs)
  then show ?case by (cases "newer before x m") (auto simp: newer_def intro: order_trans)
qed simp

lemma listed_messages_fall:
  assumes "distinct (map (\<lambda>m. js_date (em_received m)) (listed_messages before thread db))"
  shows "message_dates_fall (listed_messages before thread db)"
proof -
  have "sorted_wrt (\<lambda>a b. em_received b \<le> em_received a) (foldr (insert_newest before) ms [])" for ms
    by (induction ms) (simp_all add: insert_newest_falls)
  then have "sorted_wrt (\<lambda>a b. js_date (em_received b) \<le> js_date (em_received a)) (listed_messages before thread db)"
    unfolding listed_messages_def by (rule sorted_wrt_mono_rel [rotated]) (simp add: js_date_def zdiv_mono1)
  then show ?thesis using assms unfolding message_dates_fall_def by (rule falls_strictly)
qed

text \<open>
  C39. Reading the sessions page by page ends, within one page more than there are sessions, and yields
  every session of the caller once, the latest activity first, when no two have their last activity
  in the same millisecond.
\<close>

theorem session_pages_end:
  assumes "nss \<noteq> []" and "distinct (map session_cursor (listed_sessions user nss None db))"
  shows "follow (length (listed_sessions user nss None db) + 1)
      (\<lambda>cursor. page_in (list_sessions (Some user) nss limit None (map_option Some cursor) db)) None =
    Some (listed_sessions user nss None db)"
proof -
  have "(\<lambda>cursor. page_in (list_sessions (Some user) nss limit None (map_option Some cursor) db)) =
      keyset_page session_after session_cursor (parse_limit limit) (listed_sessions user nss None db)"
    using assms(1) by (auto simp: list_sessions_def page_in_def nonempty_text_def fun_eq_iff map_option_case split: option.split)
  then show ?thesis
    using sessions.follow_all [OF parse_limit_pos listed_sessions_fall [OF assms(2)]] by simp
qed

lemma message_pages_end:
  assumes "\<And>i. \<not> before i i"
    and "distinct (map (\<lambda>m. js_date (em_received m)) (listed_messages before thread db))"
  shows "follow (length (listed_messages before thread db) + 1)
      (keyset_page (message_after before) message_cursor (parse_limit limit) (listed_messages before thread db)) None =
    Some (listed_messages before thread db)"
  using assms listed_messages_fall by (intro messages.follow_all parse_limit_pos) (simp add: message_dates_def)

definition two_sessions :: "micros \<Rightarrow> chat_db" where
  "two_sessions t = example_chat\<lparr>ch_sessions :=
     [example_session, example_session\<lparr>cs_id := example_mid, cs_thread := ''t2'', cs_activity := t\<rparr>]\<rparr>"

theorem session_pages_end_witness:
  "follow 3 (\<lambda>cursor. page_in (list_sessions (Some ''ann'') [''default''] (Some ''1'') None (map_option Some cursor)
      (two_sessions 2000000))) None =
   Some (listed_sessions ''ann'' [''default''] None (two_sessions 2000000))"
proof -
  have "distinct (map session_cursor (listed_sessions ''ann'' [''default''] None (two_sessions 2000000)))"
    by code_simp
  moreover have "length (listed_sessions ''ann'' [''default''] None (two_sessions 2000000)) + 1 = 3" by code_simp
  ultimately show ?thesis using session_pages_end [of "[''default'']" "''ann''" "two_sessions 2000000" "Some ''1''"]
    by simp
qed

text \<open>Two sessions active in one millisecond, with pages of one session: the second is never shown.\<close>

lemma same_millisecond_lost:
  "follow 3 (\<lambda>cursor. page_in (list_sessions (Some ''ann'') [''default''] (Some ''1'') None (map_option Some cursor)
      (two_sessions 1000500))) None =
   Some [example_session\<lparr>cs_id := example_mid, cs_thread := ''t2'', cs_activity := 1000500\<rparr>]"
  by code_simp

end
