(* ===== verification/ChatTickets.thy ===== *)
theory ChatTickets
  imports ChatSessions "HOL-Library.AList"
begin

text \<open>
  How a browser opens the chat's WebSocket: \<open>src/api/chat/ws-ticket-store.ts\<close> and the upgrade
  handler of \<open>src/api/chat/routes.ts\<close>. A ticket is handed out over an authenticated request and
  used once, within 30 seconds, to open a connection of its user to its session; a user has at most
  five connections. The maps of the module are the state; the generated tickets and connection
  identifiers are arguments. The handler has no \<open>await\<close> before the connection is registered, so it
  is one step.
\<close>

subsection \<open>The store\<close>

definition TICKET_TTL_MS :: millis where "TICKET_TTL_MS = 30000"
definition MAX_CONNECTIONS_PER_USER :: nat where "MAX_CONNECTIONS_PER_USER = 5"

record TicketData =
  tk_user :: string
  tk_session :: string
  tk_created :: millis

record ticket_store =
  tickets :: "(string \<times> TicketData) list"
  userConnections :: "string \<Rightarrow> string list option"
  sessionClients :: "string \<Rightarrow> string list option"

definition createTicket :: "millis \<Rightarrow> string \<Rightarrow> string \<Rightarrow> string \<Rightarrow> ticket_store \<Rightarrow> ticket_store" where
  "createTicket now ticket userEmail sessionId st =
     st\<lparr>tickets := AList.update ticket \<lparr>tk_user = userEmail, tk_session = sessionId, tk_created = now\<rparr> (tickets st)\<rparr>"

definition consumeTicket :: "millis \<Rightarrow> string \<Rightarrow> ticket_store \<Rightarrow> TicketData option \<times> ticket_store" where
  "consumeTicket now ticket st =
     (case map_of (tickets st) ticket of
        None \<Rightarrow> (None, st)
      | Some data \<Rightarrow>
          (if now - tk_created data > TICKET_TTL_MS then None else Some data,
           st\<lparr>tickets := AList.delete ticket (tickets st)\<rparr>))"

definition getActiveConnectionCount :: "string \<Rightarrow> ticket_store \<Rightarrow> nat" where
  "getActiveConnectionCount userEmail st =
     (case userConnections st userEmail of Some cs \<Rightarrow> length cs | None \<Rightarrow> 0)"

definition addConnection :: "string \<Rightarrow> string \<Rightarrow> ticket_store \<Rightarrow> string option \<times> ticket_store" where
  "addConnection fresh userEmail st =
     (let cs = (case userConnections st userEmail of Some cs \<Rightarrow> cs | None \<Rightarrow> []) in
      if MAX_CONNECTIONS_PER_USER \<le> length cs
      then (None, st\<lparr>userConnections := (userConnections st)(userEmail \<mapsto> cs)\<rparr>)
      else (Some fresh, st\<lparr>userConnections := (userConnections st)(userEmail \<mapsto> List.insert fresh cs)\<rparr>))"

definition removeConnection :: "string \<Rightarrow> string \<Rightarrow> ticket_store \<Rightarrow> ticket_store" where
  "removeConnection userEmail connectionId st =
     (case userConnections st userEmail of
        None \<Rightarrow> st
      | Some cs \<Rightarrow>
          let rest = filter (\<lambda>c. c \<noteq> connectionId) cs
          in st\<lparr>userConnections := (userConnections st)(userEmail := (if rest = [] then None else Some rest))\<rparr>)"

definition cleanExpiredTickets :: "millis \<Rightarrow> ticket_store \<Rightarrow> nat \<times> ticket_store" where
  "cleanExpiredTickets now st =
     (let old = (\<lambda>(t, data). now - tk_created data > TICKET_TTL_MS)
      in (length (filter old (tickets st)), st\<lparr>tickets := filter (\<lambda>e. \<not> old e) (tickets st)\<rparr>))"

definition resetTicketStore :: "ticket_store \<Rightarrow> ticket_store" where
  "resetTicketStore st = st\<lparr>tickets := [], userConnections := (\<lambda>_. None)\<rparr>"

text \<open>\<open>POST /chat/ws/ticket\<close>, for an active session of the caller.\<close>

definition post_ticket ::
    "string option \<Rightarrow> clock \<Rightarrow> string option \<Rightarrow> string list \<Rightarrow> string option \<Rightarrow> string \<Rightarrow> chat_db \<Rightarrow> ticket_store \<Rightarrow>
       string chat_reply \<times> chat_db \<times> ticket_store" where
  "post_ticket env clk caller namespaces sessionId ticket db st =
     (case caller of
        None \<Rightarrow> (Chat_unauthorized, db, st)
      | Some user \<Rightarrow>
          (case js_text sessionId of
             None \<Rightarrow> (Chat_bad ''session_id is required and must be a valid UUID'', db, st)
           | Some sid \<Rightarrow>
               if \<not> valid_uuid sid then (Chat_bad ''session_id is required and must be a valid UUID'', db, st)
               else case verifySessionAccess env clk sid user namespaces db of
                 None \<Rightarrow> (Chat_failed, db, st)
               | Some (None, db1) \<Rightarrow> (Chat_missing, db1, st)
               | Some (Some s, db1) \<Rightarrow>
                   if cs_status s \<noteq> Session_active then (Chat_conflict ''Cannot connect to a closed session'', db1, st)
                   else (Chat_done ticket, db1, createTicket (js_now clk) ticket user sid st)))"

subsection \<open>Opening and closing a socket\<close>

datatype ws_reply = Close nat | Established string

text \<open>\<open>ALLOWED_WS_ORIGINS\<close>, split at commas and trimmed.\<close>

definition origin_refused :: "string option \<Rightarrow> string option \<Rightarrow> bool" where
  "origin_refused allowed origin =
     (case (allowed, origin) of
        (Some a, Some (c # cs)) \<Rightarrow> \<not> List.member (map js_trim (js_split (CHR '','') a)) (c # cs)
      | _ \<Rightarrow> False)"

definition ws_open ::
    "string option \<Rightarrow> millis \<Rightarrow> string \<Rightarrow> string \<Rightarrow> string \<Rightarrow> string option \<Rightarrow>
       ticket_store \<Rightarrow> ws_reply \<times> ticket_store" where
  "ws_open allowed now fresh ticket sessionId origin st =
     (if ticket = [] \<or> sessionId = [] then (Close 4400, st)
      else if \<not> valid_uuid sessionId then (Close 4400, st)
      else if origin_refused allowed origin then (Close 4403, st)
      else case consumeTicket now ticket st of
        (None, st1) \<Rightarrow> (Close 4401, st1)
      | (Some data, st1) \<Rightarrow>
          if tk_session data \<noteq> sessionId then (Close 4401, st1)
          else (case addConnection fresh (tk_user data) st1 of
              (None, st2) \<Rightarrow> (Close 4429, st2)
            | (Some connectionId, st2) \<Rightarrow>
                let clients = (case sessionClients st2 sessionId of Some cs \<Rightarrow> cs | None \<Rightarrow> [])
                in (Established connectionId,
                    st2\<lparr>sessionClients := (sessionClients st2)(sessionId \<mapsto> List.insert connectionId clients)\<rparr>)))"

definition ws_close :: "string \<Rightarrow> string \<Rightarrow> string \<Rightarrow> ticket_store \<Rightarrow> ticket_store" where
  "ws_close userEmail sessionId connectionId st =
     (let st1 = removeConnection userEmail connectionId st in
      case sessionClients st1 sessionId of
        None \<Rightarrow> st1
      | Some cs \<Rightarrow>
          let rest = filter (\<lambda>c. c \<noteq> connectionId) cs
          in st1\<lparr>sessionClients := (sessionClients st1)(sessionId := (if rest = [] then None else Some rest))\<rparr>)"

subsection \<open>Runs\<close>

text \<open>What happens to the store, with the connections that were opened and are not closed as the
  history a property speaks about: connection, user, session, ticket and time.\<close>

record socket =
  so_conn :: string
  so_user :: string
  so_session :: string

datatype ws_event =
  Ticket millis string string string
| Open "string option" millis string string string "string option"
| Gone socket
| Clean millis

record ws_run =
  wr_store :: ticket_store
  wr_issued :: "(string \<times> TicketData) list"
  wr_opened :: "(string \<times> millis \<times> socket) list"
  wr_sockets :: "socket list"

definition ws_event :: "ws_event \<Rightarrow> ws_run \<Rightarrow> ws_run" where
  "ws_event ev run =
     (case ev of
        Ticket now ticket user session \<Rightarrow>
          run\<lparr>wr_store := createTicket now ticket user session (wr_store run),
              wr_issued := (ticket, \<lparr>tk_user = user, tk_session = session, tk_created = now\<rparr>) # wr_issued run\<rparr>
      | Open allowed now fresh ticket session origin \<Rightarrow>
          (case ws_open allowed now fresh ticket session origin (wr_store run) of
             (Close code, st) \<Rightarrow> run\<lparr>wr_store := st\<rparr>
           | (Established c, st) \<Rightarrow>
               let user = (case map_of (tickets (wr_store run)) ticket of Some d \<Rightarrow> tk_user d | None \<Rightarrow> []);
                   sock = \<lparr>so_conn = c, so_user = user, so_session = session\<rparr>
               in run\<lparr>wr_store := st, wr_opened := (ticket, now, sock) # wr_opened run,
                      wr_sockets := sock # wr_sockets run\<rparr>)
      | Gone sock \<Rightarrow>
          run\<lparr>wr_store := ws_close (so_user sock) (so_session sock) (so_conn sock) (wr_store run),
              wr_sockets := filter (\<lambda>s. s \<noteq> sock) (wr_sockets run)\<rparr>
      | Clean now \<Rightarrow> run\<lparr>wr_store := snd (cleanExpiredTickets now (wr_store run))\<rparr>)"

text \<open>Tickets and connection identifiers are random: a generated one is new. A socket reports its
  end at most while it is open or after; what it names is what it was opened with.\<close>

fun ws_fresh :: "ws_run \<Rightarrow> ws_event \<Rightarrow> bool" where
  "ws_fresh run (Ticket now ticket user session) = (ticket \<notin> fst ` set (wr_issued run))"
| "ws_fresh run (Open allowed now fresh ticket session origin) =
     (fresh \<notin> (\<lambda>(t, n, s). so_conn s) ` set (wr_opened run))"
| "ws_fresh run (Gone sock) = (\<exists>t n. (t, n, sock) \<in> set (wr_opened run))"
| "ws_fresh run (Clean now) = True"

definition ws_start :: ws_run where
  "ws_start = \<lparr>wr_store = \<lparr>tickets = [], userConnections = (\<lambda>_. None), sessionClients = (\<lambda>_. None)\<rparr>,
     wr_issued = [], wr_opened = [], wr_sockets = []\<rparr>"

inductive ws_reach :: "ws_run \<Rightarrow> bool" where
  start: "ws_reach ws_start"
| event: "ws_reach run \<Longrightarrow> ws_fresh run ev \<Longrightarrow> ws_reach (ws_event ev run)"

subsection \<open>The invariant\<close>

definition conns :: "ticket_store \<Rightarrow> string \<Rightarrow> string list" where
  "conns st u = (case userConnections st u of Some cs \<Rightarrow> cs | None \<Rightarrow> [])"

definition clients :: "ticket_store \<Rightarrow> string \<Rightarrow> string list" where
  "clients st s = (case sessionClients st s of Some cs \<Rightarrow> cs | None \<Rightarrow> [])"

lemma active_conns: "getActiveConnectionCount u st = length (conns st u)"
  by (simp add: getActiveConnectionCount_def conns_def split: option.split)

lemma conns_upd [simp]:
  "conns (st\<lparr>tickets := ts\<rparr>) = conns st" "conns (st\<lparr>sessionClients := f\<rparr>) = conns st"
  by (simp_all add: conns_def fun_eq_iff)

lemma clients_upd [simp]:
  "clients (st\<lparr>tickets := ts\<rparr>) = clients st" "clients (st\<lparr>userConnections := g\<rparr>) = clients st"
  by (simp_all add: clients_def fun_eq_iff)

lemma addConnection_cases:
  assumes "addConnection fresh u st = (res, st')"
  shows "tickets st' = tickets st \<and> clients st' = clients st \<and>
    (case res of
       None \<Rightarrow> conns st' = conns st
     | Some c \<Rightarrow> c = fresh \<and> length (conns st u) < 5 \<and>
         conns st' = (conns st)(u := List.insert fresh (conns st u)))"
  using assms
  by (auto simp: addConnection_def conns_def MAX_CONNECTIONS_PER_USER_def Let_def fun_eq_iff
      split: if_splits option.splits)

lemma conns_remove:
  "conns (removeConnection u c st) = (conns st)(u := filter (\<lambda>x. x \<noteq> c) (conns st u))"
  "tickets (removeConnection u c st) = tickets st"
  "clients (removeConnection u c st) = clients st"
  by (auto simp: removeConnection_def conns_def clients_def Let_def fun_eq_iff split: option.splits)

lemma ws_close_simps:
  "tickets (ws_close u s c st) = tickets st"
  "conns (ws_close u s c st) = (conns st)(u := filter (\<lambda>x. x \<noteq> c) (conns st u))"
  "clients (ws_close u s c st) = (clients st)(s := filter (\<lambda>x. x \<noteq> c) (clients st s))"
proof -
  show "tickets (ws_close u s c st) = tickets st"
    by (simp add: ws_close_def Let_def conns_remove split: option.split)
  show "conns (ws_close u s c st) = (conns st)(u := filter (\<lambda>x. x \<noteq> c) (conns st u))"
    by (simp add: ws_close_def Let_def conns_remove split: option.split)
  have "clients (ws_close u s c st) =
      (clients (removeConnection u c st))(s := filter (\<lambda>x. x \<noteq> c) (clients (removeConnection u c st) s))"
    by (auto simp: ws_close_def Let_def clients_def fun_eq_iff split: option.split)
  then show "clients (ws_close u s c st) = (clients st)(s := filter (\<lambda>x. x \<noteq> c) (clients st s))"
    by (simp add: conns_remove)
qed

lemma delete_absent: "map_of ts t = None \<Longrightarrow> AList.delete t ts = ts"
  by (simp add: AList.delete_eq filter_id_conv map_of_eq_None_iff image_iff split: prod.split) auto

lemma consume_cases:
  assumes "consumeTicket now t st = (res, st')"
  shows "conns st' = conns st \<and> clients st' = clients st \<and> tickets st' = AList.delete t (tickets st) \<and>
    (\<forall>d. res = Some d \<longrightarrow> map_of (tickets st) t = Some d \<and> now - tk_created d \<le> 30000)"
  using assms
  by (auto simp: consumeTicket_def TICKET_TTL_MS_def delete_absent split: option.splits if_splits)

definition ws_refused :: "string \<Rightarrow> ticket_store \<Rightarrow> ticket_store \<Rightarrow> bool" where
  "ws_refused t st st' \<longleftrightarrow> conns st' = conns st \<and> clients st' = clients st \<and>
     (tickets st' = tickets st \<or> tickets st' = AList.delete t (tickets st))"

lemma ws_open_cases:
  assumes "ws_open allowed now fresh t sess origin st = (reply, st')"
  shows "(\<exists>code. reply = Close code \<and> ws_refused t st st') \<or>
    (\<exists>d. reply = Established fresh \<and> map_of (tickets st) t = Some d \<and> tk_session d = sess \<and>
       now - tk_created d \<le> 30000 \<and> tickets st' = AList.delete t (tickets st) \<and>
       length (conns st (tk_user d)) < 5 \<and>
       conns st' = (conns st)(tk_user d := List.insert fresh (conns st (tk_user d))) \<and>
       clients st' = (clients st)(sess := List.insert fresh (clients st sess)))"
proof -
  obtain res st1 where c: "consumeTicket now t st = (res, st1)" by (cases "consumeTicket now t st") simp
  note cc = consume_cases [OF c]
  have cut: "ws_refused t st st" "ws_refused t st st1" using cc by (simp_all add: ws_refused_def)
  consider (early) code where "reply = Close code" "st' = st \<or> st' = st1"
    | (match) d where "res = Some d" "tk_session d = sess"
        "(case addConnection fresh (tk_user d) st1 of
            (None, st2) \<Rightarrow> (Close 4429, st2)
          | (Some connectionId, st2) \<Rightarrow>
              let clients = (case sessionClients st2 sess of Some cs \<Rightarrow> cs | None \<Rightarrow> [])
              in (Established connectionId,
                  st2\<lparr>sessionClients := (sessionClients st2)(sess \<mapsto> List.insert connectionId clients)\<rparr>))
          = (reply, st')"
    using assms c unfolding ws_open_def by (cases res) (auto split: if_splits)
  then show ?thesis
  proof cases
    case early
    then show ?thesis using cut by auto
  next
    case match
    obtain res2 st2 where a: "addConnection fresh (tk_user d) st1 = (res2, st2)"
      by (cases "addConnection fresh (tk_user d) st1") simp
    note ac = addConnection_cases [OF a]
    show ?thesis
    proof (cases res2)
      case None
      then have "reply = Close 4429" "st' = st2" using match a by simp_all
      moreover have "ws_refused t st st2" using ac None cc by (simp add: ws_refused_def)
      ultimately show ?thesis by simp
    next
      case (Some c)
      have "c = fresh" using ac Some by simp
      then have "reply = Established fresh"
        "st' = st2\<lparr>sessionClients := (sessionClients st2)(sess \<mapsto> List.insert fresh (clients st2 sess))\<rparr>"
        using match a Some unfolding clients_def by (auto simp: Let_def)
      moreover have "clients (st2\<lparr>sessionClients := (sessionClients st2)(sess \<mapsto> cs)\<rparr>) = (clients st2)(sess := cs)" for cs
        by (simp add: clients_def fun_eq_iff)
      ultimately show ?thesis using ac Some cc match by simp
    qed
  qed
qed

definition user_conns :: "socket list \<Rightarrow> string \<Rightarrow> string set" where
  "user_conns socks u = so_conn ` {s \<in> set socks. so_user s = u}"

definition session_conns :: "socket list \<Rightarrow> string \<Rightarrow> string set" where
  "session_conns socks x = so_conn ` {s \<in> set socks. so_session s = x}"

text \<open>A socket stands for a ticket issued at most 30 seconds before, to its user for its session.\<close>

definition ticket_for :: "(string \<times> TicketData) list \<Rightarrow> string \<Rightarrow> millis \<Rightarrow> socket \<Rightarrow> bool" where
  "ticket_for issued t n s \<longleftrightarrow> (\<exists>(t', d) \<in> set issued. t' = t \<and> tk_user d = so_user s \<and>
     tk_session d = so_session s \<and> n - tk_created d \<le> TICKET_TTL_MS)"

lemma ticket_for_more: "ticket_for issued t n s \<Longrightarrow> ticket_for (e # issued) t n s"
  by (auto simp: ticket_for_def)

definition tickets_ok ::
    "(string \<times> TicketData) list \<Rightarrow> (string \<times> TicketData) list \<Rightarrow> (string \<times> millis \<times> socket) list \<Rightarrow> bool" where
  "tickets_ok issued live opened \<longleftrightarrow>
     distinct (map fst issued) \<and> distinct (map fst live) \<and> set live \<subseteq> set issued \<and>
     fst ` set live \<inter> fst ` set opened = {} \<and> distinct (map fst opened) \<and>
     (\<forall>(t, n, s) \<in> set opened. ticket_for issued t n s)"

definition sockets_ok ::
    "(string \<times> millis \<times> socket) list \<Rightarrow> socket list \<Rightarrow> (string \<Rightarrow> string list) \<Rightarrow> (string \<Rightarrow> string list) \<Rightarrow> bool" where
  "sockets_ok opened socks byUser bySession \<longleftrightarrow>
     distinct (map (\<lambda>(t, n, s). so_conn s) opened) \<and> set socks \<subseteq> (\<lambda>(t, n, s). s) ` set opened \<and>
     distinct (map so_conn socks) \<and>
     (\<forall>u. set (byUser u) = user_conns socks u \<and> distinct (byUser u) \<and> length (byUser u) \<le> 5) \<and>
     (\<forall>x. set (bySession x) = session_conns socks x)"

definition ws_ok :: "ws_run \<Rightarrow> bool" where
  "ws_ok run \<longleftrightarrow>
     tickets_ok (wr_issued run) (tickets (wr_store run)) (wr_opened run) \<and>
     sockets_ok (wr_opened run) (wr_sockets run) (conns (wr_store run)) (clients (wr_store run))"

lemma update_absent: "t \<notin> fst ` set ts \<Longrightarrow> AList.update t d ts = ts @ [(t, d)]"
  by (induction ts) auto

lemma tickets_ok_issue:
  assumes "tickets_ok issued live opened" and "t \<notin> fst ` set issued"
  shows "tickets_ok ((t, d) # issued) (AList.update t d live) opened"
proof -
  have "t \<notin> fst ` set live" using assms unfolding tickets_ok_def by blast
  moreover have "t \<notin> fst ` set opened"
    using assms unfolding tickets_ok_def ticket_for_def by (fastforce simp: image_iff)
  ultimately show ?thesis using assms unfolding tickets_ok_def by (auto simp: ticket_for_more update_absent)
qed

lemma tickets_ok_fewer: "tickets_ok issued live opened \<Longrightarrow> tickets_ok issued (filter P live) opened"
  unfolding tickets_ok_def by (auto simp: distinct_map_filter)

lemma tickets_ok_delete: "tickets_ok issued live opened \<Longrightarrow> tickets_ok issued (AList.delete t live) opened"
  unfolding AList.delete_eq by (rule tickets_ok_fewer)

lemma tickets_ok_use:
  assumes ok: "tickets_ok issued live opened" and d: "map_of live t = Some d"
    and "tk_user d = so_user s" "tk_session d = so_session s" "n - tk_created d \<le> 30000"
  shows "tickets_ok issued (AList.delete t live) ((t, n, s) # opened)"
proof -
  have "(t, d) \<in> set live" using d by (rule map_of_SomeD)
  then have "(t, d) \<in> set issued" "t \<notin> fst ` set opened" using ok unfolding tickets_ok_def by force+
  moreover have "t \<notin> fst ` set (AList.delete t live)" by (auto simp: AList.delete_eq)
  moreover have "ticket_for issued t n s"
    using \<open>(t, d) \<in> set issued\<close> assms(3-) by (auto simp: ticket_for_def TICKET_TTL_MS_def)
  ultimately show ?thesis using tickets_ok_delete [OF ok, of t] unfolding tickets_ok_def by auto
qed

lemma sockets_ok_open:
  assumes ok: "sockets_ok opened socks byUser bySession"
    and new: "so_conn s \<notin> (\<lambda>(t, n, s). so_conn s) ` set opened" and room: "length (byUser (so_user s)) < 5"
  shows "sockets_ok ((t, n, s) # opened) (s # socks)
    (byUser(so_user s := List.insert (so_conn s) (byUser (so_user s))))
    (bySession(so_session s := List.insert (so_conn s) (bySession (so_session s))))"
proof -
  have unsock: "so_conn s \<notin> so_conn ` set socks" using ok new unfolding sockets_ok_def by force
  then have unconn: "so_conn s \<notin> set (byUser u)" for u using ok unfolding sockets_ok_def user_conns_def by auto
  have "user_conns (s # socks) u =
      (if u = so_user s then insert (so_conn s) (user_conns socks u) else user_conns socks u)" for u
    by (auto simp: user_conns_def)
  moreover have "session_conns (s # socks) x =
      (if x = so_session s then insert (so_conn s) (session_conns socks x) else session_conns socks x)" for x
    by (auto simp: session_conns_def)
  ultimately show ?thesis
    using ok new room unsock unconn unfolding sockets_ok_def by auto
qed

lemma sockets_ok_gone:
  assumes ok: "sockets_ok opened socks byUser bySession" and past: "(t, n, s) \<in> set opened"
  shows "sockets_ok opened (filter (\<lambda>s'. s' \<noteq> s) socks)
    (byUser(so_user s := filter (\<lambda>c. c \<noteq> so_conn s) (byUser (so_user s))))
    (bySession(so_session s := filter (\<lambda>c. c \<noteq> so_conn s) (bySession (so_session s))))"
proof -
  have inj: "inj_on (\<lambda>(t, n, s). so_conn s) (set opened)"
    using ok unfolding sockets_ok_def by (simp add: distinct_map)
  have only: "s' = s \<longleftrightarrow> so_conn s' = so_conn s" if s': "s' \<in> set socks" for s'
  proof -
    obtain t' n' where "(t', n', s') \<in> set opened" using ok s' unfolding sockets_ok_def by force
    then show ?thesis using inj_onD [OF inj _ _ past, of "(t', n', s')"] by auto
  qed
  have "user_conns (filter (\<lambda>s'. s' \<noteq> s) socks) u =
      (if u = so_user s then user_conns socks u - {so_conn s} else user_conns socks u)" for u
    using only by (auto simp: user_conns_def)
  moreover have "session_conns (filter (\<lambda>s'. s' \<noteq> s) socks) x =
      (if x = so_session s then session_conns socks x - {so_conn s} else session_conns socks x)" for x
    using only by (auto simp: session_conns_def)
  moreover have "length (filter P xs) \<le> 5" if "length xs \<le> 5" for P and xs :: "string list"
    using that le_trans [OF length_filter_le] by blast
  ultimately show ?thesis
    using ok unfolding sockets_ok_def by (auto simp: distinct_map_filter)
qed

lemma ws_ok_step:
  assumes ok: "ws_ok run" and fresh: "ws_fresh run ev"
  shows "ws_ok (ws_event ev run)"
proof (cases ev)
  case (Ticket now t user sess)
  then show ?thesis
    using ok fresh by (simp add: ws_ok_def ws_event_def createTicket_def tickets_ok_issue)
next
  case (Open allowed now c t sess origin)
  let ?st = "wr_store run"
  obtain reply st' where o: "ws_open allowed now c t sess origin ?st = (reply, st')"
    by (cases "ws_open allowed now c t sess origin ?st") simp
  from ws_open_cases [OF o] show ?thesis
  proof (elim disjE exE conjE)
    fix code assume "reply = Close code" and "ws_refused t ?st st'"
    then show ?thesis
      using ok o Open tickets_ok_delete by (auto simp: ws_ok_def ws_event_def ws_refused_def)
  next
    fix d
    assume "reply = Established c" "map_of (tickets ?st) t = Some d" "tk_session d = sess"
        "now - tk_created d \<le> 30000" "tickets st' = AList.delete t (tickets ?st)"
        "length (conns ?st (tk_user d)) < 5"
        "conns st' = (conns ?st)(tk_user d := List.insert c (conns ?st (tk_user d)))"
        "clients st' = (clients ?st)(sess := List.insert c (clients ?st sess))"
    then show ?thesis
      using ok o Open fresh
        tickets_ok_use [where s = "\<lparr>so_conn = c, so_user = tk_user d, so_session = sess\<rparr>" and n = now and t = t and d = d]
        sockets_ok_open [where s = "\<lparr>so_conn = c, so_user = tk_user d, so_session = sess\<rparr>" and n = now and t = t]
      by (simp add: ws_ok_def ws_event_def Let_def)
  qed
next
  case (Gone s)
  then show ?thesis
    using ok fresh sockets_ok_gone by (auto simp: ws_ok_def ws_event_def ws_close_simps)
next
  case (Clean now)
  then show ?thesis
    using ok by (simp add: ws_ok_def ws_event_def cleanExpiredTickets_def Let_def tickets_ok_fewer)
qed

lemma ws_reach_ok: "ws_reach run \<Longrightarrow> ws_ok run"
proof (induction rule: ws_reach.induct)
  case start
  show ?case
    by (simp add: ws_ok_def tickets_ok_def sockets_ok_def ws_start_def conns_def clients_def user_conns_def session_conns_def)
next
  case (event run ev)
  then show ?case by (simp add: ws_ok_step)
qed

lemma ticket_session:
  assumes "post_ticket env clk caller nss sessionId ticket db st = (Chat_done t, db', st')"
  shows "\<exists>user sid s. caller = Some user \<and> st' = createTicket (js_now clk) ticket user sid st \<and>
    s \<in> set (ch_sessions db) \<and> cs_id s = sid \<and> cs_user s = user \<and> cs_namespace s \<in> set nss \<and> cs_status s = Session_active"
  using assms verify_row by (fastforce simp: post_ticket_def split: option.splits if_splits prod.splits)

lemma card_sockets:
  assumes "ws_reach run"
  shows "getActiveConnectionCount u (wr_store run) = card {s \<in> set (wr_sockets run). so_user s = u} \<and>
    getActiveConnectionCount u (wr_store run) \<le> MAX_CONNECTIONS_PER_USER"
proof -
  have ok: "sockets_ok (wr_opened run) (wr_sockets run) (conns (wr_store run)) (clients (wr_store run))"
    using ws_reach_ok [OF assms] by (simp add: ws_ok_def)
  then have "inj_on so_conn {s \<in> set (wr_sockets run). so_user s = u}"
    unfolding sockets_ok_def distinct_map by (auto intro: inj_on_subset)
  then have "card (user_conns (wr_sockets run) u) = card {s \<in> set (wr_sockets run). so_user s = u}"
    by (simp add: user_conns_def card_image)
  moreover have "card (user_conns (wr_sockets run) u) = length (conns (wr_store run) u)"
    using ok unfolding sockets_ok_def by (metis distinct_card)
  moreover have "length (conns (wr_store run) u) \<le> 5" using ok by (simp add: sockets_ok_def)
  ultimately show ?thesis by (simp add: active_conns MAX_CONNECTIONS_PER_USER_def)
qed

text \<open>
  C34. Whatever the order of requests: a ticket opens at most one socket, at most 30 seconds after it was
  issued, and for the user and the session it was issued for; the store counts exactly the open
  sockets of a user, at most five, and the sockets that receive a session's stream are the open
  sockets of that session.
\<close>

theorem tickets_open_once:
  assumes "ws_reach run"
  shows "distinct (map fst (wr_opened run)) \<and>
    (\<forall>(t, n, s) \<in> set (wr_opened run). \<exists>(t', d) \<in> set (wr_issued run). t' = t \<and> tk_user d = so_user s \<and>
       tk_session d = so_session s \<and> n - tk_created d \<le> TICKET_TTL_MS) \<and>
    (\<forall>u. getActiveConnectionCount u (wr_store run) = card {s \<in> set (wr_sockets run). so_user s = u} \<and>
         getActiveConnectionCount u (wr_store run) \<le> MAX_CONNECTIONS_PER_USER) \<and>
    (\<forall>x. set (clients (wr_store run) x) = so_conn ` {s \<in> set (wr_sockets run). so_session s = x})"
proof -
  have ok: "ws_ok run" by (rule ws_reach_ok [OF assms])
  have "distinct (map fst (wr_opened run))"
    "\<forall>(t, n, s) \<in> set (wr_opened run). \<exists>(t', d) \<in> set (wr_issued run). t' = t \<and> tk_user d = so_user s \<and>
       tk_session d = so_session s \<and> n - tk_created d \<le> TICKET_TTL_MS"
    "\<forall>x. set (clients (wr_store run) x) = so_conn ` {s \<in> set (wr_sockets run). so_session s = x}"
    using ok by (simp_all add: ws_ok_def tickets_ok_def sockets_ok_def ticket_for_def session_conns_def)
  then show ?thesis using card_sockets [OF assms] by blast
qed

definition example_ws_run :: ws_run where
  "example_ws_run =
     ws_event (Open None 2000 ''c'' ''t'' example_sid None)
       (ws_event (Ticket 1000 ''t'' ''ann'' example_sid) ws_start)"

lemma example_ws_reach: "ws_reach example_ws_run"
  unfolding example_ws_run_def
  by (intro ws_reach.event ws_reach.start) (simp_all add: ws_event_def ws_start_def)

lemma example_sid_valid: "valid_uuid example_sid" "example_sid \<noteq> []"
  by code_simp+

lemma example_ws_sockets:
  "wr_sockets example_ws_run = [\<lparr>so_conn = ''c'', so_user = ''ann'', so_session = example_sid\<rparr>]"
  using example_sid_valid
  by (simp add: example_ws_run_def ws_start_def ws_event_def createTicket_def ws_open_def origin_refused_def
      consumeTicket_def TICKET_TTL_MS_def addConnection_def MAX_CONNECTIONS_PER_USER_def Let_def)

theorem tickets_open_once_witness: "getActiveConnectionCount ''ann'' (wr_store example_ws_run) = 1"
proof -
  have "{s \<in> set (wr_sockets example_ws_run). so_user s = ''ann''} = set (wr_sockets example_ws_run)"
    by (auto simp: example_ws_sockets)
  then have "card {s \<in> set (wr_sockets example_ws_run). so_user s = ''ann''} = 1"
    by (simp only: example_ws_sockets) simp
  then show ?thesis using tickets_open_once [OF example_ws_reach] by metis
qed

end
