(* ===== verification/ChatLimits.thy ===== *)
theory ChatLimits
  imports Windows
begin

text \<open>
  The rate limits of the chat, \<open>src/api/chat/rate-limits.ts\<close>. A limit from the environment that is no
  number is \<open>NaN\<close>, here \<open>None\<close>: no count reaches it. The maps of the module are functions from keys.
\<close>

definition envInt :: "string option \<Rightarrow> int \<Rightarrow> int option" where
  "envInt v fallback = (case v of None \<Rightarrow> Some fallback | Some [] \<Rightarrow> Some fallback | Some s \<Rightarrow> js_parseInt s)"

definition reaches :: "int \<Rightarrow> int option \<Rightarrow> bool" where
  "reaches n limit = (case limit of None \<Rightarrow> False | Some m \<Rightarrow> m \<le> n)"

record SlidingCounter =
  sl_count :: int
  sl_start :: millis

record DualCounter =
  du_hourly :: SlidingCounter
  du_daily :: SlidingCounter

record StreamRateState =
  sr_chunks :: int
  sr_start :: millis
  sr_bytes :: int

datatype rate_result = Allowed | Limited "int option"

subsection \<open>The windows\<close>

definition retry_seconds :: "millis \<Rightarrow> int" where
  "retry_seconds left = max 1 (- ((- left) div 1000))"

definition checkSlidingWindow ::
    "millis \<Rightarrow> string \<Rightarrow> int option \<Rightarrow> millis \<Rightarrow> (string \<Rightarrow> SlidingCounter option) \<Rightarrow>
       rate_result \<times> (string \<Rightarrow> SlidingCounter option)" where
  "checkSlidingWindow now key limit windowMs store =
     (let counter = (case store key of
            Some c \<Rightarrow> if now - sl_start c \<ge> windowMs then \<lparr>sl_count = 0, sl_start = now\<rparr> else c
          | None \<Rightarrow> \<lparr>sl_count = 0, sl_start = now\<rparr>)
      in if reaches (sl_count counter) limit
         then (Limited (Some (retry_seconds (sl_start counter + windowMs - now))), store(key \<mapsto> counter))
         else (Allowed, store(key \<mapsto> counter\<lparr>sl_count := sl_count counter + 1\<rparr>)))"

record chat_limit_config =
  cl_sessions :: "int option"
  cl_messages :: "int option"
  cl_connections :: "int option"
  cl_chunks :: "int option"
  cl_bytes :: "int option"
  cl_typing :: "int option"
  cl_attract_hour :: "int option"
  cl_attract_day :: "int option"
  cl_abort :: "int option"

definition CHAT_LIMITS :: "(string \<Rightarrow> string option) \<Rightarrow> chat_limit_config" where
  "CHAT_LIMITS env =
     \<lparr>cl_sessions = envInt (env ''CHAT_RL_SESSION_CREATE_MAX'') 5,
      cl_messages = envInt (env ''CHAT_RL_MESSAGE_SEND_MAX'') 10,
      cl_connections = envInt (env ''CHAT_RL_WS_MAX_CONCURRENT'') 5,
      cl_chunks = envInt (env ''CHAT_RL_STREAM_CHUNKS_SEC'') 100,
      cl_bytes = envInt (env ''CHAT_RL_STREAM_TOTAL_BYTES'') (256 * 1024),
      cl_typing = envInt (env ''CHAT_RL_TYPING_SEC'') 2,
      cl_attract_hour = envInt (env ''CHAT_RL_ATTRACT_HOUR'') 3,
      cl_attract_day = envInt (env ''CHAT_RL_ATTRACT_DAY'') 10,
      cl_abort = envInt (env ''CHAT_RL_ABORT_MAX'') 10\<rparr>"

record chat_limit_store =
  ls_sessions :: "string \<Rightarrow> SlidingCounter option"
  ls_messages :: "string \<Rightarrow> SlidingCounter option"
  ls_connections :: "string \<Rightarrow> int option"
  ls_streams :: "string \<Rightarrow> StreamRateState option"
  ls_typing :: "string \<Rightarrow> SlidingCounter option"
  ls_attract :: "string \<Rightarrow> DualCounter option"
  ls_abort :: "string \<Rightarrow> SlidingCounter option"

definition checkSessionCreation ::
    "chat_limit_config \<Rightarrow> millis \<Rightarrow> string \<Rightarrow> chat_limit_store \<Rightarrow> rate_result \<times> chat_limit_store" where
  "checkSessionCreation cfg now user st =
     (let (r, m) = checkSlidingWindow now user (cl_sessions cfg) 60000 (ls_sessions st)
      in (r, st\<lparr>ls_sessions := m\<rparr>))"

definition checkMessageSend ::
    "chat_limit_config \<Rightarrow> millis \<Rightarrow> string \<Rightarrow> chat_limit_store \<Rightarrow> rate_result \<times> chat_limit_store" where
  "checkMessageSend cfg now user st =
     (let (r, m) = checkSlidingWindow now user (cl_messages cfg) 60000 (ls_messages st)
      in (r, st\<lparr>ls_messages := m\<rparr>))"

definition checkAgentMessageSend ::
    "chat_limit_config \<Rightarrow> millis \<Rightarrow> string \<Rightarrow> chat_limit_store \<Rightarrow> rate_result \<times> chat_limit_store" where
  "checkAgentMessageSend cfg now session st =
     (let (r, m) = checkSlidingWindow now (''agent:'' @ session) (cl_messages cfg) 60000 (ls_messages st)
      in (r, st\<lparr>ls_messages := m\<rparr>))"

definition checkTyping ::
    "chat_limit_config \<Rightarrow> millis \<Rightarrow> string \<Rightarrow> chat_limit_store \<Rightarrow> rate_result \<times> chat_limit_store" where
  "checkTyping cfg now connection st =
     (let (r, m) = checkSlidingWindow now connection (cl_typing cfg) 1000 (ls_typing st)
      in (r, st\<lparr>ls_typing := m\<rparr>))"

definition checkAbort ::
    "chat_limit_config \<Rightarrow> millis \<Rightarrow> string \<Rightarrow> chat_limit_store \<Rightarrow> rate_result \<times> chat_limit_store" where
  "checkAbort cfg now user st =
     (let (r, m) = checkSlidingWindow now user (cl_abort cfg) 60000 (ls_abort st)
      in (r, st\<lparr>ls_abort := m\<rparr>))"

definition wsConnectionOpened ::
    "chat_limit_config \<Rightarrow> string \<Rightarrow> chat_limit_store \<Rightarrow> rate_result \<times> chat_limit_store" where
  "wsConnectionOpened cfg user st =
     (let current = (case ls_connections st user of Some n \<Rightarrow> n | None \<Rightarrow> 0)
      in if reaches current (cl_connections cfg) then (Limited None, st)
         else (Allowed, st\<lparr>ls_connections := (ls_connections st)(user \<mapsto> current + 1)\<rparr>))"

definition wsConnectionClosed :: "string \<Rightarrow> chat_limit_store \<Rightarrow> chat_limit_store" where
  "wsConnectionClosed user st =
     (let current = (case ls_connections st user of Some n \<Rightarrow> n | None \<Rightarrow> 0)
      in if current > 0 then st\<lparr>ls_connections := (ls_connections st)(user \<mapsto> current - 1)\<rparr> else st)"

definition checkStreamChunk ::
    "chat_limit_config \<Rightarrow> millis \<Rightarrow> string \<Rightarrow> int \<Rightarrow> chat_limit_store \<Rightarrow> rate_result \<times> chat_limit_store" where
  "checkStreamChunk cfg now session chunkBytes st =
     (let old = (case ls_streams st session of
            Some s \<Rightarrow> s | None \<Rightarrow> \<lparr>sr_chunks = 0, sr_start = now, sr_bytes = 0\<rparr>);
          s = (if now - sr_start old \<ge> 1000 then old\<lparr>sr_chunks := 0, sr_start := now\<rparr> else old);
          put = (\<lambda>s. st\<lparr>ls_streams := (ls_streams st)(session \<mapsto> s)\<rparr>)
      in if reaches (sr_chunks s) (cl_chunks cfg) then (Limited (Some 1), put s)
         else if (case cl_bytes cfg of None \<Rightarrow> False | Some b \<Rightarrow> b < sr_bytes s + chunkBytes)
         then (Limited None, put s)
         else (Allowed, put (s\<lparr>sr_chunks := sr_chunks s + 1, sr_bytes := sr_bytes s + chunkBytes\<rparr>)))"

definition clearStreamState :: "string \<Rightarrow> chat_limit_store \<Rightarrow> chat_limit_store" where
  "clearStreamState session st = st\<lparr>ls_streams := (ls_streams st)(session := None)\<rparr>"

definition checkAttractAttention ::
    "chat_limit_config \<Rightarrow> millis \<Rightarrow> string \<Rightarrow> chat_limit_store \<Rightarrow> rate_result \<times> chat_limit_store" where
  "checkAttractAttention cfg now user st =
     (let new = \<lparr>sl_count = 0, sl_start = now\<rparr>;
          rl = (case ls_attract st user of Some rl \<Rightarrow> rl | None \<Rightarrow> \<lparr>du_hourly = new, du_daily = new\<rparr>);
          rl1 = (if now - sl_start (du_hourly rl) \<ge> 3600000 then rl\<lparr>du_hourly := new\<rparr> else rl);
          rl2 = (if now - sl_start (du_daily rl1) \<ge> 86400000 then rl1\<lparr>du_daily := new\<rparr> else rl1);
          st' = st\<lparr>ls_attract := (ls_attract st)(user \<mapsto> rl2)\<rparr>
      in if reaches (sl_count (du_hourly rl2)) (cl_attract_hour cfg)
         then (Limited (Some (retry_seconds (sl_start (du_hourly rl2) + 3600000 - now))), st')
         else if reaches (sl_count (du_daily rl2)) (cl_attract_day cfg)
         then (Limited (Some (retry_seconds (sl_start (du_daily rl2) + 86400000 - now))), st')
         else (Allowed, st'))"

definition chargeAttractAttention :: "string \<Rightarrow> chat_limit_store \<Rightarrow> chat_limit_store" where
  "chargeAttractAttention user st =
     (case ls_attract st user of
        None \<Rightarrow> st
      | Some rl \<Rightarrow> st\<lparr>ls_attract := (ls_attract st)(user \<mapsto>
          rl\<lparr>du_hourly := sl_count_update (\<lambda>n. n + 1) (du_hourly rl),
             du_daily := sl_count_update (\<lambda>n. n + 1) (du_daily rl)\<rparr>)\<rparr>)"

definition resetAllRateLimits :: "chat_limit_store \<Rightarrow> chat_limit_store" where
  "resetAllRateLimits st =
     st\<lparr>ls_sessions := (\<lambda>_. None), ls_messages := (\<lambda>_. None), ls_connections := (\<lambda>_. None),
        ls_streams := (\<lambda>_. None), ls_typing := (\<lambda>_. None), ls_attract := (\<lambda>_. None), ls_abort := (\<lambda>_. None)\<rparr>"

subsection \<open>What a window lets through\<close>

fun window_times ::
    "string \<Rightarrow> int option \<Rightarrow> millis \<Rightarrow> (string \<Rightarrow> SlidingCounter option) \<Rightarrow> (string \<times> millis) list \<Rightarrow> millis list" where
  "window_times k limit W store [] = []"
| "window_times k limit W store ((key, now) # calls) =
     (case checkSlidingWindow now key limit W store of
        (r, store') \<Rightarrow> (if key = k \<and> r = Allowed then [now] else []) @ window_times k limit W store' calls)"

definition hits :: "(millis \<Rightarrow> bool) \<Rightarrow> millis list \<Rightarrow> int" where
  "hits P H = int (length (filter P H))"

lemma hits_snoc: "hits P (H @ [t]) = hits P H + (if P t then 1 else 0)"
  by (simp add: hits_def)

lemma hits_mono: "(\<And>t. t \<in> set H \<Longrightarrow> P t \<Longrightarrow> Q t) \<Longrightarrow> hits P H \<le> hits Q H"
  unfolding hits_def by (induction H) auto

lemma hits_split: "hits P H = hits (\<lambda>t. P t \<and> Q t) H + hits (\<lambda>t. P t \<and> \<not> Q t) H"
  unfolding hits_def by (induction H) auto

lemma hits_none: "(\<And>t. t \<in> set H \<Longrightarrow> \<not> P t) \<Longrightarrow> hits P H = 0"
  by (simp add: hits_def filter_empty_conv)

text \<open>What the counter says of the calls let through so far: it counts those since its start, one of
  them at its start, and fewer than the limit lie in the time of one window before it.\<close>

definition counts :: "int \<Rightarrow> millis \<Rightarrow> SlidingCounter option \<Rightarrow> millis list \<Rightarrow> millis \<Rightarrow> bool" where
  "counts L W c H now \<longleftrightarrow> (\<forall>t \<in> set H. t \<le> now) \<and> window_bounded W (2 * L - 1) H \<and>
     (case c of
        None \<Rightarrow> H = []
      | Some c \<Rightarrow> sl_start c \<le> now \<and> (\<forall>t \<in> set H. t < sl_start c + W) \<and>
          sl_count c = hits (\<lambda>t. sl_start c \<le> t) H \<and> sl_count c \<le> L \<and>
          hits (\<lambda>t. sl_start c < t) H + 1 \<le> sl_count c \<and>
          hits (\<lambda>t. sl_start c - W < t \<and> t < sl_start c) H \<le> L - 1)"

lemma counts_later: "counts L W c H t0 \<Longrightarrow> t0 \<le> t1 \<Longrightarrow> counts L W c H t1"
  by (force simp: counts_def split: option.splits)

lemma window_bounded_hits: "window_bounded W B H \<longleftrightarrow> (\<forall>T. hits (\<lambda>t. T - W < t \<and> t \<le> T) H \<le> B)"
  by (simp add: window_bounded_def hits_def)

lemma window_bounded_add:
  assumes "window_bounded W B H" and "\<And>T. T - W < now \<Longrightarrow> now \<le> T \<Longrightarrow> hits (\<lambda>t. T - W < t \<and> t \<le> T) H + 1 \<le> B"
  shows "window_bounded W B (H @ [now])"
  using assms by (auto simp: window_bounded_hits hits_snoc)

lemma counts_same:
  assumes ok: "counts L W (Some c) H now" and same: "now - sl_start c < W" and room: "sl_count c < L"
  shows "counts L W (Some (c\<lparr>sl_count := sl_count c + 1\<rparr>)) (H @ [now]) now"
proof -
  have start: "sl_start c \<le> now" and cnt: "sl_count c = hits (\<lambda>t. sl_start c \<le> t) H"
    and before: "hits (\<lambda>t. sl_start c - W < t \<and> t < sl_start c) H \<le> L - 1"
    and bounded: "window_bounded W (2 * L - 1) H"
    using ok by (auto simp: counts_def)
  have "hits (\<lambda>t. T - W < t \<and> t \<le> T) H + 1 \<le> 2 * L - 1" if "now \<le> T" for T
  proof -
    have "hits (\<lambda>t. T - W < t \<and> t \<le> T) H = hits (\<lambda>t. (T - W < t \<and> t \<le> T) \<and> sl_start c \<le> t) H +
        hits (\<lambda>t. (T - W < t \<and> t \<le> T) \<and> \<not> sl_start c \<le> t) H" by (rule hits_split)
    moreover have "hits (\<lambda>t. (T - W < t \<and> t \<le> T) \<and> sl_start c \<le> t) H \<le> sl_count c"
      unfolding cnt by (rule hits_mono) simp
    moreover have "hits (\<lambda>t. (T - W < t \<and> t \<le> T) \<and> \<not> sl_start c \<le> t) H \<le>
        hits (\<lambda>t. sl_start c - W < t \<and> t < sl_start c) H"
      using that start by (intro hits_mono) auto
    ultimately show ?thesis using before room by linarith
  qed
  then have "window_bounded W (2 * L - 1) (H @ [now])" using bounded by (intro window_bounded_add)
  then show ?thesis using ok same room by (auto simp: counts_def hits_snoc)
qed

lemma counts_new:
  assumes ok: "counts L W c H now" and L: "0 < L" and W: "0 < W"
    and fresh: "case c of None \<Rightarrow> True | Some c \<Rightarrow> W \<le> now - sl_start c"
  shows "counts L W (Some \<lparr>sl_count = 1, sl_start = now\<rparr>) (H @ [now]) now"
proof -
  have recent: "hits (\<lambda>t. now - W < t \<and> t \<le> now) H \<le> L - 1" and none: "hits (\<lambda>t. now \<le> t) H = 0"
  proof -
    show "hits (\<lambda>t. now \<le> t) H = 0"
      using ok fresh by (intro hits_none) (force simp: counts_def split: option.splits)
    show "hits (\<lambda>t. now - W < t \<and> t \<le> now) H \<le> L - 1"
    proof (cases c)
      case None
      then show ?thesis using ok L by (simp add: counts_def hits_def)
    next
      case (Some c0)
      have "hits (\<lambda>t. now - W < t \<and> t \<le> now) H \<le> hits (\<lambda>t. sl_start c0 < t) H"
        using fresh Some by (intro hits_mono) auto
      then show ?thesis using ok Some by (simp add: counts_def)
    qed
  qed
  have "hits (\<lambda>t. T - W < t \<and> t \<le> T) H + 1 \<le> 2 * L - 1" if "now \<le> T" for T
  proof -
    have "hits (\<lambda>t. T - W < t \<and> t \<le> T) H \<le> hits (\<lambda>t. now - W < t \<and> t \<le> now) H"
      using that ok by (intro hits_mono) (auto simp: counts_def)
    then show ?thesis using recent L by linarith
  qed
  moreover have "window_bounded W (2 * L - 1) H" "\<forall>t \<in> set H. t \<le> now" using ok by (simp_all add: counts_def)
  ultimately have "window_bounded W (2 * L - 1) (H @ [now])" by (intro window_bounded_add)
  moreover have "hits (\<lambda>t. now < t) H = 0" using ok by (intro hits_none) (auto simp: counts_def)
  moreover have "hits (\<lambda>t. now - W < t \<and> t < now) H \<le> L - 1"
    using recent hits_mono [of H "\<lambda>t. now - W < t \<and> t < now" "\<lambda>t. now - W < t \<and> t \<le> now"] by force
  ultimately show ?thesis
    using ok L W none by (force simp: counts_def hits_snoc)
qed

lemma counts_step:
  assumes ok: "counts L W (store k) H now" and L: "0 < L" and W: "0 < W"
    and chk: "checkSlidingWindow now key (Some L) W store = (r, store')"
  shows "counts L W (store' k) (H @ (if key = k \<and> r = Allowed then [now] else [])) now"
proof (cases "key = k")
  case False
  then show ?thesis using ok chk by (auto simp: checkSlidingWindow_def Let_def split: if_splits)
next
  case True
  show ?thesis
  proof (cases "case store k of None \<Rightarrow> True | Some c \<Rightarrow> W \<le> now - sl_start c")
    case fresh: True
    then have "r = Allowed \<and> store' k = Some \<lparr>sl_count = 1, sl_start = now\<rparr>"
      using chk \<open>key = k\<close> L by (auto simp: checkSlidingWindow_def Let_def reaches_def split: option.splits)
    then show ?thesis using counts_new [OF ok L W fresh] True by simp
  next
    case False
    then obtain c where c: "store k = Some c" "now - sl_start c < W" by (auto split: option.splits)
    then show ?thesis
      using chk \<open>key = k\<close> ok counts_same [of L W c H now]
      by (auto simp: checkSlidingWindow_def Let_def reaches_def split: if_splits)
  qed
qed

lemma window_times_counts:
  assumes "counts L W (store k) H t0" and "0 < L" and "0 < W" and "sorted (t0 # map snd calls)"
  shows "window_bounded W (2 * L - 1) (H @ window_times k (Some L) W store calls)"
  using assms(1,4)
proof (induction calls arbitrary: store H t0)
  case Nil
  then show ?case by (simp add: counts_def)
next
  case (Cons call calls)
  obtain key now where call: "call = (key, now)" by (cases call)
  obtain r store' where chk: "checkSlidingWindow now key (Some L) W store = (r, store')"
    by (cases "checkSlidingWindow now key (Some L) W store")
  have "counts L W (store k) H now" using counts_later [OF Cons.prems(1)] Cons.prems(2) by (simp add: call)
  from counts_step [OF this assms(2,3) chk]
  have "window_bounded W (2 * L - 1)
      ((H @ (if key = k \<and> r = Allowed then [now] else [])) @ window_times k (Some L) W store' calls)"
    by (rule Cons.IH) (use Cons.prems(2) in \<open>simp add: call\<close>)
  then show ?case by (simp add: call chk)
qed

text \<open>
  C40. A limit of \<open>L\<close> calls per window lets at most \<open>2 L - 1\<close> calls of a key through in any span of one
  window's length, whatever calls come for this and other keys.
\<close>

theorem window_lets_through:
  assumes "0 < L" and "0 < W" and "sorted (map snd calls)"
  shows "window_bounded W (2 * L - 1) (window_times k (Some L) W (\<lambda>_. None) calls)"
proof (cases calls)
  case Nil
  then show ?thesis using assms(1) by (simp add: window_bounded_def)
next
  case (Cons call rest)
  have "counts L W None [] (snd call)" using assms(1) by (simp add: counts_def window_bounded_def)
  then show ?thesis
    using window_times_counts [of L W "\<lambda>_. None" k "[]" "snd call" calls] assms Cons by simp
qed

definition burst :: "(string \<times> millis) list" where
  "burst = [(''ann'', 0), (''ann'', 59999), (''ann'', 60000), (''ann'', 60000), (''ann'', 60000)]"

theorem window_lets_through_witness:
  "window_times ''ann'' (Some 2) 60000 (\<lambda>_. None) burst = [0, 59999, 60000, 60000] \<and>
   window_bounded 60000 3 (window_times ''ann'' (Some 2) 60000 (\<lambda>_. None) burst)"
proof
  show "window_times ''ann'' (Some 2) 60000 (\<lambda>_. None) burst = [0, 59999, 60000, 60000]"
    by (simp add: burst_def checkSlidingWindow_def Let_def reaches_def)
  show "window_bounded 60000 3 (window_times ''ann'' (Some 2) 60000 (\<lambda>_. None) burst)"
    using window_lets_through [of 2 60000 burst "''ann''"] by (simp add: burst_def)
qed

text \<open>The bound is reached: with a limit of two per minute, three calls pass within one millisecond.\<close>

lemma window_is_not_sliding: "\<not> window_bounded 60000 2 (window_times ''ann'' (Some 2) 60000 (\<lambda>_. None) burst)"
proof -
  have "window_times ''ann'' (Some 2) 60000 (\<lambda>_. None) burst = [0, 59999, 60000, 60000]"
    by (simp add: burst_def checkSlidingWindow_def Let_def reaches_def)
  then show ?thesis by (auto simp: window_bounded_def intro!: exI [of _ 60000])
qed

text \<open>A limit that is no number lets everything through.\<close>

lemma no_number_no_limit: "fst (checkSlidingWindow now key (envInt (Some ''none'') 5) W store) = Allowed"
proof -
  have "js_parseInt ''none'' = None" by code_simp
  then show ?thesis by (simp add: checkSlidingWindow_def envInt_def reaches_def Let_def)
qed

end
