(* ===== verification/ChatStreams.thy ===== *)
theory ChatStreams
  imports ChatLimits ChatMessages
begin

text \<open>
  The answer of an agent as a stream of chunks: \<open>src/api/chat/stream-manager.ts\<close> and the endpoint
  \<open>POST /chat/sessions/:id/stream\<close> of \<open>src/api/chat/routes.ts\<close>. The manager's maps are functions from
  sessions; a timer is the time it is due, and \<open>fire_timeouts\<close> is the event loop running what is due.
\<close>

subsection \<open>The manager\<close>

definition MAX_CHUNK_BYTES :: int where "MAX_CHUNK_BYTES = 4096"
definition MAX_TOTAL_BYTES :: int where "MAX_TOTAL_BYTES = 262144"
definition MAX_CHUNKS_PER_SEC :: nat where "MAX_CHUNKS_PER_SEC = 100"
definition STREAM_TIMEOUT_MS :: millis where "STREAM_TIMEOUT_MS = 60000"
definition TERMINATED_TTL_MS :: millis where "TERMINATED_TTL_MS = 300000"

datatype StreamState = Stream_started | Stream_streaming | Stream_completed | Stream_failed | Stream_aborted

record StreamSession =
  ss_state :: StreamState
  ss_message :: string
  ss_run :: "string option"
  ss_seq :: int
  ss_bytes :: int
  ss_chunks :: nat
  ss_last :: millis
  ss_times :: "millis list"
  ss_timer :: "millis option"

record StreamManager =
  sm_streams :: "string \<Rightarrow> StreamSession option"
  sm_terminated :: "string \<Rightarrow> (StreamState \<times> millis) option"

datatype StreamResult = Stream_ok "string option" | Stream_error nat string

record StreamChunkPayload =
  ck_content :: string
  ck_seq :: int
  ck_message :: "string option"
  ck_run :: "string option"

definition new_stream :: "millis \<Rightarrow> string \<Rightarrow> StreamChunkPayload \<Rightarrow> StreamSession" where
  "new_stream now fresh payload =
     \<lparr>ss_state = Stream_started, ss_message = (case ck_message payload of Some m \<Rightarrow> m | None \<Rightarrow> fresh),
      ss_run = ck_run payload, ss_seq = - 1, ss_bytes = 0, ss_chunks = 0, ss_last = now, ss_times = [],
      ss_timer = None\<rparr>"

definition handleChunk ::
    "millis \<Rightarrow> string \<Rightarrow> string \<Rightarrow> StreamChunkPayload \<Rightarrow> StreamManager \<Rightarrow> StreamResult \<times> StreamManager" where
  "handleChunk now fresh sid payload m =
     (let stream = (case sm_streams m sid of Some s \<Rightarrow> s | None \<Rightarrow> new_stream now fresh payload);
          put = (\<lambda>s. m\<lparr>sm_streams := (sm_streams m)(sid \<mapsto> s)\<rparr>);
          bytes = int (length (ck_content payload));
          recent = filter (\<lambda>t. now - t < 1000) (ss_times stream)
      in if ss_state stream \<noteq> Stream_started \<and> ss_state stream \<noteq> Stream_streaming
         then (Stream_error 409 ''Stream is closed'', put stream)
         else if ck_seq payload \<le> ss_seq stream then (Stream_error 400 ''Sequence is not greater'', put stream)
         else if MAX_CHUNK_BYTES < bytes then (Stream_error 400 ''Chunk exceeds 4KB limit'', put stream)
         else if MAX_TOTAL_BYTES < ss_bytes stream + bytes
         then (Stream_error 400 ''Total stream size exceeds 256KB limit'', put stream)
         else if MAX_CHUNKS_PER_SEC \<le> length recent
         then (Stream_error 429 ''Chunk rate limit exceeded (100/sec)'', put (stream\<lparr>ss_times := recent\<rparr>))
         else (Stream_ok (Some (ss_message stream)),
               put (stream\<lparr>ss_state := Stream_streaming, ss_seq := ck_seq payload, ss_bytes := ss_bytes stream + bytes,
                           ss_chunks := ss_chunks stream + 1, ss_last := now, ss_times := recent @ [now],
                           ss_timer := Some (now + STREAM_TIMEOUT_MS)\<rparr>)))"

definition closed_state :: "StreamState \<Rightarrow> bool" where
  "closed_state s \<longleftrightarrow> s = Stream_completed \<or> s = Stream_failed \<or> s = Stream_aborted"

definition recently_terminated :: "millis \<Rightarrow> string \<Rightarrow> StreamManager \<Rightarrow> bool" where
  "recently_terminated now sid m =
     (case sm_terminated m sid of Some (_, time) \<Rightarrow> now - time < TERMINATED_TTL_MS | None \<Rightarrow> False)"

definition handleCompleted ::
    "millis \<Rightarrow> string \<Rightarrow> string \<Rightarrow> string option \<Rightarrow> StreamManager \<Rightarrow> StreamResult \<times> StreamManager" where
  "handleCompleted now fresh sid messageId m =
     (case sm_streams m sid of
        None \<Rightarrow>
          if recently_terminated now sid m then (Stream_error 409 ''Stream already closed'', m)
          else (Stream_ok (Some (case messageId of Some i \<Rightarrow> i | None \<Rightarrow> fresh)), m)
      | Some s \<Rightarrow>
          if closed_state (ss_state s) then (Stream_error 409 ''Stream already closed'', m)
          else (Stream_ok (Some (ss_message s)), m\<lparr>sm_streams := (sm_streams m)(sid := None)\<rparr>))"

definition handleFailed ::
    "millis \<Rightarrow> string \<Rightarrow> string option \<Rightarrow> StreamManager \<Rightarrow> StreamResult \<times> StreamManager" where
  "handleFailed now sid messageId m =
     (case sm_streams m sid of
        None \<Rightarrow>
          if recently_terminated now sid m then (Stream_error 409 ''Stream already closed'', m)
          else (Stream_ok messageId, m)
      | Some s \<Rightarrow>
          if closed_state (ss_state s) then (Stream_error 409 ''Stream already closed'', m)
          else (Stream_ok (Some (ss_message s)),
                m\<lparr>sm_streams := (sm_streams m)(sid := None),
                  sm_terminated := (sm_terminated m)(sid \<mapsto> (Stream_failed, now))\<rparr>))"

definition timer_due :: "millis \<Rightarrow> string \<Rightarrow> StreamManager \<Rightarrow> bool" where
  "timer_due now sid m =
     (case sm_streams m sid of
        Some s \<Rightarrow> (case ss_timer s of Some d \<Rightarrow> d \<le> now | None \<Rightarrow> False) | None \<Rightarrow> False)"

definition fire_timeouts :: "millis \<Rightarrow> StreamManager \<Rightarrow> StreamManager" where
  "fire_timeouts now m =
     m\<lparr>sm_streams := (\<lambda>sid. if timer_due now sid m then None else sm_streams m sid),
       sm_terminated := (\<lambda>sid. if timer_due now sid m then Some (Stream_aborted, now) else sm_terminated m sid)\<rparr>"

definition pruneTerminated :: "millis \<Rightarrow> StreamManager \<Rightarrow> StreamManager" where
  "pruneTerminated now m =
     m\<lparr>sm_terminated := (\<lambda>sid. case sm_terminated m sid of
         Some (s, time) \<Rightarrow> if now - time \<ge> TERMINATED_TTL_MS then None else Some (s, time) | None \<Rightarrow> None)\<rparr>"

definition getActiveStream :: "string \<Rightarrow> StreamManager \<Rightarrow> (string \<times> StreamState \<times> nat) option" where
  "getActiveStream sid m = map_option (\<lambda>s. (ss_message s, ss_state s, ss_chunks s)) (sm_streams m sid)"

definition shutdown_streams :: "StreamManager \<Rightarrow> StreamManager" where
  "shutdown_streams m = m\<lparr>sm_streams := (\<lambda>_. None), sm_terminated := (\<lambda>_. None)\<rparr>"

subsection \<open>The endpoint\<close>

datatype stream_body =
  Chunk_body "string option" "int option" "string option" "string option"
| Completed_body "string option" "string option" "string option" "string option"
| Failed_body "string option"
| Unknown_body

record stream_server =
  sv_manager :: StreamManager
  sv_limits :: chat_limit_store
  sv_chat :: chat_db

record stream_request =
  st_authorized :: bool
  st_session :: string
  st_secret :: "string option"
  st_agent :: "string option"
  st_body :: "stream_body option"

text \<open>The generated identifiers: of a stream and of the stored message.\<close>

definition post_chunk ::
    "chat_limit_config \<Rightarrow> clock \<Rightarrow> string \<Rightarrow> string \<Rightarrow> string option \<Rightarrow> int option \<Rightarrow> string option \<Rightarrow> string option \<Rightarrow>
       stream_server \<Rightarrow> StreamResult \<times> stream_server" where
  "post_chunk cfg clk fresh sid content sequence messageId run sv =
     (case content of
        None \<Rightarrow> (Stream_error 400 ''content is required for chunk type'', sv)
      | Some text \<Rightarrow>
          (case sequence of
             None \<Rightarrow> (Stream_error 400 ''seq must be a non-negative integer'', sv)
           | Some n \<Rightarrow>
               if n < 0 then (Stream_error 400 ''seq must be a non-negative integer'', sv)
               else if 4096 < length text then (Stream_error 400 ''Chunk exceeds 4KB limit'', sv)
               else
                 (let (r, limits) = checkStreamChunk cfg (js_now clk) sid (int (length text)) (sv_limits sv)
                  in if r \<noteq> Allowed
                     then (Stream_error 429 ''Rate limit: stream chunk limit exceeded'', sv\<lparr>sv_limits := limits\<rparr>)
                     else
                       (let (res, m) = handleChunk (js_now clk) fresh sid
                              \<lparr>ck_content = text, ck_seq = n, ck_message = messageId, ck_run = run\<rparr> (sv_manager sv)
                        in (res, sv\<lparr>sv_limits := limits, sv_manager := m\<rparr>)))))"

definition post_completed ::
    "clock \<Rightarrow> string \<Rightarrow> uuid \<Rightarrow> chat_session_row \<Rightarrow> string option \<Rightarrow> string option \<Rightarrow> string option \<Rightarrow> string option \<Rightarrow>
       stream_server \<Rightarrow> StreamResult \<times> stream_server" where
  "post_completed clk fresh mid s content messageId run contentType sv =
     (case content of
        None \<Rightarrow> (Stream_error 400 ''content is required for completed type'', sv)
      | Some text \<Rightarrow>
          if 262144 < length text then (Stream_error 400 ''Content exceeds 256KB limit'', sv)
          else
            (let ct = (case contentType of Some t \<Rightarrow> t | None \<Rightarrow> ''text/plain'')
             in if \<not> List.member VALID_CONTENT_TYPES ct then (Stream_error 400 ''Invalid content_type'', sv)
                else (case handleCompleted (js_now clk) fresh (cs_id s) messageId (sv_manager sv) of
                    (Stream_error status e, m) \<Rightarrow> (Stream_error status e, sv\<lparr>sv_manager := m\<rparr>)
                  | (Stream_ok _, m) \<Rightarrow>
                      (case store_answer clk s (agent_message clk s mid text run ct) (sv_chat sv) of
                         None \<Rightarrow> (Stream_error 500 [], sv\<lparr>sv_manager := m\<rparr>)
                       | Some db \<Rightarrow>
                           (Stream_ok (Some mid),
                            sv\<lparr>sv_manager := m, sv_limits := clearStreamState (cs_id s) (sv_limits sv),
                               sv_chat := recordChatActivity (activity_of clk (cs_namespace s) (Some (cs_id s))
                                 (Some (cs_user s)) (Some (cs_agent s)) ''stream_completed'') db\<rparr>)))))"

definition post_failed ::
    "clock \<Rightarrow> chat_session_row \<Rightarrow> string option \<Rightarrow> stream_server \<Rightarrow> StreamResult \<times> stream_server" where
  "post_failed clk s messageId sv =
     (case handleFailed (js_now clk) (cs_id s) messageId (sv_manager sv) of
        (Stream_error status e, m) \<Rightarrow> (Stream_error status e, sv\<lparr>sv_manager := m\<rparr>)
      | (Stream_ok res, m) \<Rightarrow>
          (let db = (case nonempty_text res of Some i \<Rightarrow> mark_failed i (sv_chat sv) | None \<Rightarrow> sv_chat sv)
           in (Stream_ok None,
               sv\<lparr>sv_manager := m, sv_limits := clearStreamState (cs_id s) (sv_limits sv),
                  sv_chat := recordChatActivity (activity_of clk (cs_namespace s) (Some (cs_id s))
                    (Some (cs_user s)) (Some (cs_agent s)) ''stream_failed'') db\<rparr>)))"

definition post_stream ::
    "chat_limit_config \<Rightarrow> clock \<Rightarrow> string \<Rightarrow> uuid \<Rightarrow> stream_request \<Rightarrow> stream_server \<Rightarrow> StreamResult \<times> stream_server" where
  "post_stream cfg clk fresh mid req sv =
     (if \<not> valid_uuid (st_session req) then (Stream_error 400 ''Invalid session ID format'', sv)
      else if \<not> st_authorized req then (Stream_error 401 ''M2M authentication required'', sv)
      else case nonempty_text (st_secret req) of
        None \<Rightarrow> (Stream_error 401 ''X-Stream-Secret header required'', sv)
      | Some secret \<Rightarrow>
          (case by_key cs_id (st_session req) (ch_sessions (sv_chat sv)) of
             None \<Rightarrow> (Stream_error 404 ''Session not found'', sv)
           | Some s \<Rightarrow>
               if cs_secret s \<noteq> secret then (Stream_error 403 ''Invalid stream secret'', sv)
               else if cs_status s \<noteq> Session_active then (Stream_error 409 ''Session is closed'', sv)
               else if (case nonempty_text (st_agent req) of Some a \<Rightarrow> a \<noteq> cs_agent s | None \<Rightarrow> False)
               then (Stream_error 403 ''Agent ID mismatch'', sv)
               else (case st_body req of
                   None \<Rightarrow> (Stream_error 400 ''Request body with type field is required'', sv)
                 | Some (Chunk_body content sequence messageId run) \<Rightarrow>
                     post_chunk cfg clk fresh (cs_id s) content sequence messageId run sv
                 | Some (Completed_body content messageId run contentType) \<Rightarrow>
                     post_completed clk fresh mid s content messageId run contentType sv
                 | Some (Failed_body messageId) \<Rightarrow> post_failed clk s messageId sv
                 | Some Unknown_body \<Rightarrow> (Stream_error 400 ''Unknown stream type'', sv))))"


subsection \<open>Runs\<close>

text \<open>The chunks a session's stream has accepted: sequence number, bytes and time.\<close>

type_synonym chunk_log = "(int \<times> int \<times> millis) list"

definition log_chunk ::
    "StreamResult \<Rightarrow> millis \<Rightarrow> string \<Rightarrow> StreamChunkPayload \<Rightarrow> StreamManager \<Rightarrow> (string \<Rightarrow> chunk_log) \<Rightarrow> string \<Rightarrow> chunk_log" where
  "log_chunk res now sid payload m h =
     (case res of
        Stream_error status e \<Rightarrow> h
      | Stream_ok _ \<Rightarrow> h(sid := (if sm_streams m sid = None then [] else h sid) @
          [(ck_seq payload, int (length (ck_content payload)), now)]))"

text \<open>The events as the endpoint lets them happen, at times that do not go back.\<close>

inductive stream_step ::
    "millis \<times> StreamManager \<times> (string \<Rightarrow> chunk_log) \<Rightarrow> millis \<times> StreamManager \<times> (string \<Rightarrow> chunk_log) \<Rightarrow> bool" where
  chunk: "t \<le> now \<Longrightarrow> 0 \<le> ck_seq payload \<Longrightarrow> length (ck_content payload) \<le> 4096 \<Longrightarrow>
    handleChunk now fresh sid payload m = (res, m') \<Longrightarrow>
    stream_step (t, m, h) (now, m', log_chunk res now sid payload m h)"
| complete: "t \<le> now \<Longrightarrow> handleCompleted now fresh sid messageId m = (res, m') \<Longrightarrow> stream_step (t, m, h) (now, m', h)"
| fail: "t \<le> now \<Longrightarrow> handleFailed now sid messageId m = (res, m') \<Longrightarrow> stream_step (t, m, h) (now, m', h)"
| timeout: "t \<le> now \<Longrightarrow> stream_step (t, m, h) (now, fire_timeouts now m, h)"
| prune: "t \<le> now \<Longrightarrow> stream_step (t, m, h) (now, pruneTerminated now m, h)"

definition no_streams :: StreamManager where
  "no_streams = \<lparr>sm_streams = (\<lambda>_. None), sm_terminated = (\<lambda>_. None)\<rparr>"

text \<open>The endpoint hands a chunk to the manager only as the step says.\<close>

lemma post_chunk_checked:
  assumes "post_chunk cfg clk fresh sid content sequence messageId run sv = (res, sv')"
  shows "sv_manager sv' = sv_manager sv \<or>
    (\<exists>payload. 0 \<le> ck_seq payload \<and> length (ck_content payload) \<le> 4096 \<and>
       handleChunk (js_now clk) fresh sid payload (sv_manager sv) = (res, sv_manager sv'))"
  using assms
  by (auto simp: post_chunk_def Let_def split: option.splits if_splits prod.splits)

definition chunks_ok :: "chunk_log \<Rightarrow> bool" where
  "chunks_ok h \<longleftrightarrow> sorted_wrt (<) (map fst h) \<and> (\<forall>(n, b, t) \<in> set h. b \<le> 4096) \<and>
     sum_list (map (\<lambda>(n, b, t). b) h) \<le> 262144 \<and> window_bounded 1000 100 (map (\<lambda>(n, b, t). t) h)"

definition stream_ok :: "millis \<Rightarrow> StreamSession \<Rightarrow> chunk_log \<Rightarrow> bool" where
  "stream_ok now s h \<longleftrightarrow> ss_state s = Stream_streaming \<and> ss_timer s = Some (ss_last s + 60000) \<and>
     chunks_ok h \<and> (\<forall>(n, b, t) \<in> set h. n \<le> ss_seq s \<and> t \<le> now) \<and>
     ss_bytes s = sum_list (map (\<lambda>(n, b, t). b) h) \<and> h \<noteq> [] \<and> ss_last s = snd (snd (last h)) \<and>
     filter (\<lambda>t. now - 1000 < t) (ss_times s) = filter (\<lambda>t. now - 1000 < t) (map (\<lambda>(n, b, t). t) h)"

lemma stream_ok_later: "stream_ok t s h \<Longrightarrow> t \<le> now \<Longrightarrow> stream_ok now s h"
  unfolding stream_ok_def using filter_later [of "t - 1000" "ss_times s" _ "now - 1000"] by fastforce

lemma chunk_accepted:
  assumes ok: "chunks_ok h" and log: "\<forall>(n, b, t) \<in> set h. n \<le> ss_seq s \<and> t \<le> now"
    and bytes: "ss_bytes s = sum_list (map (\<lambda>(n, b, t). b) h)"
    and times: "filter (\<lambda>t. now - 1000 < t) (ss_times s) = filter (\<lambda>t. now - 1000 < t) (map (\<lambda>(n, b, t). t) h)"
    and chunk: "ss_seq s < n" "0 \<le> b" "b \<le> 4096" "ss_bytes s + b \<le> 262144"
      "length (filter (\<lambda>t. now - 1000 < t) (ss_times s)) < 100"
  shows "stream_ok now (s\<lparr>ss_state := Stream_streaming, ss_seq := n, ss_bytes := ss_bytes s + b, ss_chunks := k,
      ss_last := now, ss_times := filter (\<lambda>t. now - 1000 < t) (ss_times s) @ [now], ss_timer := Some (now + 60000)\<rparr>)
    (h @ [(n, b, now)])"
proof -
  have "window_bounded 1000 100 (map (\<lambda>(n, b, t). t) h @ [now])"
  proof (rule window_bounded_snoc)
    show "window_bounded 1000 100 (map (\<lambda>(n, b, t). t) h)" using ok by (simp add: chunks_ok_def)
    show "\<forall>t \<in> set (map (\<lambda>(n, b, t). t) h). t \<le> now" using log by auto
    show "int (length (filter (\<lambda>t. now - 1000 < t) (map (\<lambda>(n, b, t). t) h))) < 100"
      using chunk(5) unfolding times by simp
  qed
  moreover have "sorted_wrt (<) (map fst h @ [n])"
    using ok log chunk(1) by (fastforce simp: chunks_ok_def sorted_wrt_append)
  moreover have "\<forall>(n', b, t) \<in> set h. n' \<le> n" using log chunk(1) by fastforce
  ultimately show ?thesis
    using ok log bytes times chunk by (fastforce simp: stream_ok_def chunks_ok_def)
qed

definition streams_ok :: "millis \<times> StreamManager \<times> (string \<Rightarrow> chunk_log) \<Rightarrow> bool" where
  "streams_ok st \<longleftrightarrow> (case st of (t, m, h) \<Rightarrow> \<forall>sid s. sm_streams m sid = Some s \<longrightarrow> stream_ok t s (h sid))"

lemma recent_filter: "(\<lambda>t. now - t < 1000) = (\<lambda>t. now - 1000 < (t :: millis))"
  by (auto simp: fun_eq_iff)

lemma handleChunk_cases:
  assumes chk: "handleChunk now fresh sid payload m = (res, m')"
    and s: "s = (case sm_streams m sid of Some s \<Rightarrow> s | None \<Rightarrow> new_stream now fresh payload)"
    and is_open: "ss_state s = Stream_started \<or> ss_state s = Stream_streaming"
  shows "(\<exists>status e. res = Stream_error status e \<and>
        (sm_streams m' = (sm_streams m)(sid \<mapsto> s) \<or>
         sm_streams m' = (sm_streams m)(sid \<mapsto> s\<lparr>ss_times := filter (\<lambda>t. now - 1000 < t) (ss_times s)\<rparr>)) \<and>
        (ck_seq payload \<le> ss_seq s \<or> 4096 < int (length (ck_content payload)) \<or>
         262144 < ss_bytes s + int (length (ck_content payload)) \<or>
         100 \<le> length (filter (\<lambda>t. now - 1000 < t) (ss_times s)))) \<or>
    (\<exists>i. res = Stream_ok (Some i) \<and> ss_seq s < ck_seq payload \<and> int (length (ck_content payload)) \<le> 4096 \<and>
       ss_bytes s + int (length (ck_content payload)) \<le> 262144 \<and>
       length (filter (\<lambda>t. now - 1000 < t) (ss_times s)) < 100 \<and>
       sm_streams m' = (sm_streams m)(sid \<mapsto> s\<lparr>ss_state := Stream_streaming, ss_seq := ck_seq payload,
         ss_bytes := ss_bytes s + int (length (ck_content payload)), ss_chunks := ss_chunks s + 1, ss_last := now,
         ss_times := filter (\<lambda>t. now - 1000 < t) (ss_times s) @ [now], ss_timer := Some (now + 60000)\<rparr>))"
proof -
  note limits = MAX_CHUNK_BYTES_def MAX_TOTAL_BYTES_def MAX_CHUNKS_PER_SEC_def STREAM_TIMEOUT_MS_def
  show ?thesis
    using chk is_open
    unfolding handleChunk_def Let_def s [symmetric] recent_filter limits
    by (auto split: if_splits)
qed

lemma streams_ok_chunk:
  assumes ok: "streams_ok (t, m, h)" and t: "t \<le> now" and p: "0 \<le> ck_seq payload" "length (ck_content payload) \<le> 4096"
    and chk: "handleChunk now fresh sid payload m = (res, m')"
  shows "streams_ok (now, m', log_chunk res now sid payload m h)"
proof -
  let ?b = "int (length (ck_content payload))"
  define s where "s = (case sm_streams m sid of Some s \<Rightarrow> s | None \<Rightarrow> new_stream now fresh payload)"
  define hs where "hs = (if sm_streams m sid = None then [] else h sid)"
  have others: "stream_ok now q (h k)" if "sm_streams m k = Some q" for k q
    using ok that stream_ok_later [OF _ t] by (simp add: streams_ok_def)
  have is_open: "ss_state s = Stream_started \<or> ss_state s = Stream_streaming"
    and log: "\<forall>(n, b, t) \<in> set hs. n \<le> ss_seq s \<and> t \<le> now"
    and bytes: "ss_bytes s = sum_list (map (\<lambda>(n, b, t). b) hs)" and good: "chunks_ok hs"
    and times: "filter (\<lambda>t. now - 1000 < t) (ss_times s) = filter (\<lambda>t. now - 1000 < t) (map (\<lambda>(n, b, t). t) hs)"
    using others [of sid]
    by (auto simp: s_def hs_def stream_ok_def new_stream_def chunks_ok_def window_bounded_def split: option.splits)
  from handleChunk_cases [OF chk s_def is_open] show ?thesis
  proof (elim disjE exE conjE, goal_cases)
    case (9 i)
    then show ?case
      using others chunk_accepted [OF good log bytes times, of "ck_seq payload" ?b "ss_chunks s + 1"]
      by (auto simp: streams_ok_def log_chunk_def hs_def)
  qed (use others p in \<open>auto simp: streams_ok_def log_chunk_def s_def new_stream_def stream_ok_def split: option.splits\<close>)
qed

lemma streams_ok_fewer:
  assumes "streams_ok (t, m, h)" and "t \<le> now"
    and "\<And>sid s. sm_streams m' sid = Some s \<Longrightarrow> sm_streams m sid = Some s"
  shows "streams_ok (now, m', h)"
  using assms stream_ok_later unfolding streams_ok_def by fast

lemma stream_step_ok: "stream_step st st' \<Longrightarrow> streams_ok st \<Longrightarrow> streams_ok st'"
proof (induction rule: stream_step.induct)
  case chunk
  then show ?case using streams_ok_chunk by simp
next
  case complete
  then show ?case
    by (elim streams_ok_fewer) (auto simp: handleCompleted_def split: option.splits if_splits)
next
  case fail
  then show ?case
    by (elim streams_ok_fewer) (auto simp: handleFailed_def split: option.splits if_splits)
next
  case timeout
  then show ?case by (elim streams_ok_fewer) (auto simp: fire_timeouts_def split: if_splits)
next
  case prune
  then show ?case by (elim streams_ok_fewer) (auto simp: pruneTerminated_def)
qed

lemma streams_reachable_ok: "stream_step\<^sup>*\<^sup>* (0, no_streams, h) st \<Longrightarrow> streams_ok st"
proof (induction rule: rtranclp_induct)
  case base
  show ?case by (simp add: streams_ok_def no_streams_def)
qed (simp add: stream_step_ok)


text \<open>
  C35. No stream stays open without chunks: every stream the endpoint has opened has its watchdog set,
  60 seconds after its last chunk; the event loop that runs then ends the stream as aborted, and not
  before.
\<close>

theorem silent_stream_aborted:
  assumes "stream_step\<^sup>*\<^sup>* (0, no_streams, (\<lambda>_. [])) (t, m, h)" and "sm_streams m sid = Some s"
  shows "h sid \<noteq> [] \<and> (\<forall>now. let m' = fire_timeouts now m; latest = snd (snd (last (h sid)))
    in if latest + STREAM_TIMEOUT_MS \<le> now
       then sm_streams m' sid = None \<and> sm_terminated m' sid = Some (Stream_aborted, now)
       else sm_streams m' sid = Some s)"
proof -
  have "stream_ok t s (h sid)" using streams_reachable_ok [OF assms(1)] assms(2) by (simp add: streams_ok_def)
  then show ?thesis
    using assms(2) by (auto simp: stream_ok_def fire_timeouts_def timer_due_def Let_def STREAM_TIMEOUT_MS_def)
qed

definition hello_chunk :: StreamChunkPayload where
  "hello_chunk = \<lparr>ck_content = ''hello'', ck_seq = 0, ck_message = None, ck_run = None\<rparr>"

definition hello_manager :: StreamManager where
  "hello_manager = snd (handleChunk 1000 ''m'' ''s'' hello_chunk no_streams)"

lemma hello_handled: "handleChunk 1000 ''m'' ''s'' hello_chunk no_streams = (Stream_ok (Some ''m''), hello_manager)"
  by (simp add: hello_manager_def handleChunk_def hello_chunk_def no_streams_def new_stream_def Let_def
      MAX_CHUNK_BYTES_def MAX_TOTAL_BYTES_def MAX_CHUNKS_PER_SEC_def)

lemma hello_run:
  "stream_step\<^sup>*\<^sup>* (0, no_streams, (\<lambda>_. [])) (1000, hello_manager, (\<lambda>_. [])(''s'' := [(0, 5, 1000)]))"
proof -
  have "stream_step (0, no_streams, (\<lambda>_. []))
      (1000, hello_manager, log_chunk (Stream_ok (Some ''m'')) 1000 ''s'' hello_chunk no_streams (\<lambda>_. []))"
    by (rule stream_step.chunk [OF _ _ _ hello_handled]) (simp_all add: hello_chunk_def)
  then show ?thesis by (simp add: log_chunk_def hello_chunk_def no_streams_def r_into_rtranclp)
qed

lemma hello_stream: "\<exists>s. sm_streams hello_manager ''s'' = Some s"
  by (simp add: hello_manager_def handleChunk_def hello_chunk_def no_streams_def new_stream_def Let_def
      MAX_CHUNK_BYTES_def MAX_TOTAL_BYTES_def MAX_CHUNKS_PER_SEC_def)


theorem silent_stream_aborted_witness:
  "sm_streams (fire_timeouts 61000 hello_manager) ''s'' = None \<and> sm_streams (fire_timeouts 60999 hello_manager) ''s'' \<noteq> None"
  using silent_stream_aborted [OF hello_run] hello_stream by (fastforce simp: STREAM_TIMEOUT_MS_def Let_def)

subsection \<open>What the manager does not stop\<close>

text \<open>A chunk that comes after the stream has failed or was aborted opens a new stream: the record of
  terminated sessions is only read when a stream is completed or failed.\<close>

lemma late_chunk_revives:
  assumes "sm_streams m sid = None" and "0 \<le> ck_seq payload" and "length (ck_content payload) \<le> 4096"
  shows "\<exists>i s. fst (handleChunk now fresh sid payload m) = Stream_ok (Some i) \<and>
    sm_streams (snd (handleChunk now fresh sid payload m)) sid = Some s \<and>
    fst (handleCompleted now fresh' sid i' (snd (handleChunk now fresh sid payload m))) = Stream_ok (Some i)"
  using assms
  by (auto simp: handleChunk_def new_stream_def Let_def MAX_CHUNK_BYTES_def MAX_TOTAL_BYTES_def MAX_CHUNKS_PER_SEC_def
      handleCompleted_def closed_state_def)

text \<open>A completion leaves no trace, so a second one is accepted as well.\<close>

lemma completed_again:
  assumes "handleCompleted now fresh sid i m = (Stream_ok r, m')"
    and "\<not> recently_terminated now' sid m"
  shows "\<exists>r'. handleCompleted now' fresh' sid i m' = (Stream_ok r', m')"
  using assms by (auto simp: handleCompleted_def recently_terminated_def split: option.splits if_splits)

text \<open>The watchdog does not give back the bytes of the session's limit.\<close>

lemma timeout_keeps_bytes:
  assumes "ls_streams st sid = Some r" and "cl_bytes cfg = Some most" and "most < sr_bytes r + bytes"
  shows "fst (checkStreamChunk cfg now sid bytes st) \<noteq> Allowed"
  using assms by (auto simp: checkStreamChunk_def Let_def)

end
