(* ===== verification/ChatEscalation.thy ===== *)
theory ChatEscalation
  imports ChatStreams
begin

text \<open>
  How an agent reaches a user: \<open>src/api/chat/notification-escalation.ts\<close>, \<open>src/api/chat/tools.ts\<close> and
  the two endpoints for agents in \<open>src/api/chat/routes.ts\<close>. What \<open>Intl.DateTimeFormat\<close> writes for the
  hour and minute of a time zone is an argument (\<open>None\<close> when it throws); the hours and minutes of the
  preferences are read as whole numbers, anything else is \<open>NaN\<close>.
\<close>

subsection \<open>Channels\<close>

definition DEFAULT_ESCALATION :: "Urgency \<Rightarrow> EscalationChannel list" where
  "DEFAULT_ESCALATION u =
     (case u of Low_urgency \<Rightarrow> [In_app] | Normal_urgency \<Rightarrow> [In_app, Push] | High_urgency \<Rightarrow> [In_app, Push, Sms]
      | Urgent_urgency \<Rightarrow> [In_app, Push, Sms, Email])"

definition DEDUP_WINDOW_MS :: millis where "DEDUP_WINDOW_MS = 15 * 60 * 1000"

text \<open>\<open>RATE_LIMITS\<close>: \<open>sms_hour\<close>, \<open>email_hour\<close> and \<open>total_day\<close> as pairs of maximum and window.\<close>

definition channel_hour :: "nat \<times> millis" where "channel_hour = (5, 60 * 60 * 1000)"
definition total_day :: "nat \<times> millis" where "total_day = (10, 24 * 60 * 60 * 1000)"

definition js_Number :: "string \<Rightarrow> int option" where
  "js_Number s = (if js_trim s = [] then Some 0 else read_decimal s)"

definition minutes_of :: "string \<Rightarrow> int option" where
  "minutes_of s =
     (case map js_Number (js_split (CHR '':'') s) of
        Some h # Some m # rest \<Rightarrow> Some (h * 60 + m) | _ \<Rightarrow> None)"

definition nan_le :: "int option \<Rightarrow> int option \<Rightarrow> bool" where
  "nan_le a b = (case (a, b) of (Some x, Some y) \<Rightarrow> x \<le> y | _ \<Rightarrow> False)"

definition nan_less :: "int option \<Rightarrow> int option \<Rightarrow> bool" where
  "nan_less a b = (case (a, b) of (Some x, Some y) \<Rightarrow> x < y | _ \<Rightarrow> False)"

definition isInQuietHours :: "(string \<Rightarrow> (int \<times> int) option) \<Rightarrow> ChatNotificationPrefs \<Rightarrow> bool" where
  "isInQuietHours local prefs =
     (case cp_quiet_hours prefs of
        None \<Rightarrow> False
      | Some (start, finish, timezone) \<Rightarrow>
          if start = [] \<or> finish = [] \<or> timezone = [] then False
          else case local timezone of
            None \<Rightarrow> False
          | Some (hour, minute) \<Rightarrow>
              (let now = Some (hour * 60 + minute); s = minutes_of start; e = minutes_of finish
               in if nan_le s e then nan_le s now \<and> nan_less now e
                  else nan_le s now \<or> nan_less now e))"

definition resolveChannels :: "Urgency \<Rightarrow> ChatNotificationPrefs \<Rightarrow> bool \<Rightarrow> EscalationChannel list" where
  "resolveChannels urgency prefs quietHours =
     (let channels = (case map_of (cp_escalation prefs) urgency of
            Some cs \<Rightarrow> cs | None \<Rightarrow> DEFAULT_ESCALATION urgency)
      in if \<not> quietHours then channels
         else if urgency = Urgent_urgency then channels
         else filter (\<lambda>ch. ch = In_app) channels)"

subsection \<open>Deduplication and limits\<close>

text \<open>The insert reads a snapshot and adds its row if it saw no recent one there; alone, it sees the
  table itself. The check on the length of the key and the unique key of the table are errors.\<close>

definition dedup_seen :: "clock \<Rightarrow> string \<Rightarrow> string \<Rightarrow> notification_dedup_row list \<Rightarrow> bool" where
  "dedup_seen clk user reason rows =
     sql_exists (\<lambda>r. nd_user r = user \<and> nd_reason r = reason \<and> 1000 * (js_now clk - DEDUP_WINDOW_MS) < nd_at r) rows"

definition tryDedup ::
    "clock \<Rightarrow> string \<Rightarrow> string \<Rightarrow> uuid \<Rightarrow> notification_dedup_row list \<Rightarrow> notification_dedup_row list \<Rightarrow>
       (bool \<times> notification_dedup_row list) option" where
  "tryDedup clk user reason nid snapshot rows =
     (if dedup_seen clk user reason snapshot then Some (True, rows)
      else if 100 < length reason \<or>
        sql_exists (\<lambda>r. nd_user r = user \<and> nd_reason r = reason \<and> nd_at r = db_now clk) rows then None
      else Some (False, rows @ [\<lparr>nd_user = user, nd_reason = reason, nd_notification = Some nid, nd_at = db_now clk\<rparr>]))"

definition isRateLimited :: "clock \<Rightarrow> string \<Rightarrow> EscalationChannel \<Rightarrow> notification_rate_row list \<Rightarrow> bool" where
  "isRateLimited clk user channel rates \<longleftrightarrow>
     fst channel_hour \<le> sql_count (\<lambda>r. nr_user r = user \<and> nr_channel r = channel \<and>
       1000 * (js_now clk - snd channel_hour) < nr_at r) rates"

definition isTotalRateLimited :: "clock \<Rightarrow> string \<Rightarrow> notification_rate_row list \<Rightarrow> bool" where
  "isTotalRateLimited clk user rates \<longleftrightarrow>
     fst total_day \<le> sql_count (\<lambda>r. nr_user r = user \<and> 1000 * (js_now clk - snd total_day) < nr_at r) rates"

definition recordRate :: "clock \<Rightarrow> string \<Rightarrow> EscalationChannel \<Rightarrow> notification_rate_row list \<Rightarrow> notification_rate_row list" where
  "recordRate clk user channel rates = rates @ [\<lparr>nr_user = user, nr_channel = channel, nr_at = db_now clk\<rparr>]"

text \<open>The loop over the channels: what was delivered, what was limited, and the table.\<close>

fun dispatch_channels ::
    "clock \<Rightarrow> string \<Rightarrow> bool \<Rightarrow> EscalationChannel list \<Rightarrow> notification_rate_row list \<Rightarrow>
       EscalationChannel list \<times> EscalationChannel list \<times> notification_rate_row list" where
  "dispatch_channels clk user totalLimited [] rates = ([], [], rates)"
| "dispatch_channels clk user totalLimited (c # cs) rates =
     (if c = In_app then dispatch_channels clk user totalLimited cs rates
      else if totalLimited \<or> (c \<noteq> Push \<and> isRateLimited clk user c rates)
      then (let (sent, held, rates') = dispatch_channels clk user totalLimited cs rates in (sent, c # held, rates'))
      else (let (sent, held, rates') = dispatch_channels clk user totalLimited cs (recordRate clk user c rates)
            in (c # sent, held, rates')))"

subsection \<open>Escalation\<close>

text \<open>The urgency comes as a text; one that is none of the four has no default chain, and the loop over it
  throws.\<close>

definition urgency_of :: "string \<Rightarrow> Urgency option" where
  "urgency_of s =
     (if s = ''low'' then Some Low_urgency else if s = ''normal'' then Some Normal_urgency
      else if s = ''high'' then Some High_urgency else if s = ''urgent'' then Some Urgent_urgency else None)"

record EscalateRequest =
  er_user :: string
  er_message :: string
  er_urgency :: "Urgency option"
  er_reason :: string
  er_title :: "string option"
  er_namespace :: "string option"

datatype EscalateResult = Escalated uuid "EscalationChannel list" "EscalationChannel list" | Deduplicated | Escalation_threw

definition createNotification :: "uuid \<Rightarrow> EscalateRequest \<Rightarrow> notification_row list \<Rightarrow> notification_row list" where
  "createNotification nid req rows =
     rows @ [\<lparr>no_id = nid, no_user = er_user req,
        no_title = (case er_title req of Some t \<Rightarrow> t | None \<Rightarrow> ''Agent notification''),
        no_message = er_message req,
        no_namespace = (case er_namespace req of Some n \<Rightarrow> n | None \<Rightarrow> ''default'')\<rparr>]"

definition escalateNotification ::
    "(string \<Rightarrow> (int \<times> int) option) \<Rightarrow> clock \<Rightarrow> uuid \<Rightarrow> EscalateRequest \<Rightarrow> chat_db \<Rightarrow> EscalateResult \<times> chat_db" where
  "escalateNotification local clk nid req db =
     (let db1 = db\<lparr>ch_notifications := createNotification nid req (ch_notifications db)\<rparr>;
          user = er_user req
      in case tryDedup clk user (er_reason req) nid (ch_dedups db1) (ch_dedups db1) of
           None \<Rightarrow> (Escalation_threw, db1)
         | Some (True, _) \<Rightarrow>
             (Deduplicated, db1\<lparr>ch_notifications := filter (\<lambda>n. no_id n \<noteq> nid) (ch_notifications db1)\<rparr>)
         | Some (False, dedups) \<Rightarrow>
             (let prefs = (case by_key us_email user (ch_settings db1) of
                    Some u \<Rightarrow> us_prefs u | None \<Rightarrow> \<lparr>cp_quiet_hours = None, cp_escalation = []\<rparr>);
                  db2 = db1\<lparr>ch_dedups := dedups\<rparr>
              in case er_urgency req of
                   None \<Rightarrow> (Escalation_threw, db2)
                 | Some urgency \<Rightarrow>
                     (let channels = resolveChannels urgency prefs (isInQuietHours local prefs);
                          (sent, held, rates) = dispatch_channels clk user
                            (isTotalRateLimited clk user (ch_rates db1)) channels (ch_rates db1)
                      in (Escalated nid (In_app # sent) held, db2\<lparr>ch_rates := rates\<rparr>))))"

subsection \<open>The tools and their endpoints\<close>

datatype tool_result = Tool_failed string | Tool_done uuid | Tool_deduplicated | Tool_threw

definition chat_msg_reason :: "uuid \<Rightarrow> uuid \<Rightarrow> string" where
  "chat_msg_reason sid mid = ''chat_msg:'' @ sid @ '':'' @ mid"

definition executeChatSendMessage ::
    "(string \<Rightarrow> (int \<times> int) option) \<Rightarrow> clock \<Rightarrow> uuid \<Rightarrow> uuid \<Rightarrow> uuid \<Rightarrow> string \<Rightarrow> string option \<Rightarrow> string option \<Rightarrow>
       string \<Rightarrow> string \<Rightarrow> string \<Rightarrow> chat_db \<Rightarrow> tool_result \<times> chat_db" where
  "executeChatSendMessage local clk mid nid sid content contentType urgency agent user namespace db =
     (if MAX_MESSAGE_BYTES < length content then (Tool_failed ''Content exceeds 64KB limit'', db)
      else case find (\<lambda>s. cs_id s = sid \<and> cs_namespace s = namespace) (ch_sessions db) of
        None \<Rightarrow> (Tool_failed ''Session not found'', db)
      | Some s \<Rightarrow>
          if cs_status s \<noteq> Session_active then (Tool_failed ''Session is not active'', db)
          else if cs_agent s \<noteq> agent then (Tool_failed ''Agent does not own this session'', db)
          else
            (let m = (agent_message clk s mid content (Some agent)
                   (case contentType of Some t \<Rightarrow> t | None \<Rightarrow> ''text/markdown''))
             in case store_answer clk s m db of
                  None \<Rightarrow> (Tool_threw, db)
                | Some db1 \<Rightarrow>
                    (let u = (case urgency of Some u \<Rightarrow> u | None \<Rightarrow> ''normal'')
                     in if u = ''low'' then (Tool_done mid, db1)
                        else (Tool_done mid, snd (escalateNotification local clk nid
                               \<lparr>er_user = user, er_message = take 200 content, er_urgency = urgency_of u,
                                er_reason = chat_msg_reason sid mid, er_title = Some ''New agent message'',
                                er_namespace = Some namespace\<rparr> db1)))))"

definition executeChatAttractAttention ::
    "(string \<Rightarrow> (int \<times> int) option) \<Rightarrow> clock \<Rightarrow> uuid \<Rightarrow> string \<Rightarrow> Urgency \<Rightarrow> string \<Rightarrow> string \<Rightarrow> string \<Rightarrow> chat_db \<Rightarrow>
       tool_result \<times> chat_db" where
  "executeChatAttractAttention local clk nid message urgency reason user namespace db =
     (if 500 < length message then (Tool_failed ''Message exceeds 500 char limit'', db)
      else if 100 < length reason then (Tool_failed ''reason_key exceeds 100 char limit'', db)
      else case escalateNotification local clk nid
             \<lparr>er_user = user, er_message = message, er_urgency = Some urgency, er_reason = reason,
              er_title = Some ''Agent attention request'', er_namespace = Some namespace\<rparr> db of
        (Escalated i _ _, db1) \<Rightarrow> (Tool_done i, db1)
      | (Deduplicated, db1) \<Rightarrow> (Tool_deduplicated, db1)
      | (Escalation_threw, db1) \<Rightarrow> (Tool_threw, db1))"

record agent_message_request =
  am_secret :: "string option"
  am_content :: "string option"
  am_content_type :: "string option"
  am_urgency :: "string option"
  am_agent :: "string option"

definition post_agent_message ::
    "chat_limit_config \<Rightarrow> (string \<Rightarrow> (int \<times> int) option) \<Rightarrow> clock \<Rightarrow> uuid \<Rightarrow> uuid \<Rightarrow> string \<Rightarrow> agent_message_request \<Rightarrow>
       stream_server \<Rightarrow> uuid chat_reply \<times> stream_server" where
  "post_agent_message cfg local clk mid nid sid req sv =
     (if \<not> valid_uuid sid then (Chat_bad ''Invalid session ID'', sv)
      else case nonempty_text (am_secret req) of
        None \<Rightarrow> (Chat_unauthorized, sv)
      | Some secret \<Rightarrow>
          (case by_key cs_id sid (ch_sessions (sv_chat sv)) of
             None \<Rightarrow> (Chat_missing, sv)
           | Some s \<Rightarrow>
               if cs_secret s \<noteq> secret then (Chat_forbidden, sv)
               else if cs_status s \<noteq> Session_active then (Chat_conflict ''Session is not active'', sv)
               else case nonempty_text (am_content req) of
                 None \<Rightarrow> (Chat_bad ''content is required'', sv)
               | Some content \<Rightarrow>
                   (let (r, limits) = checkAgentMessageSend cfg (js_now clk) sid (sv_limits sv);
                        sv1 = sv\<lparr>sv_limits := limits\<rparr>;
                        agent = (case am_agent req of Some a \<Rightarrow> a | None \<Rightarrow> cs_agent s)
                    in if r \<noteq> Allowed then (Chat_limited, sv1)
                       else case executeChatSendMessage local clk mid nid sid content (am_content_type req)
                              (am_urgency req) agent (cs_user s) (cs_namespace s) (sv_chat sv1) of
                         (Tool_failed e, db) \<Rightarrow> (Chat_bad e, sv1\<lparr>sv_chat := db\<rparr>)
                       | (Tool_threw, db) \<Rightarrow> (Chat_failed, sv1\<lparr>sv_chat := db\<rparr>)
                       | (Tool_deduplicated, db) \<Rightarrow> (Chat_failed, sv1\<lparr>sv_chat := db\<rparr>)
                       | (Tool_done i, db) \<Rightarrow>
                           (Chat_done i, sv1\<lparr>sv_chat := recordChatActivity (activity_of clk (cs_namespace s) (Some sid)
                              (Some (cs_user s)) (Some agent) ''message_sent_agent'') db\<rparr>))))"

record agent_notification_request =
  an_user :: "string option"
  an_message :: "string option"
  an_urgency :: "string option"
  an_reason :: "string option"
  an_agent :: "string option"

text \<open>The namespace is the one the query for the user's grants finds, \<open>''default''\<close> without one.\<close>

definition post_notification ::
    "chat_limit_config \<Rightarrow> (string \<Rightarrow> (int \<times> int) option) \<Rightarrow> clock \<Rightarrow> uuid \<Rightarrow> string option \<Rightarrow> agent_notification_request \<Rightarrow>
       stream_server \<Rightarrow> tool_result chat_reply \<times> stream_server" where
  "post_notification cfg local clk nid granted req sv =
     (case (nonempty_text (an_user req), nonempty_text (an_message req), Option.bind (an_urgency req) urgency_of, nonempty_text (an_reason req)) of
        (None, _, _, _) \<Rightarrow> (Chat_bad ''user_email is required'', sv)
      | (Some _, None, _, _) \<Rightarrow> (Chat_bad ''message is required'', sv)
      | (Some _, Some _, None, _) \<Rightarrow> (Chat_bad ''urgency must be one of: low, normal, high, urgent'', sv)
      | (Some _, Some _, Some _, None) \<Rightarrow> (Chat_bad ''reason_key is required'', sv)
      | (Some user, Some message, Some urgency, Some reason) \<Rightarrow>
          (let (r, limits) = checkAttractAttention cfg (js_now clk) user (sv_limits sv);
               sv1 = sv\<lparr>sv_limits := limits\<rparr>;
               namespace = (case granted of Some n \<Rightarrow> n | None \<Rightarrow> ''default'');
               agent = (case an_agent req of Some a \<Rightarrow> a | None \<Rightarrow> ''unknown'')
           in if r \<noteq> Allowed then (Chat_limited, sv1)
              else case executeChatAttractAttention local clk nid message urgency reason user namespace (sv_chat sv1) of
                (Tool_failed e, db) \<Rightarrow> (Chat_bad e, sv1\<lparr>sv_chat := db\<rparr>)
              | (Tool_threw, db) \<Rightarrow> (Chat_failed, sv1\<lparr>sv_chat := db\<rparr>)
              | (Tool_deduplicated, db) \<Rightarrow> (Chat_done Tool_deduplicated, sv1\<lparr>sv_chat := db\<rparr>)
              | (Tool_done i, db) \<Rightarrow>
                  (Chat_done (Tool_done i),
                   sv1\<lparr>sv_limits := chargeAttractAttention user (sv_limits sv1),
                       sv_chat := recordChatActivity (activity_of clk namespace None (Some user) (Some agent)
                         ''notification_sent'') db\<rparr>)))"


subsection \<open>What the limits keep\<close>

definition rate_times :: "(notification_rate_row \<Rightarrow> bool) \<Rightarrow> notification_rate_row list \<Rightarrow> micros list" where
  "rate_times P rates = map nr_at (filter P rates)"

definition dedup_times :: "string \<Rightarrow> string \<Rightarrow> notification_dedup_row list \<Rightarrow> micros list" where
  "dedup_times user reason rows = map nd_at (filter (\<lambda>r. nd_user r = user \<and> nd_reason r = reason) rows)"

text \<open>The program and the database read one clock.\<close>

definition one_clock :: "clock \<Rightarrow> bool" where
  "one_clock clk \<longleftrightarrow> db_now clk = 1000 * js_now clk"

definition rates_ok :: "string \<Rightarrow> micros \<Rightarrow> nat \<Rightarrow> notification_rate_row list \<Rightarrow> bool" where
  "rates_ok u now k rates \<longleftrightarrow> (\<forall>r \<in> set rates. nr_at r \<le> now) \<and>
     window_bounded 3600000000 5 (rate_times (\<lambda>r. nr_user r = u \<and> nr_channel r = Sms) rates) \<and>
     window_bounded 3600000000 5 (rate_times (\<lambda>r. nr_user r = u \<and> nr_channel r = Email) rates) \<and>
     window_bounded 86400000000 12 (rate_times (\<lambda>r. nr_user r = u) rates) \<and>
     length (filter (\<lambda>t. now - 86400000000 < t) (rate_times (\<lambda>r. nr_user r = u) rates)) + k \<le> 12"

lemma recent_rates:
  "length (filter (\<lambda>t. a < t) (rate_times P rates)) = sql_count (\<lambda>r. P r \<and> a < nr_at r) rates"
  by (simp add: rate_times_def filter_map comp_def sql_count_def conj_commute)

lemma rate_times_record:
  "rate_times P (recordRate clk user c rates) =
    rate_times P rates @ (if P \<lparr>nr_user = user, nr_channel = c, nr_at = db_now clk\<rparr> then [db_now clk] else [])"
  by (simp add: rate_times_def recordRate_def)

lemma rates_ok_add:
  assumes ok: "rates_ok u now (Suc k) rates" and clk: "db_now clk = now" "one_clock clk"
    and c: "c \<noteq> Push \<Longrightarrow> \<not> isRateLimited clk user c rates"
  shows "rates_ok u now k (recordRate clk user c rates)"
proof (cases "user = u")
  case False
  then have "rate_times (\<lambda>r. nr_user r = u \<and> Q r) (recordRate clk user c rates) =
      rate_times (\<lambda>r. nr_user r = u \<and> Q r) rates" for Q
    by (simp add: rate_times_record)
  from this [of "\<lambda>r. nr_channel r = Sms"] this [of "\<lambda>r. nr_channel r = Email"] this [of "\<lambda>_. True"]
  show ?thesis using ok clk by (simp add: rates_ok_def) (simp add: recordRate_def)
next
  case True
  have past: "\<forall>t \<in> set (rate_times P rates). t \<le> now" for P
    using ok by (auto simp: rates_ok_def rate_times_def)
  have hour: "window_bounded 3600000000 5 (rate_times (\<lambda>r. nr_user r = u \<and> nr_channel r = d) (recordRate clk user c rates))"
    if d: "d = Sms \<or> d = Email" for d
  proof (cases "c = d")
    case True
    then have "\<not> isRateLimited clk u d rates" using c d \<open>user = u\<close> by auto
    moreover have "1000 * (js_now clk - 3600000) = now - 3600000000" using clk by (simp add: one_clock_def)
    ultimately have "length (filter (\<lambda>t. now - 3600000000 < t) (rate_times (\<lambda>r. nr_user r = u \<and> nr_channel r = d) rates)) < 5"
      unfolding recent_rates by (simp add: isRateLimited_def channel_hour_def conj_assoc del: right_diff_distrib_numeral)
    then show ?thesis
      using ok d True clk past \<open>user = u\<close>
      by (auto simp: rate_times_record rates_ok_def intro!: window_bounded_snoc)
  next
    case False
    then show ?thesis using ok d by (auto simp: rate_times_record rates_ok_def)
  qed
  have "window_bounded 86400000000 12 (rate_times (\<lambda>r. nr_user r = u) (recordRate clk user c rates))"
    using ok clk past True by (auto simp: rate_times_record rates_ok_def intro!: window_bounded_snoc)
  then show ?thesis
    using ok clk hour True by (auto simp: rates_ok_def rate_times_record) (auto simp: recordRate_def)
qed

lemma dispatch_limited: "dispatch_channels clk user True cs rates = (sent, held, rates') \<Longrightarrow> rates' = rates"
  by (induction cs arbitrary: sent held rates') (auto split: if_splits prod.splits)

lemma dispatch_rates_ok:
  assumes "dispatch_channels clk user False cs rates = (sent, held, rates')"
    and "rates_ok u now (length (filter (\<lambda>c. c \<noteq> In_app) cs)) rates" and "db_now clk = now" "one_clock clk"
  shows "rates_ok u now 0 rates'"
  using assms(1,2)
proof (induction cs arbitrary: rates sent held)
  case (Cons c cs)
  have less: "rates_ok u now (Suc k) rates \<Longrightarrow> rates_ok u now k rates" for k rates by (simp add: rates_ok_def)
  show ?case
  proof (cases "c = In_app \<or> c \<noteq> Push \<and> isRateLimited clk user c rates")
    case True
    then obtain sent' held' where "dispatch_channels clk user False cs rates = (sent', held', rates')"
      using Cons.prems(1) by (auto split: if_splits prod.splits)
    then show ?thesis using Cons.IH Cons.prems(2) less by (auto split: if_splits)
  next
    case False
    then obtain sent' held' where
      d: "dispatch_channels clk user False cs (recordRate clk user c rates) = (sent', held', rates')"
      using Cons.prems(1) by (auto split: if_splits prod.splits)
    show ?thesis
      by (rule Cons.IH [OF d]) (rule rates_ok_add, use Cons.prems(2) assms(3,4) False in auto)
  qed
qed simp

lemma external_channels: "distinct cs \<Longrightarrow> length (filter (\<lambda>c. c \<noteq> In_app) cs) \<le> 3"
proof -
  assume "distinct cs"
  then have "length (filter (\<lambda>c. c \<noteq> In_app) cs) = card (set (filter (\<lambda>c. c \<noteq> In_app) cs))"
    by (metis distinct_card distinct_filter)
  also have "\<dots> \<le> card {Push, Sms, Email}"
    by (intro card_mono) (auto intro: EscalationChannel.exhaust)
  finally show ?thesis by simp
qed

subsection \<open>Many escalations\<close>

fun escalations ::
    "(string \<Rightarrow> (int \<times> int) option) \<Rightarrow> (clock \<times> uuid \<times> EscalateRequest) list \<Rightarrow> chat_db \<Rightarrow> chat_db" where
  "escalations local [] db = db"
| "escalations local ((clk, nid, req) # calls) db =
     escalations local calls (snd (escalateNotification local clk nid req db))"

definition rates_hist :: "string \<Rightarrow> micros \<Rightarrow> notification_rate_row list \<Rightarrow> bool" where
  "rates_hist u now rates \<longleftrightarrow> (\<forall>r \<in> set rates. nr_at r \<le> now) \<and>
     window_bounded 3600000000 5 (rate_times (\<lambda>r. nr_user r = u \<and> nr_channel r = Sms) rates) \<and>
     window_bounded 3600000000 5 (rate_times (\<lambda>r. nr_user r = u \<and> nr_channel r = Email) rates) \<and>
     window_bounded 86400000000 12 (rate_times (\<lambda>r. nr_user r = u) rates)"

definition dedup_hist :: "string \<Rightarrow> string \<Rightarrow> micros \<Rightarrow> notification_dedup_row list \<Rightarrow> bool" where
  "dedup_hist u reason now rows \<longleftrightarrow> (\<forall>r \<in> set rows. nd_at r \<le> now) \<and>
     window_bounded 900000000 1 (dedup_times u reason rows)"

definition distinct_prefs :: "chat_db \<Rightarrow> bool" where
  "distinct_prefs db \<longleftrightarrow> (\<forall>s \<in> set (ch_settings db). \<forall>(g, cs) \<in> set (cp_escalation (us_prefs s)). distinct cs)"

lemma rates_ok_hist: "rates_ok u now k rates \<Longrightarrow> rates_hist u now rates"
  by (simp add: rates_ok_def rates_hist_def)

lemma rates_hist_later: "rates_hist u now rates \<Longrightarrow> now \<le> now' \<Longrightarrow> rates_hist u now' rates"
  by (auto simp: rates_hist_def)

lemma dispatch_other:
  assumes "dispatch_channels clk user b cs rates = (sent, held, rates')"
  shows "\<exists>new. rates' = rates @ new \<and> (\<forall>r \<in> set new. nr_user r = user \<and> nr_at r = db_now clk)"
  using assms
proof (induction cs arbitrary: rates sent held)
  case (Cons c cs)
  show ?case
  proof (cases "c = In_app \<or> b \<or> c \<noteq> Push \<and> isRateLimited clk user c rates")
    case True
    then obtain sent' held' where "dispatch_channels clk user b cs rates = (sent', held', rates')"
      using Cons.prems by (auto split: if_splits prod.splits)
    then show ?thesis by (rule Cons.IH)
  next
    case False
    then obtain sent' held' where
      d: "dispatch_channels clk user b cs (recordRate clk user c rates) = (sent', held', rates')"
      using Cons.prems by (auto split: if_splits prod.splits)
    from Cons.IH [OF d] obtain new where "rates' = recordRate clk user c rates @ new"
      and "\<forall>r \<in> set new. nr_user r = user \<and> nr_at r = db_now clk" by blast
    then show ?thesis
      by (intro exI [of _ "\<lparr>nr_user = user, nr_channel = c, nr_at = db_now clk\<rparr> # new"]) (simp add: recordRate_def)
  qed
qed simp

lemma dispatch_hist:
  assumes d: "dispatch_channels clk user (isTotalRateLimited clk user rates) cs rates = (sent, held, rates')"
    and "distinct cs" and clk: "one_clock clk" and h: "rates_hist u now rates" and "now \<le> db_now clk"
  shows "rates_hist u (db_now clk) rates'"
proof (cases "u = user")
  case False
  from dispatch_other [OF d] obtain new where new: "rates' = rates @ new"
      "\<forall>r \<in> set new. nr_user r = user \<and> nr_at r = db_now clk" by blast
  then have "rate_times (\<lambda>r. nr_user r = u \<and> P r) rates' = rate_times (\<lambda>r. nr_user r = u \<and> P r) rates" for P
    using False by (simp add: rate_times_def)
  from this [of "\<lambda>r. nr_channel r = Sms"] this [of "\<lambda>r. nr_channel r = Email"] this [of "\<lambda>_. True"]
  show ?thesis using rates_hist_later [OF h assms(5)] new by (simp add: rates_hist_def) (auto simp: rates_hist_def)
next
  case True
  show ?thesis
  proof (cases "isTotalRateLimited clk user rates")
    case True
    with d have "rates' = rates" by (simp add: dispatch_limited)
    with rates_hist_later [OF h assms(5)] show ?thesis by simp
  next
    case False
    have "1000 * (js_now clk - 86400000) = db_now clk - 86400000000" using clk by (simp add: one_clock_def)
    with False have "length (filter (\<lambda>t. db_now clk - 86400000000 < t) (rate_times (\<lambda>r. nr_user r = u) rates)) < 10"
      unfolding recent_rates using \<open>u = user\<close>
      by (simp add: isTotalRateLimited_def total_day_def del: right_diff_distrib_numeral)
    moreover have "length (filter (\<lambda>c. c \<noteq> In_app) cs) \<le> 3" by (rule external_channels) fact
    ultimately have "rates_ok u (db_now clk) (length (filter (\<lambda>c. c \<noteq> In_app) cs)) rates"
      using rates_hist_later [OF h assms(5)] by (simp add: rates_ok_def rates_hist_def)
    moreover from d False have "dispatch_channels clk user False cs rates = (sent, held, rates')" by simp
    ultimately have "rates_ok u (db_now clk) 0 rates'" using clk by (metis dispatch_rates_ok)
    then show ?thesis by (rule rates_ok_hist)
  qed
qed

lemma tryDedup_hist:
  assumes "tryDedup clk user key nid rows rows = Some (b, rows')" and clk: "one_clock clk"
    and h: "dedup_hist u reason now rows" and "now \<le> db_now clk"
  shows "dedup_hist u reason (db_now clk) rows'"
proof (cases "dedup_seen clk user key rows")
  case True
  with assms show ?thesis by (auto simp: tryDedup_def dedup_hist_def)
next
  case False
  with assms(1) have rows': "rows' = rows @ [\<lparr>nd_user = user, nd_reason = key, nd_notification = Some nid, nd_at = db_now clk\<rparr>]"
    by (simp add: tryDedup_def split: if_splits)
  have past: "\<forall>t \<in> set (dedup_times u reason rows). t \<le> db_now clk"
    using h assms(4) by (auto simp: dedup_hist_def dedup_times_def)
  show ?thesis
  proof (cases "user = u \<and> key = reason")
    case True
    have "1000 * (js_now clk - 900000) = db_now clk - 900000000" using clk by (simp add: one_clock_def)
    moreover have "\<not> (\<exists>r \<in> set rows. nd_user r = u \<and> nd_reason r = reason \<and> 1000 * (js_now clk - 900000) < nd_at r)"
      using False True by (auto simp: dedup_seen_def sql_exists_def DEDUP_WINDOW_MS_def list_ex_iff)
    ultimately have "filter (\<lambda>t. db_now clk - 900000000 < t) (dedup_times u reason rows) = []"
      by (auto simp: dedup_times_def filter_empty_conv)
    then have "window_bounded 900000000 1 (dedup_times u reason rows @ [db_now clk])"
      using h past by (intro window_bounded_snoc) (simp_all add: dedup_hist_def)
    with h assms(4) True rows' show ?thesis by (auto simp: dedup_hist_def dedup_times_def)
  next
    case False
    with h assms(4) rows' show ?thesis by (auto simp: dedup_hist_def dedup_times_def)
  qed
qed

text \<open>Two inserts that overlap: neither sees the other's row, and both go through.\<close>

lemma crossed_dedup:
  assumes "\<not> dedup_seen c1 user reason rows" and "\<not> dedup_seen c2 user reason rows" and "length reason \<le> 100"
    and "db_now c1 \<noteq> db_now c2" and "\<forall>r \<in> set rows. nd_at r < db_now c1 \<and> nd_at r < db_now c2"
  shows "\<exists>rows1 rows2. tryDedup c1 user reason n1 rows rows = Some (False, rows1) \<and>
    tryDedup c2 user reason n2 rows rows1 = Some (False, rows2) \<and> length rows2 = length rows + 2"
  using assms by (auto simp: tryDedup_def sql_exists_def list_ex_iff)

definition limits_hist :: "micros \<Rightarrow> chat_db \<Rightarrow> bool" where
  "limits_hist now db \<longleftrightarrow> distinct_prefs db \<and> (\<forall>u. rates_hist u now (ch_rates db)) \<and>
     (\<forall>u reason. dedup_hist u reason now (ch_dedups db))"

lemma resolved_distinct:
  assumes "distinct_prefs db" and "by_key us_email user (ch_settings db) = Some s"
  shows "distinct (resolveChannels g (us_prefs s) q)"
proof -
  have "distinct cs" if "map_of (cp_escalation (us_prefs s)) g = Some cs" for cs
    using assms(1) by_key_SomeD [OF assms(2)] map_of_SomeD [OF that] by (force simp: distinct_prefs_def)
  then show ?thesis
    by (auto simp: resolveChannels_def Let_def DEFAULT_ESCALATION_def split: option.splits Urgency.splits)
qed

lemma default_distinct: "distinct (resolveChannels g \<lparr>cp_quiet_hours = None, cp_escalation = []\<rparr> q)"
  by (auto simp: resolveChannels_def Let_def DEFAULT_ESCALATION_def split: Urgency.splits)

lemma escalate_hist:
  assumes clk: "one_clock clk" and h: "limits_hist now db" and "now \<le> db_now clk"
  shows "limits_hist (db_now clk) (snd (escalateNotification local clk nid req db))"
proof -
  have later: "rates_hist u (db_now clk) (ch_rates db)" "dedup_hist u r (db_now clk) (ch_dedups db)" for u r
    using h assms(3) by (auto simp: limits_hist_def rates_hist_def dedup_hist_def)
  define prefs where "prefs = (case by_key us_email (er_user req) (ch_settings db) of
    Some u \<Rightarrow> us_prefs u | None \<Rightarrow> \<lparr>cp_quiet_hours = None, cp_escalation = []\<rparr>)"
  have distinct: "distinct (resolveChannels g prefs q)" for g q
    using h resolved_distinct default_distinct by (auto simp: prefs_def limits_hist_def split: option.splits)
  obtain sent held rates where d: "dispatch_channels clk (er_user req) (isTotalRateLimited clk (er_user req) (ch_rates db))
      (resolveChannels (the (er_urgency req)) prefs (isInQuietHours local prefs)) (ch_rates db) = (sent, held, rates)"
    by (metis prod.exhaust)
  have rates: "rates_hist u (db_now clk) rates" for u
    using dispatch_hist [OF d distinct clk] h assms(3) by (auto simp: limits_hist_def)
  show ?thesis
  proof (cases "tryDedup clk (er_user req) (er_reason req) nid (ch_dedups db) (ch_dedups db)")
    case None
    with h later show ?thesis by (simp add: escalateNotification_def Let_def limits_hist_def distinct_prefs_def)
  next
    case (Some res)
    obtain b dedups where res: "res = (b, dedups)" by (cases res)
    have "dedup_hist u r (db_now clk) dedups" for u r
      by (rule tryDedup_hist [OF Some [unfolded res] clk _ assms(3)]) (use h in \<open>simp add: limits_hist_def\<close>)
    with Some res d rates later h show ?thesis
      by (cases b; cases "er_urgency req") (simp_all add: escalateNotification_def Let_def limits_hist_def distinct_prefs_def prefs_def)
  qed
qed

lemma escalations_hist:
  assumes "\<forall>(clk, _) \<in> set calls. one_clock clk" and "sorted (map (\<lambda>(clk, _). db_now clk) calls)"
    and "limits_hist now db" and "\<forall>(clk, _) \<in> set calls. now \<le> db_now clk"
  shows "\<exists>now'. limits_hist now' (escalations local calls db)"
  using assms
proof (induction calls arbitrary: db now)
  case (Cons call calls)
  obtain clk nid req where call: "call = (clk, nid, req)" by (cases call)
  show ?case unfolding call escalations.simps
    by (rule Cons.IH [OF _ _ escalate_hist]) (use Cons.prems call in auto)
qed auto


definition example_request :: EscalateRequest where
  "example_request = \<lparr>er_user = ''ann'', er_message = ''look'', er_urgency = Some Urgent_urgency, er_reason = ''build'',
     er_title = None, er_namespace = None\<rparr>"

definition example_calls :: "(clock \<times> uuid \<times> EscalateRequest) list" where
  "example_calls =
     [(\<lparr>js_now = 1000, db_now = 1000000\<rparr>, ''n1'', example_request),
      (\<lparr>js_now = 2000, db_now = 2000000\<rparr>, ''n2'', example_request)]"


end
