(* ===== verification/ChatPush.thy ===== *)
theory ChatPush
  imports ChatEscalation
begin

text \<open>
  The settings of a user that the chat keeps: \<open>src/api/chat/push-subscription.ts\<close>, \<open>POST /push/subscribe\<close>
  and \<open>GET\<close> and \<open>PATCH /chat/preferences\<close> in \<open>src/api/chat/routes.ts\<close>. What PostgreSQL measures as the size
  of a column is an argument. Of the preferences only quiet hours and chains are kept: nothing in the program
  reads the other two fields. Each operation reads the row and writes it back in a second statement.
\<close>

subsection \<open>Push subscriptions\<close>

definition MAX_SUBSCRIPTIONS :: nat where "MAX_SUBSCRIPTIONS = 5"

text \<open>A body: the fields that are texts, \<open>None\<close> for any other value; \<open>sb_keys\<close> is \<open>None\<close> for what is no
  object.\<close>

record subscription_body =
  sb_endpoint :: "string option"
  sb_keys :: "(string option \<times> string option) option"

text \<open>The check narrows the type: what passes is a subscription.\<close>

definition validatePushSubscription :: "subscription_body option \<Rightarrow> PushSubscription option" where
  "validatePushSubscription sub =
     (case sub of None \<Rightarrow> None
      | Some s \<Rightarrow>
          (case nonempty_text (sb_endpoint s) of None \<Rightarrow> None
           | Some e \<Rightarrow>
               if \<not> js_startsWith e ''https://'' then None
               else case sb_keys s of None \<Rightarrow> None
               | Some (p256dh, auth) \<Rightarrow>
                   (case (nonempty_text p256dh, nonempty_text auth) of
                      (Some p, Some a) \<Rightarrow> Some \<lparr>ps_endpoint = e, ps_p256dh = p, ps_auth = a, ps_created = None\<rparr>
                    | _ \<Rightarrow> None)))"

definition created_time :: "PushSubscription \<Rightarrow> millis" where
  "created_time s = (case ps_created s of Some t \<Rightarrow> t | None \<Rightarrow> 0)"

text \<open>The list that is written: the old ones of other endpoints, without the oldest when there are five,
  and the new one.\<close>

definition subscriptions_with :: "millis \<Rightarrow> PushSubscription \<Rightarrow> PushSubscription list \<Rightarrow> PushSubscription list" where
  "subscriptions_with now sub existing =
     (let kept = filter (\<lambda>s. ps_endpoint s \<noteq> ps_endpoint sub) existing
      in (if MAX_SUBSCRIPTIONS \<le> length kept then tl (sort_key created_time kept) else kept) @
         [sub\<lparr>ps_created := Some now\<rparr>])"

definition set_push ::
    "(PushSubscription list \<Rightarrow> nat) \<Rightarrow> string \<Rightarrow> PushSubscription list \<Rightarrow> chat_db \<Rightarrow> chat_db option" where
  "set_push size_of user subs db =
     (if 8192 < size_of subs then None
      else Some (db\<lparr>ch_settings := map (\<lambda>u. if us_email u = user then u\<lparr>us_push := subs\<rparr> else u) (ch_settings db)\<rparr>))"

definition addPushSubscription ::
    "(PushSubscription list \<Rightarrow> nat) \<Rightarrow> millis \<Rightarrow> string \<Rightarrow> PushSubscription \<Rightarrow> chat_db \<Rightarrow> (bool \<times> chat_db) option" where
  "addPushSubscription size_of now user sub db =
     (case by_key us_email user (ch_settings db) of
        None \<Rightarrow> Some (False, db)
      | Some u \<Rightarrow> map_option (Pair True) (set_push size_of user (subscriptions_with now sub (us_push u)) db))"

definition removePushSubscription ::
    "(PushSubscription list \<Rightarrow> nat) \<Rightarrow> string \<Rightarrow> string \<Rightarrow> chat_db \<Rightarrow> (bool \<times> chat_db) option" where
  "removePushSubscription size_of user endpoint db =
     (case by_key us_email user (ch_settings db) of
        None \<Rightarrow> Some (False, db)
      | Some u \<Rightarrow> map_option (Pair True)
          (set_push size_of user (filter (\<lambda>s. ps_endpoint s \<noteq> endpoint) (us_push u)) db))"

definition getPushSubscriptions :: "string \<Rightarrow> chat_db \<Rightarrow> PushSubscription list" where
  "getPushSubscriptions user db = (case by_key us_email user (ch_settings db) of None \<Rightarrow> [] | Some u \<Rightarrow> us_push u)"

record push_request =
  pu_action :: "string option"
  pu_endpoint :: "string option"
  pu_subscription :: "subscription_body option"

definition push_subscribe ::
    "(PushSubscription list \<Rightarrow> nat) \<Rightarrow> millis \<Rightarrow> string option \<Rightarrow> push_request \<Rightarrow> chat_db \<Rightarrow> unit chat_reply \<times> chat_db" where
  "push_subscribe size_of now userEmail req db =
     (case userEmail of
        None \<Rightarrow> (Chat_unauthorized, db)
      | Some user \<Rightarrow>
          if pu_action req = Some ''unsubscribe'' then
            (case nonempty_text (pu_endpoint req) of
               None \<Rightarrow> (Chat_bad ''endpoint is required for unsubscribe'', db)
             | Some endpoint \<Rightarrow>
                 (case removePushSubscription size_of user endpoint db of
                    None \<Rightarrow> (Chat_failed, db) | Some (_, db') \<Rightarrow> (Chat_done (), db')))
          else case validatePushSubscription (pu_subscription req) of
            None \<Rightarrow> (Chat_bad ''Invalid push subscription: must include endpoint and keys (p256dh, auth)'', db)
          | Some sub \<Rightarrow>
              (case addPushSubscription size_of now user sub db of
                 None \<Rightarrow> (Chat_failed, db)
               | Some (False, _) \<Rightarrow> (Chat_bad ''User not found'', db)
               | Some (True, db') \<Rightarrow> (Chat_done (), db')))"

subsection \<open>Preferences\<close>

definition channel_of :: "string \<Rightarrow> EscalationChannel option" where
  "channel_of s =
     (if s = ''in_app'' then Some In_app else if s = ''push'' then Some Push
      else if s = ''sms'' then Some Sms else if s = ''email'' then Some Email else None)"

text \<open>The body of a change: the names of its fields; the two fields the program reads, absent, \<open>null\<close> or
  given, where a value of another type is \<open>None\<close>.\<close>

record preferences_patch =
  pp_fields :: "string list"
  pp_quiet_hours :: "(string option \<times> string option \<times> string option) option option"
  pp_escalation :: "(string \<times> string list option) list option option"

fun escalation_of :: "(string \<times> string list option) list \<Rightarrow> string + (Urgency \<times> EscalationChannel list) list" where
  "escalation_of [] = Inr []"
| "escalation_of ((level, channels) # rest) =
     (case urgency_of level of
        None \<Rightarrow> Inl (''Invalid escalation level: '' @ level)
      | Some u \<Rightarrow>
          (case channels of
             None \<Rightarrow> Inl (''Invalid channels for '' @ level)
           | Some cs \<Rightarrow>
               if list_ex (\<lambda>c. channel_of c = None) cs then Inl (''Invalid channels for '' @ level)
               else (case escalation_of rest of Inl e \<Rightarrow> Inl e | Inr es \<Rightarrow> Inr ((u, List.map_filter channel_of cs) # es))))"

definition default_preferences :: ChatNotificationPrefs where
  "default_preferences =
     \<lparr>cp_quiet_hours = None,
      cp_escalation = [(Low_urgency, [In_app]), (Normal_urgency, [In_app, Push]),
        (High_urgency, [In_app, Push, Email]), (Urgent_urgency, [In_app, Push, Sms, Email])]\<rparr>"

definition get_preferences :: "string option \<Rightarrow> chat_db \<Rightarrow> ChatNotificationPrefs chat_reply" where
  "get_preferences userEmail db =
     (case userEmail of None \<Rightarrow> Chat_unauthorized
      | Some user \<Rightarrow> (case by_key us_email user (ch_settings db) of
          None \<Rightarrow> Chat_done default_preferences | Some u \<Rightarrow> Chat_done (us_prefs u)))"

definition merged_preferences ::
    "preferences_patch \<Rightarrow> (Urgency \<times> EscalationChannel list) list \<Rightarrow> ChatNotificationPrefs \<Rightarrow> ChatNotificationPrefs" where
  "merged_preferences body es current =
     (let quiet = (case pp_quiet_hours body of
            None \<Rightarrow> cp_quiet_hours current
          | Some (Some (Some s, Some e, Some z)) \<Rightarrow> Some (s, e, z)
          | Some _ \<Rightarrow> None);
          escalation = (if pp_escalation body = None then cp_escalation current else es)
      in \<lparr>cp_quiet_hours = quiet, cp_escalation = escalation\<rparr>)"

definition store_preferences ::
    "(ChatNotificationPrefs \<Rightarrow> nat) \<Rightarrow> string \<Rightarrow> ChatNotificationPrefs \<Rightarrow> chat_db \<Rightarrow> chat_db option" where
  "store_preferences size_of user prefs db =
     (if 4096 < size_of prefs then None
      else if by_key us_email user (ch_settings db) = None
      then Some (db\<lparr>ch_settings := ch_settings db @ [(new_setting user)\<lparr>us_prefs := prefs\<rparr>]\<rparr>)
      else Some (db\<lparr>ch_settings := map (\<lambda>u. if us_email u = user then u\<lparr>us_prefs := prefs\<rparr> else u) (ch_settings db)\<rparr>))"

definition quiet_refused :: "preferences_patch \<Rightarrow> bool" where
  "quiet_refused body =
     (case pp_quiet_hours body of Some (Some (s, e, z)) \<Rightarrow> s = None \<or> e = None \<or> z = None | _ \<Rightarrow> False)"

definition patch_preferences ::
    "(ChatNotificationPrefs \<Rightarrow> nat) \<Rightarrow> string option \<Rightarrow> preferences_patch option \<Rightarrow> chat_db \<Rightarrow>
       ChatNotificationPrefs chat_reply \<times> chat_db" where
  "patch_preferences size_of userEmail body db =
     (case (userEmail, body) of
        (None, _) \<Rightarrow> (Chat_unauthorized, db)
      | (Some _, None) \<Rightarrow> (Chat_bad ''Request body must be a JSON object'', db)
      | (Some user, Some b) \<Rightarrow>
          (let validFields = [''sound_enabled'', ''auto_open_on_message'', ''quiet_hours'', ''escalation''];
               unknownFields = filter (\<lambda>k. \<not> List.member validFields k) (pp_fields b)
           in if unknownFields \<noteq> [] then (Chat_bad (''Unknown fields: '' @ js_join '', '' unknownFields), db)
              else if quiet_refused b then (Chat_bad ''quiet_hours must have start, end, and timezone strings'', db)
              else if pp_escalation b = Some None then (Chat_failed, db)
              else case escalation_of (case pp_escalation b of Some (Some ls) \<Rightarrow> ls | _ \<Rightarrow> []) of
                Inl e \<Rightarrow> (Chat_bad e, db)
              | Inr es \<Rightarrow>
                  (let current = (case by_key us_email user (ch_settings db) of
                         Some u \<Rightarrow> us_prefs u | None \<Rightarrow> \<lparr>cp_quiet_hours = None, cp_escalation = []\<rparr>);
                       merged = merged_preferences b es current
                   in case store_preferences size_of user merged db of
                        None \<Rightarrow> (Chat_failed, db) | Some db' \<Rightarrow> (Chat_done merged, db'))))"

subsection \<open>What the operations keep\<close>

text \<open>One row per user, at most five subscriptions each, no two for one endpoint.\<close>

definition settings_ok :: "chat_db \<Rightarrow> bool" where
  "settings_ok db \<longleftrightarrow> distinct (map us_email (ch_settings db)) \<and>
     (\<forall>u \<in> set (ch_settings db). length (us_push u) \<le> MAX_SUBSCRIPTIONS \<and> distinct (map ps_endpoint (us_push u)))"

lemma distinct_endpoints_sort:
  "distinct (map ps_endpoint (sort_key created_time xs)) = distinct (map ps_endpoint xs)"
  by (simp add: distinct_map)

lemma subscriptions_with_ok:
  assumes "length xs \<le> MAX_SUBSCRIPTIONS" and "distinct (map ps_endpoint xs)"
  shows "length (subscriptions_with now sub xs) \<le> MAX_SUBSCRIPTIONS"
    and "distinct (map ps_endpoint (subscriptions_with now sub xs))"
proof -
  let ?kept = "filter (\<lambda>s. ps_endpoint s \<noteq> ps_endpoint sub) xs"
  have len: "length ?kept \<le> MAX_SUBSCRIPTIONS" using assms(1) length_filter_le [of _ xs] le_trans by blast
  then show "length (subscriptions_with now sub xs) \<le> MAX_SUBSCRIPTIONS"
    by (simp add: subscriptions_with_def Let_def MAX_SUBSCRIPTIONS_def)
  have kept: "distinct (map ps_endpoint ?kept)" using assms(2) by (rule distinct_map_filter)
  then have "distinct (map ps_endpoint (tl (sort_key created_time ?kept)))"
    by (simp add: map_tl distinct_tl distinct_endpoints_sort)
  moreover have "set (tl (sort_key created_time ?kept)) \<subseteq> set ?kept"
    by (metis list.set_sel(2) set_sort subsetI tl_Nil)
  ultimately show "distinct (map ps_endpoint (subscriptions_with now sub xs))"
    using kept by (auto simp: subscriptions_with_def Let_def)
qed

text \<open>The one that gives way is an oldest one.\<close>

lemma oldest_gives_way:
  assumes "s \<in> set xs" and "ps_endpoint s \<noteq> ps_endpoint sub" and "s \<notin> set (subscriptions_with now sub xs)"
    and "t \<in> set (subscriptions_with now sub xs)" and "ps_endpoint t \<noteq> ps_endpoint sub"
  shows "created_time s \<le> created_time t"
proof -
  let ?kept = "filter (\<lambda>s. ps_endpoint s \<noteq> ps_endpoint sub) xs"
  have s: "s \<in> set (sort_key created_time ?kept)" using assms(1,2) by simp
  then obtain x ys where ys: "sort_key created_time ?kept = x # ys" by (cases "sort_key created_time ?kept") auto
  have "\<not> (length ?kept < MAX_SUBSCRIPTIONS)" using assms(1-3) by (auto simp: subscriptions_with_def Let_def)
  with assms(3-5) ys have "s \<notin> set ys" "t \<in> set ys" by (auto simp: subscriptions_with_def Let_def)
  moreover have "sorted (map created_time (x # ys))" using sorted_sort_key [of created_time ?kept] ys by simp
  ultimately show ?thesis using s ys by auto
qed

lemma set_push_ok:
  assumes "settings_ok db" and "set_push size_of user subs db = Some db'"
    and "length subs \<le> MAX_SUBSCRIPTIONS" and "distinct (map ps_endpoint subs)"
  shows "settings_ok db'"
proof -
  have db': "db' = db\<lparr>ch_settings := map (\<lambda>u. if us_email u = user then u\<lparr>us_push := subs\<rparr> else u) (ch_settings db)\<rparr>"
    using assms(2) by (simp add: set_push_def split: if_splits)
  have "map us_email (ch_settings db') = map us_email (ch_settings db)" by (simp add: db')
  then have "distinct (map us_email (ch_settings db'))" using assms(1) by (simp add: settings_ok_def)
  moreover have "length (us_push u) \<le> MAX_SUBSCRIPTIONS \<and> distinct (map ps_endpoint (us_push u))"
    if "u \<in> set (ch_settings db')" for u
    using that assms by (auto simp: settings_ok_def db')
  ultimately show ?thesis by (simp add: settings_ok_def)
qed

lemma settings_okD:
  assumes "settings_ok db" and "by_key us_email user (ch_settings db) = Some u"
  shows "length (us_push u) \<le> MAX_SUBSCRIPTIONS" and "distinct (map ps_endpoint (us_push u))"
  using assms(1) by_key_SomeD [OF assms(2)] by (simp_all add: settings_ok_def)

lemma add_push_ok:
  assumes ok: "settings_ok db" and add: "addPushSubscription size_of now user sub db = Some (b, db')"
  shows "settings_ok db'"
proof (cases "by_key us_email user (ch_settings db)")
  case None
  with assms show ?thesis by (simp add: addPushSubscription_def)
next
  case (Some u)
  from add Some have "set_push size_of user (subscriptions_with now sub (us_push u)) db = Some db'"
    by (auto simp: addPushSubscription_def)
  from set_push_ok [OF ok this subscriptions_with_ok] settings_okD [OF ok Some] show ?thesis by simp
qed

lemma remove_push_ok:
  assumes ok: "settings_ok db" and rm: "removePushSubscription size_of user endpoint db = Some (b, db')"
  shows "settings_ok db'"
proof (cases "by_key us_email user (ch_settings db)")
  case None
  with assms show ?thesis by (simp add: removePushSubscription_def)
next
  case (Some u)
  let ?kept = "filter (\<lambda>s. ps_endpoint s \<noteq> endpoint) (us_push u)"
  from rm Some have set: "set_push size_of user ?kept db = Some db'" by (auto simp: removePushSubscription_def)
  have "length ?kept \<le> MAX_SUBSCRIPTIONS" by (rule order_trans [OF length_filter_le settings_okD(1) [OF ok Some]])
  from set_push_ok [OF ok set this distinct_map_filter] settings_okD(2) [OF ok Some] show ?thesis by simp
qed

lemma push_subscribe_ok:
  assumes "settings_ok db" shows "settings_ok (snd (push_subscribe size_of now user req db))"
  by (auto simp: push_subscribe_def assms split: option.split prod.split bool.split
        dest: add_push_ok [OF assms] remove_push_ok [OF assms])

lemma store_preferences_ok:
  assumes ok: "settings_ok db" and st: "store_preferences size_of user prefs db = Some db'"
  shows "settings_ok db'"
proof (cases "by_key us_email user (ch_settings db)")
  case None
  with st have "db' = db\<lparr>ch_settings := ch_settings db @ [(new_setting user)\<lparr>us_prefs := prefs\<rparr>]\<rparr>"
    by (simp add: store_preferences_def split: if_splits)
  moreover have "user \<notin> us_email ` set (ch_settings db)" using None by (auto simp: by_key_None_iff)
  ultimately show ?thesis using ok by (auto simp: settings_ok_def new_setting_def)
next
  case (Some u)
  with st have db': "db' = db\<lparr>ch_settings := map (\<lambda>u. if us_email u = user then u\<lparr>us_prefs := prefs\<rparr> else u) (ch_settings db)\<rparr>"
    by (simp add: store_preferences_def split: if_splits)
  have "map us_email (ch_settings db') = map us_email (ch_settings db)" by (simp add: db')
  then have "distinct (map us_email (ch_settings db'))" using ok by (simp add: settings_ok_def)
  moreover have "length (us_push u) \<le> MAX_SUBSCRIPTIONS \<and> distinct (map ps_endpoint (us_push u))"
    if "u \<in> set (ch_settings db')" for u
    using that ok by (auto simp: settings_ok_def db')
  ultimately show ?thesis by (simp add: settings_ok_def)
qed

lemma patch_preferences_ok:
  assumes "settings_ok db" shows "settings_ok (snd (patch_preferences size_of user body db))"
  by (auto simp: patch_preferences_def Let_def assms split: option.split sum.split
        dest: store_preferences_ok [OF assms])

text \<open>The default chain for high urgency is not the one the escalation uses.\<close>

lemma high_default_differs:
  "map_of (cp_escalation default_preferences) High_urgency \<noteq> Some (DEFAULT_ESCALATION High_urgency)"
  by (simp add: default_preferences_def DEFAULT_ESCALATION_def)

text \<open>Nothing refuses a chain that names a channel twice, which the escalation then uses twice.\<close>

lemma repeated_channel_accepted:
  "escalation_of [(''low'', Some [''sms'', ''sms''])] = Inr [(Low_urgency, [Sms, Sms])]"
  by code_simp

end
