(* ===== verification/Spec2Isabelle.thy ===== *)
theory Spec2Isabelle
  imports Prelude States Database CasStore StateMachine Roles RunRoutes Interleaving Claims
    Breaker Retry WorkerBreaker RateLimit Recovery DurableWrite Cleanup EnvFile SecretLifecycle
    HostSafety Provisioning SpamFilter InboundLimiter InboundGate RefreshTokens OneTimeCodes
    AccessTokens Namespaces Outbox NumberText AddressGuards Forest Notebooks WorkItems WorkOrder
    Dependencies NamespaceMove Windows Paging ChatDb ChatSessions ChatMessages ChatRetention
    ChatLife ChatLists ChatTickets ChatLimits ChatStreams ChatEscalation ChatPush
begin

text \<open>
  A verification library for the orchestration core of openclaw-projects, and for the parts of its
  server and plugin that guard it. Every definition translates TypeScript under \<^verbatim>\<open>src/\<close>.

  \<^bold>\<open>The program.\<close> Symphony (\<^verbatim>\<open>src/symphony\<close>, \<^verbatim>\<open>src/symphony-worker\<close>) takes work items from a
  PostgreSQL database, claims them for an orchestrator within concurrency limits, provisions a
  container on a host, runs a coding agent and carries each run through a state machine. Several
  worker processes and the API's endpoints act on the same tables; workers write heartbeats, a
  watchdog times runs out, and the runs of dead workers are recovered.

  \<^bold>\<open>Reading the model.\<close> A table is the list of its rows, a statement a function on it
  (\<open>sql_update\<close>, \<open>sql_count\<close>, \<open>sql_upsert\<close>); a transaction is one function, and where the code
  runs its statements on the bare pool each statement is a step of its own (\<open>Interleaving\<close>).
  Clocks, random numbers and generated ids are arguments. A thrown error is a value: \<open>Inl\<close> of a
  message, or a constructor of the result type. Strings are Latin-1; numbers are \<open>int\<close> or \<open>rat\<close>,
  machine words where the code truncates to 32 bits.

  \<^bold>\<open>Theories.\<close>
  \<^item> \<open>Prelude\<close>: names of types, JavaScript strings and numbers, tables, keys, upserts.
  \<^item> \<open>States\<close> (\<^verbatim>\<open>states.ts\<close>), \<open>Database\<close> (the migrations' tables), \<open>CasStore\<close> (the interface of a
    versioned store, as locales), \<open>StateMachine\<close> (\<^verbatim>\<open>state-machine.ts\<close>, which provides it),
    \<open>Roles\<close> (the role check), \<open>RunRoutes\<close> (\<^verbatim>\<open>api/symphony/routes.ts\<close>), \<open>Interleaving\<close> (workers and people
    acting concurrently).
  \<^item> \<open>Claims\<close> (\<^verbatim>\<open>claim.ts\<close>), \<open>Breaker\<close> (the interface of a circuit breaker), \<open>Retry\<close> (\<^verbatim>\<open>retry.ts\<close>),
    \<open>WorkerBreaker\<close> (\<^verbatim>\<open>worker/circuit-breaker.ts\<close>), \<open>RateLimit\<close>, \<open>Recovery\<close> (heartbeats and
    recovery), \<open>DurableWrite\<close>, \<open>Cleanup\<close>.
  \<^item> \<open>EnvFile\<close>, \<open>HostSafety\<close>, \<open>Provisioning\<close> (\<^verbatim>\<open>provisioning.ts\<close>), \<open>SecretLifecycle\<close>.
  \<^item> \<open>SpamFilter\<close>, \<open>InboundLimiter\<close>, \<open>InboundGate\<close>: the plugin's gate for inbound messages
    (\<^verbatim>\<open>packages/openclaw-plugin/src/utils\<close>).
  \<^item> \<open>RefreshTokens\<close>, \<open>OneTimeCodes\<close>, \<open>AccessTokens\<close>, \<open>Namespaces\<close>: who a request speaks for and
    where it may act (\<^verbatim>\<open>api/auth\<close> and the endpoints and hooks of \<^verbatim>\<open>api/server.ts\<close>). The two
    token theories have step relations whose steps are the statements of overlapping requests.
  \<^item> \<open>Outbox\<close> (\<^verbatim>\<open>api/webhooks/dispatcher.ts\<close>): delivery of webhooks; the steps of its relation are the
    statements of overlapping workers. \<open>NumberText\<close> (numbers in text, bits of masked words) and
    \<open>AddressGuards\<close> (\<^verbatim>\<open>api/webhooks/ssrf.ts\<close>, \<^verbatim>\<open>api/webhooks/ip-whitelist.ts\<close>,
    \<^verbatim>\<open>api/geolocation/network-guard.ts\<close>): the guards against internal addresses.
  \<^item> \<open>Forest\<close>: tables whose rows name a parent row, the recursive query that walks up them, and the
    interface \<open>parent_table\<close>; \<open>Notebooks\<close> (\<^verbatim>\<open>api/notebooks/service.ts\<close>) and \<open>WorkItems\<close>
    (\<^verbatim>\<open>api/hierarchy-validation.ts\<close>, the trigger of migration 154, the endpoints that change kind
    and parent) provide it. \<open>WorkOrder\<close>: the places of work items among their siblings. \<open>Dependencies\<close>: which item
    waits for which, with a search for cycles that ends on every graph. \<open>NamespaceMove\<close>: moving an
    item and its descendants to another namespace.
  \<^item> The agent chat (\<^verbatim>\<open>api/chat\<close>): \<open>ChatDb\<close> (the tables, with their triggers, constraints and foreign
    keys), \<open>ChatSessions\<close> (\<^verbatim>\<open>session-expiry.ts\<close> and the session endpoints of \<^verbatim>\<open>routes.ts\<close>),
    \<open>ChatMessages\<close>, \<open>ChatRetention\<close> (\<^verbatim>\<open>data-retention.ts\<close>), \<open>ChatLife\<close> (every request and job as a
    step), \<open>ChatLists\<close> (lists read page by page; \<open>Paging\<close> holds their interface), \<open>ChatTickets\<close>
    (\<^verbatim>\<open>ws-ticket-store.ts\<close> and the upgrade handler), \<open>ChatLimits\<close> (\<^verbatim>\<open>rate-limits.ts\<close>; \<open>Windows\<close> holds what
    it shares with the inbound limiter), \<open>ChatStreams\<close> (\<^verbatim>\<open>stream-manager.ts\<close> and its endpoint),
    \<open>ChatEscalation\<close> (\<^verbatim>\<open>notification-escalation.ts\<close>, \<^verbatim>\<open>tools.ts\<close>: how an agent notifies a user) and
    \<open>ChatPush\<close> (\<^verbatim>\<open>push-subscription.ts\<close> and the preferences).

  \<^bold>\<open>Lemma groups.\<close> Each component theory proves the frame of its operations (what a call leaves
  alone), the meaning of every outcome (\<open>outcome_iff\<close>), an invariant with its preservation, and
  then its properties, whose numbered texts say what they show. Interfaces are locales:
  \<open>cas_store\<close> and \<open>cas_machine\<close> are interpreted on the state machine, \<open>breaker\<close> on both circuit
  breakers, \<open>parent_table\<close> on notebooks and on work items, \<open>keyset_paging\<close> on the lists of sessions
  and of messages.

  \<^bold>\<open>Termination and bounds.\<close> Loops are structural recursions over the list the code walks; the
  retry loop of durable writes has its own measure. The recursive query over parents may run
  for ever, so \<open>in_chain\<close> is a \<open>partial_function\<close> whose value is \<open>None\<close> then; \<open>Forest\<close> proves that it
  returns on forests and not on a cycle without the goal. The recursion that builds the tree of
  notebooks has a depth bound equal to the number of rows, which \<open>cleanNode_spec\<close> shows to be enough.
  A client that follows the cursors of a list has fuel; one page more than there are rows is enough.

  \<^bold>\<open>Not modelled.\<close> Logging and metrics, network transport, and the rest of the repository: the web
  UI, the OpenAPI documents, the CRUD endpoints, terminal sessions and the tmux worker, search and
  embeddings, the geolocation service, OAuth, mail, voice and telephony, the realtime hub, the tools
  of the plugin and the connectors. They hold little logic of their own that a model would explain, or
  rest on services that cannot be read here. URL parsing, JSON parsing, cryptographic functions and
  remote commands are parameters.
\<close>

end
